(* ===== verification/Concurrit_Prelude.thy ===== *)
theory Concurrit_Prelude
  imports Main "HOL-Library.Monad_Syntax" "HOL-Library.Word"
begin

text \<open>
  Shared vocabulary of the development.

  The default build of the library compiles with \<open>-DSAFE_ASSERT\<close> (common.mk), where a failing
  \<open>safe_assert\<close> or \<open>safe_check\<close> raises SIGTERM.  An operation of the model is therefore a partial
  function: the value \<open>None\<close> is a run that stops in a failed assertion, in \<open>safe_fail\<close>, or in
  the use of a NULL or deleted object.  Every other outcome, exceptions included, is a value
  under \<open>Some\<close>.  The operations are written in the option monad (\<open>do\<close> notation).

  Identifiers shared by all components: thread ids, addresses, and references to heap objects.
\<close>

named_theorems abort_simps \<open>rewriting of runs in the option monad\<close>
named_theorems frame_simps \<open>fields an operation leaves unchanged\<close>

type_synonym tid = int
  \<comment> \<open>THREADID, a C int; negative means invalid\<close>
type_synonym addr = "64 word"
  \<comment> \<open>ADDRINT, a uintptr_t on the 64-bit build\<close>

datatype co = Co (co_addr: nat) (co_tid: tid)
  \<comment> \<open>a Coroutine pointer: the address of the object and the thread id it was given\<close>

definition INVALID_THREADID :: tid where
  "INVALID_THREADID = -1"

definition MAIN_TID :: tid where
  "MAIN_TID = 0"

definition BETWEEN :: "int \<Rightarrow> int \<Rightarrow> int \<Rightarrow> bool" where
  "BETWEEN x y z \<longleftrightarrow> x \<le> y \<and> y \<le> z"

definition BETWEEN2 :: "int \<Rightarrow> int \<Rightarrow> int \<Rightarrow> int \<Rightarrow> bool" where
  "BETWEEN2 x y1 y2 z \<longleftrightarrow> x \<le> y1 \<and> y1 \<le> y2 \<and> y2 \<le> z"

definition safe_assert :: "bool \<Rightarrow> unit option" where
  "safe_assert cond = (if cond then Some () else None)"

definition safe_check :: "bool \<Rightarrow> unit option" where
  "safe_check cond = (if cond then Some () else None)"

definition safe_notnull :: "'a option \<Rightarrow> 'a option" where
  "safe_notnull p = p"

subsection \<open>Rewriting runs\<close>

lemma safe_assert_eq_Some [simp]: "safe_assert b = Some u \<longleftrightarrow> b"
  by (simp add: safe_assert_def)

lemma safe_check_eq_Some [simp]: "safe_check b = Some u \<longleftrightarrow> b"
  by (simp add: safe_check_def)

lemma safe_assert_True [simp]: "safe_assert True = Some ()"
  by (simp add: safe_assert_def)

lemma safe_check_True [simp]: "safe_check True = Some ()"
  by (simp add: safe_check_def)

lemma safe_assert_bind [abort_simps]:
  "Option.bind (safe_assert b) f = (if b then f () else None)"
  by (simp add: safe_assert_def)

lemma safe_check_bind [abort_simps]:
  "Option.bind (safe_check b) f = (if b then f () else None)"
  by (simp add: safe_check_def)

lemma bind_Some_iff [abort_simps]:
  "Option.bind m f = Some y \<longleftrightarrow> (\<exists>x. m = Some x \<and> f x = Some y)"
  by (cases m) auto

lemma assert_then_Some [simp]:
  "(safe_assert b \<bind> f) = Some y \<longleftrightarrow> b \<and> f () = Some y"
  by (simp add: safe_assert_def)

lemma check_then_Some [simp]:
  "(safe_check b \<bind> f) = Some y \<longleftrightarrow> b \<and> f () = Some y"
  by (simp add: safe_check_def)

subsection \<open>Lists\<close>

lemma take_Suc_last: "n < length xs \<Longrightarrow> take (Suc n) xs = take n xs @ [xs ! n]"
  by (rule take_Suc_conv_app_nth)

lemma nth_last_append: "xs \<noteq> [] \<Longrightarrow> last xs = xs ! (length xs - 1)"
  by (rule last_conv_nth)

lemma list_update_in_set: "i < length xs \<Longrightarrow> y \<in> set (xs[i := x]) \<Longrightarrow> y = x \<or> y \<in> set xs"
  using set_update_subset_insert by fastforce

end
