(* ===== verification/Util_Text.thy ===== *)
theory Util_Text
  imports Concurrit_Prelude
begin

text \<open>
  The utility functions of util.h, util.cpp and iterator.h: rendering of values, argument vectors,
  line and token splitting, symbol lookup, the write and read loops that move a message through a
  pipe, the sleep loop, and the cursor over a vector.

  A file is its character list.  The system calls are modelled by what they return: a \<open>write\<close>,
  \<open>read\<close> or \<open>nanosleep\<close> loop runs on a finite script of return values, and \<open>IoPending\<close> is a
  loop that has used the whole script and still has not returned.
\<close>

type_synonym byte = "8 word"

section \<open>Rendering\<close>

definition digit_char :: "nat \<Rightarrow> char" where
  "digit_char d = char_of (48 + d)"

fun nat_to_string :: "nat \<Rightarrow> string" where
  "nat_to_string n = (if n < 10 then [digit_char n]
     else nat_to_string (n div 10) @ [digit_char (n mod 10)])"

declare nat_to_string.simps [simp del]

definition to_string :: "int \<Rightarrow> string" where
  "to_string i = (if i < 0 then ''-'' @ nat_to_string (nat (- i)) else nat_to_string (nat i))"

text \<open>The body of the two printing loops: the separator is empty before the first element.\<close>

fun print_elems :: "('a \<Rightarrow> string) \<Rightarrow> string \<Rightarrow> 'a list \<Rightarrow> string" where
  "print_elems sh comma [] = ''''"
| "print_elems sh comma (x # xs) = comma @ sh x @ print_elems sh '', '' xs"

definition vector_to_string :: "('a \<Rightarrow> string) \<Rightarrow> 'a list \<Rightarrow> string" where
  "vector_to_string sh v = ''['' @ print_elems sh '''' v @ '']''"

definition array_to_string :: "string option list \<Rightarrow> string" where
  "array_to_string v = ''['' @ print_elems (\<lambda>t. case t of None \<Rightarrow> ''NULL'' | Some s \<Rightarrow> s) '''' v @ '']''"

definition bool_to_string :: "bool \<Rightarrow> string" where
  "bool_to_string b = (if b then ''T'' else ''F'')"

definition int_to_boolstring :: "int \<Rightarrow> string option" where
  "int_to_boolstring b = do {
     safe_assert (BETWEEN (-1) b 1);
     Some (if b = 1 then ''T'' else if b = 0 then ''F'' else ''U'') }"

text \<open>\<open>vsnprintf\<close> into a buffer of \<open>format_string_buff_size\<close> bytes keeps one for the terminator.\<close>

definition format_string_buff_size :: nat where
  "format_string_buff_size = 256"

definition format_string :: "string \<Rightarrow> string" where
  "format_string s = take (format_string_buff_size - 1) s"

section \<open>Argument vectors\<close>

record main_args =
  argc :: nat
  argv :: "string list option"

definition ArgVectorToMainArgs :: "string list \<Rightarrow> main_args" where
  "ArgVectorToMainArgs args =
     \<lparr>argc = length args, argv = (if length args > 0 then Some args else None)\<rparr>"

definition StringToMainArgs :: "string \<Rightarrow> bool \<Rightarrow> main_args" where
  "StringToMainArgs s add_program_name =
     ArgVectorToMainArgs ((if add_program_name then [''<dummy_program_name>''] else []) @ [s])"

definition main_args_check :: "main_args \<Rightarrow> bool" where
  "main_args_check m \<longleftrightarrow> (argc m = 0 \<and> argv m = None) \<or> (argc m > 0 \<and> argv m \<noteq> None)"

definition main_args_ToString :: "main_args \<Rightarrow> string" where
  "main_args_ToString m = array_to_string (map Some (case argv m of None \<Rightarrow> [] | Some a \<Rightarrow> take (argc m) a))"

section \<open>Symbol lookup\<close>

datatype dl_handle = RTLD_DEFAULT | RTLD_NEXT | DlHandle nat

text \<open>\<open>dlsym\<close> is a parameter: 0 is the NULL address.\<close>

definition FuncAddressByName_h ::
  "(dl_handle \<Rightarrow> string \<Rightarrow> addr) \<Rightarrow> string \<Rightarrow> dl_handle \<Rightarrow> bool \<Rightarrow> addr option" where
  "FuncAddressByName_h dlsym nm handle fail_on_null =
     (let a = dlsym handle nm in if a = 0 \<and> fail_on_null then None else Some a)"

definition FuncAddressByName ::
  "(dl_handle \<Rightarrow> string \<Rightarrow> addr) \<Rightarrow> string \<Rightarrow> bool \<Rightarrow> bool \<Rightarrow> bool \<Rightarrow> addr option" where
  "FuncAddressByName dlsym nm default_first try_other fail_on_null = do {
     a \<leftarrow> FuncAddressByName_h dlsym nm (if default_first then RTLD_DEFAULT else RTLD_NEXT)
            (if try_other then False else fail_on_null);
     a2 \<leftarrow> (if a = 0 \<and> try_other
            then FuncAddressByName_h dlsym nm (if default_first then RTLD_NEXT else RTLD_DEFAULT) fail_on_null
            else Some a);
     safe_assert (a2 \<noteq> 0 \<or> \<not> fail_on_null);
     Some a2 }"

section \<open>Lines and tokens\<close>

definition newline :: char where
  "newline = CHR 0x0A"

text \<open>One \<open>fgets\<close> with a buffer of \<open>k + 1\<close> bytes: at most \<open>k\<close> characters, stopping after a newline.\<close>

fun fgets :: "nat \<Rightarrow> string \<Rightarrow> string \<times> string" where
  "fgets 0 s = ([], s)"
| "fgets (Suc k) [] = ([], [])"
| "fgets (Suc k) (c # s) =
     (if c = newline then ([c], s) else (let (l, r) = fgets k s in (c # l, r)))"

lemma fgets_append: "fst (fgets k s) @ snd (fgets k s) = s"
  by (induction k s rule: fgets.induct) (auto simp: Let_def split: prod.splits)

lemma fgets_rest_le: "length (snd (fgets k s)) \<le> length s"
  by (metis fgets_append le_add2 length_append)

lemma fgets_rest_less [simp]: "length (snd (fgets (Suc k) (c # s))) < length (c # s)"
  using fgets_rest_le [of k s] by (auto simp: Let_def split: prod.splits)

text \<open>The text of a line up to its first NUL, which is what \<open>strnlen\<close> and \<open>push_back\<close> see.\<close>

definition c_str :: "string \<Rightarrow> string" where
  "c_str s = takeWhile (\<lambda>c. c \<noteq> CHR 0x00) s"

definition ReadLine_step :: "char \<Rightarrow> string \<Rightarrow> string list" where
  "ReadLine_step comment l = (let b = c_str l in
     if b \<noteq> [] \<and> hd b \<noteq> comment
     then (if last b = newline then (if length b = 1 then [] else [butlast b]) else [b])
     else [])"

function ReadLines_loop :: "char \<Rightarrow> string \<Rightarrow> string list" where
  "ReadLines_loop comment [] = []"
| "ReadLines_loop comment (c # s) = (let (l, r) = fgets 255 (c # s) in
     ReadLine_step comment l @ ReadLines_loop comment r)"
  by pat_completeness auto
termination
proof (relation "measure (length \<circ> snd)", goal_cases)
  case (2 comment c s x l r)
  have "fgets 255 (c # s) = fgets (Suc 254) (c # s)" by simp
  with 2 show ?case using fgets_rest_less [of 254 c s] by (metis comp_apply in_measure snd_conv)
qed simp

text \<open>A file that cannot be opened is \<open>None\<close>; then \<open>exit_on_fail\<close> decides whether the run stops.\<close>

definition ReadLinesFromFile ::
  "string option \<Rightarrow> string list option \<Rightarrow> bool \<Rightarrow> char \<Rightarrow> string list option" where
  "ReadLinesFromFile file ls exit_on_fail comment =
     (let acc = (case ls of None \<Rightarrow> [] | Some l \<Rightarrow> l) in
      case file of
        None \<Rightarrow> if exit_on_fail then None else Some acc
      | Some content \<Rightarrow> Some (acc @ ReadLines_loop comment content))"

text \<open>The \<open>strtok\<close> loop: skip separators, take the run of other characters.\<close>

function TokenizeStringToVector :: "string \<Rightarrow> string \<Rightarrow> string list" where
  "TokenizeStringToVector str tokens =
     (let s = dropWhile (\<lambda>c. c \<in> set tokens) str in
      if s = [] then []
      else takeWhile (\<lambda>c. c \<notin> set tokens) s
             # TokenizeStringToVector (dropWhile (\<lambda>c. c \<notin> set tokens) s) tokens)"
  by pat_completeness auto
termination
proof (relation "measure (length \<circ> fst)", goal_cases)
  case (2 str tokens s)
  have "hd s \<notin> set tokens" using 2 hd_dropWhile [of "\<lambda>c. c \<in> set tokens" str] by simp
  moreover have "s \<noteq> []" using 2 by simp
  then obtain c s' where s: "s = c # s'" by (meson list.exhaust)
  ultimately have "length (dropWhile (\<lambda>c. c \<notin> set tokens) s) < length s"
    by (simp add: length_dropWhile_le less_Suc_eq_le)
  moreover have "length s \<le> length str" using 2 by (simp add: length_dropWhile_le)
  ultimately show ?case by simp
qed simp

declare TokenizeStringToVector.simps [simp del]

section \<open>The write, read and sleep loops\<close>

datatype 'a io = IoDone 'a | IoAbort | IoPending

text \<open>\<open>my_write\<close>: the script holds what each \<open>write\<close> returns; the second result is what the
  file received.\<close>

fun my_write :: "int list \<Rightarrow> byte list \<Rightarrow> byte list io" where
  "my_write script buff = (if buff = [] then IoDone [] else
     (case script of
        [] \<Rightarrow> IoPending
      | sz # script' \<Rightarrow>
          if sz < 0 then IoAbort
          else (case my_write script' (drop (nat sz) buff) of
                  IoDone out \<Rightarrow> IoDone (take (nat sz) buff @ out)
                | r \<Rightarrow> r)))"

declare my_write.simps [simp del]

text \<open>\<open>my_read\<close>: the script holds what each \<open>read\<close> returns; the result is the buffer and what is
  left in the file.\<close>

fun my_read :: "int list \<Rightarrow> nat \<Rightarrow> byte list \<Rightarrow> (byte list \<times> byte list) io" where
  "my_read script n inp = (if n = 0 then IoDone ([], inp) else
     (case script of
        [] \<Rightarrow> IoPending
      | sz # script' \<Rightarrow>
          if sz < 0 then IoAbort
          else (case my_read script' (n - nat sz) (drop (nat sz) inp) of
                  IoDone (b, rest) \<Rightarrow> IoDone (take (nat sz) inp @ b, rest)
                | r \<Rightarrow> r)))"

declare my_read.simps [simp del]

text \<open>What a \<open>read\<close> or \<open>write\<close> may return when \<open>n\<close> bytes are asked for and the call makes
  progress each time.\<close>

fun progress :: "nat \<Rightarrow> int list \<Rightarrow> bool" where
  "progress n script = (n = 0 \<or>
     (case script of [] \<Rightarrow> False
      | sz # script' \<Rightarrow> 0 < sz \<and> sz \<le> int n \<and> progress (n - nat sz) script'))"

declare progress.simps [simp del]

text \<open>\<open>short_sleep\<close>: the script holds the return values of \<open>nanosleep\<close>; \<open>EINTR = 4\<close>,
  \<open>EFAULT = 14\<close>, \<open>EINVAL = 22\<close>.\<close>

fun short_sleep_loop :: "int list \<Rightarrow> bool \<Rightarrow> unit io" where
  "short_sleep_loop [] continue_on_signal = IoPending"
| "short_sleep_loop (rval # rs) continue_on_signal =
     (if rval = 22 \<or> rval = 14 then IoAbort
      else if \<not> (rval = 0 \<or> rval = 4) then IoAbort
      else if rval = 4 \<and> continue_on_signal then short_sleep_loop rs continue_on_signal
      else IoDone ())"

definition short_sleep :: "int list \<Rightarrow> int \<Rightarrow> bool \<Rightarrow> unit io" where
  "short_sleep rs nanoseconds continue_on_signal =
     (if 0 \<le> nanoseconds \<and> nanoseconds < 1000000000 then short_sleep_loop rs continue_on_signal
      else IoAbort)"

section \<open>Cursor over a vector\<close>

record 'a iterator_state =
  it_vector :: "'a list"
  it_current :: int

definition IteratorState :: "'a list \<Rightarrow> 'a iterator_state" where
  "IteratorState x = \<lparr>it_vector = x, it_current = 0\<rparr>"

definition has_current :: "'a iterator_state \<Rightarrow> bool" where
  "has_current s \<longleftrightarrow> 0 \<le> it_current s \<and> it_current s < int (length (it_vector s))"

definition cursor_current :: "'a iterator_state \<Rightarrow> 'a option" where
  "cursor_current s = do { safe_assert (has_current s); Some (it_vector s ! nat (it_current s)) }"

definition it_next :: "'a iterator_state \<Rightarrow> (bool \<times> 'a iterator_state) option" where
  "it_next s = do {
     safe_assert (has_current s);
     let s' = s\<lparr>it_current := it_current s + 1\<rparr>;
     Some (has_current s', s') }"

definition it_prev :: "'a iterator_state \<Rightarrow> (bool \<times> 'a iterator_state) option" where
  "it_prev s = do {
     safe_assert (has_current s);
     let s' = s\<lparr>it_current := it_current s - 1\<rparr>;
     Some (has_current s', s') }"

text \<open>The loop \<open>if (has_current) do { visit current } while (next)\<close> that clients write.\<close>

fun it_collect :: "nat \<Rightarrow> 'a iterator_state \<Rightarrow> 'a list option" where
  "it_collect 0 s = None"
| "it_collect (Suc k) s = do {
     x \<leftarrow> cursor_current s;
     (more, s') \<leftarrow> it_next s;
     if more then do { xs \<leftarrow> it_collect k s'; Some (x # xs) } else Some [x] }"

section \<open>What the functions guarantee\<close>

definition parse_nat :: "string \<Rightarrow> nat" where
  "parse_nat s = foldl (\<lambda>a c. 10 * a + (of_char c - 48)) 0 s"

lemma digit_char_value [simp]: "d < 10 \<Longrightarrow> (of_char (digit_char d) :: nat) - 48 = d"
  by (simp add: digit_char_def)

lemma parse_nat_to_string: "parse_nat (nat_to_string n) = n"
proof (induction n rule: nat_to_string.induct)
  case (1 n)
  show ?case
  proof (cases "n < 10")
    case True
    then show ?thesis by (simp add: nat_to_string.simps [of n] parse_nat_def)
  next
    case False
    then show ?thesis using 1 by (simp add: nat_to_string.simps [of n] parse_nat_def)
  qed
qed

lemma nat_to_string_digits: "c \<in> set (nat_to_string n) \<Longrightarrow> c \<in> digit_char ` {..<10}"
  by (induction n rule: nat_to_string.induct)
    (subst (asm) nat_to_string.simps, auto split: if_splits)

lemma nat_to_string_inj [simp]: "nat_to_string m = nat_to_string n \<longleftrightarrow> m = n"
  by (metis parse_nat_to_string)

lemma format_string_short: "length (format_string s) < format_string_buff_size"
  by (simp add: format_string_def format_string_buff_size_def)

lemma format_string_id: "length s < format_string_buff_size \<Longrightarrow> format_string s = s"
  by (simp add: format_string_def)

lemma ArgVectorToMainArgs_check: "main_args_check (ArgVectorToMainArgs a)"
  by (simp add: main_args_check_def ArgVectorToMainArgs_def)

text \<open>Reading and writing.\<close>

lemma my_write_faithful: "my_write script buff = IoDone out \<Longrightarrow> out = buff"
proof (induction script arbitrary: buff out)
  case Nil
  then show ?case by (subst (asm) my_write.simps) (auto split: if_splits)
next
  case (Cons sz script)
  show ?case
  proof (cases "buff = []")
    case True
    with Cons.prems show ?thesis by (simp add: my_write.simps)
  next
    case False
    with Cons.prems obtain o2 where o2: "my_write script (drop (nat sz) buff) = IoDone o2"
      and out: "out = take (nat sz) buff @ o2"
      by (subst (asm) my_write.simps) (simp split: if_splits io.splits)
    show ?thesis using Cons.IH [OF o2] out by simp
  qed
qed

lemma my_write_progress: "progress (length buff) script \<Longrightarrow> my_write script buff = IoDone buff"
proof (induction script arbitrary: buff)
  case Nil
  then show ?case by (subst my_write.simps, subst (asm) progress.simps) auto
next
  case (Cons sz script)
  show ?case
  proof (cases "buff = []")
    case False
    with Cons.prems have "0 < sz" "progress (length (drop (nat sz) buff)) script"
      by (subst (asm) progress.simps, simp)+
    with Cons.IH [of "drop (nat sz) buff"] False show ?thesis
      by (subst my_write.simps) simp
  qed (simp add: my_write.simps)
qed

lemma my_read_progress:
  "progress n script \<Longrightarrow> n \<le> length inp \<Longrightarrow> my_read script n inp = IoDone (take n inp, drop n inp)"
proof (induction script arbitrary: n inp)
  case Nil
  then show ?case by (subst my_read.simps, subst (asm) progress.simps) auto
next
  case (Cons sz script)
  show ?case
  proof (cases "n = 0")
    case False
    with Cons.prems have sz: "0 < sz" "sz \<le> int n" "progress (n - nat sz) script"
      by (subst (asm) progress.simps, simp)+
    hence le: "nat sz \<le> n" by simp
    have "my_read script (n - nat sz) (drop (nat sz) inp)
        = IoDone (take (n - nat sz) (drop (nat sz) inp), drop (n - nat sz) (drop (nat sz) inp))"
      using sz Cons.prems by (intro Cons.IH) auto
    moreover have "take (nat sz) inp @ take (n - nat sz) (drop (nat sz) inp) = take n inp"
      using le by (metis le_add_diff_inverse take_add)
    ultimately show ?thesis using False sz le by (subst my_read.simps) simp
  qed (simp add: my_read.simps)
qed

lemma my_read_eof: "my_read (replicate k 0) (Suc n) [] = IoPending"
  by (induction k) (subst my_read.simps, simp)+

lemma my_read_error: "n > 0 \<Longrightarrow> sz < 0 \<Longrightarrow> my_read (sz # script) n inp = IoAbort"
  by (subst my_read.simps) simp

text \<open>Tokens.\<close>

lemma Tokenize_step:
  "TokenizeStringToVector str tokens =
     (case dropWhile (\<lambda>c. c \<in> set tokens) str of
        [] \<Rightarrow> []
      | c # s \<Rightarrow> (c # takeWhile (\<lambda>c. c \<notin> set tokens) s)
               # TokenizeStringToVector (dropWhile (\<lambda>c. c \<notin> set tokens) s) tokens)"
proof (cases "dropWhile (\<lambda>c. c \<in> set tokens) str")
  case Nil
  then show ?thesis by (subst TokenizeStringToVector.simps) (simp add: Let_def del: dropWhile_eq_Nil_conv)
next
  case (Cons c s)
  hence "c \<notin> set tokens" using hd_dropWhile [of "\<lambda>c. c \<in> set tokens" str] by simp
  with Cons show ?thesis by (subst TokenizeStringToVector.simps) simp
qed

lemma takeWhile_filter_append:
  "filter P s = takeWhile P s @ filter P (dropWhile P s)"
  by (induction s) auto

lemma filter_dropWhile_neg: "filter P (dropWhile (\<lambda>c. \<not> P c) s) = filter P s"
  by (induction s) auto

lemma Tokenize_concat: "concat (TokenizeStringToVector str tokens) = filter (\<lambda>c. c \<notin> set tokens) str"
proof (induction str tokens rule: TokenizeStringToVector.induct)
  case (1 str tokens)
  let ?d = "dropWhile (\<lambda>c. c \<in> set tokens) str"
  have f: "filter (\<lambda>c. c \<notin> set tokens) ?d = filter (\<lambda>c. c \<notin> set tokens) str"
    using filter_dropWhile_neg [of "\<lambda>c. c \<notin> set tokens" str] by simp
  show ?case
  proof (cases "?d = []")
    case True
    with f have "filter (\<lambda>c. c \<notin> set tokens) str = []" by simp
    with True show ?thesis
      by (subst Tokenize_step) (simp del: dropWhile_eq_Nil_conv)
  next
    case False
    with 1 [OF refl] have "concat (TokenizeStringToVector str tokens)
      = takeWhile (\<lambda>c. c \<notin> set tokens) ?d
        @ filter (\<lambda>c. c \<notin> set tokens) (dropWhile (\<lambda>c. c \<notin> set tokens) ?d)"
      by (subst TokenizeStringToVector.simps) (simp only: Let_def if_False concat.simps not_False_eq_True)
    thus ?thesis using f takeWhile_filter_append [of "\<lambda>c. c \<notin> set tokens" ?d] by simp
  qed
qed

lemma Tokenize_nonempty: "t \<in> set (TokenizeStringToVector str tokens) \<Longrightarrow> t \<noteq> []"
proof (induction str tokens rule: TokenizeStringToVector.induct)
  case (1 str tokens)
  show ?case
  proof (cases "dropWhile (\<lambda>c. c \<in> set tokens) str")
    case Nil
    with 1(2) show ?thesis by (subst (asm) Tokenize_step) simp
  next
    case (Cons c s)
    hence "c \<notin> set tokens" using hd_dropWhile [of "\<lambda>c. c \<in> set tokens" str] by simp
    with Cons have d: "dropWhile (\<lambda>c. c \<notin> set tokens) (dropWhile (\<lambda>c. c \<in> set tokens) str)
      = dropWhile (\<lambda>c. c \<notin> set tokens) s" by simp
    from 1(2) Cons have "t = c # takeWhile (\<lambda>c. c \<notin> set tokens) s \<or>
      t \<in> set (TokenizeStringToVector (dropWhile (\<lambda>c. c \<notin> set tokens) s) tokens)"
      by (subst (asm) Tokenize_step) simp
    then show ?thesis
    proof
      assume "t \<in> set (TokenizeStringToVector (dropWhile (\<lambda>c. c \<notin> set tokens) s) tokens)"
      with Cons d show ?thesis by (intro 1(1) [OF refl]) (simp_all only: list.distinct not_False_eq_True)
    qed simp
  qed
qed

lemma Tokenize_no_separator:
  "t \<in> set (TokenizeStringToVector str tokens) \<Longrightarrow> c \<in> set t \<Longrightarrow> c \<notin> set tokens"
proof -
  assume "t \<in> set (TokenizeStringToVector str tokens)" "c \<in> set t"
  hence "c \<in> set (concat (TokenizeStringToVector str tokens))" by auto
  thus "c \<notin> set tokens" by (simp add: Tokenize_concat)
qed

text \<open>The cursor visits the whole vector in order.\<close>

lemma it_collect_from:
  "n < length v \<Longrightarrow> length v - n \<le> k \<Longrightarrow>
   it_collect k \<lparr>it_vector = v, it_current = int n\<rparr> = Some (drop n v)"
proof (induction k arbitrary: n)
  case 0
  then show ?case by simp
next
  case (Suc k)
  have d: "drop n v = v ! n # drop (Suc n) v" using Suc.prems by (simp add: Cons_nth_drop_Suc)
  show ?case
  proof (cases "Suc n < length v")
    case True
    with Suc.IH [of "Suc n"] Suc.prems
    have "it_collect k \<lparr>it_vector = v, it_current = int n + 1\<rparr> = Some (drop (Suc n) v)"
      by (simp add: add.commute)
    with True d show ?thesis
      by (simp add: cursor_current_def it_next_def has_current_def Let_def)
  next
    case False
    with Suc.prems d show ?thesis
      by (simp add: cursor_current_def it_next_def has_current_def Let_def)
  qed
qed

lemma IteratorState_visits_all:
  "v \<noteq> [] \<Longrightarrow> it_collect (length v) (IteratorState v) = Some v"
  using it_collect_from [of 0 v "length v"] by (simp add: IteratorState_def)
section \<open>Properties\<close>

text \<open>TokenizeStringToVector returns the nonempty runs of non-separator characters, in
  order and without losing a character.\<close>

lemma tokenize_spec:
  "concat (TokenizeStringToVector str tokens) = filter (\<lambda>c. c \<notin> set tokens) str
   \<and> [] \<notin> set (TokenizeStringToVector str tokens)
   \<and> \<Union> (set ` set (TokenizeStringToVector str tokens)) \<inter> set tokens = {}"
  using Tokenize_concat Tokenize_nonempty Tokenize_no_separator by blast

text \<open>my_write hands over exactly the buffer whatever the sizes of the partial writes,
  and finishes when every write makes progress.\<close>

lemma my_write_spec:
  "(my_write script buff = IoDone out \<longrightarrow> out = buff)
   \<and> (progress (length buff) script \<longrightarrow> my_write script buff = IoDone buff)"
  using my_write_faithful my_write_progress by blast

lemma my_write_spec_example: "my_write [2, 1] [1, 2, 3] = IoDone [1, 2, 3]"
  using my_write_spec [of "[2, 1]" "[1, 2, 3]" "[1, 2, 3]"] by (simp add: progress.simps)

text \<open>my_read does not notice the end of the input: a read that returns 0 bytes is
  repeated for ever.\<close>

lemma my_read_at_eof: "my_read (replicate k 0) (Suc n) [] = IoPending"
  by (rule my_read_eof)

end
