(* ===== verification/Shared_Access.thy ===== *)
theory Shared_Access
  imports Util_Text
begin

text \<open>
  sharedaccess.h: typed memory cells that remember an address and the value last seen there,
  shared accesses (a read or a write of a cell at a vector time), and source locations with
  their two renderings.
\<close>

section \<open>Memory cells\<close>

text \<open>The template parameter of the cell is a type tag: \<open>dynamic_cast\<close> succeeds when the tags
  agree.  Memory is a function from addresses to values of the cell's type.\<close>

record 'v memory_cell =
  mc_type :: nat
  mc_address :: addr
  mc_value :: 'v

definition MemoryCell_Clone :: "'v memory_cell \<Rightarrow> 'v memory_cell" where
  "MemoryCell_Clone c = \<lparr>mc_type = mc_type c, mc_address = mc_address c, mc_value = mc_value c\<rparr>"

definition int_address :: "'v memory_cell \<Rightarrow> addr" where
  "int_address c = mc_address c"

definition update_value :: "'v memory_cell \<Rightarrow> 'v memory_cell \<Rightarrow> 'v memory_cell option" where
  "update_value this other = do {
     safe_check (mc_type other = mc_type this);
     safe_assert (mc_address other = mc_address this);
     Some (this\<lparr>mc_value := mc_value other\<rparr>) }"

definition cell_read :: "(addr \<Rightarrow> 'v) \<Rightarrow> 'v memory_cell \<Rightarrow> 'v \<times> 'v memory_cell" where
  "cell_read mem c = (mem (mc_address c), c\<lparr>mc_value := mem (mc_address c)\<rparr>)"

definition cell_write ::
  "(addr \<Rightarrow> 'v) \<Rightarrow> 'v memory_cell \<Rightarrow> 'v \<Rightarrow> (addr \<Rightarrow> 'v) \<times> 'v memory_cell" where
  "cell_write mem c v = (mem(mc_address c := v), c\<lparr>mc_value := v\<rparr>)"

definition update_memory :: "(addr \<Rightarrow> 'v) \<Rightarrow> 'v memory_cell \<Rightarrow> (addr \<Rightarrow> 'v)" where
  "update_memory mem c = mem(mc_address c := mc_value c)"

definition IsEquiv :: "'v memory_cell \<Rightarrow> 'v memory_cell \<Rightarrow> bool option" where
  "IsEquiv this other = do {
     safe_check (mc_type other = mc_type this);
     Some (mc_address this = mc_address other \<and> mc_value this = mc_value other) }"

definition MemoryCell_ToString :: "('v \<Rightarrow> string) \<Rightarrow> 'v memory_cell \<Rightarrow> string" where
  "MemoryCell_ToString sh c = ''('' @ nat_to_string (unat (int_address c)) @ '':'' @ sh (mc_value c) @ '')''"

section \<open>Shared accesses\<close>

datatype access_type = READ_ACCESS | WRITE_ACCESS

definition CONFLICTING :: "access_type \<Rightarrow> access_type \<Rightarrow> bool" where
  "CONFLICTING t1 t2 \<longleftrightarrow> t1 = WRITE_ACCESS \<or> t2 = WRITE_ACCESS"

record 'v shared_access =
  sa_type :: access_type
  sa_cell :: "'v memory_cell"
  sa_time :: "32 word"
  sa_expr :: string

definition is_read :: "'v shared_access \<Rightarrow> bool" where
  "is_read a \<longleftrightarrow> sa_type a = READ_ACCESS"

definition is_write :: "'v shared_access \<Rightarrow> bool" where
  "is_write a \<longleftrightarrow> sa_type a = WRITE_ACCESS"

definition conflicts_with :: "'v shared_access \<Rightarrow> 'v shared_access \<Rightarrow> bool" where
  "conflicts_with this that \<longleftrightarrow> is_write this \<or> is_write that"

definition SharedAccess_Clone :: "'v shared_access \<Rightarrow> 'v shared_access" where
  "SharedAccess_Clone a =
     \<lparr>sa_type = sa_type a, sa_cell = MemoryCell_Clone (sa_cell a), sa_time = sa_time a, sa_expr = sa_expr a\<rparr>"

definition cell_as :: "nat \<Rightarrow> 'v shared_access \<Rightarrow> 'v memory_cell option" where
  "cell_as ty a = do { safe_assert (mc_type (sa_cell a) = ty); Some (sa_cell a) }"

definition sa_mem :: "'v shared_access \<Rightarrow> addr" where
  "sa_mem a = int_address (sa_cell a)"

text \<open>The format string ends in \<open>@d\<close>, without the percent sign, so the time is not printed.\<close>

definition SharedAccess_ToString :: "'v shared_access \<Rightarrow> string" where
  "SharedAccess_ToString a = format_string
     ((if sa_type a = READ_ACCESS then ''Read'' else ''Write'') @ ''('' @ sa_expr a @ '' = ''
        @ nat_to_string (unat (sa_mem a)) @ '')@d'')"

section \<open>Source locations\<close>

record src_loc =
  sl_filename :: string
  sl_funcname :: string
  sl_column :: int
  sl_line :: int
  sl_imgname :: string

definition SourceLocation ::
  "string option \<Rightarrow> string option \<Rightarrow> int \<Rightarrow> int \<Rightarrow> string option \<Rightarrow> src_loc" where
  "SourceLocation filename funcname line column imgname =
     \<lparr>sl_filename = (case filename of Some s \<Rightarrow> s | None \<Rightarrow> ''''),
      sl_funcname = (case funcname of Some s \<Rightarrow> s | None \<Rightarrow> ''''),
      sl_column = column, sl_line = line,
      sl_imgname = (case imgname of Some s \<Rightarrow> s | None \<Rightarrow> '''')\<rparr>"

definition IsUnknown :: "src_loc \<Rightarrow> bool" where
  "IsUnknown l \<longleftrightarrow> sl_filename l = '''' \<or> sl_filename l = ''<unknown>''"

definition SourceLocation_ToString :: "src_loc \<Rightarrow> string" where
  "SourceLocation_ToString l =
     (if IsUnknown l then ''<unknown>''
      else format_string (sl_filename l @ ''('' @ to_string (sl_line l) @ '':'' @ to_string (sl_column l)
             @ ''): '' @ sl_funcname l @ ''()''))"

text \<open>\<open>basename\<close> of libgen.h.\<close>

definition strip_slashes :: "string \<Rightarrow> string" where
  "strip_slashes s = rev (dropWhile (\<lambda>c. c = CHR ''/'') (rev s))"

definition basename :: "string \<Rightarrow> string" where
  "basename s = (if s = '''' then ''.''
     else if strip_slashes s = '''' then ''/''
     else rev (takeWhile (\<lambda>c. c \<noteq> CHR ''/'') (rev (strip_slashes s))))"

definition SourceLocation_ToShortString :: "src_loc \<Rightarrow> string" where
  "SourceLocation_ToShortString l =
     (if IsUnknown l then ''<unknown>''
      else format_string (basename (sl_filename l) @ '':'' @ sl_funcname l @ ''():'' @ to_string (sl_line l)))"

definition SourceLocation_str :: "src_loc option \<Rightarrow> string" where
  "SourceLocation_str l = (case l of Some l \<Rightarrow> SourceLocation_ToString l | None \<Rightarrow> ''<unknown>'')"

definition SourceLocation_short :: "src_loc option \<Rightarrow> string" where
  "SourceLocation_short l = (case l of Some l \<Rightarrow> SourceLocation_ToShortString l | None \<Rightarrow> ''<unknown>'')"

definition SourceLocation_Clone :: "src_loc \<Rightarrow> src_loc" where
  "SourceLocation_Clone l =
     SourceLocation (Some (sl_filename l)) (Some (sl_funcname l)) (sl_line l) (sl_column l) (Some '''')"

definition SourceLocation_eq :: "src_loc \<Rightarrow> src_loc \<Rightarrow> bool" where
  "SourceLocation_eq a b \<longleftrightarrow> sl_column a = sl_column b \<and> sl_line a = sl_line b
     \<and> sl_filename a = sl_filename b \<and> sl_funcname a = sl_funcname b"

record 'v access_loc_pair =
  al_access :: "'v shared_access option"
  al_loc :: "src_loc option"

section \<open>What the functions guarantee\<close>

lemma cell_write_read:
  "cell_write mem c v = (mem', c') \<Longrightarrow> cell_read mem' c' = (v, c')"
  by (auto simp: cell_write_def cell_read_def)

lemma update_memory_after_write:
  "cell_write mem c v = (mem', c') \<Longrightarrow> update_memory mem' c' = mem'"
  by (auto simp: cell_write_def update_memory_def)

lemma cell_write_frame:
  "cell_write mem c v = (mem', c') \<Longrightarrow> a \<noteq> int_address c \<Longrightarrow> mem' a = mem a"
  by (auto simp: cell_write_def int_address_def)

lemma IsEquiv_Clone: "IsEquiv c (MemoryCell_Clone c) = Some True"
  by (simp add: IsEquiv_def MemoryCell_Clone_def)

lemma update_value_IsEquiv:
  "update_value this other = Some c \<Longrightarrow> IsEquiv c other = Some True"
  by (auto simp: update_value_def IsEquiv_def)

lemma conflicts_with_CONFLICTING:
  "conflicts_with a b \<longleftrightarrow> CONFLICTING (sa_type a) (sa_type b)"
  by (simp add: conflicts_with_def CONFLICTING_def is_write_def)

lemma conflicts_with_sym: "conflicts_with a b \<longleftrightarrow> conflicts_with b a"
  by (auto simp: conflicts_with_def)

lemma is_read_not_write: "is_read a \<longleftrightarrow> \<not> is_write a"
  by (cases "sa_type a") (auto simp: is_read_def is_write_def)

lemma SharedAccess_ToString_no_time:
  "SharedAccess_ToString (a\<lparr>sa_time := t\<rparr>) = SharedAccess_ToString a"
  by (simp add: SharedAccess_ToString_def sa_mem_def)

lemma SourceLocation_Clone_eq: "SourceLocation_eq (SourceLocation_Clone l) l"
  by (simp add: SourceLocation_eq_def SourceLocation_Clone_def SourceLocation_def)

lemma SourceLocation_Clone_imgname: "sl_imgname (SourceLocation_Clone l) = ''''"
  by (simp add: SourceLocation_Clone_def SourceLocation_def)

lemma strip_slashes_last:
  "strip_slashes s \<noteq> [] \<Longrightarrow> last (strip_slashes s) \<noteq> CHR ''/''"
  using hd_dropWhile [of "\<lambda>c. c = CHR ''/''" "rev s"]
  by (simp add: strip_slashes_def last_rev)

lemma basename_no_slash: "s \<noteq> '''' \<Longrightarrow> basename s \<noteq> ''/'' \<Longrightarrow> CHR ''/'' \<notin> set (basename s)"
  by (auto simp: basename_def dest: set_takeWhileD)

lemma basename_nonempty: "basename s \<noteq> []"
proof (cases "strip_slashes s = []")
  case False
  hence "hd (rev (strip_slashes s)) \<noteq> CHR ''/''"
    using strip_slashes_last [of s] by (simp add: hd_rev)
  with False show ?thesis
    by (cases "rev (strip_slashes s)") (auto simp: basename_def)
qed (simp add: basename_def)

end
