(* ===== verification/Thread_Vars.thy ===== *)
theory Thread_Vars
  imports Util_Text
begin

text \<open>
  threadvar.h, the thread-variable part of transpred.cpp, and the scope restrictions of api.h.

  A \<open>ThreadVarPtr\<close> is a reference into a store of variables (the shared-pointer target); NULL
  pointers are \<open>None\<close>.  A \<open>ThreadVarPtrSet\<close> is a \<open>std::set\<close> ordered by the address of the
  variable: the list of its references in increasing order, without duplicates.
\<close>

section \<open>Thread variables\<close>

record thread_var =
  tv_name :: string
  tv_thread :: "co option"

type_synonym tvref = nat
type_synonym tvstore = "tvref \<Rightarrow> thread_var"

definition new_thread_var :: "co option \<Rightarrow> string \<Rightarrow> thread_var" where
  "new_thread_var th nm = \<lparr>tv_name = nm, tv_thread = th\<rparr>"

definition clear_thread :: "tvstore \<Rightarrow> tvref \<Rightarrow> tvstore" where
  "clear_thread st r = st(r := (st r)\<lparr>tv_thread := None\<rparr>)"

definition set_thread :: "tvstore \<Rightarrow> tvref \<Rightarrow> co option \<Rightarrow> tvstore" where
  "set_thread st r c = st(r := (st r)\<lparr>tv_thread := c\<rparr>)"

definition is_empty_var :: "tvstore \<Rightarrow> tvref \<Rightarrow> bool" where
  "is_empty_var st r \<longleftrightarrow> tv_thread (st r) = None"

definition ThreadVar_ToString :: "tvstore \<Rightarrow> tvref \<Rightarrow> string" where
  "ThreadVar_ToString st r =
     (case tv_thread (st r) of None \<Rightarrow> ''no-tid'' | Some c \<Rightarrow> to_string (co_tid c))"

definition ThreadVar_tid :: "tvstore \<Rightarrow> tvref \<Rightarrow> tid option" where
  "ThreadVar_tid st r = do { c \<leftarrow> tv_thread (st r); Some (co_tid c) }"

text \<open>The two assignment operators \<open>to << from\<close>.\<close>

definition assign_var :: "tvstore \<Rightarrow> tvref option \<Rightarrow> tvref option \<Rightarrow> tvstore option" where
  "assign_var st t from_var = do {
     a \<leftarrow> safe_notnull t; b \<leftarrow> safe_notnull from_var;
     Some (set_thread st a (tv_thread (st b))) }"

definition assign_co :: "tvstore \<Rightarrow> tvref option \<Rightarrow> co option \<Rightarrow> tvstore option" where
  "assign_co st t c = do {
     a \<leftarrow> safe_notnull t; x \<leftarrow> safe_notnull c;
     Some (set_thread st a (Some x)) }"

section \<open>Sets of thread variables\<close>

type_synonym tvset = "tvref list"

definition tvset_ok :: "tvset \<Rightarrow> bool" where
  "tvset_ok s \<longleftrightarrow> sorted s \<and> distinct s"

fun FindByThread :: "tvstore \<Rightarrow> tvset \<Rightarrow> co option \<Rightarrow> tvref option" where
  "FindByThread st [] c = None"
| "FindByThread st (t # ts) c = (if tv_thread (st t) = c then Some t else FindByThread st ts c)"

definition set_insert :: "tvref \<Rightarrow> tvset \<Rightarrow> tvset" where
  "set_insert t s = (if t \<in> set s then s else insort t s)"

definition set_erase :: "tvref \<Rightarrow> tvset \<Rightarrow> tvset" where
  "set_erase t s = removeAll t s"

definition tvset_Add :: "tvref \<Rightarrow> tvset \<Rightarrow> tvset option" where
  "tvset_Add t s = do { safe_assert (t \<notin> set s); Some (set_insert t s) }"

definition tvset_Remove :: "tvref \<Rightarrow> tvset \<Rightarrow> tvset option" where
  "tvset_Remove t s = do { safe_assert (t \<in> set s); Some (set_erase t s) }"

text \<open>Up to eight arguments; the first NULL one ends the list.\<close>

fun make_set :: "tvref option list \<Rightarrow> tvset \<Rightarrow> tvset" where
  "make_set [] s = s"
| "make_set (None # ts) s = s"
| "make_set (Some t # ts) s = make_set ts (set_insert t s)"

definition MakeThreadVarPtrSet :: "tvref option list \<Rightarrow> tvset" where
  "MakeThreadVarPtrSet ts = make_set (take 8 ts) []"

text \<open>The set ordered by thread id (\<open>ThreadVarPtr_distinct_compare\<close>): one variable per id.\<close>

fun distinct_insert :: "tvstore \<Rightarrow> tvref \<Rightarrow> tvset \<Rightarrow> tvset option" where
  "distinct_insert st t [] = Some [t]"
| "distinct_insert st t (x # xs) = do {
     a \<leftarrow> ThreadVar_tid st t; b \<leftarrow> ThreadVar_tid st x;
     if a < b then Some (t # x # xs)
     else if a = b then Some (x # xs)
     else do { r \<leftarrow> distinct_insert st t xs; Some (x # r) } }"

section \<open>Scope restriction\<close>

fun remove_each :: "tvref list \<Rightarrow> tvset \<Rightarrow> tvset option" where
  "remove_each [] s = Some s"
| "remove_each (t # ts) s = do { s' \<leftarrow> tvset_Remove t s; remove_each ts s' }"

fun add_each :: "tvref list \<Rightarrow> tvset \<Rightarrow> tvset option" where
  "add_each [] s = Some s"
| "add_each (t # ts) s = do { s' \<leftarrow> tvset_Add t s; add_each ts s' }"

text \<open>\<open>WithoutThreads\<close>: the constructor and the destructor.\<close>

definition WithoutThreads :: "tvset \<Rightarrow> tvset \<Rightarrow> tvset option" where
  "WithoutThreads scope s = do { safe_check (s \<noteq> []); remove_each s scope }"

definition WithoutThreads_end :: "tvset \<Rightarrow> tvset \<Rightarrow> tvset option" where
  "WithoutThreads_end scope s = add_each s scope"

text \<open>\<open>WithThreads\<close> removes the others; the second result is the set it keeps for its destructor.\<close>

definition WithThreads :: "tvset \<Rightarrow> tvset \<Rightarrow> (tvset \<times> tvset) option" where
  "WithThreads scope s = do {
     safe_check (s \<noteq> []);
     let others = fold set_erase s scope;
     scope' \<leftarrow> WithoutThreads scope others;
     Some (scope', others) }"

definition WithThreads_end :: "tvset \<Rightarrow> tvset \<Rightarrow> tvset option" where
  "WithThreads_end scope others = WithoutThreads_end scope others"

section \<open>The set operations keep the order and have the contents of the set\<close>

lemma set_insert_set [simp]: "set (set_insert t s) = insert t (set s)"
  by (auto simp: set_insert_def set_insort_key)

lemma set_erase_set [simp]: "set (set_erase t s) = set s - {t}"
  by (simp add: set_erase_def)

lemma set_insert_ok [intro]: "tvset_ok s \<Longrightarrow> tvset_ok (set_insert t s)"
  by (auto simp: tvset_ok_def set_insert_def sorted_insort distinct_insort)

lemma set_erase_ok [intro]: "tvset_ok s \<Longrightarrow> tvset_ok (set_erase t s)"
  by (auto simp: tvset_ok_def set_erase_def removeAll_filter_not_eq sorted_wrt_filter)

lemma tvset_ok_eqI: "tvset_ok a \<Longrightarrow> tvset_ok b \<Longrightarrow> set a = set b \<Longrightarrow> a = b"
  by (simp add: tvset_ok_def sorted_distinct_set_unique)

lemma make_set_ok: "tvset_ok s \<Longrightarrow> tvset_ok (make_set ts s)"
  by (induction ts s rule: make_set.induct) auto

lemma MakeThreadVarPtrSet_ok: "tvset_ok (MakeThreadVarPtrSet ts)"
  unfolding MakeThreadVarPtrSet_def by (rule make_set_ok) (simp add: tvset_ok_def)

lemma make_set_set: "set (make_set (map Some ts) s) = set ts \<union> set s"
  by (induction ts arbitrary: s) auto

lemma MakeThreadVarPtrSet_set:
  "length ts \<le> 8 \<Longrightarrow> set (MakeThreadVarPtrSet (map Some ts)) = set ts"
  by (simp add: MakeThreadVarPtrSet_def make_set_set)

lemma FindByThread_Some:
  "FindByThread st s c = Some t \<Longrightarrow> t \<in> set s \<and> tv_thread (st t) = c"
  by (induction s) (auto split: if_splits)

lemma FindByThread_None:
  "FindByThread st s c = None \<longleftrightarrow> (\<forall>t \<in> set s. tv_thread (st t) \<noteq> c)"
  by (induction s) auto

lemma tvset_Add_Remove:
  assumes "tvset_ok s" "tvset_Add t s = Some s'"
  shows "tvset_Remove t s' = Some s"
proof -
  from assms have t: "t \<notin> set s" and s': "s' = set_insert t s"
    by (auto simp: tvset_Add_def abort_simps split: if_splits)
  have "set_erase t s' = s"
    using assms(1) t s' by (intro tvset_ok_eqI) auto
  thus ?thesis by (simp add: tvset_Remove_def s')
qed

lemma tvset_Remove_Add:
  assumes "tvset_ok s" "tvset_Remove t s = Some s'"
  shows "tvset_Add t s' = Some s"
proof -
  from assms have t: "t \<in> set s" and s': "s' = set_erase t s"
    by (auto simp: tvset_Remove_def abort_simps split: if_splits)
  have "set_insert t s' = s"
    using assms(1) t s' by (intro tvset_ok_eqI) auto
  thus ?thesis by (simp add: tvset_Add_def s')
qed

lemma remove_each_Some:
  "distinct ts \<Longrightarrow> set ts \<subseteq> set s \<Longrightarrow> tvset_ok s \<Longrightarrow>
   \<exists>s'. remove_each ts s = Some s' \<and> tvset_ok s' \<and> set s' = set s - set ts"
proof (induction ts arbitrary: s)
  case (Cons t ts)
  hence "\<exists>s'. remove_each ts (set_erase t s) = Some s' \<and> tvset_ok s' \<and> set s' = set (set_erase t s) - set ts"
    by (intro Cons.IH) auto
  with Cons.prems show ?case by (auto simp: tvset_Remove_def)
qed auto

lemma add_each_Some:
  "distinct ts \<Longrightarrow> set ts \<inter> set s = {} \<Longrightarrow> tvset_ok s \<Longrightarrow>
   \<exists>s'. add_each ts s = Some s' \<and> tvset_ok s' \<and> set s' = set s \<union> set ts"
proof (induction ts arbitrary: s)
  case (Cons t ts)
  hence "\<exists>s'. add_each ts (set_insert t s) = Some s' \<and> tvset_ok s' \<and> set s' = set (set_insert t s) \<union> set ts"
    by (intro Cons.IH) auto
  with Cons.prems show ?case by (auto simp: tvset_Add_def)
qed auto

text \<open>Leaving a \<open>WITHOUT\<close> block restores the scope it was entered with.\<close>

lemma WithoutThreads_restores:
  assumes "tvset_ok scope" "tvset_ok s" "s \<noteq> []" "set s \<subseteq> set scope"
  shows "\<exists>inner. WithoutThreads scope s = Some inner \<and> set inner = set scope - set s
           \<and> WithoutThreads_end inner s = Some scope"
proof -
  from assms obtain inner where inner: "remove_each s scope = Some inner" "tvset_ok inner"
      "set inner = set scope - set s"
    using remove_each_Some [of s scope] by (auto simp: tvset_ok_def)
  then obtain bk where bk: "add_each s inner = Some bk" "tvset_ok bk" "set bk = set inner \<union> set s"
    using add_each_Some [of s inner] assms by (auto simp: tvset_ok_def)
  have "bk = scope" using bk inner assms by (intro tvset_ok_eqI) auto
  with inner bk assms show ?thesis by (simp add: WithoutThreads_def WithoutThreads_end_def)
qed

lemma fold_erase:
  "tvset_ok scope \<Longrightarrow> tvset_ok (fold set_erase s scope) \<and> set (fold set_erase s scope) = set scope - set s"
proof (induction s arbitrary: scope)
  case (Cons a s)
  with Cons.IH [of "set_erase a scope"] show ?case by (simp add: set_erase_ok) blast
qed simp

lemma WithThreads_restores:
  assumes "tvset_ok scope" "s \<noteq> []" "\<not> set scope \<subseteq> set s"
  shows "\<exists>inner others. WithThreads scope s = Some (inner, others) \<and> set inner = set scope \<inter> set s
           \<and> WithThreads_end inner others = Some scope"
proof -
  let ?others = "fold set_erase s scope"
  have o: "tvset_ok ?others" "set ?others = set scope - set s"
    using fold_erase assms(1) by blast+
  with assms have "?others \<noteq> []" by auto
  with o assms WithoutThreads_restores [of scope ?others] show ?thesis
    by (auto simp: WithThreads_def WithThreads_end_def Let_def)
qed

text \<open>Restricting to all of the scope leaves no others to take out, which the check refuses.\<close>

lemma WithThreads_whole_scope:
  assumes "tvset_ok scope" "set scope \<subseteq> set s"
  shows "WithThreads scope s = None"
proof -
  have "set (fold set_erase s scope) = {}" using fold_erase [of scope s] assms by auto
  thus ?thesis by (simp add: WithThreads_def WithoutThreads_def Let_def safe_check_bind abort_simps)
qed

section \<open>Properties\<close>

text \<open>The scope guard WithThreads restricts the scope to the threads of the set while
  it lives and its destructor restores the scope exactly, when some thread of the scope is left
  out.\<close>

lemma WithThreads_scoped:
  assumes "tvset_ok scope" "s \<noteq> []" "\<not> set scope \<subseteq> set s"
  shows "\<exists>inner others. WithThreads scope s = Some (inner, others) \<and> set inner = set scope \<inter> set s
           \<and> WithThreads_end inner others = Some scope"
  by (rule WithThreads_restores [OF assms])

lemma WithThreads_scoped_example:
  "\<exists>inner others. WithThreads [1, 2, 3] [2] = Some (inner, others) \<and> set inner = set [1, 2, 3] \<inter> set [2 :: tvref]
           \<and> WithThreads_end inner others = Some [1, 2, 3]"
  by (rule WithThreads_scoped) (simp_all add: tvset_ok_def)

text \<open>The scope guard WithThreads aborts when the set contains the whole scope: it
  builds a WithoutThreads of the empty set, whose check fails.\<close>

lemma WithThreads_all_aborts:
  assumes "tvset_ok scope" "set scope \<subseteq> set s"
  shows "WithThreads scope s = None"
  by (rule WithThreads_whole_scope [OF assms])

lemma WithThreads_all_aborts_example: "WithThreads [1, 2] [1, 2] = None"
  by (rule WithThreads_all_aborts) (simp_all add: tvset_ok_def)

end
