(* ===== verification/Aux_Vars.thy ===== *)
theory Aux_Vars
  imports Util_Text
begin

text \<open>
  The auxiliary-variable containers of transpred.h.  \<open>AuxVar0\<close> maps a thread to a value,
  \<open>AuxVar1\<close> maps a thread to a \<open>std::map\<close> from keys to values, \<open>AuxConst0\<close> is one mutable cell.
  The template parameters \<open>T\<close>, \<open>K\<close>, \<open>undef_value_\<close> and \<open>undef_key_\<close> are type variables and
  arguments.  The undefined value is never stored: writing it removes the entry, and the
  assertions of the getters check this.

  A \<open>std::map\<close> is the list of its entries in increasing key order.  The reader/writer lock of a
  variable only orders the operations; here each operation is one step.
\<close>

section \<open>The inner map\<close>

fun mm_find :: "('k \<times> 'v) list \<Rightarrow> 'k \<Rightarrow> 'v option" where
  "mm_find [] k = None"
| "mm_find ((a, v) # m) k = (if a = k then Some v else mm_find m k)"

fun mm_put :: "('k::linorder \<times> 'v) list \<Rightarrow> 'k \<Rightarrow> 'v \<Rightarrow> ('k \<times> 'v) list" where
  "mm_put [] k w = [(k, w)]"
| "mm_put ((a, v) # m) k w =
     (if k < a then (k, w) # (a, v) # m
      else if k = a then (k, w) # m
      else (a, v) # mm_put m k w)"

definition mm_erase :: "('k \<times> 'v) list \<Rightarrow> 'k \<Rightarrow> ('k \<times> 'v) list" where
  "mm_erase m k = filter (\<lambda>e. fst e \<noteq> k) m"

definition mm_ok :: "'v \<Rightarrow> ('k::linorder \<times> 'v) list \<Rightarrow> bool" where
  "mm_ok undef m \<longleftrightarrow> sorted_wrt (<) (map fst m) \<and> undef \<notin> snd ` set m"

lemma mm_find_None: "mm_find m k = None \<longleftrightarrow> k \<notin> fst ` set m"
  by (induction m k rule: mm_find.induct) auto

lemma mm_find_set: "mm_find m k = Some v \<Longrightarrow> (k, v) \<in> set m"
  by (induction m k rule: mm_find.induct) (auto split: if_splits)

lemma mm_find_put [simp]: "mm_find (mm_put m k w) k' = (if k' = k then Some w else mm_find m k')"
  by (induction m k w rule: mm_put.induct) auto

lemma mm_find_erase [simp]: "mm_find (mm_erase m k) k' = (if k' = k then None else mm_find m k')"
  by (induction m) (auto simp: mm_erase_def)

lemma mm_put_keys: "fst ` set (mm_put m k w) = insert k (fst ` set m)"
  by (induction m k w rule: mm_put.induct) auto

lemma mm_erase_keys: "fst ` set (mm_erase m k) = fst ` set m - {k}"
  by (auto simp: mm_erase_def)

lemma mm_put_vals: "snd ` set (mm_put m k w) \<subseteq> insert w (snd ` set m)"
  by (induction m k w rule: mm_put.induct) auto

lemma mm_put_sorted: "sorted_wrt (<) (map fst m) \<Longrightarrow> sorted_wrt (<) (map fst (mm_put m k w))"
proof (induction m k w rule: mm_put.induct)
  case (2 a v m k w)
  have keys: "set (map fst (mm_put m k w)) = insert k (set (map fst m))"
    using mm_put_keys [of m k w] by simp
  show ?case
  proof (cases "k < a \<or> k = a")
    case True
    with 2 show ?thesis by (auto dest: order.strict_trans)
  next
    case False
    hence "a < k" by auto
    with False 2 keys show ?thesis by (simp del: set_map)
  qed
qed simp

lemma mm_put_ok [intro]: "mm_ok undef m \<Longrightarrow> w \<noteq> undef \<Longrightarrow> mm_ok undef (mm_put m k w)"
  using mm_put_vals [of m k w] by (auto simp: mm_ok_def mm_put_sorted)

lemma mm_erase_ok [intro]: "mm_ok undef m \<Longrightarrow> mm_ok undef (mm_erase m k)"
  by (auto simp: mm_ok_def mm_erase_def sorted_wrt_map intro: sorted_wrt_filter)

lemma mm_first_min: "mm_ok undef ((a, v) # m) \<Longrightarrow> k \<in> fst ` set ((a, v) # m) \<Longrightarrow> a \<le> k"
  by (auto simp: mm_ok_def order_le_less)

section \<open>AuxVar0\<close>

type_synonym 'v aux0 = "tid \<rightharpoonup> 'v"

definition aux0_get :: "'v \<Rightarrow> 'v aux0 \<Rightarrow> tid \<Rightarrow> 'v option" where
  "aux0_get undef m t = (case m t of
     None \<Rightarrow> Some undef
   | Some v \<Rightarrow> do { safe_assert (v \<noteq> undef); Some v })"

definition aux0_set :: "'v \<Rightarrow> 'v aux0 \<Rightarrow> 'v \<Rightarrow> tid \<Rightarrow> 'v aux0" where
  "aux0_set undef m v t = (if v = undef then m(t := None) else m(t \<mapsto> v))"

definition aux0_reset :: "'v \<Rightarrow> 'v aux0 \<Rightarrow> tid \<Rightarrow> 'v aux0" where
  "aux0_reset undef m t = aux0_set undef m undef t"

definition aux0_isset :: "'v \<Rightarrow> 'v aux0 \<Rightarrow> tid \<Rightarrow> bool option" where
  "aux0_isset undef m t = do { v \<leftarrow> aux0_get undef m t; Some (v \<noteq> undef) }"

definition aux0_clear :: "'v aux0 \<Rightarrow> 'v aux0" where
  "aux0_clear m = Map.empty"

definition aux0_ok :: "'v \<Rightarrow> 'v aux0 \<Rightarrow> bool" where
  "aux0_ok undef m \<longleftrightarrow> undef \<notin> ran m"

section \<open>AuxConst0\<close>

definition const0_get :: "'v \<Rightarrow> tid \<Rightarrow> 'v" where
  "const0_get cell t = cell"

definition const0_set :: "'v \<Rightarrow> 'v \<Rightarrow> tid \<Rightarrow> 'v" where
  "const0_set cell v t = v"

definition const0_isset :: "'v \<Rightarrow> 'v \<Rightarrow> tid \<Rightarrow> bool" where
  "const0_isset undef cell t \<longleftrightarrow> cell \<noteq> undef"

definition const0_reset :: "'v \<Rightarrow> 'v \<Rightarrow> tid \<Rightarrow> 'v" where
  "const0_reset undef cell t = undef"

definition const0_clear :: "'v \<Rightarrow> 'v \<Rightarrow> 'v" where
  "const0_clear undef cell = undef"

section \<open>AuxVar1\<close>

type_synonym ('k, 'v) aux1 = "tid \<rightharpoonup> ('k \<times> 'v) list"

definition aux1_get :: "'k \<Rightarrow> 'v \<Rightarrow> ('k, 'v) aux1 \<Rightarrow> 'k \<Rightarrow> tid \<Rightarrow> 'v option" where
  "aux1_get undef_key undef m key t = do {
     safe_assert (key \<noteq> undef_key);
     (case m t of
        None \<Rightarrow> Some undef
      | Some mm \<Rightarrow> (case mm_find mm key of
           None \<Rightarrow> Some undef
         | Some v \<Rightarrow> do { safe_assert (v \<noteq> undef); Some v })) }"

definition aux1_set ::
  "'k::linorder \<Rightarrow> 'v \<Rightarrow> ('k, 'v) aux1 \<Rightarrow> 'k \<Rightarrow> 'v \<Rightarrow> tid \<Rightarrow> ('k, 'v) aux1 option" where
  "aux1_set undef_key undef m key v t = do {
     safe_assert (key \<noteq> undef_key);
     let mm = (case m t of None \<Rightarrow> [] | Some mm \<Rightarrow> mm);
     Some (m(t \<mapsto> (if v = undef then mm_erase mm key else mm_put mm key v))) }"

definition aux1_isset_key :: "'k \<Rightarrow> 'v \<Rightarrow> ('k, 'v) aux1 \<Rightarrow> 'k \<Rightarrow> tid \<Rightarrow> bool option" where
  "aux1_isset_key undef_key undef m key t = do {
     safe_assert (key \<noteq> undef_key);
     (case m t of
        None \<Rightarrow> Some False
      | Some mm \<Rightarrow> (case mm_find mm key of
           None \<Rightarrow> Some False
         | Some v \<Rightarrow> do { safe_assert (v \<noteq> undef); Some True })) }"

definition aux1_isset :: "('k, 'v) aux1 \<Rightarrow> tid \<Rightarrow> bool" where
  "aux1_isset m t = (case m t of None \<Rightarrow> False | Some mm \<Rightarrow> mm \<noteq> [])"

definition aux1_get_first_key :: "'k \<Rightarrow> ('k, 'v) aux1 \<Rightarrow> tid \<Rightarrow> 'k option" where
  "aux1_get_first_key undef_key m t = (case m t of
     None \<Rightarrow> None
   | Some [] \<Rightarrow> Some undef_key
   | Some ((k, v) # mm) \<Rightarrow> do { safe_assert (k \<noteq> undef_key); Some k })"

text \<open>For an empty inner map the code returns \<open>undef_key_\<close>, converted to the value type; the
  conversion is the argument \<open>conv\<close>.\<close>

definition aux1_get_first_value ::
  "('k \<Rightarrow> 'v) \<Rightarrow> 'k \<Rightarrow> 'v \<Rightarrow> ('k, 'v) aux1 \<Rightarrow> tid \<Rightarrow> 'v option" where
  "aux1_get_first_value conv undef_key undef m t = (case m t of
     None \<Rightarrow> None
   | Some [] \<Rightarrow> Some (conv undef_key)
   | Some ((k, v) # mm) \<Rightarrow> do { safe_assert (v \<noteq> undef); Some v })"

definition aux1_reset :: "('k, 'v) aux1 \<Rightarrow> tid \<Rightarrow> ('k, 'v) aux1" where
  "aux1_reset m t = (case m t of None \<Rightarrow> m | Some mm \<Rightarrow> m(t \<mapsto> []))"

definition aux1_clear :: "('k, 'v) aux1 \<Rightarrow> ('k, 'v) aux1" where
  "aux1_clear m = Map.empty"

definition aux1_ok :: "'k::linorder \<Rightarrow> 'v \<Rightarrow> ('k, 'v) aux1 \<Rightarrow> bool" where
  "aux1_ok undef_key undef m \<longleftrightarrow>
     (\<forall>mm \<in> ran m. mm_ok undef mm \<and> undef_key \<notin> fst ` set mm)"

section \<open>The contract of an auxiliary variable\<close>

text \<open>
  What the monitor (which writes and resets) and the predicates (which read) rely on.  The key of
  \<open>AuxVar0\<close> is the thread, the key of \<open>AuxVar1\<close> is a pair of a key and a thread.
\<close>

locale aux_store =
  fixes get :: "'m \<Rightarrow> 'k \<Rightarrow> 'v option"
    and put :: "'m \<Rightarrow> 'k \<Rightarrow> 'v \<Rightarrow> 'm option"
    and isset :: "'m \<Rightarrow> 'k \<Rightarrow> bool option"
    and ok :: "'m \<Rightarrow> bool"
    and valid :: "'k \<Rightarrow> bool"
    and undef :: 'v
  assumes put_ok: "ok m \<Longrightarrow> valid k \<Longrightarrow> \<exists>m'. put m k v = Some m' \<and> ok m'"
    and get_put: "ok m \<Longrightarrow> valid k \<Longrightarrow> valid k' \<Longrightarrow> put m k v = Some m' \<Longrightarrow>
                    get m' k' = (if k' = k then Some v else get m k')"
    and get_total: "ok m \<Longrightarrow> valid k \<Longrightarrow> get m k \<noteq> None"
    and isset_get: "ok m \<Longrightarrow> valid k \<Longrightarrow> isset m k = Some (get m k \<noteq> Some undef)"
begin

fun put_all :: "'m \<Rightarrow> ('k \<times> 'v) list \<Rightarrow> 'm option" where
  "put_all m [] = Some m"
| "put_all m ((k, v) # ws) = do { m' \<leftarrow> put m k v; put_all m' ws }"

lemma put_all_ok:
  "ok m \<Longrightarrow> (\<And>k v. (k, v) \<in> set ws \<Longrightarrow> valid k) \<Longrightarrow> \<exists>m'. put_all m ws = Some m' \<and> ok m'"
proof (induction ws arbitrary: m)
  case (Cons w ws)
  obtain k v where w: "w = (k, v)" by (cases w)
  with Cons.prems obtain m1 where "put m k v = Some m1" "ok m1"
    using put_ok [of m k v] by auto
  with w Cons.IH [of m1] Cons.prems show ?case by auto
qed simp

text \<open>After a sequence of writes a key reads as its last write, and as before if it was not
  written.\<close>

lemma get_put_all:
  assumes "ok m" "\<And>k v. (k, v) \<in> set ws \<Longrightarrow> valid k" "valid k" "put_all m ws = Some m'"
  shows "get m' k = (case map_of (rev ws) k of None \<Rightarrow> get m k | Some v \<Rightarrow> Some v)"
  using assms
proof (induction ws arbitrary: m)
  case (Cons w ws)
  obtain a v where w: "w = (a, v)" by (cases w)
  from Cons.prems w have va: "valid a" by auto
  obtain m1 where m1: "put m a v = Some m1" "ok m1"
    using put_ok [of m a v] Cons.prems va by auto
  from Cons.prems(4) w m1 have "put_all m1 ws = Some m'" by simp
  hence "get m' k = (case map_of (rev ws) k of None \<Rightarrow> get m1 k | Some v \<Rightarrow> Some v)"
    using Cons.IH [of m1] m1 Cons.prems by auto
  moreover have "get m1 k = (if k = a then Some v else get m k)"
    using get_put [OF _ va _ m1(1)] Cons.prems by auto
  ultimately show ?case using w by (auto simp: map_add_def split: option.splits)
qed simp

lemma isset_put:
  "ok m \<Longrightarrow> valid k \<Longrightarrow> put m k v = Some m' \<Longrightarrow> ok m' \<Longrightarrow> isset m' k = Some (v \<noteq> undef)"
  by (simp add: isset_get get_put)

lemma isset_put_other:
  "ok m \<Longrightarrow> valid k \<Longrightarrow> valid k' \<Longrightarrow> k' \<noteq> k \<Longrightarrow> put m k v = Some m' \<Longrightarrow> ok m' \<Longrightarrow>
   isset m' k' = isset m k'"
  by (simp add: isset_get get_put)

end

lemma aux0_set_ok: "aux0_ok undef m \<Longrightarrow> aux0_ok undef (aux0_set undef m v t)"
  by (auto simp: aux0_ok_def aux0_set_def ran_def split: if_splits)

lemma aux0_get_ok: "aux0_ok undef m \<Longrightarrow> aux0_get undef m t = Some (case m t of None \<Rightarrow> undef | Some v \<Rightarrow> v)"
  by (auto simp: aux0_ok_def aux0_get_def ran_def abort_simps split: option.splits)

lemma aux0_get_set:
  "aux0_ok undef m \<Longrightarrow>
   aux0_get undef (aux0_set undef m v t) t' = (if t' = t then Some v else aux0_get undef m t')"
  by (auto simp: aux0_get_def aux0_set_def abort_simps split: option.splits)

lemma aux0_isset_ok: "aux0_ok undef m \<Longrightarrow> aux0_isset undef m t = Some (m t \<noteq> None)"
  by (auto simp: aux0_isset_def aux0_get_ok aux0_ok_def ran_def split: option.splits)

lemma aux0_get_total: "aux0_ok undef m \<Longrightarrow> \<exists>v. aux0_get undef m t = Some v"
  by (simp add: aux0_get_ok)

interpretation a0: aux_store "aux0_get undef" "\<lambda>m t v. Some (aux0_set undef m v t)"
  "aux0_isset undef" "aux0_ok undef" "\<lambda>t. True" undef for undef
  by unfold_locales
    (auto simp: aux0_set_ok aux0_get_set aux0_isset_def abort_simps
      dest: aux0_get_total)

lemma aux1_inner_ok:
  "aux1_ok undef_key undef m \<Longrightarrow> m t = Some mm \<Longrightarrow> mm_ok undef mm \<and> undef_key \<notin> fst ` set mm"
  by (auto simp: aux1_ok_def ran_def)

lemma mm_find_ok: "mm_ok undef mm \<Longrightarrow> mm_find mm k = Some v \<Longrightarrow> v \<noteq> undef"
  by (force simp: mm_ok_def dest: mm_find_set)

lemma aux1_get_ok:
  "aux1_ok undef_key undef m \<Longrightarrow> k \<noteq> undef_key \<Longrightarrow>
   aux1_get undef_key undef m k t = Some (case m t of None \<Rightarrow> undef
     | Some mm \<Rightarrow> (case mm_find mm k of None \<Rightarrow> undef | Some v \<Rightarrow> v))"
  by (auto simp: aux1_get_def safe_assert_bind split: option.splits
      dest!: aux1_inner_ok dest: mm_find_ok)

lemma aux1_isset_key_ok:
  "aux1_ok undef_key undef m \<Longrightarrow> k \<noteq> undef_key \<Longrightarrow>
   aux1_isset_key undef_key undef m k t = Some (aux1_get undef_key undef m k t \<noteq> Some undef)"
  by (auto simp: aux1_get_ok aux1_isset_key_def safe_assert_bind split: option.splits
      dest!: aux1_inner_ok dest: mm_find_ok)

lemma aux1_set_Some:
  "k \<noteq> undef_key \<Longrightarrow> aux1_set undef_key undef m k v t = Some (m(t \<mapsto>
     (if v = undef then mm_erase (case m t of None \<Rightarrow> [] | Some mm \<Rightarrow> mm) k
      else mm_put (case m t of None \<Rightarrow> [] | Some mm \<Rightarrow> mm) k v)))"
  by (simp add: aux1_set_def Let_def)

lemma aux1_set_ok:
  assumes "aux1_ok undef_key undef m" "aux1_set undef_key undef m k v t = Some m'"
  shows "aux1_ok undef_key undef m'"
proof -
  define mm where "mm = (case m t of None \<Rightarrow> [] | Some mm \<Rightarrow> mm)"
  from assms(2) have k: "k \<noteq> undef_key" by (auto simp: aux1_set_def)
  have mm: "mm_ok undef mm" "undef_key \<notin> fst ` set mm"
    using aux1_inner_ok [OF assms(1), of t] unfolding mm_def by (cases "m t"; simp add: mm_ok_def)+
  let ?r = "if v = undef then mm_erase mm k else mm_put mm k v"
  have "mm_ok undef ?r" "undef_key \<notin> fst ` set ?r"
    using mm k by (auto simp: mm_put_keys mm_erase_keys simp del: image_iff)
  moreover have "m' = m(t \<mapsto> ?r)" using assms(2) k by (auto simp: aux1_set_Some mm_def)
  ultimately show ?thesis
    using assms(1) by (auto simp: aux1_ok_def ran_def)
qed

lemma aux1_get_set:
  assumes "aux1_ok undef_key undef m" "k \<noteq> undef_key" "k' \<noteq> undef_key"
    "aux1_set undef_key undef m k v t = Some m'"
  shows "aux1_get undef_key undef m' k' t' =
     (if (k', t') = (k, t) then Some v else aux1_get undef_key undef m k' t')"
proof -
  have ok': "aux1_ok undef_key undef m'" using assms aux1_set_ok by metis
  have m': "m' = m(t \<mapsto> (if v = undef then mm_erase (case m t of None \<Rightarrow> [] | Some mm \<Rightarrow> mm) k
      else mm_put (case m t of None \<Rightarrow> [] | Some mm \<Rightarrow> mm) k v))"
    using assms by (simp add: aux1_set_Some)
  show ?thesis
    unfolding aux1_get_ok [OF ok' assms(3)] aux1_get_ok [OF assms(1,3)]
    using assms(2) by (auto simp: m' split: option.splits)
qed

lemma aux1_get_total:
  "aux1_ok undef_key undef m \<Longrightarrow> k \<noteq> undef_key \<Longrightarrow> \<exists>v. aux1_get undef_key undef m k t = Some v"
  by (simp add: aux1_get_ok)

interpretation a1: aux_store "\<lambda>m (k, t). aux1_get undef_key undef m k t"
  "\<lambda>m (k, t) v. aux1_set undef_key undef m k v t"
  "\<lambda>m (k, t). aux1_isset_key undef_key undef m k t"
  "aux1_ok undef_key undef" "\<lambda>(k, t). k \<noteq> undef_key" undef for undef_key undef
proof (unfold_locales, goal_cases)
  case (1 m k v)
  then show ?case using aux1_set_ok [of undef_key undef m "fst k" v "snd k"]
    by (cases k) (simp add: aux1_set_Some)
next
  case (2 m k k' v m')
  then show ?case by (cases k; cases k') (simp add: aux1_get_set)
next
  case (3 m k)
  then show ?case by (cases k) (auto dest: aux1_get_total)
next
  case (4 m k)
  then show ?case by (cases k) (simp add: aux1_isset_key_ok)
qed

lemma aux1_reset_ok: "aux1_ok undef_key undef m \<Longrightarrow> aux1_ok undef_key undef (aux1_reset m t)"
  by (auto simp: aux1_reset_def aux1_ok_def mm_ok_def ran_def split: option.splits if_splits)

lemma aux1_reset_isset: "\<not> aux1_isset (aux1_reset m t) t"
  by (auto simp: aux1_reset_def aux1_isset_def split: option.splits)

lemma aux1_reset_get:
  "aux1_ok undef_key undef m \<Longrightarrow> k \<noteq> undef_key \<Longrightarrow>
   aux1_get undef_key undef (aux1_reset m t) k t' =
     (if t' = t then Some undef else aux1_get undef_key undef m k t')"
  by (auto simp: aux1_get_ok aux1_reset_ok) (auto simp: aux1_reset_def split: option.splits)

lemma aux1_isset_iff_key:
  assumes "aux1_ok undef_key undef m"
  shows "aux1_isset m t \<longleftrightarrow> (\<exists>k. k \<noteq> undef_key \<and> aux1_isset_key undef_key undef m k t = Some True)"
proof (cases "m t")
  case None
  then show ?thesis by (auto simp: aux1_isset_def aux1_isset_key_def safe_assert_bind)
next
  case (Some mm)
  show ?thesis
  proof (cases mm)
    case Nil
    with Some show ?thesis by (auto simp: aux1_isset_def aux1_isset_key_def safe_assert_bind)
  next
    case (Cons e mm')
    obtain k v where e: "e = (k, v)" by (cases e)
    have "k \<noteq> undef_key" "v \<noteq> undef"
      using aux1_inner_ok [OF assms Some] Cons e by (auto simp: mm_ok_def)
    hence "aux1_isset_key undef_key undef m k t = Some True"
      using Some Cons e by (simp add: aux1_isset_key_def safe_assert_bind)
    with \<open>k \<noteq> undef_key\<close> show ?thesis using Some Cons by (auto simp: aux1_isset_def)
  qed
qed

lemma aux1_first_key:
  assumes "aux1_ok undef_key undef m" "aux1_isset m t"
  shows "\<exists>k. aux1_get_first_key undef_key m t = Some k \<and> k \<noteq> undef_key
           \<and> aux1_isset_key undef_key undef m k t = Some True
           \<and> (\<forall>k'. aux1_isset_key undef_key undef m k' t = Some True \<longrightarrow> k \<le> k')"
proof -
  from assms(2) obtain k v mm where m: "m t = Some ((k, v) # mm)"
    by (auto simp: aux1_isset_def neq_Nil_conv split: option.splits)
  from aux1_inner_ok [OF assms(1) m]
  have ok: "mm_ok undef ((k, v) # mm)" "k \<noteq> undef_key" "v \<noteq> undef" by (auto simp: mm_ok_def)
  have "k \<le> k'" if "aux1_isset_key undef_key undef m k' t = Some True" for k'
  proof -
    have "k' \<in> fst ` set ((k, v) # mm)"
      using that m by (auto simp: aux1_isset_key_def safe_assert_bind dest: mm_find_set
          split: option.splits if_splits) (force dest: mm_find_set)
    thus ?thesis using mm_first_min [OF ok(1)] by simp
  qed
  with m ok show ?thesis
    by (auto simp: aux1_get_first_key_def aux1_isset_key_def safe_assert_bind)
qed

section \<open>Properties\<close>

text \<open>C28: When a keyed auxiliary variable is set for a thread, get_first_key returns
  without an abort the least key that is set for that thread.\<close>

theorem first_key_is_least:
  assumes "aux1_ok undef_key undef m" "aux1_isset m t"
  shows "\<exists>k. aux1_get_first_key undef_key m t = Some k \<and> k \<noteq> undef_key
           \<and> aux1_isset_key undef_key undef m k t = Some True
           \<and> {k'. aux1_isset_key undef_key undef m k' t = Some True} \<subseteq> {k..}"
  using aux1_first_key [OF assms] by (auto simp: subset_iff)

theorem first_key_is_least_witness:
  "\<exists>k. aux1_get_first_key 0 [1 \<mapsto> [(2, 5 :: nat), (7, 3)]] 1 = Some k \<and> k \<noteq> (0 :: nat)
           \<and> aux1_isset_key 0 (0 :: nat) [1 \<mapsto> [(2, 5 :: nat), (7, 3)]] k 1 = Some True
           \<and> {k'. aux1_isset_key 0 0 [1 \<mapsto> [(2, 5 :: nat), (7, 3)]] k' 1 = Some True} \<subseteq> {k..}"
  by (rule first_key_is_least) (auto simp: aux1_ok_def mm_ok_def aux1_isset_def)

end
