(* ===== verification/Sync_Prims.thy ===== *)
theory Sync_Prims
  imports Concurrit_Prelude
begin

text \<open>
  thread.h and thread.cpp: the recursive \<open>Mutex\<close> over a POSIX mutex, \<open>RWLock\<close>, the scope guards,
  \<open>ConditionVar\<close> and \<open>Semaphore\<close>.

  A \<open>pthread_t\<close> is a natural number with 0 for \<open>PTH_INVALID_THREAD\<close>.  The POSIX objects are
  modelled by their specification: a mutex is the thread that holds it, a read/write lock its
  readers and its writer, a semaphore its value.  The first part treats a call as one step
  (\<open>Blocks\<close> is a call that waits in the POSIX function); the second part splits Lock, Unlock and
  the wait on a condition variable at every access to shared memory and interleaves the threads.
\<close>

type_synonym pthread = nat

definition PTH_INVALID_THREAD :: pthread where
  "PTH_INVALID_THREAD = 0"

datatype errno = PTH_SUCCESS | EINVAL | ESRCH | EDEADLK | EAGAIN | EPERM | EBUSY | EINTR | ETIMEDOUT

fun PTHResultToString :: "errno \<Rightarrow> string" where
  "PTHResultToString EINVAL = ''EINVAL''"
| "PTHResultToString ESRCH = ''ESRCH''"
| "PTHResultToString EDEADLK = ''EDEADLK''"
| "PTHResultToString EAGAIN = ''EAGAIN''"
| "PTHResultToString EPERM = ''EPERM''"
| "PTHResultToString _ = ''UNKNOWN'' @ [CHR 0x0A]"

datatype 'a call = Blocks | Returns 'a
  \<comment> \<open>a call that waits for another thread, or its result\<close>

section \<open>Mutex\<close>

record mutex =
  mu_mutex :: "pthread option"
  mu_owner :: pthread
  mu_count :: int

definition Mutex :: mutex where
  "Mutex = \<lparr> mu_mutex = None, mu_owner = PTH_INVALID_THREAD, mu_count = 0 \<rparr>"

text \<open>The POSIX mutex of the default (normal) type: locking waits while it is held, by whomever;
  unlocking is for its holder.\<close>

definition pthread_mutex_lock :: "pthread \<Rightarrow> mutex \<Rightarrow> mutex call" where
  "pthread_mutex_lock self m = (case mu_mutex m of
     None \<Rightarrow> Returns (m\<lparr> mu_mutex := Some self \<rparr>) | Some _ \<Rightarrow> Blocks)"

definition pthread_mutex_unlock :: "pthread \<Rightarrow> mutex \<Rightarrow> errno \<times> mutex" where
  "pthread_mutex_unlock self m =
     (if mu_mutex m = Some self then (PTH_SUCCESS, m\<lparr> mu_mutex := None \<rparr>) else (EPERM, m))"

definition Mutex_Lock :: "pthread \<Rightarrow> mutex \<Rightarrow> mutex call option" where
  "Mutex_Lock self m = do {
     safe_assert (self \<noteq> PTH_INVALID_THREAD);
     if mu_owner m = self then do {
       safe_assert (mu_count m \<ge> 1);
       Some (Returns (m\<lparr> mu_count := mu_count m + 1 \<rparr>))
     } else (case pthread_mutex_lock self m of
       Blocks \<Rightarrow> Some Blocks
     | Returns m1 \<Rightarrow> do {
         safe_assert (mu_owner m1 = PTH_INVALID_THREAD);
         safe_assert (mu_count m1 = 0);
         Some (Returns (m1\<lparr> mu_owner := self, mu_count := 1 \<rparr>)) }) }"

definition Mutex_Unlock :: "pthread \<Rightarrow> mutex \<Rightarrow> mutex option" where
  "Mutex_Unlock self m = do {
     safe_assert (self \<noteq> PTH_INVALID_THREAD);
     safe_assert (mu_owner m = self);
     safe_assert (mu_count m \<ge> 1);
     let m1 = m\<lparr> mu_count := mu_count m - 1 \<rparr>;
     if mu_count m1 = 0 then do {
       let (e, m2) = pthread_mutex_unlock self (m1\<lparr> mu_owner := PTH_INVALID_THREAD \<rparr>);
       safe_assert (e = PTH_SUCCESS);
       Some m2
     } else Some m1 }"

definition FullUnlockAux :: "pthread \<Rightarrow> mutex \<Rightarrow> ((pthread \<times> int) \<times> mutex) option" where
  "FullUnlockAux self m = do {
     safe_assert (self \<noteq> PTH_INVALID_THREAD);
     safe_assert (mu_owner m = self);
     safe_assert (mu_count m \<ge> 1);
     Some ((self, mu_count m), m\<lparr> mu_owner := PTH_INVALID_THREAD, mu_count := 0 \<rparr>) }"

definition FullLockAux :: "pthread \<Rightarrow> pthread \<times> int \<Rightarrow> mutex \<Rightarrow> mutex option" where
  "FullLockAux self st m = do {
     safe_assert (self \<noteq> PTH_INVALID_THREAD);
     safe_assert (mu_owner m = PTH_INVALID_THREAD);
     safe_assert (mu_count m = 0);
     let m1 = m\<lparr> mu_owner := fst st, mu_count := snd st \<rparr>;
     safe_assert (mu_owner m1 = self);
     safe_assert (mu_count m1 \<ge> 1);
     Some m1 }"

definition Mutex_TryLock :: "pthread \<Rightarrow> mutex \<Rightarrow> (bool \<times> mutex) option" where
  "Mutex_TryLock self m = (case mu_mutex m of
     Some _ \<Rightarrow> Some (False, m)
   | None \<Rightarrow> do { safe_assert False; Some (True, m\<lparr> mu_mutex := Some self \<rparr>) })"

definition IsLocked :: "mutex \<Rightarrow> bool" where
  "IsLocked m \<longleftrightarrow> mu_owner m \<noteq> PTH_INVALID_THREAD"

definition IsLockedBySelf :: "pthread \<Rightarrow> mutex \<Rightarrow> bool option" where
  "IsLockedBySelf self m = do {
     safe_assert (self \<noteq> PTH_INVALID_THREAD); Some (mu_owner m = self) }"

definition mutex_ok :: "mutex \<Rightarrow> bool" where
  "mutex_ok m \<longleftrightarrow> (case mu_mutex m of
     None \<Rightarrow> mu_owner m = PTH_INVALID_THREAD \<and> mu_count m = 0
   | Some t \<Rightarrow> t \<noteq> PTH_INVALID_THREAD \<and> mu_owner m = t \<and> mu_count m \<ge> 1)"

lemmas mutex_defs = Mutex_Lock_def Mutex_Unlock_def pthread_mutex_lock_def pthread_mutex_unlock_def
  FullUnlockAux_def FullLockAux_def IsLocked_def IsLockedBySelf_def mutex_ok_def safe_assert_bind Let_def

lemma Mutex_ok: "mutex_ok Mutex"
  by (simp add: mutex_ok_def Mutex_def)

lemma Lock_ok: "mutex_ok m \<Longrightarrow> Mutex_Lock self m = Some (Returns m') \<Longrightarrow> mutex_ok m' \<and> mu_owner m' = self"
  by (auto simp: mutex_defs split: option.splits if_splits)

lemma Lock_total: "mutex_ok m \<Longrightarrow> self \<noteq> PTH_INVALID_THREAD \<Longrightarrow> \<exists>c. Mutex_Lock self m = Some c"
  by (auto simp: mutex_defs split: option.splits)

lemma Unlock_ok: "mutex_ok m \<Longrightarrow> Mutex_Unlock self m = Some m' \<Longrightarrow> mutex_ok m'"
  by (auto simp: mutex_defs split: option.splits if_splits)

lemma Unlock_total:
  "mutex_ok m \<Longrightarrow> self \<noteq> PTH_INVALID_THREAD \<Longrightarrow> mu_owner m = self \<Longrightarrow> \<exists>m'. Mutex_Unlock self m = Some m'"
  by (auto simp: mutex_defs split: option.splits)

lemma Lock_blocks_iff:
  "mutex_ok m \<Longrightarrow> self \<noteq> PTH_INVALID_THREAD \<Longrightarrow>
   Mutex_Lock self m = Some Blocks \<longleftrightarrow> IsLocked m \<and> mu_owner m \<noteq> self"
  by (auto simp: mutex_defs split: option.splits)

lemma Unlock_Lock:
  "mutex_ok m \<Longrightarrow> Mutex_Lock self m = Some (Returns m') \<Longrightarrow> Mutex_Unlock self m' = Some m"
  by (auto simp: mutex_defs split: option.splits if_splits)

lemma FullLock_FullUnlock:
  "mutex_ok m \<Longrightarrow> FullUnlockAux self m = Some (st, m1) \<Longrightarrow> FullLockAux self st m1 = Some m"
  by (auto simp: mutex_defs split: option.splits if_splits)

lemma TryLock_free_aborts: "Mutex_TryLock self Mutex = None"
  by (simp add: Mutex_TryLock_def Mutex_def safe_assert_def)

section \<open>ConditionVar\<close>

text \<open>A wait gives the mutex away completely, lets the other threads run (\<open>others\<close> is what they do
  to the mutex while the caller sleeps) and takes it again with the owner and the count it saved.
  For the timed wait every round of its loop has the result of \<open>pthread_cond_timedwait\<close> and what
  the others did.\<close>

definition cond_sleep :: "pthread \<Rightarrow> (mutex \<Rightarrow> mutex) \<Rightarrow> mutex \<Rightarrow> mutex call" where
  "cond_sleep self others m = pthread_mutex_lock self (others (m\<lparr> mu_mutex := None \<rparr>))"

definition CV_Wait :: "pthread \<Rightarrow> (mutex \<Rightarrow> mutex) \<Rightarrow> mutex \<Rightarrow> mutex call option" where
  "CV_Wait self others m = do {
     safe_assert (IsLocked m);
     (st, m1) \<leftarrow> FullUnlockAux self m;
     (case cond_sleep self others m1 of
        Blocks \<Rightarrow> Some Blocks
      | Returns m2 \<Rightarrow> do { m3 \<leftarrow> FullLockAux self st m2; Some (Returns m3) }) }"

fun CV_timed_loop ::
  "pthread \<Rightarrow> (errno \<times> (mutex \<Rightarrow> mutex)) list \<Rightarrow> mutex \<Rightarrow> (errno \<times> mutex) call option" where
  "CV_timed_loop self [] m = Some Blocks"
| "CV_timed_loop self ((e, others) # evs) m = do {
     safe_assert (IsLocked m);
     (st, m1) \<leftarrow> FullUnlockAux self m;
     (case cond_sleep self others m1 of
        Blocks \<Rightarrow> Some Blocks
      | Returns m2 \<Rightarrow>
          if e = PTH_SUCCESS \<or> e = ETIMEDOUT
          then do { m3 \<leftarrow> FullLockAux self st m2; Some (Returns (e, m3)) }
          else do { safe_assert (e = EINTR); CV_timed_loop self evs m2 }) }"

definition CV_WaitTimed ::
  "pthread \<Rightarrow> int \<Rightarrow> (errno \<times> (mutex \<Rightarrow> mutex)) list \<Rightarrow> (mutex \<Rightarrow> mutex) \<Rightarrow> mutex \<Rightarrow> (errno \<times> mutex) call option" where
  "CV_WaitTimed self timeout evs others m = (if timeout \<le> 0
     then do { c \<leftarrow> CV_Wait self others m;
               Some (case c of Blocks \<Rightarrow> Blocks | Returns m1 \<Rightarrow> Returns (PTH_SUCCESS, m1)) }
     else CV_timed_loop self evs m)"

lemma CV_Wait_restores:
  assumes "mutex_ok m" "mu_owner m = self" "self \<noteq> PTH_INVALID_THREAD"
    and others: "\<And>m. mutex_ok m \<Longrightarrow> mutex_ok (others m)"
  shows "CV_Wait self others m \<in> {Some Blocks, Some (Returns m)}"
proof -
  let ?m1 = "m\<lparr> mu_owner := PTH_INVALID_THREAD, mu_count := 0, mu_mutex := None \<rparr>"
  have "mutex_ok (others ?m1)" by (rule others) (simp add: mutex_ok_def)
  then show ?thesis using assms(1-3)
    by (cases m; cases "others ?m1")
      (auto simp: CV_Wait_def cond_sleep_def mutex_defs split: option.splits)
qed

lemma CV_timed_interrupted:
  assumes "mutex_ok m" "mu_owner m = self" "self \<noteq> PTH_INVALID_THREAD"
    and others: "\<And>m. mutex_ok m \<Longrightarrow> mutex_ok (others m)"
  shows "CV_timed_loop self ((EINTR, others) # ev # evs) m \<in> {Some Blocks, None}"
proof -
  let ?m1 = "m\<lparr> mu_owner := PTH_INVALID_THREAD, mu_count := 0, mu_mutex := None \<rparr>"
  have "mutex_ok (others ?m1)" by (rule others) (simp add: mutex_ok_def)
  then show ?thesis using assms(1-3)
    by (cases m; cases "others ?m1"; cases ev)
      (auto simp: cond_sleep_def mutex_defs split: option.splits)
qed

section \<open>RWLock\<close>

record rwlock =
  rw_readers :: nat
  rw_writer :: "pthread option"

definition RWLock :: rwlock where
  "RWLock = \<lparr> rw_readers = 0, rw_writer = None \<rparr>"

text \<open>The POSIX calls: an error is returned to the writer that locks again and to an unlock of a
  lock nobody holds; otherwise a call that cannot proceed waits.\<close>

definition pthread_rwlock_rdlock :: "pthread \<Rightarrow> rwlock \<Rightarrow> (errno \<times> rwlock) call" where
  "pthread_rwlock_rdlock self l = (case rw_writer l of
     None \<Rightarrow> Returns (PTH_SUCCESS, l\<lparr> rw_readers := rw_readers l + 1 \<rparr>)
   | Some w \<Rightarrow> if w = self then Returns (EDEADLK, l) else Blocks)"

definition pthread_rwlock_wrlock :: "pthread \<Rightarrow> rwlock \<Rightarrow> (errno \<times> rwlock) call" where
  "pthread_rwlock_wrlock self l =
     (if rw_writer l = Some self then Returns (EDEADLK, l)
      else if rw_writer l = None \<and> rw_readers l = 0 then Returns (PTH_SUCCESS, l\<lparr> rw_writer := Some self \<rparr>)
      else Blocks)"

definition pthread_rwlock_unlock :: "pthread \<Rightarrow> rwlock \<Rightarrow> errno \<times> rwlock" where
  "pthread_rwlock_unlock self l =
     (if rw_writer l = Some self then (PTH_SUCCESS, l\<lparr> rw_writer := None \<rparr>)
      else if rw_readers l > 0 then (PTH_SUCCESS, l\<lparr> rw_readers := rw_readers l - 1 \<rparr>)
      else (EPERM, l))"

definition RLock :: "pthread \<Rightarrow> rwlock \<Rightarrow> rwlock call option" where
  "RLock self l = (case pthread_rwlock_rdlock self l of
     Blocks \<Rightarrow> Some Blocks
   | Returns r \<Rightarrow> do { safe_assert (fst r = PTH_SUCCESS); Some (Returns (snd r)) })"

definition WLock :: "pthread \<Rightarrow> rwlock \<Rightarrow> rwlock call option" where
  "WLock self l = (case pthread_rwlock_wrlock self l of
     Blocks \<Rightarrow> Some Blocks
   | Returns r \<Rightarrow> do { safe_assert (fst r = PTH_SUCCESS); Some (Returns (snd r)) })"

definition RW_Unlock :: "pthread \<Rightarrow> rwlock \<Rightarrow> rwlock option" where
  "RW_Unlock self l = do {
     let r = pthread_rwlock_unlock self l;
     safe_assert (fst r = PTH_SUCCESS);
     Some (snd r) }"

definition RUnlock :: "pthread \<Rightarrow> rwlock \<Rightarrow> rwlock option" where
  "RUnlock self l = RW_Unlock self l"

definition WUnlock :: "pthread \<Rightarrow> rwlock \<Rightarrow> rwlock option" where
  "WUnlock self l = RW_Unlock self l"

definition TryRLock :: "pthread \<Rightarrow> rwlock \<Rightarrow> (bool \<times> rwlock) option" where
  "TryRLock self l = (if rw_writer l \<noteq> None then Some (False, l)
     else do { safe_assert False; Some (True, l\<lparr> rw_readers := rw_readers l + 1 \<rparr>) })"

definition TryWLock :: "pthread \<Rightarrow> rwlock \<Rightarrow> (bool \<times> rwlock) option" where
  "TryWLock self l = (if rw_writer l \<noteq> None \<or> rw_readers l > 0 then Some (False, l)
     else do { safe_assert False; Some (True, l\<lparr> rw_writer := Some self \<rparr>) })"

definition rw_ok :: "rwlock \<Rightarrow> bool" where
  "rw_ok l \<longleftrightarrow> (rw_writer l \<noteq> None \<longrightarrow> rw_readers l = 0)"

lemmas rw_defs = RLock_def WLock_def RW_Unlock_def RUnlock_def WUnlock_def pthread_rwlock_rdlock_def
  pthread_rwlock_wrlock_def pthread_rwlock_unlock_def rw_ok_def safe_assert_bind Let_def

lemma RWLock_ok: "rw_ok RWLock"
  by (simp add: rw_ok_def RWLock_def)

lemma RLock_ok: "rw_ok l \<Longrightarrow> RLock self l = Some (Returns l') \<Longrightarrow> rw_ok l' \<and> rw_readers l' = rw_readers l + 1"
  by (auto simp: rw_defs split: option.splits if_splits)

lemma WLock_ok: "rw_ok l \<Longrightarrow> WLock self l = Some (Returns l') \<Longrightarrow> rw_ok l' \<and> rw_writer l' = Some self \<and> l = RWLock"
  by (cases l) (auto simp: rw_defs RWLock_def split: if_splits)

lemma RW_Unlock_ok: "rw_ok l \<Longrightarrow> RW_Unlock self l = Some l' \<Longrightarrow> rw_ok l'"
  by (auto simp: rw_defs split: if_splits)

lemma RUnlock_RLock: "rw_ok l \<Longrightarrow> RLock self l = Some (Returns l') \<Longrightarrow> RW_Unlock self l' = Some l"
  by (auto simp: rw_defs split: option.splits if_splits)

lemma WUnlock_WLock: "rw_ok l \<Longrightarrow> WLock self l = Some (Returns l') \<Longrightarrow> RW_Unlock self l' = Some l"
  by (cases l) (auto simp: rw_defs split: if_splits)

lemma TryLocks_free_abort: "TryRLock self RWLock = None" "TryWLock self RWLock = None"
  by (auto simp: TryRLock_def TryWLock_def RWLock_def safe_assert_def)

section \<open>Scope guards\<close>

text \<open>A guard object takes the lock in its constructor and gives it back in its destructor; the
  scope between them is the body.  \<open>ScopeMutex\<close>, \<open>ScopeRLock\<close> and \<open>ScopeWLock\<close> are the pairs of
  operations; \<open>CondScopeMutex\<close> does it under the condition it was built with.\<close>

definition ScopeMutex :: "pthread \<Rightarrow> mutex \<Rightarrow> mutex call option" where
  "ScopeMutex self m = Mutex_Lock self m"

definition ScopeMutex_end :: "pthread \<Rightarrow> mutex \<Rightarrow> mutex option" where
  "ScopeMutex_end self m = Mutex_Unlock self m"

definition ScopeRLock :: "pthread \<Rightarrow> rwlock \<Rightarrow> rwlock call option" where
  "ScopeRLock self l = RLock self l"

definition ScopeWLock :: "pthread \<Rightarrow> rwlock \<Rightarrow> rwlock call option" where
  "ScopeWLock self l = WLock self l"

definition ScopeRWLock_end :: "pthread \<Rightarrow> rwlock \<Rightarrow> rwlock option" where
  "ScopeRWLock_end self l = RW_Unlock self l"

definition CondScopeMutex :: "bool \<Rightarrow> pthread \<Rightarrow> mutex \<Rightarrow> mutex call option" where
  "CondScopeMutex cond self m = (if cond then Mutex_Lock self m else Some (Returns m))"

definition CondScopeMutex_end :: "bool \<Rightarrow> pthread \<Rightarrow> mutex \<Rightarrow> mutex option" where
  "CondScopeMutex_end cond self m = (if cond then Mutex_Unlock self m else Some m)"

text \<open>A scope under \<open>n\<close> guards of the same thread, one inside the other.\<close>

fun scoped :: "('s \<Rightarrow> 's call option) \<Rightarrow> ('s \<Rightarrow> 's option) \<Rightarrow> nat \<Rightarrow> ('s \<Rightarrow> 's option) \<Rightarrow> 's \<Rightarrow> 's call option" where
  "scoped acq rel 0 body s = do { s1 \<leftarrow> body s; Some (Returns s1) }"
| "scoped acq rel (Suc n) body s = do {
     c \<leftarrow> acq s;
     (case c of Blocks \<Rightarrow> Some Blocks
      | Returns s1 \<Rightarrow> do {
          c2 \<leftarrow> scoped acq rel n body s1;
          (case c2 of Blocks \<Rightarrow> Some Blocks
           | Returns s2 \<Rightarrow> do { s3 \<leftarrow> rel s2; Some (Returns s3) }) }) }"

locale scope_lock =
  fixes ok :: "'s \<Rightarrow> bool"
    and acq :: "'s \<Rightarrow> 's call option"
    and rel :: "'s \<Rightarrow> 's option"
  assumes acq_ok: "ok s \<Longrightarrow> acq s = Some (Returns s') \<Longrightarrow> ok s'"
    and rel_acq: "ok s \<Longrightarrow> acq s = Some (Returns s') \<Longrightarrow> rel s' = Some s"
begin

lemma scoped_restores:
  assumes body: "\<And>s. ok s \<Longrightarrow> body s = Some s"
  shows "ok s \<Longrightarrow> scoped acq rel n body s = Some (Returns s') \<Longrightarrow> s' = s"
proof (induction n arbitrary: s s')
  case 0
  then show ?case using body by simp
next
  case (Suc n)
  from Suc.prems obtain s1 s2 where
    1: "acq s = Some (Returns s1)" and 2: "scoped acq rel n body s1 = Some (Returns s2)"
    and 3: "rel s2 = Some s'"
    by (cases "acq s"; simp) (auto simp: bind_Some_iff split: call.split_asm, metis call.exhaust)
  have "s2 = s1" using Suc.IH [OF acq_ok [OF Suc.prems(1) 1] 2] .
  with 3 rel_acq [OF Suc.prems(1) 1] show ?case by simp
qed

lemma scoped_no_abort:
  assumes body: "\<And>s. ok s \<Longrightarrow> body s = Some s"
    and acq_total: "\<And>s. ok s \<Longrightarrow> acq s \<noteq> None"
  shows "ok s \<Longrightarrow> scoped acq rel n body s \<noteq> None"
proof (induction n arbitrary: s)
  case 0
  then show ?case using body by simp
next
  case (Suc n)
  obtain c where c: "acq s = Some c" using acq_total [OF Suc.prems] by blast
  show ?case
  proof (cases c)
    case (Returns s1)
    have ok1: "ok s1" using acq_ok Suc.prems c Returns by blast
    obtain c2 where c2: "scoped acq rel n body s1 = Some c2" using Suc.IH [OF ok1] by blast
    show ?thesis
    proof (cases c2)
      case (Returns s2)
      then have "s2 = s1" using scoped_restores [OF body ok1] c2 by simp
      then show ?thesis
        using c c2 Returns \<open>c = Returns s1\<close> rel_acq [OF Suc.prems, of s1] by simp
    qed (use c c2 \<open>c = Returns s1\<close> in simp)
  qed (use c in simp)
qed

end

interpretation mx: scope_lock mutex_ok "ScopeMutex t" "ScopeMutex_end t" for t
  by unfold_locales (use Lock_ok Unlock_Lock in \<open>auto simp: ScopeMutex_def ScopeMutex_end_def\<close>)

interpretation rd: scope_lock rw_ok "ScopeRLock t" "ScopeRWLock_end t" for t
  by unfold_locales (use RLock_ok RUnlock_RLock in \<open>auto simp: ScopeRLock_def ScopeRWLock_end_def\<close>)

interpretation wr: scope_lock rw_ok "ScopeWLock t" "ScopeRWLock_end t" for t
  by unfold_locales (use WLock_ok WUnlock_WLock in \<open>auto simp: ScopeWLock_def ScopeRWLock_end_def\<close>)

interpretation cx: scope_lock mutex_ok "CondScopeMutex b t" "CondScopeMutex_end b t" for b t
  by unfold_locales
    (use Lock_ok Unlock_Lock in \<open>auto simp: CondScopeMutex_def CondScopeMutex_end_def split: if_splits\<close>)

section \<open>Semaphore\<close>

text \<open>A semaphore is its value.  \<open>sem_wait\<close> may be interrupted any number of times before it takes
  the semaphore; the interruptions of a call are the argument \<open>intr\<close>, the results of the system
  call before the last one.\<close>

type_synonym sem = nat

definition SEM_VALUE_MAX :: nat where
  "SEM_VALUE_MAX = 2147483647"

definition Sem_Get :: "sem \<Rightarrow> int" where
  "Sem_Get s = int s"

definition Sem_Init :: "int \<Rightarrow> sem option" where
  "Sem_Init count = do {
     safe_assert (BETWEEN 0 count (int SEM_VALUE_MAX));
     Some (nat count) }"

definition Sem_Set :: "int \<Rightarrow> sem \<Rightarrow> sem option" where
  "Sem_Set count s = (if Sem_Get s \<noteq> count then Sem_Init count else Some s)"

definition Sem_Signal :: "sem \<Rightarrow> sem option" where
  "Sem_Signal s = do { safe_assert (s < SEM_VALUE_MAX); Some (s + 1) }"

fun Sem_Wait :: "errno list \<Rightarrow> sem \<Rightarrow> sem call option" where
  "Sem_Wait [] s = Some (if s = 0 then Blocks else Returns (s - 1))"
| "Sem_Wait (e # intr) s = do { safe_assert (e = EINTR); Sem_Wait intr s }"

function Sem_Wait_n :: "int \<Rightarrow> sem \<Rightarrow> sem call option" where
  "Sem_Wait_n c s = (if 0 < c then
     (case Sem_Wait [] s of
        None \<Rightarrow> None | Some Blocks \<Rightarrow> Some Blocks | Some (Returns s1) \<Rightarrow> Sem_Wait_n (c - 1) s1)
     else Some (Returns s))"
  by pat_completeness auto
termination by (relation "measure (\<lambda>(c, _). nat c)") auto

function Sem_Signal_n :: "int \<Rightarrow> sem \<Rightarrow> sem option" where
  "Sem_Signal_n c s = (if 0 < c then
     (case Sem_Signal s of None \<Rightarrow> None | Some s1 \<Rightarrow> Sem_Signal_n (c - 1) s1)
     else Some s)"
  by pat_completeness auto
termination by (relation "measure (\<lambda>(c, _). nat c)") auto

declare Sem_Wait_n.simps [simp del] Sem_Signal_n.simps [simp del]

text \<open>The deadline of a timed wait: the time of day (seconds, microseconds) plus the timeout in
  microseconds, added by \<open>timeradd\<close>, as seconds and nanoseconds.  C division truncates; the
  timeout is positive here.\<close>

definition kOneSecondMicros :: int where
  "kOneSecondMicros = 1000000"

definition timeradd :: "int \<times> int \<Rightarrow> int \<times> int \<Rightarrow> int \<times> int" where
  "timeradd a b = (let sec = fst a + fst b; usec = snd a + snd b in
     if usec \<ge> 1000000 then (sec + 1, usec - 1000000) else (sec, usec))"

definition TIMEVAL_TO_TIMESPEC :: "int \<times> int \<Rightarrow> int \<times> int" where
  "TIMEVAL_TO_TIMESPEC tv = (fst tv, snd tv * 1000)"

definition wait_deadline :: "int \<times> int \<Rightarrow> int \<Rightarrow> int \<times> int" where
  "wait_deadline now timeout =
     TIMEVAL_TO_TIMESPEC (timeradd now (timeout div kOneSecondMicros, timeout mod kOneSecondMicros))"

text \<open>The result of a timed wait: the results of \<open>sem_timedwait\<close> against the fixed deadline, in
  order.  The call returns with the first result that is success or a timeout, and goes on after
  an interruption.  Without a timeout the call is a plain wait, and \<open>es\<close> its interruptions.\<close>

fun sem_timed_loop :: "errno list \<Rightarrow> sem \<Rightarrow> (errno \<times> sem) call option" where
  "sem_timed_loop [] s = Some Blocks"
| "sem_timed_loop (e # es) s =
     (if e = PTH_SUCCESS then (if s = 0 then Some Blocks else Some (Returns (PTH_SUCCESS, s - 1)))
      else if e = ETIMEDOUT then Some (Returns (ETIMEDOUT, s))
      else do { safe_assert (e = EINTR); sem_timed_loop es s })"

definition Sem_WaitTimed :: "int \<Rightarrow> errno list \<Rightarrow> sem \<Rightarrow> (errno \<times> sem) call option" where
  "Sem_WaitTimed timeout es s = (if timeout \<le> 0
     then do { c \<leftarrow> Sem_Wait es s;
               Some (case c of Blocks \<Rightarrow> Blocks | Returns s1 \<Rightarrow> Returns (PTH_SUCCESS, s1)) }
     else sem_timed_loop es s)"

lemma Sem_Wait_interrupted: "set intr \<subseteq> {EINTR} \<Longrightarrow> Sem_Wait intr s = Sem_Wait [] s"
  by (induction intr) auto

lemma Sem_Wait_n_total: "c \<le> int s \<Longrightarrow> 0 \<le> c \<Longrightarrow> Sem_Wait_n c s = Some (Returns (s - nat c))"
proof (induction c s rule: Sem_Wait_n.induct)
  case (1 c s)
  show ?case
    using 1 by (subst Sem_Wait_n.simps) (auto simp: nat_diff_distrib of_nat_diff)
qed

lemma Sem_Signal_n_total:
  "0 \<le> c \<Longrightarrow> int s + c \<le> int SEM_VALUE_MAX \<Longrightarrow> Sem_Signal_n c s = Some (s + nat c)"
proof (induction c s rule: Sem_Signal_n.induct)
  case (1 c s)
  show ?case
  proof (cases "0 < c")
    case True
    then have sig: "Sem_Signal s = Some (Suc s)"
      using 1(3) by (simp add: Sem_Signal_def)
    have "Sem_Signal_n (c - 1) (Suc s) = Some (Suc s + nat (c - 1))"
      using True sig 1(2,3) by (intro 1(1)) auto
    then show ?thesis using True sig by (subst Sem_Signal_n.simps) auto
  next
    case False
    then show ?thesis using 1(2) by (subst Sem_Signal_n.simps) auto
  qed
qed

lemma timeradd_total:
  "fst (timeradd a b) * 1000000 + snd (timeradd a b) = (fst a + fst b) * 1000000 + snd a + snd b"
  by (auto simp: timeradd_def Let_def algebra_simps)

lemma wait_deadline_total:
  "fst (wait_deadline now timeout) * 1000000 + snd (wait_deadline now timeout) div 1000
     = fst now * 1000000 + snd now + timeout"
proof -
  have "fst (timeradd now (timeout div 1000000, timeout mod 1000000)) * 1000000
        + snd (timeradd now (timeout div 1000000, timeout mod 1000000))
      = fst now * 1000000 + snd now + timeout"
    unfolding timeradd_total using div_mult_mod_eq [of timeout 1000000]
    by (simp add: distrib_right)
  then show ?thesis
    by (simp add: wait_deadline_def TIMEVAL_TO_TIMESPEC_def kOneSecondMicros_def)
qed

lemma wait_deadline_range:
  assumes "0 \<le> snd now" "snd now < 1000000"
  shows "0 \<le> snd (wait_deadline now timeout) \<and> snd (wait_deadline now timeout) < 1000000000"
proof -
  have "timeout mod 1000000 < 1000000" "0 \<le> timeout mod 1000000" by simp_all
  with assms have "snd now + timeout mod 1000000 < 2000000" by linarith
  with assms show ?thesis
    by (simp add: wait_deadline_def TIMEVAL_TO_TIMESPEC_def timeradd_def kOneSecondMicros_def Let_def)
qed

lemma timed_loop_returns:
  "sem_timed_loop es s = Some (Returns (r, s')) \<Longrightarrow>
   (r = PTH_SUCCESS \<and> s = s' + 1) \<or> (r = ETIMEDOUT \<and> s' = s)"
  by (induction es) (auto split: if_splits simp: safe_assert_bind)

section \<open>Interleaved calls\<close>

text \<open>
  Lock, Unlock and ConditionVar::Wait as sequences of atomic steps.  A thread is between two calls
  (\<open>MIdle\<close>) or at one of the points of a call; the shared state is the mutex.  The fields owner_
  and count_ are read and written without holding the POSIX mutex in the test that opens Lock, so
  every access is a step of its own.  \<open>mu_step self pc m\<close> is the next step of thread self: \<open>None\<close>
  when it has to wait, and \<open>MAbort\<close> after a failed assertion.
\<close>

datatype mpc =
    MIdle
  | Lock_test
  | Lock_again
  | Lock_pthread
  | Lock_owner
  | Lock_count
  | Unlock_test
  | Unlock_count
  | Unlock_owner
  | Unlock_pthread
  | Wait_test
  | Wait_save
  | Wait_clear int
  | Wait_sleep int
  | Wait_wake int
  | Wait_check int
  | Wait_count int
  | MAbort

fun mu_step :: "pthread \<Rightarrow> mpc \<Rightarrow> mutex \<Rightarrow> (mpc \<times> mutex) option" where
  "mu_step self MIdle m = None"
| "mu_step self Lock_test m = Some
     (if self = PTH_INVALID_THREAD then MAbort
      else if mu_owner m = self then Lock_again else Lock_pthread, m)"
| "mu_step self Lock_again m =
     (if mu_count m \<ge> 1 then Some (MIdle, m\<lparr> mu_count := mu_count m + 1 \<rparr>) else Some (MAbort, m))"
| "mu_step self Lock_pthread m =
     (case pthread_mutex_lock self m of Blocks \<Rightarrow> None | Returns m1 \<Rightarrow> Some (Lock_owner, m1))"
| "mu_step self Lock_owner m =
     (if mu_owner m = PTH_INVALID_THREAD then Some (Lock_count, m\<lparr> mu_owner := self \<rparr>) else Some (MAbort, m))"
| "mu_step self Lock_count m =
     (if mu_count m = 0 then Some (MIdle, m\<lparr> mu_count := 1 \<rparr>) else Some (MAbort, m))"
| "mu_step self Unlock_test m = Some
     (if self \<noteq> PTH_INVALID_THREAD \<and> mu_owner m = self \<and> mu_count m \<ge> 1 then Unlock_count else MAbort, m)"
| "mu_step self Unlock_count m =
     (let m1 = m\<lparr> mu_count := mu_count m - 1 \<rparr>
      in Some (if mu_count m1 = 0 then Unlock_owner else MIdle, m1))"
| "mu_step self Unlock_owner m = Some (Unlock_pthread, m\<lparr> mu_owner := PTH_INVALID_THREAD \<rparr>)"
| "mu_step self Unlock_pthread m =
     (let (e, m1) = pthread_mutex_unlock self m in Some (if e = PTH_SUCCESS then MIdle else MAbort, m1))"
| "mu_step self Wait_test m = Some (if IsLocked m then Wait_save else MAbort, m)"
| "mu_step self Wait_save m =
     (if self \<noteq> PTH_INVALID_THREAD \<and> mu_owner m = self \<and> mu_count m \<ge> 1
      then Some (Wait_clear (mu_count m), m\<lparr> mu_owner := PTH_INVALID_THREAD \<rparr>) else Some (MAbort, m))"
| "mu_step self (Wait_clear n) m = Some (Wait_sleep n, m\<lparr> mu_count := 0 \<rparr>)"
| "mu_step self (Wait_sleep n) m =
     (let (e, m1) = pthread_mutex_unlock self m in Some (if e = PTH_SUCCESS then Wait_wake n else MAbort, m1))"
| "mu_step self (Wait_wake n) m =
     (case pthread_mutex_lock self m of Blocks \<Rightarrow> None | Returns m1 \<Rightarrow> Some (Wait_check n, m1))"
| "mu_step self (Wait_check n) m =
     (if mu_owner m = PTH_INVALID_THREAD \<and> mu_count m = 0
      then Some (Wait_count n, m\<lparr> mu_owner := self \<rparr>) else Some (MAbort, m))"
| "mu_step self (Wait_count n) m =
     (let m1 = m\<lparr> mu_count := n \<rparr>
      in Some (if mu_owner m1 = self \<and> mu_count m1 \<ge> 1 then MIdle else MAbort, m1))"
| "mu_step self MAbort m = None"

text \<open>The system: the mutex, where every thread is, and how many locks it holds (\<open>Lock\<close> calls
  that returned minus \<open>Unlock\<close> calls that returned).  A thread starts \<open>Unlock\<close> or \<open>Wait\<close> only while it
  holds the mutex, which is what the caller has to ensure.\<close>

type_synonym mu_system = "mutex \<times> (pthread \<Rightarrow> mpc) \<times> (pthread \<Rightarrow> nat)"

definition held_after :: "mpc \<Rightarrow> mpc \<Rightarrow> nat \<Rightarrow> nat" where
  "held_after p q d =
     (if q = MIdle \<and> (p = Lock_again \<or> p = Lock_count) then d + 1
      else if q = MIdle \<and> (p = Unlock_count \<or> p = Unlock_pthread) then d - 1 else d)"

inductive mu_trans :: "mu_system \<Rightarrow> mu_system \<Rightarrow> bool" where
  call_Lock: "pc t = MIdle \<Longrightarrow> t \<noteq> PTH_INVALID_THREAD \<Longrightarrow> mu_trans (m, pc, d) (m, pc(t := Lock_test), d)"
| call_Unlock: "pc t = MIdle \<Longrightarrow> t \<noteq> PTH_INVALID_THREAD \<Longrightarrow> d t > 0 \<Longrightarrow>
    mu_trans (m, pc, d) (m, pc(t := Unlock_test), d)"
| call_Wait: "pc t = MIdle \<Longrightarrow> t \<noteq> PTH_INVALID_THREAD \<Longrightarrow> d t > 0 \<Longrightarrow>
    mu_trans (m, pc, d) (m, pc(t := Wait_test), d)"
| run: "mu_step t (pc t) m = Some (q, m') \<Longrightarrow> t \<noteq> PTH_INVALID_THREAD \<Longrightarrow>
    mu_trans (m, pc, d) (m', pc(t := q), d(t := held_after (pc t) q (d t)))"

inductive mu_reach :: "mu_system \<Rightarrow> bool" where
  start: "mu_reach (Mutex, \<lambda>_. MIdle, \<lambda>_. 0)"
| step: "mu_reach s \<Longrightarrow> mu_trans s s' \<Longrightarrow> mu_reach s'"

inductive_cases mu_transE: "mu_trans s s'"

definition out_of :: "pthread \<Rightarrow> mutex \<Rightarrow> bool" where
  "out_of t m \<longleftrightarrow> mu_mutex m \<noteq> Some t \<and> mu_owner m \<noteq> t"

definition inside :: "pthread \<Rightarrow> mutex \<Rightarrow> pthread \<Rightarrow> int \<Rightarrow> bool" where
  "inside t m ow c \<longleftrightarrow> mu_mutex m = Some t \<and> mu_owner m = ow \<and> mu_count m = c"

fun thread_inv :: "pthread \<Rightarrow> mpc \<Rightarrow> nat \<Rightarrow> mutex \<Rightarrow> bool" where
  "thread_inv t MIdle d m = (if d = 0 then out_of t m else inside t m t (int d))"
| "thread_inv t Lock_test d m = (if d = 0 then out_of t m else inside t m t (int d))"
| "thread_inv t Lock_again d m = (d > 0 \<and> inside t m t (int d))"
| "thread_inv t Lock_pthread d m = (d = 0 \<and> out_of t m)"
| "thread_inv t Lock_owner d m = (d = 0 \<and> inside t m PTH_INVALID_THREAD 0)"
| "thread_inv t Lock_count d m = (d = 0 \<and> inside t m t 0)"
| "thread_inv t Unlock_test d m = (d > 0 \<and> inside t m t (int d))"
| "thread_inv t Unlock_count d m = (d > 0 \<and> inside t m t (int d))"
| "thread_inv t Unlock_owner d m = (d = 1 \<and> inside t m t 0)"
| "thread_inv t Unlock_pthread d m = (d = 1 \<and> inside t m PTH_INVALID_THREAD 0)"
| "thread_inv t Wait_test d m = (d > 0 \<and> inside t m t (int d))"
| "thread_inv t Wait_save d m = (d > 0 \<and> inside t m t (int d))"
| "thread_inv t (Wait_clear n) d m = (d > 0 \<and> n = int d \<and> inside t m PTH_INVALID_THREAD n)"
| "thread_inv t (Wait_sleep n) d m = (d > 0 \<and> n = int d \<and> inside t m PTH_INVALID_THREAD 0)"
| "thread_inv t (Wait_wake n) d m = (d > 0 \<and> n = int d \<and> out_of t m)"
| "thread_inv t (Wait_check n) d m = (d > 0 \<and> n = int d \<and> inside t m PTH_INVALID_THREAD 0)"
| "thread_inv t (Wait_count n) d m = (d > 0 \<and> n = int d \<and> inside t m t 0)"
| "thread_inv t MAbort d m = False"

definition free_clean :: "mutex \<Rightarrow> bool" where
  "free_clean m \<longleftrightarrow> (mu_mutex m = None \<longrightarrow> mu_owner m = PTH_INVALID_THREAD \<and> mu_count m = 0)
     \<and> (\<forall>t. mu_mutex m = Some t \<longrightarrow> mu_owner m = t \<or> mu_owner m = PTH_INVALID_THREAD)"

lemmas mu_inv_defs = out_of_def inside_def free_clean_def pthread_mutex_lock_def
  pthread_mutex_unlock_def held_after_def IsLocked_def

lemma own_step:
  assumes "thread_inv t p d m" "free_clean m" "t \<noteq> PTH_INVALID_THREAD" "mu_step t p m = Some (q, m')"
  shows "thread_inv t q (held_after p q d) m' \<and> free_clean m'"
  using assms by (cases p) (auto simp: mu_inv_defs Let_def split: if_splits option.splits)

lemma step_frame:
  assumes "thread_inv t p d m" "free_clean m" "t \<noteq> PTH_INVALID_THREAD" "mu_step t p m = Some (q, m')"
  shows "m' = m \<or> (mu_mutex m \<in> {None, Some t} \<and> mu_mutex m' \<in> {None, Some t}
     \<and> mu_owner m' \<in> {PTH_INVALID_THREAD, t})"
  using assms by (cases p) (auto simp: mu_inv_defs Let_def split: if_splits option.splits)

lemma inv_pure:
  assumes "thread_inv u p d m" "mu_mutex m \<noteq> Some u" "mu_mutex m' \<noteq> Some u" "mu_owner m' \<noteq> u"
  shows "thread_inv u p d m'"
  using assms by (cases p) (auto simp: out_of_def inside_def split: if_splits)

definition mu_inv :: "mu_system \<Rightarrow> bool" where
  "mu_inv s = (case s of (m, pc, d) \<Rightarrow>
     free_clean m \<and> (\<forall>t. t \<noteq> PTH_INVALID_THREAD \<longrightarrow> thread_inv t (pc t) (d t) m))"

lemma mu_inv_trans: "mu_trans s s' \<Longrightarrow> mu_inv s \<Longrightarrow> mu_inv s'"
proof (induction rule: mu_trans.induct)
  case (run t pc m q m' d)
  have own: "thread_inv t (pc t) (d t) m" and fc: "free_clean m"
    using run(2,3) by (auto simp: mu_inv_def)
  have other: "thread_inv u (pc u) (d u) m'" if "u \<noteq> t" "u \<noteq> PTH_INVALID_THREAD" for u
  proof -
    have "thread_inv u (pc u) (d u) m" using run(3) that by (auto simp: mu_inv_def)
    then show ?thesis
      using step_frame [OF own fc run(2,1)] that inv_pure [of u "pc u" "d u" m m'] by auto
  qed
  show ?case using own_step [OF own fc run(2,1)] other by (auto simp: mu_inv_def)
qed (auto simp: mu_inv_def)

lemma mu_reach_inv: "mu_reach s \<Longrightarrow> mu_inv s"
proof (induction rule: mu_reach.induct)
  case start
  then show ?case by (auto simp: mu_inv_def mu_inv_defs Mutex_def)
qed (rule mu_inv_trans)

lemma one_thread_runs: "t \<noteq> PTH_INVALID_THREAD \<Longrightarrow> pc t = p \<Longrightarrow> mu_step t p m = Some (q, m') \<Longrightarrow>
    mu_reach (m, pc, d) \<Longrightarrow> mu_reach (m', pc(t := q), d(t := held_after p q (d t)))"
  by (rule mu_reach.step) (auto intro: mu_trans.run)

lemma thread_1_locks:
  "mu_reach (\<lparr> mu_mutex = Some 1, mu_owner = 1, mu_count = 1 \<rparr>, (\<lambda>_. MIdle), (\<lambda>_. 0)(1 := 1))"
proof -
  let ?m = "\<lparr> mu_mutex = Some (1::pthread), mu_owner = PTH_INVALID_THREAD, mu_count = 0 \<rparr>"
  have 0: "mu_reach (Mutex, (\<lambda>_. MIdle)(1 := Lock_test), \<lambda>_. 0)"
    by (rule mu_reach.step [OF mu_reach.start]) (rule mu_trans.call_Lock; simp add: PTH_INVALID_THREAD_def)
  have 1: "mu_reach (Mutex, (\<lambda>_. MIdle)(1 := Lock_pthread), \<lambda>_. 0)"
    using one_thread_runs [OF _ _ _ 0, of 1 Lock_test Lock_pthread Mutex]
    by (simp add: PTH_INVALID_THREAD_def Mutex_def held_after_def fun_upd_idem)
  have 2: "mu_reach (?m, (\<lambda>_. MIdle)(1 := Lock_owner), \<lambda>_. 0)"
    using one_thread_runs [OF _ _ _ 1, of 1 Lock_pthread Lock_owner ?m]
    by (simp add: PTH_INVALID_THREAD_def Mutex_def held_after_def fun_upd_idem pthread_mutex_lock_def)
  have 3: "mu_reach (?m\<lparr> mu_owner := 1 \<rparr>, (\<lambda>_. MIdle)(1 := Lock_count), \<lambda>_. 0)"
    using one_thread_runs [OF _ _ _ 2, of 1 Lock_owner Lock_count]
    by (simp add: PTH_INVALID_THREAD_def held_after_def fun_upd_idem)
  show ?thesis
    using one_thread_runs [OF _ _ _ 3, of 1 Lock_count MIdle]
    by (simp add: PTH_INVALID_THREAD_def held_after_def fun_upd_idem)
qed

section \<open>Properties\<close>

text \<open>C29: In every state that threads reach by interleaving the single steps of Lock and
  Unlock of the Mutex class, no assertion of the class fails, and a thread that is inside the
  mutex is its owner in the pthread mutex and in the owner field, with the count of its nesting.\<close>

theorem Mutex_interleaved_safe:
  assumes "mu_reach (m, pc, d)"
  shows "{t. t \<noteq> PTH_INVALID_THREAD \<and> pc t = MAbort} = {}
    \<and> {t. t \<noteq> PTH_INVALID_THREAD \<and> pc t = MIdle \<and> 0 < d t}
        \<subseteq> {t. mu_mutex m = Some t \<and> mu_owner m = t \<and> mu_count m = int (d t)}"
proof -
  have inv: "thread_inv t (pc t) (d t) m" if "t \<noteq> PTH_INVALID_THREAD" for t
    using mu_reach_inv [OF assms] that by (simp add: mu_inv_def)
  have "pc t \<noteq> MAbort" if "t \<noteq> PTH_INVALID_THREAD" for t
    using inv [OF that] by auto
  moreover have "inside t m t (int (d t))" if "t \<noteq> PTH_INVALID_THREAD" "pc t = MIdle" "0 < d t" for t
    using inv [OF that(1)] that by simp
  ultimately show ?thesis by (auto simp: inside_def)
qed

theorem Mutex_interleaved_safe_witness:
  "\<exists>m pc d. mu_reach (m, pc, d) \<and> 0 < d 1 \<and> mu_owner m = 1 \<and> pc 1 \<noteq> MAbort"
proof -
  note w = Mutex_interleaved_safe [OF thread_1_locks]
  show ?thesis
    by (rule exI, rule exI, rule exI, intro conjI, rule thread_1_locks)
      (use w in \<open>auto simp: PTH_INVALID_THREAD_def\<close>)
qed

text \<open>Nested scope guards on a mutex that is free or owned by the thread leave, after
  all destructors, exactly the mutex from before.\<close>

lemma ScopeMutex_restores:
  assumes "mutex_ok m" "t \<noteq> PTH_INVALID_THREAD" "\<not> IsLocked m \<or> mu_owner m = t"
  shows "scoped (ScopeMutex t) (ScopeMutex_end t) n Some m = Some (Returns m)"
proof -
  have "\<exists>m'. scoped (ScopeMutex t) (ScopeMutex_end t) n Some m = Some (Returns m')"
    using assms
  proof (induction n arbitrary: m)
    case (Suc n)
    then obtain m1 where m1: "ScopeMutex t m = Some (Returns m1)"
      using Lock_total [of m t] Lock_blocks_iff [of m t] by (metis ScopeMutex_def call.exhaust)
    have ok: "mutex_ok m1" "mu_owner m1 = t" using Lock_ok [of m t m1] m1 Suc.prems(1) by (auto simp: ScopeMutex_def)
    then obtain m2 where m2: "scoped (ScopeMutex t) (ScopeMutex_end t) n Some m1 = Some (Returns m2)"
      using Suc.IH [of m1] Suc.prems(2) by blast
    have "m2 = m1" using mx.scoped_restores [OF _ ok(1) m2] by simp
    moreover have "ScopeMutex_end t m1 = Some m" using mx.rel_acq [OF Suc.prems(1) m1] .
    ultimately show ?case using m1 m2 by simp
  qed simp
  then show ?thesis using mx.scoped_restores [OF _ assms(1)] by fastforce
qed

lemma ScopeMutex_restores_example:
  "scoped (ScopeMutex 1) (ScopeMutex_end 1) 3 Some Mutex = Some (Returns Mutex)"
  by (rule ScopeMutex_restores) (simp_all add: Mutex_ok IsLocked_def Mutex_def PTH_INVALID_THREAD_def mutex_ok_def)

text \<open>The absolute deadline of a timed wait is the current time plus the timeout in
  microseconds, with nanoseconds in the range that the system call accepts.\<close>

lemma wait_deadline_spec:
  assumes "0 \<le> usec" "usec < 1000000"
  shows "(case wait_deadline (sec, usec) timeout of (s, ns) \<Rightarrow>
     s * 1000000 + ns div 1000 = sec * 1000000 + usec + timeout
     \<and> ns mod 1000 = 0 \<and> BETWEEN 0 ns 999999999)"
proof -
  have "snd (wait_deadline (sec, usec) timeout) mod 1000 = 0"
    by (simp add: wait_deadline_def TIMEVAL_TO_TIMESPEC_def)
  then show ?thesis
    using wait_deadline_total [of "(sec, usec)" timeout] wait_deadline_range [of "(sec, usec)" timeout] assms
    by (simp add: case_prod_beta BETWEEN_def)
qed

lemma wait_deadline_spec_example:
  "BETWEEN 0 (snd (wait_deadline (100, 999999) 2500001)) 999999999 \<and> wait_deadline (100, 999999) 2500001 = (103, 500000000)"
  using wait_deadline_spec [of 999999 100 2500001]
  by (simp add: wait_deadline_def timeradd_def TIMEVAL_TO_TIMESPEC_def kOneSecondMicros_def)

lemma TryLock_never_succeeds:
  "Mutex_TryLock self m = (if mu_mutex m = None then None else Some (False, m))
   \<and> TryWLock self l = (if l = RWLock then None else Some (False, l))"
  by (cases l) (auto simp: Mutex_TryLock_def TryWLock_def RWLock_def safe_assert_def split: option.splits)

text \<open>Within the bound of the semaphore, signalling it some number of times and waiting
  as often returns without blocking to the count from before.\<close>

lemma Semaphore_Signal_Wait:
  assumes "0 \<le> c" "int s + c \<le> int SEM_VALUE_MAX"
  shows "Option.bind (Sem_Signal_n c s) (Sem_Wait_n c) = Some (Returns s)"
  using Sem_Signal_n_total [OF assms] Sem_Wait_n_total [of c "s + nat c"] assms(1) by simp

lemma Semaphore_Signal_Wait_example:
  "Option.bind (Sem_Signal_n 5 2) (Sem_Wait_n 5) = Some (Returns 2)"
  by (rule Semaphore_Signal_Wait) (simp_all add: SEM_VALUE_MAX_def)

end
