(* ===== verification/Channels.thy ===== *)
theory Channels
  imports Sync_Prims
begin

text \<open>
  channel.h and cmap.h.  A channel holds at most one value: a buffer and a pointer that is NULL or
  points to the buffer.  The operations that wait are split at the wait: the part that runs
  before it, in one critical section of the mutex shared by all channels, and the part after
  the wake-up.  A \<open>ConcurrentMap\<close> is an association list in key order with its read/write lock.
\<close>

section \<open>Channel\<close>

record 'a channel =
  ch_full :: bool
  ch_buffer :: 'a
  ch_waiting :: "pthread list"
  ch_woken :: "pthread list"

text \<open>\<open>ch_full\<close> says whether value_ points to the buffer; \<open>ch_waiting\<close> are the threads that sleep
  on the condition variable and \<open>ch_woken\<close> those that a signal has woken and that have not run yet.
  A signal wakes one of the sleeping threads; the protocol that uses the channel never signals
  while two threads sleep, so which one does not matter.\<close>

definition new_Channel :: "'a \<Rightarrow> 'a channel" where
  "new_Channel x = \<lparr> ch_full = False, ch_buffer = x, ch_waiting = [], ch_woken = [] \<rparr>"

definition ch_IsEmpty :: "'a channel \<Rightarrow> bool" where
  "ch_IsEmpty c \<longleftrightarrow> \<not> ch_full c"

definition ch_put :: "'a \<Rightarrow> 'a channel \<Rightarrow> 'a channel option" where
  "ch_put v c = do {
     safe_assert (ch_IsEmpty c);
     Some (c\<lparr> ch_buffer := v, ch_full := True \<rparr>) }"

definition ch_take :: "'a channel \<Rightarrow> ('a \<times> 'a channel) option" where
  "ch_take c = do {
     safe_assert (\<not> ch_IsEmpty c);
     Some (ch_buffer c, c\<lparr> ch_full := False \<rparr>) }"

definition ch_signal :: "'a channel \<Rightarrow> 'a channel" where
  "ch_signal c = (case ch_waiting c of
     [] \<Rightarrow> c
   | t # ts \<Rightarrow> c\<lparr> ch_waiting := ts, ch_woken := ch_woken c @ [t] \<rparr>)"

definition ch_sleep :: "pthread \<Rightarrow> 'a channel \<Rightarrow> 'a channel" where
  "ch_sleep t c = c\<lparr> ch_waiting := ch_waiting c @ [t] \<rparr>"

definition SendNoWait :: "'a \<Rightarrow> 'a channel \<Rightarrow> 'a channel option" where
  "SendNoWait v c = do { c1 \<leftarrow> ch_put v c; Some (ch_signal c1) }"

definition WaitReceive_begin :: "pthread \<Rightarrow> 'a channel \<Rightarrow> 'a channel" where
  "WaitReceive_begin t c = ch_sleep t c"

definition WaitReceive_end :: "pthread \<Rightarrow> 'a channel \<Rightarrow> ('a \<times> 'a channel) option" where
  "WaitReceive_end t c = ch_take (c\<lparr> ch_woken := remove1 t (ch_woken c) \<rparr>)"

text \<open>\<open>SendWaitReceive\<close> with the channel itself as the target, as Transfer is called when a
  coroutine starts.\<close>

definition SendWaitReceive_self_begin :: "pthread \<Rightarrow> 'a \<Rightarrow> 'a channel \<Rightarrow> 'a channel option" where
  "SendWaitReceive_self_begin t v c = do { c1 \<leftarrow> ch_put v c; Some (ch_sleep t (ch_signal c1)) }"

definition SendWaitReceive_begin ::
  "pthread \<Rightarrow> 'a \<Rightarrow> 'a channel \<Rightarrow> 'a channel \<Rightarrow> ('a channel \<times> 'a channel) option" where
  "SendWaitReceive_begin t v target c = do {
     t1 \<leftarrow> ch_put v target;
     Some (ch_signal t1, ch_sleep t c) }"

lemmas ch_defs = ch_put_def ch_take_def ch_IsEmpty_def ch_signal_def ch_sleep_def SendNoWait_def
  WaitReceive_begin_def WaitReceive_end_def SendWaitReceive_self_begin_def SendWaitReceive_begin_def

lemma put_take: "ch_put v c = Some c1 \<Longrightarrow> ch_take c1 = Some (v, c\<lparr> ch_buffer := v \<rparr>)"
  by (cases c) (auto simp: ch_defs)

lemma put_put_aborts: "ch_put v c = Some c1 \<Longrightarrow> ch_put w c1 = None"
  by (auto simp: ch_defs safe_assert_def split: if_splits)

lemma spurious_wakeup_aborts: "ch_IsEmpty c \<Longrightarrow> WaitReceive_end t c = None"
  by (simp add: ch_defs safe_assert_def)

section \<open>ConcurrentMap\<close>

record ('k, 'v) cmap =
  cm_super :: "('k \<times> 'v) list"
  cm_rwlock :: rwlock

definition new_ConcurrentMap :: "('k, 'v) cmap" where
  "new_ConcurrentMap = \<lparr> cm_super = [], cm_rwlock = RWLock \<rparr>"

text \<open>The std::map underneath: a list without duplicate keys in the order of the keys.\<close>

fun map_set :: "'k::linorder \<Rightarrow> 'v \<Rightarrow> ('k \<times> 'v) list \<Rightarrow> ('k \<times> 'v) list" where
  "map_set k v [] = [(k, v)]"
| "map_set k v ((k', v') # m) =
     (if k < k' then (k, v) # (k', v') # m else if k = k' then (k, v) # m
      else (k', v') # map_set k v m)"

fun map_erase :: "'k::linorder \<Rightarrow> ('k \<times> 'v) list \<Rightarrow> ('k \<times> 'v) list" where
  "map_erase k [] = []"
| "map_erase k ((k', v') # m) = (if k = k' then m else (k', v') # map_erase k m)"

text \<open>Every operation runs under the lock: \<open>Blocks\<close> while another thread holds it.\<close>

definition under_lock ::
  "(rwlock \<Rightarrow> rwlock call option) \<Rightarrow> (rwlock \<Rightarrow> rwlock option) \<Rightarrow> ('k, 'v) cmap
     \<Rightarrow> (('k \<times> 'v) list \<Rightarrow> ('b \<times> ('k \<times> 'v) list) option) \<Rightarrow> ('b \<times> ('k, 'v) cmap) call option" where
  "under_lock acq rel m body = do {
     c \<leftarrow> acq (cm_rwlock m);
     (case c of
        Blocks \<Rightarrow> Some Blocks
      | Returns l \<Rightarrow> do {
          (b, xs) \<leftarrow> body (cm_super m);
          l1 \<leftarrow> rel l;
          Some (Returns (b, \<lparr> cm_super = xs, cm_rwlock = l1 \<rparr>)) }) }"

definition cm_contains :: "pthread \<Rightarrow> 'k::linorder \<Rightarrow> ('k, 'v) cmap \<Rightarrow> (bool \<times> ('k, 'v) cmap) call option" where
  "cm_contains t k m = under_lock (ScopeRLock t) (ScopeRWLock_end t) m
     (\<lambda>xs. Some (map_of xs k \<noteq> None, xs))"

definition cm_find :: "pthread \<Rightarrow> 'k::linorder \<Rightarrow> ('k, 'v) cmap \<Rightarrow> ('v option \<times> ('k, 'v) cmap) call option" where
  "cm_find t k m = under_lock (ScopeRLock t) (ScopeRWLock_end t) m (\<lambda>xs. Some (map_of xs k, xs))"

definition cm_insert :: "pthread \<Rightarrow> 'k::linorder \<Rightarrow> 'v \<Rightarrow> ('k, 'v) cmap \<Rightarrow> (unit \<times> ('k, 'v) cmap) call option" where
  "cm_insert t k v m = under_lock (ScopeWLock t) (ScopeRWLock_end t) m (\<lambda>xs. Some ((), map_set k v xs))"

definition cm_remove :: "pthread \<Rightarrow> 'k::linorder \<Rightarrow> ('k, 'v) cmap \<Rightarrow> (bool \<times> ('k, 'v) cmap) call option" where
  "cm_remove t k m = under_lock (ScopeWLock t) (ScopeRWLock_end t) m
     (\<lambda>xs. Some (if map_of xs k \<noteq> None then (True, map_erase k xs) else (False, xs)))"

definition cm_get :: "pthread \<Rightarrow> 'k::linorder \<Rightarrow> ('k, 'v) cmap \<Rightarrow> ('v \<times> ('k, 'v) cmap) call option" where
  "cm_get t k m = do {
     c \<leftarrow> cm_find t k m;
     (case c of
        Blocks \<Rightarrow> Some Blocks
      | Returns (r, m1) \<Rightarrow> do { v \<leftarrow> r; Some (Returns (v, m1)) }) }"

definition map_ok :: "('k::linorder \<times> 'v) list \<Rightarrow> bool" where
  "map_ok xs \<longleftrightarrow> sorted (map fst xs) \<and> distinct (map fst xs)"

lemma map_set_keys: "fst ` set (map_set k v xs) = insert k (fst ` set xs)"
  by (induction k v xs rule: map_set.induct) (simp_all add: insert_commute)

lemma map_of_set: "map_of (map_set k v xs) = (map_of xs)(k \<mapsto> v)"
  by (induction xs) (auto simp: fun_eq_iff)

lemma map_ok_Cons:
  "map_ok ((k, v) # xs) \<longleftrightarrow> map_ok xs \<and> (\<forall>k' \<in> fst ` set xs. k < k')"
  by (force simp: map_ok_def less_le)

lemma map_ok_set: "map_ok xs \<Longrightarrow> map_ok (map_set k v xs)"
proof (induction xs)
  case (Cons x xs)
  obtain k' v' where [simp]: "x = (k', v')" by fastforce
  show ?case using Cons by (auto simp: map_ok_Cons map_set_keys)
qed (simp add: map_ok_def)

lemma map_of_erase: "map_ok xs \<Longrightarrow> map_of (map_erase k xs) = (map_of xs)(k := None)"
proof (induction xs)
  case (Cons x xs)
  obtain k' v' where [simp]: "x = (k', v')" by fastforce
  have "map_of xs k = None" if "k = k'"
    using Cons.prems that by (auto simp: map_ok_Cons map_of_eq_None_iff)
  then show ?case using Cons by (auto simp: map_ok_Cons fun_eq_iff)
qed simp

lemma map_ok_erase: "map_ok xs \<Longrightarrow> map_ok (map_erase k xs)"
proof (induction xs)
  case (Cons x xs)
  obtain k' v' where [simp]: "x = (k', v')" by fastforce
  have "set (map_erase k xs) \<subseteq> set xs" for k :: 'a and xs :: "('a \<times> 'b) list"
    by (induction k xs rule: map_erase.induct) (auto split: if_splits)
  then show ?case using Cons by (fastforce simp: map_ok_Cons)
qed simp

text \<open>The contract of a map under a lock, and its instance: an operation on a free lock returns
  with the lock free again, and find sees what insert and remove did.\<close>

locale locked_map =
  fixes abs :: "'m \<Rightarrow> 'k \<Rightarrow> 'v option"
    and free :: "'m \<Rightarrow> bool"
    and find :: "'k \<Rightarrow> 'm \<Rightarrow> ('v option \<times> 'm) call option"
    and ins :: "'k \<Rightarrow> 'v \<Rightarrow> 'm \<Rightarrow> (unit \<times> 'm) call option"
    and rmv :: "'k \<Rightarrow> 'm \<Rightarrow> (bool \<times> 'm) call option"
  assumes find_spec: "free m \<Longrightarrow> find k m = Some (Returns (abs m k, m))"
    and ins_spec: "free m \<Longrightarrow> \<exists>m'. ins k v m = Some (Returns ((), m')) \<and> free m' \<and> abs m' = (abs m)(k \<mapsto> v)"
    and rmv_spec: "free m \<Longrightarrow> \<exists>m'. rmv k m = Some (Returns (abs m k \<noteq> None, m')) \<and> free m' \<and> abs m' = (abs m)(k := None)"
begin

lemma find_after_ins:
  "free m \<Longrightarrow> \<exists>m1. ins k v m = Some (Returns ((), m1)) \<and> find k m1 = Some (Returns (Some v, m1))"
  using ins_spec [of m k v] find_spec by fastforce

lemma find_after_rmv:
  "free m \<Longrightarrow> \<exists>b m1. rmv k m = Some (Returns (b, m1)) \<and> find k m1 = Some (Returns (None, m1))"
  using rmv_spec [of m k] find_spec by fastforce

lemma rmv_twice:
  "free m \<Longrightarrow> \<exists>b m1 m2. rmv k m = Some (Returns (b, m1)) \<and> rmv k m1 = Some (Returns (False, m2))"
  using rmv_spec [of m k] rmv_spec [of _ k] by fastforce

end

definition cm_free :: "('k::linorder, 'v) cmap \<Rightarrow> bool" where
  "cm_free m \<longleftrightarrow> cm_rwlock m = RWLock \<and> map_ok (cm_super m)"

lemma free_rlock: "under_lock (ScopeRLock t) (ScopeRWLock_end t) m body
  = do { (b, xs) \<leftarrow> body (cm_super m); Some (Returns (b, m\<lparr> cm_super := xs \<rparr>)) }"
  if "cm_rwlock m = RWLock"
  using that by (cases m; cases "body (cm_super m)")
    (auto simp: under_lock_def ScopeRLock_def ScopeRWLock_end_def rw_defs RWLock_def)

lemma free_wlock: "under_lock (ScopeWLock t) (ScopeRWLock_end t) m body
  = do { (b, xs) \<leftarrow> body (cm_super m); Some (Returns (b, m\<lparr> cm_super := xs \<rparr>)) }"
  if "cm_rwlock m = RWLock"
  using that by (cases m; cases "body (cm_super m)")
    (auto simp: under_lock_def ScopeWLock_def ScopeRWLock_end_def rw_defs RWLock_def)

interpretation cmap: locked_map "\<lambda>m. map_of (cm_super m)" cm_free "cm_find t" "cm_insert t" "cm_remove t" for t
  by unfold_locales
    (auto simp: cm_free_def cm_find_def cm_insert_def cm_remove_def free_rlock free_wlock map_of_set
      map_of_erase map_ok_set map_ok_erase)

lemma cm_get_missing:
  "cm_free m \<Longrightarrow> cm_get t k m = (case map_of (cm_super m) k of None \<Rightarrow> None | Some v \<Rightarrow> Some (Returns (v, m)))"
  using cmap.find_spec [of m t k] by (simp add: cm_get_def split: option.splits)

end
