(* ===== verification/Thread_Life.thy ===== *)
theory Thread_Life
  imports Sync_Prims
begin

text \<open>
  The class Thread of thread.h and thread.cpp: thread objects with their identifier of the
  running POSIX thread, the thread-specific pointer from a POSIX thread back to its object, and
  the life of a thread from Start to Join.  Pointers passed to and returned by an entry function
  are numbers with 0 for NULL; a program function is its effect on them.  The results of
  \<open>pthread_create\<close>, \<open>pthread_join\<close>, \<open>pthread_cancel\<close> and \<open>pthread_kill\<close> are arguments.
\<close>

type_synonym ptr = nat

record thread_obj =
  th_tid :: tid
  th_entry_function :: "(ptr \<Rightarrow> ptr) option"
  th_entry_arg :: ptr
  th_stack_size :: int
  th_pthread :: pthread
  th_return_value :: ptr

record thread_state =
  ts_objs :: "nat \<Rightarrow> thread_obj"
  ts_tls :: "pthread \<Rightarrow> nat option"

definition new_Thread :: "tid \<Rightarrow> (ptr \<Rightarrow> ptr) option \<Rightarrow> ptr \<Rightarrow> int \<Rightarrow> thread_obj option" where
  "new_Thread t f arg stack = do {
     safe_assert (stack \<ge> 0);
     Some \<lparr> th_tid = t, th_entry_function = f, th_entry_arg = arg, th_stack_size = stack,
            th_pthread = PTH_INVALID_THREAD, th_return_value = 0 \<rparr> }"

definition upd_thread :: "nat \<Rightarrow> (thread_obj \<Rightarrow> thread_obj) \<Rightarrow> thread_state \<Rightarrow> thread_state" where
  "upd_thread i f s = s\<lparr> ts_objs := (ts_objs s)(i := f (ts_objs s i)) \<rparr>"

definition call_function :: "nat \<Rightarrow> thread_state \<Rightarrow> (ptr \<times> thread_state) option" where
  "call_function i s = do {
     f \<leftarrow> th_entry_function (ts_objs s i);
     let v = f (th_entry_arg (ts_objs s i));
     Some (v, upd_thread i (\<lambda>t. t\<lparr> th_return_value := v \<rparr>) s) }"

definition Thread_Run :: "nat \<Rightarrow> thread_state \<Rightarrow> (ptr \<times> thread_state) option" where
  "Thread_Run i s = call_function i s"

definition attach_pthread :: "nat \<Rightarrow> pthread \<Rightarrow> thread_state \<Rightarrow> thread_state option" where
  "attach_pthread i self s = do {
     safe_assert (th_pthread (ts_objs s i) = self \<or> th_pthread (ts_objs s i) = PTH_INVALID_THREAD);
     let s1 = upd_thread i (\<lambda>t. t\<lparr> th_pthread := self \<rparr>) s;
     safe_assert (ts_tls s1 self = None);
     Some (s1\<lparr> ts_tls := (ts_tls s1)(self := Some i) \<rparr>) }"

definition detach_pthread :: "nat \<Rightarrow> pthread \<Rightarrow> thread_state \<Rightarrow> thread_state option" where
  "detach_pthread i self s = do {
     safe_assert (self \<noteq> PTH_INVALID_THREAD);
     safe_assert (th_pthread (ts_objs s i) = self);
     safe_assert (ts_tls s self \<noteq> None);
     let s1 = s\<lparr> ts_tls := (ts_tls s)(self := None) \<rparr>;
     Some (upd_thread i (\<lambda>t. t\<lparr> th_pthread := PTH_INVALID_THREAD \<rparr>) s1) }"

definition CleanupHandler :: "nat \<Rightarrow> pthread \<Rightarrow> thread_state \<Rightarrow> thread_state option" where
  "CleanupHandler i self s = do {
     safe_assert (self \<noteq> PTH_INVALID_THREAD);
     safe_assert (th_pthread (ts_objs s i) = self);
     detach_pthread i self s }"

text \<open>The entry of the POSIX thread, with the body of the class that runs in it as a parameter.\<close>

definition ThreadEntry ::
  "(nat \<Rightarrow> thread_state \<Rightarrow> (ptr \<times> thread_state) option) \<Rightarrow> nat \<Rightarrow> pthread \<Rightarrow> thread_state
     \<Rightarrow> (ptr \<times> thread_state) option" where
  "ThreadEntry run i self s = do {
     safe_assert (self \<noteq> PTH_INVALID_THREAD);
     safe_assert (th_pthread (ts_objs s i) = self);
     s1 \<leftarrow> attach_pthread i self s;
     (v, s2) \<leftarrow> run i s1;
     s3 \<leftarrow> CleanupHandler i self s2;
     Some (v, s3) }"

definition GetThread :: "pthread \<Rightarrow> thread_state \<Rightarrow> nat option" where
  "GetThread self s = do {
     i \<leftarrow> ts_tls s self;
     safe_assert (self = th_pthread (ts_objs s i));
     Some i }"

definition Thread_Current :: "pthread \<Rightarrow> thread_state \<Rightarrow> nat option" where
  "Thread_Current self s = do { safe_assert (self \<noteq> PTH_INVALID_THREAD); GetThread self s }"

definition Thread_Start :: "nat \<Rightarrow> errno \<times> pthread \<Rightarrow> thread_state \<Rightarrow> (pthread \<times> thread_state) option" where
  "Thread_Start i res s = do {
     let s1 = upd_thread i (\<lambda>t. t\<lparr> th_return_value := 0 \<rparr>) s;
     safe_assert (fst res = PTH_SUCCESS);
     let s2 = upd_thread i (\<lambda>t. t\<lparr> th_pthread := snd res \<rparr>) s1;
     safe_assert (th_pthread (ts_objs s2 i) \<noteq> PTH_INVALID_THREAD);
     Some (snd res, s2) }"

text \<open>The value that Join stores through its pointer, when it has one and the system call did.\<close>

definition Thread_Join :: "nat \<Rightarrow> bool \<Rightarrow> errno \<times> ptr \<Rightarrow> thread_state \<Rightarrow> ptr option option" where
  "Thread_Join i want res s = (if th_pthread (ts_objs s i) = PTH_INVALID_THREAD then Some None
     else do {
       safe_assert (fst res = PTH_SUCCESS \<or> fst res = ESRCH);
       safe_assert (fst res = PTH_SUCCESS \<and> want \<longrightarrow> snd res = th_return_value (ts_objs s i));
       Some (if fst res = PTH_SUCCESS \<and> want then Some (snd res) else None) })"

definition Thread_Cancel :: "nat \<Rightarrow> errno \<Rightarrow> thread_state \<Rightarrow> unit option" where
  "Thread_Cancel i res s = (if th_pthread (ts_objs s i) = PTH_INVALID_THREAD then Some ()
     else safe_assert (res = PTH_SUCCESS \<or> res = ESRCH))"

definition Thread_CancelJoin :: "nat \<Rightarrow> errno \<Rightarrow> errno \<times> ptr \<Rightarrow> thread_state \<Rightarrow> unit option" where
  "Thread_CancelJoin i res jres s = do {
     Thread_Cancel i res s;
     Thread_Join i False jres s;
     Some () }"

definition Thread_Kill :: "errno \<Rightarrow> unit option" where
  "Thread_Kill res = safe_assert (res = PTH_SUCCESS \<or> res = ESRCH)"

section \<open>The two directions of the link agree\<close>

definition link_ok :: "thread_state \<Rightarrow> bool" where
  "link_ok s \<longleftrightarrow> (\<forall>p i. ts_tls s p = Some i \<longrightarrow> p \<noteq> PTH_INVALID_THREAD \<and> th_pthread (ts_objs s i) = p)"

lemma attach_link_ok:
  assumes "link_ok s" "self \<noteq> PTH_INVALID_THREAD" "attach_pthread i self s = Some s'"
  shows "link_ok s' \<and> Thread_Current self s' = Some i"
proof -
  have s': "s' = (upd_thread i (\<lambda>t. t\<lparr> th_pthread := self \<rparr>) s)\<lparr> ts_tls := (ts_tls s)(self \<mapsto> i) \<rparr>"
    and own: "th_pthread (ts_objs s i) = self \<or> th_pthread (ts_objs s i) = PTH_INVALID_THREAD"
    and free: "ts_tls s self = None"
    using assms(3) by (auto simp: attach_pthread_def upd_thread_def Let_def)
  have "ts_tls s p \<noteq> Some i" for p
    using assms(1) own free unfolding link_ok_def by force
  then have "link_ok s'" using assms(1,2) unfolding s' link_ok_def
    by (auto simp: upd_thread_def split: if_splits)
  then show ?thesis using assms(2) unfolding s'
    by (simp add: upd_thread_def Thread_Current_def GetThread_def)
qed

lemma detach_link_ok:
  assumes "link_ok s" "ts_tls s self = Some i" "detach_pthread i self s = Some s'"
  shows "link_ok s' \<and> ts_tls s' self = None \<and> th_pthread (ts_objs s' i) = PTH_INVALID_THREAD"
proof -
  have s': "s' = upd_thread i (\<lambda>t. t\<lparr> th_pthread := PTH_INVALID_THREAD \<rparr>) (s\<lparr> ts_tls := (ts_tls s)(self := None) \<rparr>)"
    and own: "th_pthread (ts_objs s i) = self"
    using assms(3) by (auto simp: detach_pthread_def Let_def)
  have "p = self" if "ts_tls s p = Some i" for p
    using assms(1) own that unfolding link_ok_def by blast
  then have "link_ok s'" using assms(1) unfolding s'
    by (auto simp: link_ok_def upd_thread_def split: if_splits)
  then show ?thesis unfolding s' by (simp add: upd_thread_def)
qed

lemma call_function_link:
  "call_function i s = Some (v, s') \<Longrightarrow>
   ts_tls s' = ts_tls s \<and> th_pthread (ts_objs s' j) = th_pthread (ts_objs s j)"
  by (auto simp: call_function_def upd_thread_def bind_Some_iff Let_def)

text \<open>Two states for the witnesses: an idle system, and one in which thread 7 runs object 3.\<close>

definition sample_threads :: thread_state where
  "sample_threads =
     \<lparr> ts_objs = \<lambda>_. \<lparr> th_tid = 1, th_entry_function = Some (\<lambda>x. x + 1), th_entry_arg = 5,
           th_stack_size = 0, th_pthread = 0, th_return_value = 0 \<rparr>, ts_tls = \<lambda>_. None \<rparr>"

definition running_threads :: thread_state where
  "running_threads = (upd_thread 3 (\<lambda>t. t\<lparr> th_pthread := 7, th_return_value := 6 \<rparr>) sample_threads)
     \<lparr> ts_tls := [7 \<mapsto> 3] \<rparr>"

section \<open>Properties\<close>

text \<open>The entry of a started thread runs its function once on its argument, stores the
  returned value, and detaches the thread object from the pthread.\<close>

lemma ThreadEntry_spec:
  assumes "Thread_Start i (PTH_SUCCESS, self) s = Some (self, s1)" "ts_tls s self = None"
    and f: "th_entry_function (ts_objs s i) = Some f"
  shows "ThreadEntry Thread_Run i self s1 = Some (f (th_entry_arg (ts_objs s i)),
     upd_thread i (\<lambda>t. t\<lparr> th_return_value := f (th_entry_arg (ts_objs s i)), th_pthread := PTH_INVALID_THREAD \<rparr>) s)"
proof -
  have self: "self \<noteq> PTH_INVALID_THREAD"
    and s1: "s1 = upd_thread i (\<lambda>t. t\<lparr> th_return_value := 0, th_pthread := self \<rparr>) s"
    using assms(1) by (auto simp: Thread_Start_def upd_thread_def Let_def)
  show ?thesis
    using self assms(2) f unfolding s1
    by (cases s) (simp add: ThreadEntry_def attach_pthread_def Thread_Run_def call_function_def
        CleanupHandler_def detach_pthread_def upd_thread_def Let_def abort_simps fun_upd_idem)
qed

lemma ThreadEntry_spec_example:
  "ThreadEntry Thread_Run 3 7 (upd_thread 3 (\<lambda>t. t\<lparr> th_return_value := 0, th_pthread := 7 \<rparr>) sample_threads) =
     Some (6, upd_thread 3 (\<lambda>t. t\<lparr> th_return_value := 6, th_pthread := PTH_INVALID_THREAD \<rparr>) sample_threads)"
  using ThreadEntry_spec [of 3 7 sample_threads
      "upd_thread 3 (\<lambda>t. t\<lparr> th_return_value := 0, th_pthread := 7 \<rparr>) sample_threads" "\<lambda>x. x + 1"]
  by (simp add: Thread_Start_def Let_def upd_thread_def PTH_INVALID_THREAD_def sample_threads_def)

text \<open>Joining a thread that has already ended returns at once: the thread is not joined
  and its value is not stored.\<close>

lemma Join_after_end:
  assumes "link_ok s" "ts_tls s self = Some i" "CleanupHandler i self s = Some s1"
  shows "Thread_Join i True res s1 = Some None"
  using assms detach_link_ok [of s self i s1] by (auto simp: Thread_Join_def CleanupHandler_def)

lemma Join_after_end_example:
  "\<exists>s1. CleanupHandler 3 7 (running_threads) = Some s1 \<and> Thread_Join 3 True (PTH_SUCCESS, 6) s1 = Some None"
proof -
  obtain s1 where s1: "CleanupHandler 3 7 running_threads = Some s1"
    by (simp add: CleanupHandler_def detach_pthread_def running_threads_def sample_threads_def
        upd_thread_def PTH_INVALID_THREAD_def)
  have "Thread_Join 3 True (PTH_SUCCESS, 6) s1 = Some None"
    by (rule Join_after_end [OF _ _ s1])
      (auto simp: running_threads_def sample_threads_def link_ok_def upd_thread_def PTH_INVALID_THREAD_def
        split: if_splits)
  with s1 show ?thesis by blast
qed

end
