(* ===== verification/Coroutines.thy ===== *)
theory Coroutines
  imports Channels Thread_Life
begin

text \<open>
  coroutine.h and coroutine.cpp: the status of a coroutine, and the protocol between the main
  thread (Start, WaitForEnd, Finish) and the thread of one coroutine (Run with SetStarted, the
  test function, SetEnded) over the channel of the coroutine and the semaphore sem_end.

  A critical section of the channel mutex is one step, since the mutex excludes every other
  thread until it is released or slept on (Sync_Prims).  A step is a function to \<open>hs option\<close>; \<open>None\<close>
  is a failed assertion.
\<close>

section \<open>Status and messages\<close>

datatype StatusType = ABSENT | PASSIVE | ENABLED | WAITING | BLOCKED | ENDED | TERMINATED

fun co_status_code :: "StatusType \<Rightarrow> int" where
  "co_status_code ABSENT = 0"
| "co_status_code PASSIVE = 1"
| "co_status_code ENABLED = 2"
| "co_status_code WAITING = 3"
| "co_status_code BLOCKED = 4"
| "co_status_code ENDED = 5"
| "co_status_code TERMINATED = 6"

lemma co_status_code_inj: "co_status_code a = co_status_code b \<longleftrightarrow> a = b"
  by (cases a; cases b) auto

instantiation StatusType :: linorder
begin

definition less_eq_StatusType :: "StatusType \<Rightarrow> StatusType \<Rightarrow> bool" where
  "a \<le> b \<longleftrightarrow> co_status_code a \<le> co_status_code b"

definition less_StatusType :: "StatusType \<Rightarrow> StatusType \<Rightarrow> bool" where
  "a < b \<longleftrightarrow> co_status_code a < co_status_code b"

instance
  by standard (auto simp: less_eq_StatusType_def less_StatusType_def co_status_code_inj [symmetric])

end

lemmas status_order = less_eq_StatusType_def less_StatusType_def

datatype MessageType =
  MSG_INVALID | MSG_STARTED | MSG_TRANSFER | MSG_RESTART | MSG_TERMINATE | MSG_EXCEPTION

definition co_is_ended :: "StatusType \<Rightarrow> bool" where
  "co_is_ended st \<longleftrightarrow> st \<ge> ENDED"

text \<open>What HandleMessage does for a coroutine other than main: nothing for a transfer, and it throws
  a restart or a terminate message, which the loop of Run catches.\<close>

definition HandleMessage :: "MessageType \<Rightarrow> MessageType option option" where
  "HandleMessage msg =
     (if msg = MSG_TRANSFER then Some None
      else if msg = MSG_RESTART \<or> msg = MSG_TERMINATE then Some (Some msg)
      else do { safe_assert (msg = MSG_EXCEPTION); safe_assert False; Some None })"

section \<open>The system of main and one coroutine\<close>

datatype main_pc = MReady | MStarting | MWaitFirst | MWaitSecond | MJoin

datatype co_pc =
    CNone             \<comment> \<open>no thread\<close>
  | CRun              \<comment> \<open>Run before its loop\<close>
  | CLoop             \<comment> \<open>the head of the loop, before SetStarted\<close>
  | CSend             \<comment> \<open>SetStarted after it set the status, before the channel\<close>
  | CWaitTransfer     \<comment> \<open>asleep in SendWaitReceive\<close>
  | CBody             \<comment> \<open>in the test function\<close>
  | CEnding           \<comment> \<open>after the test function, before SetEnded\<close>
  | CWaitLast         \<comment> \<open>asleep in SetEnded\<close>
  | CExit             \<comment> \<open>after the loop\<close>

record hs =
  h_status :: StatusType
  h_chan :: "MessageType channel"
  h_sem_end :: sem
  h_main :: main_pc
  h_co :: co_pc

definition MAIN :: pthread where
  "MAIN = 1"

definition SELF :: pthread where
  "SELF = 2"

definition new_Coroutine :: hs where
  "new_Coroutine = \<lparr> h_status = PASSIVE, h_chan = new_Channel MSG_INVALID, h_sem_end = 0,
     h_main = MReady, h_co = CNone \<rparr>"

text \<open>Start up to the wait for the started message: a new thread for a passive or terminated
  coroutine, a restart message for a waiting or ended one.\<close>

definition Start_begin :: "hs \<Rightarrow> hs option" where
  "Start_begin s = do {
     safe_assert (PASSIVE \<le> h_status s \<and> h_status s \<le> TERMINATED);
     s1 \<leftarrow> (if h_status s = PASSIVE \<or> h_status s = TERMINATED then Some (s\<lparr> h_co := CRun \<rparr>)
            else if h_status s = WAITING \<or> h_status s = ENDED
            then do { c \<leftarrow> SendNoWait MSG_RESTART (h_chan s); Some (s\<lparr> h_chan := c \<rparr>) }
            else None);
     Some (s1\<lparr> h_chan := WaitReceive_begin MAIN (h_chan s1), h_main := MStarting \<rparr>) }"

text \<open>Start after the wake-up: it expects the started message, gives sem_end its first token and
  sends the transfer.\<close>

definition Start_end :: "hs \<Rightarrow> hs option" where
  "Start_end s = do {
     (msg, c) \<leftarrow> WaitReceive_end MAIN (h_chan s);
     safe_assert (msg = MSG_STARTED);
     sem0 \<leftarrow> Sem_Set 0 (h_sem_end s);
     sem1 \<leftarrow> Sem_Signal sem0;
     safe_assert (h_status s = WAITING);
     c1 \<leftarrow> SendNoWait MSG_TRANSFER c;
     Some (s\<lparr> h_chan := c1, h_sem_end := sem1, h_main := MReady \<rparr>) }"

text \<open>WaitForEnd: two tokens, which it gives back.  The wait for the second one may time out.\<close>

definition WaitForEnd_begin :: "hs \<Rightarrow> hs option" where
  "WaitForEnd_begin s = do {
     safe_assert (ENABLED \<le> h_status s \<and> h_status s \<le> ENDED);
     Some (s\<lparr> h_main := MWaitFirst \<rparr>) }"

definition WaitForEnd_first :: "hs \<Rightarrow> hs call option" where
  "WaitForEnd_first s = do {
     c \<leftarrow> Sem_Wait [] (h_sem_end s);
     Some (case c of Blocks \<Rightarrow> Blocks
       | Returns v \<Rightarrow> Returns (s\<lparr> h_sem_end := v, h_main := MWaitSecond \<rparr>)) }"

definition WaitForEnd_second :: "hs \<Rightarrow> hs call option" where
  "WaitForEnd_second s = do {
     c \<leftarrow> Sem_Wait [] (h_sem_end s);
     (case c of Blocks \<Rightarrow> Some Blocks
      | Returns v \<Rightarrow> do {
          v2 \<leftarrow> Sem_Signal_n 2 v;
          safe_assert (h_status s = ENDED);
          Some (Returns (s\<lparr> h_sem_end := v2, h_main := MReady \<rparr>)) }) }"

definition WaitForEnd_timeout :: "hs \<Rightarrow> hs option" where
  "WaitForEnd_timeout s = do {
     v \<leftarrow> Sem_Signal (h_sem_end s);
     Some (s\<lparr> h_sem_end := v, h_main := MReady \<rparr>) }"

text \<open>Finish: the terminate message and a join for a coroutine that ended or waits, a cancellation
  for one that runs.  Joining completes when the thread is gone.\<close>

definition Finish_begin :: "hs \<Rightarrow> hs option" where
  "Finish_begin s = do {
     safe_assert (h_status s > PASSIVE);
     if h_status s < TERMINATED
     then (if h_status s = ENDED \<or> h_status s = WAITING
           then do { c \<leftarrow> SendNoWait MSG_TERMINATE (h_chan s); Some (s\<lparr> h_chan := c, h_main := MJoin \<rparr>) }
           else Some (s\<lparr> h_co := CNone, h_main := MJoin \<rparr>))
     else Some s }"

definition Finish_end :: "hs \<Rightarrow> hs option" where
  "Finish_end s = Some (s\<lparr> h_status := TERMINATED, h_main := MReady \<rparr>)"

text \<open>The thread of the coroutine.\<close>

definition Run_begin :: "hs \<Rightarrow> hs option" where
  "Run_begin s = do {
     safe_assert (h_status s = PASSIVE);
     Some (s\<lparr> h_co := CLoop \<rparr>) }"

definition SetStarted_begin :: "hs \<Rightarrow> hs option" where
  "SetStarted_begin s = do {
     safe_assert (PASSIVE \<le> h_status s \<and> h_status s < TERMINATED);
     Some (s\<lparr> h_status := ENABLED, h_co := CSend \<rparr>) }"

definition Transfer_begin :: "MessageType \<Rightarrow> hs \<Rightarrow> hs option" where
  "Transfer_begin msg s = do {
     safe_assert (ENABLED \<le> h_status s \<and> h_status s \<le> ENDED);
     let st = (if h_status s < ENDED then WAITING else h_status s);
     c \<leftarrow> SendWaitReceive_self_begin SELF msg (h_chan s);
     Some (s\<lparr> h_status := st, h_chan := c, h_co := CWaitTransfer \<rparr>) }"

text \<open>A message after which the loop continues or ends.\<close>

definition catch_message :: "MessageType \<Rightarrow> hs \<Rightarrow> hs option" where
  "catch_message m s =
     (if m = MSG_TERMINATE then Some (s\<lparr> h_co := CExit \<rparr>)
      else if m = MSG_RESTART then Some (s\<lparr> h_co := CLoop \<rparr>)
      else None)"

definition Transfer_end :: "hs \<Rightarrow> hs option" where
  "Transfer_end s = do {
     (msg, c) \<leftarrow> WaitReceive_end SELF (h_chan s);
     thrown \<leftarrow> HandleMessage msg;
     let s1 = s\<lparr> h_chan := c \<rparr>;
     (case thrown of
        Some m \<Rightarrow> catch_message m s1
      | None \<Rightarrow> Some (s1\<lparr> h_status := (if h_status s < ENDED then ENABLED else h_status s), h_co := CBody \<rparr>)) }"

definition StartControlledTransition :: "hs \<Rightarrow> hs option" where
  "StartControlledTransition s = Some (s\<lparr> h_status := BLOCKED \<rparr>)"

definition FinishControlledTransition :: "hs \<Rightarrow> hs option" where
  "FinishControlledTransition s = Some (s\<lparr> h_status := ENABLED \<rparr>)"

definition Body_end :: "hs \<Rightarrow> hs option" where
  "Body_end s = Some (s\<lparr> h_co := CEnding \<rparr>)"

definition SetEnded_begin :: "hs \<Rightarrow> hs option" where
  "SetEnded_begin s = do {
     v \<leftarrow> Sem_Signal (h_sem_end s);
     Some (s\<lparr> h_status := ENDED, h_sem_end := v, h_chan := WaitReceive_begin SELF (h_chan s), h_co := CWaitLast \<rparr>) }"

text \<open>After the wake-up in SetEnded a transfer would return from it and run the loop again.\<close>

definition SetEnded_end :: "hs \<Rightarrow> hs option" where
  "SetEnded_end s = do {
     (msg, c) \<leftarrow> WaitReceive_end SELF (h_chan s);
     thrown \<leftarrow> HandleMessage msg;
     let s1 = s\<lparr> h_chan := c \<rparr>;
     (case thrown of Some m \<Rightarrow> catch_message m s1 | None \<Rightarrow> Some (s1\<lparr> h_co := CLoop \<rparr>)) }"

definition Run_end :: "hs \<Rightarrow> hs option" where
  "Run_end s = Some (s\<lparr> h_status := TERMINATED, h_co := CNone \<rparr>)"

section \<open>Steps\<close>

text \<open>
  \<open>hs_trans s r\<close>: a thread of the system makes its next step from \<open>s\<close>, with the result \<open>r\<close>.  Main
  calls Start for a passive coroutine or one that ended, and Finish for one that ended, that
  terminated or that runs its test function.
\<close>

inductive hs_trans :: "hs \<Rightarrow> hs option \<Rightarrow> bool" where
  Start: "h_main s = MReady \<Longrightarrow> h_status s = PASSIVE \<or> h_status s = ENDED \<Longrightarrow> hs_trans s (Start_begin s)"
| Started: "h_main s = MStarting \<Longrightarrow> MAIN \<in> set (ch_woken (h_chan s)) \<Longrightarrow> hs_trans s (Start_end s)"
| WaitEnd: "h_main s = MReady \<Longrightarrow> ENABLED \<le> h_status s \<Longrightarrow> h_status s \<le> ENDED \<Longrightarrow> hs_trans s (WaitForEnd_begin s)"
| First: "h_main s = MWaitFirst \<Longrightarrow> WaitForEnd_first s = Some (Returns s') \<Longrightarrow> hs_trans s (Some s')"
| First_abort: "h_main s = MWaitFirst \<Longrightarrow> WaitForEnd_first s = None \<Longrightarrow> hs_trans s None"
| Second: "h_main s = MWaitSecond \<Longrightarrow> WaitForEnd_second s = Some (Returns s') \<Longrightarrow> hs_trans s (Some s')"
| Second_abort: "h_main s = MWaitSecond \<Longrightarrow> WaitForEnd_second s = None \<Longrightarrow> hs_trans s None"
| Timed_out: "h_main s = MWaitSecond \<Longrightarrow> hs_trans s (WaitForEnd_timeout s)"
| Finish: "h_main s = MReady \<Longrightarrow> h_status s = ENDED \<or> h_status s = TERMINATED \<or> h_co s = CBody \<Longrightarrow>
    h_status s > PASSIVE \<Longrightarrow> hs_trans s (Finish_begin s)"
| Joined: "h_main s = MJoin \<Longrightarrow> h_co s = CNone \<Longrightarrow> hs_trans s (Finish_end s)"
| Run: "h_co s = CRun \<Longrightarrow> hs_trans s (Run_begin s)"
| Loop: "h_co s = CLoop \<Longrightarrow> hs_trans s (SetStarted_begin s)"
| Send: "h_co s = CSend \<Longrightarrow> hs_trans s (Transfer_begin MSG_STARTED s)"
| Transferred: "h_co s = CWaitTransfer \<Longrightarrow> SELF \<in> set (ch_woken (h_chan s)) \<Longrightarrow> hs_trans s (Transfer_end s)"
| Block: "h_co s = CBody \<Longrightarrow> hs_trans s (StartControlledTransition s)"
| Unblock: "h_co s = CBody \<Longrightarrow> hs_trans s (FinishControlledTransition s)"
| Return: "h_co s = CBody \<Longrightarrow> hs_trans s (Body_end s)"
| Ending: "h_co s = CEnding \<Longrightarrow> hs_trans s (SetEnded_begin s)"
| Last: "h_co s = CWaitLast \<Longrightarrow> SELF \<in> set (ch_woken (h_chan s)) \<Longrightarrow> hs_trans s (SetEnded_end s)"
| Exit: "h_co s = CExit \<Longrightarrow> hs_trans s (Run_end s)"

inductive hs_reach :: "hs \<Rightarrow> bool" where
  initial: "hs_reach new_Coroutine"
| more: "hs_reach s \<Longrightarrow> hs_trans s (Some s') \<Longrightarrow> hs_reach s'"

section \<open>The invariant\<close>

text \<open>What main and the coroutine may be doing at the same time, with the status, the channel (the
  message in it, who sleeps, who was woken) and the tokens of sem_end.\<close>

definition chan_is :: "MessageType option \<Rightarrow> pthread list \<Rightarrow> pthread list \<Rightarrow> MessageType channel \<Rightarrow> bool" where
  "chan_is msg w k c \<longleftrightarrow> ch_full c = (msg \<noteq> None) \<and> (\<forall>m. msg = Some m \<longrightarrow> ch_buffer c = m)
     \<and> ch_waiting c = w \<and> ch_woken c = k"

definition tokens :: "main_pc \<Rightarrow> nat \<Rightarrow> sem \<Rightarrow> bool" where
  "tokens p n v \<longleftrightarrow> (if p = MWaitSecond then v + 1 = n else v = n)"

fun shape :: "main_pc \<Rightarrow> co_pc \<Rightarrow> StatusType \<Rightarrow> MessageType channel \<Rightarrow> sem \<Rightarrow> bool" where
  "shape MReady CNone st c v = ((st = PASSIVE \<or> st = TERMINATED) \<and> chan_is None [] [] c \<and> v \<le> 2)"
| "shape MStarting CRun st c v = (st = PASSIVE \<and> chan_is None [MAIN] [] c \<and> v \<le> 2)"
| "shape MStarting CLoop st c v = ((st = PASSIVE \<or> st = ENDED) \<and> chan_is None [MAIN] [] c \<and> v \<le> 2)"
| "shape MStarting CSend st c v = (st = ENABLED \<and> chan_is None [MAIN] [] c \<and> v \<le> 2)"
| "shape MStarting CWaitTransfer st c v = (st = WAITING \<and> chan_is (Some MSG_STARTED) [SELF] [MAIN] c \<and> v \<le> 2)"
| "shape MStarting CWaitLast st c v = (st = ENDED \<and> chan_is (Some MSG_RESTART) [MAIN] [SELF] c \<and> v \<le> 2)"
| "shape MJoin CWaitLast st c v = (st = ENDED \<and> chan_is (Some MSG_TERMINATE) [] [SELF] c \<and> v \<le> 2)"
| "shape MJoin CExit st c v = (chan_is None [] [] c \<and> v \<le> 2)"
| "shape MJoin CNone st c v = (chan_is None [] [] c \<and> v \<le> 2)"
| "shape p CWaitTransfer st c v = (p \<noteq> MJoin \<and> st = WAITING \<and> chan_is (Some MSG_TRANSFER) [] [SELF] c \<and> tokens p 1 v)"
| "shape p CBody st c v = (p \<noteq> MJoin \<and> p \<noteq> MStarting \<and> (st = ENABLED \<or> st = BLOCKED) \<and> chan_is None [] [] c \<and> tokens p 1 v)"
| "shape p CEnding st c v = (p \<noteq> MJoin \<and> p \<noteq> MStarting \<and> (st = ENABLED \<or> st = BLOCKED) \<and> chan_is None [] [] c \<and> tokens p 1 v)"
| "shape p CWaitLast st c v = (st = ENDED \<and> chan_is None [SELF] [] c \<and> tokens p 2 v)"
| "shape _ _ st c v = False"

definition hs_inv :: "hs \<Rightarrow> bool" where
  "hs_inv s \<longleftrightarrow> shape (h_main s) (h_co s) (h_status s) (h_chan s) (h_sem_end s)"

lemmas step_defs = Start_begin_def Start_end_def WaitForEnd_begin_def WaitForEnd_first_def
  WaitForEnd_second_def WaitForEnd_timeout_def Finish_begin_def Finish_end_def Run_begin_def
  SetStarted_begin_def Transfer_begin_def catch_message_def Transfer_end_def
  StartControlledTransition_def FinishControlledTransition_def Body_end_def SetEnded_begin_def
  SetEnded_end_def Run_end_def HandleMessage_def

lemmas prim_defs = ch_defs Sem_Set_def Sem_Init_def Sem_Get_def Sem_Signal_def SEM_VALUE_MAX_def
  chan_is_def tokens_def MAIN_def SELF_def status_order BETWEEN_def safe_assert_bind Let_def

lemma Signal_two: "v \<le> 2 \<Longrightarrow> Sem_Signal_n 2 v = Some (v + 2)"
  using Sem_Signal_n_total [of 2 v] by (simp add: SEM_VALUE_MAX_def)

text \<open>Every step of a thread, from a state of the invariant, succeeds in a state of the invariant.\<close>

definition good :: "hs option \<Rightarrow> bool" where
  "good r \<longleftrightarrow> (\<exists>s. r = Some s \<and> hs_inv s)"

lemma main_steps_good:
  assumes "hs_inv s"
  shows "h_main s = MReady \<Longrightarrow> h_status s = PASSIVE \<or> h_status s = ENDED \<Longrightarrow> good (Start_begin s)"
    and "h_main s = MStarting \<Longrightarrow> MAIN \<in> set (ch_woken (h_chan s)) \<Longrightarrow> good (Start_end s)"
    and "h_main s = MReady \<Longrightarrow> ENABLED \<le> h_status s \<Longrightarrow> h_status s \<le> ENDED \<Longrightarrow> good (WaitForEnd_begin s)"
    and "h_main s = MWaitSecond \<Longrightarrow> good (WaitForEnd_timeout s)"
    and "h_main s = MReady \<Longrightarrow> h_status s = ENDED \<or> h_status s = TERMINATED \<or> h_co s = CBody \<Longrightarrow>
      h_status s > PASSIVE \<Longrightarrow> good (Finish_begin s)"
    and "h_main s = MJoin \<Longrightarrow> h_co s = CNone \<Longrightarrow> good (Finish_end s)"
  using assms unfolding hs_inv_def good_def
  by (cases s, cases "h_co s", auto simp: step_defs prim_defs)+

lemma wait_steps_good:
  assumes "hs_inv s"
  shows "h_main s = MWaitFirst \<Longrightarrow> WaitForEnd_first s = Some (Returns s') \<Longrightarrow> hs_inv s'"
    and "h_main s = MWaitFirst \<Longrightarrow> WaitForEnd_first s \<noteq> None"
    and "h_main s = MWaitSecond \<Longrightarrow> WaitForEnd_second s = Some (Returns s') \<Longrightarrow> hs_inv s'"
    and "h_main s = MWaitSecond \<Longrightarrow> WaitForEnd_second s \<noteq> None"
  using assms unfolding hs_inv_def
  by (cases s, cases "h_co s", auto simp: step_defs prim_defs Signal_two split: if_splits)+

lemma co_steps_good:
  assumes "hs_inv s"
  shows "h_co s = CRun \<Longrightarrow> good (Run_begin s)"
    and "h_co s = CLoop \<Longrightarrow> good (SetStarted_begin s)"
    and "h_co s = CSend \<Longrightarrow> good (Transfer_begin MSG_STARTED s)"
    and "h_co s = CWaitTransfer \<Longrightarrow> SELF \<in> set (ch_woken (h_chan s)) \<Longrightarrow> good (Transfer_end s)"
    and "h_co s = CBody \<Longrightarrow> good (StartControlledTransition s)"
    and "h_co s = CBody \<Longrightarrow> good (FinishControlledTransition s)"
    and "h_co s = CBody \<Longrightarrow> good (Body_end s)"
    and "h_co s = CEnding \<Longrightarrow> good (SetEnded_begin s)"
    and "h_co s = CWaitLast \<Longrightarrow> SELF \<in> set (ch_woken (h_chan s)) \<Longrightarrow> good (SetEnded_end s)"
    and "h_co s = CExit \<Longrightarrow> good (Run_end s)"
  using assms unfolding hs_inv_def good_def
  by (cases s, cases "h_main s", auto simp: step_defs prim_defs split: if_splits)+

lemma hs_trans_good: "hs_trans s r \<Longrightarrow> hs_inv s \<Longrightarrow> good r"
  by (induction rule: hs_trans.induct)
    (auto dest: main_steps_good wait_steps_good co_steps_good simp: good_def)

lemma hs_reach_inv: "hs_reach s \<Longrightarrow> hs_inv s"
proof (induction rule: hs_reach.induct)
  case initial
  then show ?case
    by (simp add: hs_inv_def new_Coroutine_def new_Channel_def chan_is_def)
next
  case (more s s')
  then show ?case using hs_trans_good [of s "Some s'"] by (auto simp: good_def)
qed

section \<open>Start returns\<close>

definition start_rank :: "hs \<Rightarrow> nat" where
  "start_rank s = (if h_main s \<noteq> MStarting then 0 else
     (case h_co s of CWaitTransfer \<Rightarrow> 1 | CSend \<Rightarrow> 2 | CLoop \<Rightarrow> 3 | CRun \<Rightarrow> 4 | CWaitLast \<Rightarrow> 4 | _ \<Rightarrow> 0))"

lemma start_progress:
  assumes "hs_inv s" "h_main s = MStarting"
  shows "\<exists>s'. hs_trans s (Some s')"
proof -
  have "\<exists>r. hs_trans s r"
  proof (cases "h_co s")
    case CWaitTransfer
    then have "MAIN \<in> set (ch_woken (h_chan s))" using assms by (simp add: hs_inv_def chan_is_def)
    then show ?thesis using hs_trans.Started [OF assms(2)] by blast
  next
    case CWaitLast
    then have "SELF \<in> set (ch_woken (h_chan s))" using assms by (simp add: hs_inv_def chan_is_def)
    then show ?thesis using hs_trans.Last [OF CWaitLast] by blast
  qed (use assms in \<open>auto simp: hs_inv_def chan_is_def intro: hs_trans.intros\<close>)
  then show ?thesis using hs_trans_good assms(1) unfolding good_def by blast
qed

lemma Start_end_main: "Start_end s = Some s' \<Longrightarrow> h_main s' = MReady"
  by (auto simp: Start_end_def bind_Some_iff split: prod.splits)

lemma start_decreases_aux:
  assumes "hs_trans s r"
  shows "hs_inv s \<Longrightarrow> h_main s = MStarting \<Longrightarrow> r = Some s' \<Longrightarrow> start_rank s' < start_rank s"
  using assms
proof (induction rule: hs_trans.induct)
  case (Started s)
  then show ?case
    by (cases "h_co s") (auto simp: start_rank_def hs_inv_def chan_is_def Start_end_main)
qed (auto simp: hs_inv_def start_rank_def step_defs bind_Some_iff safe_assert_bind Let_def chan_is_def
    ch_defs split: if_splits)

lemmas start_decreases = start_decreases_aux [OF _ _ _ refl]

lemma restart_terminated_aborts:
  "h_status s = TERMINATED \<Longrightarrow> Start_begin s = Some s1 \<Longrightarrow> h_co s1 = CRun \<and> Run_begin s1 = None"
  by (auto simp: Start_begin_def Run_begin_def safe_assert_def split: if_splits)

section \<open>Properties\<close>



text \<open>C32: Whenever the main thread is inside Start, some step of the handshake is possible
  and every step decreases the rank of the state, so that the handshake of starting a coroutine
  ends.\<close>

theorem Start_returns:
  assumes "hs_reach s" "h_main s = MStarting"
  shows "{s'. hs_trans s (Some s')} \<noteq> {}
    \<and> {s'. hs_trans s (Some s')} \<subseteq> {s'. start_rank s' < start_rank s}"
  using start_progress [OF hs_reach_inv [OF assms(1)] assms(2)]
    start_decreases [OF _ hs_reach_inv [OF assms(1)] assms(2)] by blast

theorem Start_returns_witness:
  "{s'. hs_trans (the (Start_begin new_Coroutine)) (Some s')} \<noteq> {}"
proof -
  have "hs_trans new_Coroutine (Start_begin new_Coroutine)"
    by (rule hs_trans.Start) (simp_all add: new_Coroutine_def)
  moreover have eq: "Start_begin new_Coroutine = Some (the (Start_begin new_Coroutine))"
    by (simp add: Start_begin_def new_Coroutine_def status_order)
  ultimately have "hs_reach (the (Start_begin new_Coroutine))"
    by (metis hs_reach.more hs_reach.initial)
  moreover have "h_main (the (Start_begin new_Coroutine)) = MStarting"
    by (simp add: Start_begin_def new_Coroutine_def status_order)
  ultimately show ?thesis using Start_returns by blast
qed

end
