(* ===== verification/Thread_Groups.thy ===== *)
theory Thread_Groups
  imports Coroutines
begin

text \<open>
  group.h and group.cpp: the group of coroutines of a scenario.  Coroutine objects live in a store
  and are named by references; the group has the map from thread ids to members, the thread ids
  in creation order, and the index of the next member that a re-execution is going to create.
\<close>

record co_obj =
  g_tid :: tid
  g_status :: StatusType
  g_group :: "nat option"
  g_pthread :: pthread

record group =
  g_this :: nat
  g_cos :: "nat \<Rightarrow> co_obj"
  g_main :: "nat option"
  g_members :: "(tid \<times> nat) list"
  g_next_tid :: tid
  g_tidseq :: "tid list"
  g_next_idx :: nat

definition CoroutineGroup :: "nat \<Rightarrow> (nat \<Rightarrow> co_obj) \<Rightarrow> nat option \<Rightarrow> group" where
  "CoroutineGroup this cos main = \<lparr> g_this = this, g_cos = cos, g_main = main, g_members = [],
     g_next_tid = 1, g_tidseq = [], g_next_idx = 0 \<rparr>"

definition upd_co :: "nat \<Rightarrow> (co_obj \<Rightarrow> co_obj) \<Rightarrow> group \<Rightarrow> group" where
  "upd_co c f g = g\<lparr> g_cos := (g_cos g)(c := f (g_cos g c)) \<rparr>"

definition IsMain :: "group \<Rightarrow> nat \<Rightarrow> bool option" where
  "IsMain g c = (if g_tid (g_cos g c) = MAIN_TID
     then do { safe_assert (g_group (g_cos g c) = None \<or> g_main g = Some c); Some True }
     else Some False)"

definition not_main :: "group \<Rightarrow> nat \<Rightarrow> unit option" where
  "not_main g c = do { b \<leftarrow> IsMain g c; safe_assert (\<not> b) }"

definition GetMember :: "group \<Rightarrow> tid \<Rightarrow> nat option option" where
  "GetMember g t = (if t = MAIN_TID then do { m \<leftarrow> g_main g; Some (Some m) }
     else (case map_of (g_members g) t of
       None \<Rightarrow> Some None
     | Some c \<Rightarrow> do { safe_assert (g_group (g_cos g c) \<noteq> None); Some (Some c) }))"

definition GetMember_pid :: "group \<Rightarrow> pthread \<Rightarrow> nat option" where
  "GetMember_pid g p = find (\<lambda>c. g_pthread (g_cos g c) = p) (map snd (g_members g))"

definition HasMember_tid :: "group \<Rightarrow> tid \<Rightarrow> bool option" where
  "HasMember_tid g t = do { m \<leftarrow> GetMember g t; Some (m \<noteq> None) }"

definition HasMember :: "group \<Rightarrow> nat \<Rightarrow> bool option" where
  "HasMember g member = do {
     m \<leftarrow> GetMember g (g_tid (g_cos g member));
     (case m of
        None \<Rightarrow> Some False
      | Some c \<Rightarrow> do { safe_check (g_group (g_cos g c) = Some (g_this g)); Some True }) }"

definition AddMember :: "nat \<Rightarrow> group \<Rightarrow> group option" where
  "AddMember member g = do {
     not_main g member;
     has \<leftarrow> HasMember g member;
     safe_check (\<not> has);
     let g1 = (if g_tid (g_cos g member) < 0
               then upd_co member (\<lambda>c. c\<lparr> g_tid := g_next_tid g \<rparr>) g else g);
     let t = g_tid (g_cos g1 member);
     let g2 = g1\<lparr> g_next_tid := t + 1, g_members := map_set t member (g_members g1) \<rparr>;
     let g3 = upd_co member (\<lambda>c. c\<lparr> g_group := Some (g_this g) \<rparr>) g2;
     safe_assert (g_next_idx g3 = length (g_tidseq g3));
     Some (g3\<lparr> g_tidseq := g_tidseq g3 @ [t], g_next_idx := g_next_idx g3 + 1 \<rparr>) }"

text \<open>DeleteMember clears the entry of the creation order at the index of the thread id; an index
  beyond the vector is undefined, here an abort.\<close>

definition DeleteMember :: "nat \<Rightarrow> group \<Rightarrow> group option" where
  "DeleteMember member g = do {
     not_main g member;
     has \<leftarrow> HasMember g member;
     safe_check has;
     let t = g_tid (g_cos g member);
     safe_assert (t \<ge> 0);
     let g1 = g\<lparr> g_members := map_erase t (g_members g) \<rparr>;
     let g2 = upd_co member (\<lambda>c. c\<lparr> g_group := None \<rparr>) g1;
     safe_assert (nat t < length (g_tidseq g2));
     Some (g2\<lparr> g_tidseq := (g_tidseq g2)[nat t := 0] \<rparr>) }"

definition DeleteAllMembers :: "group \<Rightarrow> group" where
  "DeleteAllMembers g = g\<lparr> g_members := [], g_tidseq := [], g_next_tid := 1, g_next_idx := 0 \<rparr>"

definition GetNthCreatedMember :: "nat \<Rightarrow> tid \<Rightarrow> group \<Rightarrow> nat option option" where
  "GetNthCreatedMember i t g = do {
     safe_assert (i \<le> g_next_idx g \<and> g_next_idx g \<le> length (g_tidseq g));
     if i \<ge> length (g_tidseq g) then Some None
     else do {
       let exp_tid = g_tidseq g ! i;
       safe_check (t = -1 \<or> t = exp_tid);
       let t1 = (if t = -1 then exp_tid else t);
       m \<leftarrow> GetMember g t1;
       member \<leftarrow> m;
       safe_check (g_tid (g_cos g member) = t1 \<and> g_status (g_cos g member) > PASSIVE);
       Some (Some member) } }"

definition GetNextCreatedMember :: "group \<Rightarrow> (nat option \<times> group) option" where
  "GetNextCreatedMember g = do {
     safe_assert (g_next_idx g \<le> length (g_tidseq g));
     (if g_next_idx g < length (g_tidseq g)
      then do {
        m \<leftarrow> GetNthCreatedMember (g_next_idx g) (-1) g;
        (case m of None \<Rightarrow> Some () | Some c \<Rightarrow> not_main g c);
        Some (m, g\<lparr> g_next_idx := g_next_idx g + 1 \<rparr>) }
      else do { safe_assert (g_next_idx g = length (g_tidseq g)); Some (None, g) }) }"

definition TakeOutMember :: "nat \<Rightarrow> group \<Rightarrow> group option" where
  "TakeOutMember member g = do {
     has \<leftarrow> HasMember g member;
     safe_check has;
     not_main g member;
     let t = g_tid (g_cos g member);
     safe_assert (map_of (g_members g) t \<noteq> None);
     Some (g\<lparr> g_members := map_erase t (g_members g) \<rparr>) }"

definition PutBackMember :: "nat \<Rightarrow> group \<Rightarrow> group option" where
  "PutBackMember member g = do {
     has \<leftarrow> HasMember g member;
     safe_check (\<not> has);
     not_main g member;
     Some (g\<lparr> g_members := map_set (g_tid (g_cos g member)) member (g_members g) \<rparr>) }"

text \<open>Restart puts main into this group.\<close>

definition Group_Restart :: "group \<Rightarrow> group option" where
  "Group_Restart g = do {
     m \<leftarrow> g_main g;
     Some ((upd_co m (\<lambda>c. c\<lparr> g_group := Some (g_this g) \<rparr>) g)\<lparr> g_next_idx := 0 \<rparr>) }"

text \<open>Loops over the members, in the order of the thread ids.  What finishing or cancelling one
  coroutine does to its object is Finish and CancelJoin of the coroutine (Coroutines, Thread_Life).\<close>

definition members :: "group \<Rightarrow> nat list" where
  "members g = map snd (g_members g)"

definition Group_Finish :: "(nat \<Rightarrow> group \<Rightarrow> group option) \<Rightarrow> group \<Rightarrow> group option" where
  "Group_Finish finish g = fold (\<lambda>c r. do {
     g1 \<leftarrow> r;
     g2 \<leftarrow> (if g_status (g_cos g1 c) > PASSIVE then finish c g1 else Some g1);
     safe_assert (g_status (g_cos g2 c) = TERMINATED);
     Some g2 }) (members g) (Some g)"

definition CancelJoinAll :: "(nat \<Rightarrow> group \<Rightarrow> group option) \<Rightarrow> group \<Rightarrow> group option" where
  "CancelJoinAll cancel_join g = do {
     g1 \<leftarrow> fold (\<lambda>c r. do {
       g1 \<leftarrow> r;
       (if g_status (g_cos g1 c) > PASSIVE then cancel_join c g1 else Some g1) }) (members g) (Some g);
     Some (DeleteAllMembers g1) }"

definition IsAllEnded :: "group \<Rightarrow> bool" where
  "IsAllEnded g = list_all (\<lambda>c. co_is_ended (g_status (g_cos g c))) (members g)"

definition WaitForAllEnd :: "(nat \<Rightarrow> group \<Rightarrow> (bool \<times> group) option) \<Rightarrow> group \<Rightarrow> (nat \<times> group) option" where
  "WaitForAllEnd wait g = do {
     (n, g1) \<leftarrow> fold (\<lambda>c r. do {
       (n, g1) \<leftarrow> r;
       (if g_status (g_cos g1 c) > PASSIVE
        then do { (ok, g2) \<leftarrow> wait c g1; Some (if ok then n else n + 1, g2) }
        else Some (n, g1)) }) (members g) (Some (0, g));
     safe_assert (n > 0 \<or> IsAllEnded g1);
     Some (n, g1) }"

definition co_enabled :: "group \<Rightarrow> nat \<Rightarrow> bool" where
  "co_enabled g c \<longleftrightarrow> ENABLED \<le> g_status (g_cos g c) \<and> g_status (g_cos g c) < BLOCKED"

definition GetMemberSet :: "group \<Rightarrow> nat set \<Rightarrow> nat set" where
  "GetMemberSet g init = init \<union> set (members g)"

definition GetEnabledSet :: "group \<Rightarrow> nat set" where
  "GetEnabledSet g = set (filter (co_enabled g) (members g))"

text \<open>A set of coroutine pointers is iterated in the order of the addresses.\<close>

definition GetNextEnabled :: "nat set option \<Rightarrow> nat set option \<Rightarrow> group \<Rightarrow> nat option option" where
  "GetNextEnabled except_targets only_targets g = do {
     safe_assert (except_targets \<noteq> Some {});
     safe_assert (only_targets \<noteq> Some {});
     let targets = sorted_list_of_set (case only_targets of Some s \<Rightarrow> s | None \<Rightarrow> GetMemberSet g {});
     Some (find (\<lambda>c. co_enabled g c \<and> (case except_targets of None \<Rightarrow> True | Some s \<Rightarrow> c \<notin> s)) targets) }"

definition GetNumMembers :: "group \<Rightarrow> nat" where
  "GetNumMembers g = length (g_members g)"

definition KillAll :: "tid \<Rightarrow> (nat \<Rightarrow> errno) \<Rightarrow> group \<Rightarrow> nat list option" where
  "KillAll sender res g = do {
     let targets = filter (\<lambda>c. g_tid (g_cos g c) \<noteq> sender) (members g);
     safe_assert (list_all (\<lambda>c. Thread_Kill (res c) \<noteq> None) targets);
     Some targets }"

text \<open>The scope guards: the set is a list in the order of the addresses.\<close>

fun each :: "(nat \<Rightarrow> group \<Rightarrow> group option) \<Rightarrow> nat list \<Rightarrow> group \<Rightarrow> group option" where
  "each f [] g = Some g"
| "each f (c # cs) g = do { g1 \<leftarrow> f c g; each f cs g1 }"

definition WithoutGroup :: "nat list \<Rightarrow> group \<Rightarrow> group option" where
  "WithoutGroup cs g = each TakeOutMember cs g"

definition WithoutGroup_end :: "nat list \<Rightarrow> group \<Rightarrow> group option" where
  "WithoutGroup_end cs g = each PutBackMember cs g"

definition group_others :: "nat list \<Rightarrow> group \<Rightarrow> nat list" where
  "group_others cs g = sorted_list_of_set (GetMemberSet g {} - set cs)"

definition WithGroup :: "nat list \<Rightarrow> group \<Rightarrow> (nat list \<times> group) option" where
  "WithGroup cs g = do { g1 \<leftarrow> WithoutGroup (group_others cs g) g; Some (group_others cs g, g1) }"

definition WithGroup_end :: "nat list \<Rightarrow> group \<Rightarrow> group option" where
  "WithGroup_end others g = WithoutGroup_end others g"

section \<open>Well-formed groups\<close>

definition group_ok :: "group \<Rightarrow> bool" where
  "group_ok g \<longleftrightarrow> map_ok (g_members g)
     \<and> (\<forall>(t, c) \<in> set (g_members g). t > 0 \<and> g_tid (g_cos g c) = t \<and> g_group (g_cos g c) = Some (g_this g))"

lemma map_of_mem: "map_of xs k = Some v \<Longrightarrow> (k, v) \<in> set xs"
  by (rule map_of_SomeD)

lemma map_ok_distinct: "map_ok xs \<Longrightarrow> distinct (map fst xs)"
  by (simp add: map_ok_def)

lemma map_ok_unique:
  assumes "map_ok xs" "map_ok ys" "map_of xs = map_of ys"
  shows "xs = ys"
proof -
  have rec: "zs = map (\<lambda>k. (k, the (map_of zs k))) (map fst zs)" if "map_ok zs" for zs :: "('a \<times> 'b) list"
  proof -
    have "map (\<lambda>x. (fst x, the (map_of zs (fst x)))) zs = zs"
      by (rule map_idI) (auto simp: map_ok_distinct [OF that])
    then show ?thesis by (simp add: comp_def)
  qed
  have "set (map fst xs) = set (map fst ys)"
    using dom_map_of_conv_image_fst [of xs] dom_map_of_conv_image_fst [of ys] assms(3) by simp
  then have "map fst xs = map fst ys"
    using assms(1,2) by (auto simp: map_ok_def intro: sorted_distinct_set_unique)
  then show ?thesis using rec [OF assms(1)] rec [OF assms(2)] assms(3) by metis
qed

lemma map_set_last:
  "\<forall>k' \<in> fst ` set xs. k' < k \<Longrightarrow> map_set k v xs = xs @ [(k, v)]"
  by (induction k v xs rule: map_set.induct) (auto dest: less_asym)

lemma member_lookup:
  "group_ok g \<Longrightarrow> (t, c) \<in> set (g_members g) \<Longrightarrow>
   GetMember g t = Some (Some c) \<and> HasMember g c = Some True \<and> not_main g c = Some () \<and> t \<noteq> 0"
  by (auto simp: group_ok_def GetMember_def HasMember_def not_main_def IsMain_def MAIN_TID_def
      map_ok_distinct map_of_eq_Some_iff [OF map_ok_distinct] abort_simps)

lemma TakeOutMember_member:
  assumes "group_ok g" "(t, c) \<in> set (g_members g)"
  shows "TakeOutMember c g = Some (g\<lparr> g_members := map_erase t (g_members g) \<rparr>)"
proof -
  have "g_tid (g_cos g c) = t" using assms by (auto simp: group_ok_def)
  moreover have "map_of (g_members g) t = Some c"
    using assms by (auto simp: group_ok_def map_of_eq_Some_iff [OF map_ok_distinct])
  ultimately show ?thesis
    using member_lookup [OF assms] by (simp add: TakeOutMember_def)
qed

lemma map_erase_subset: "set (map_erase k xs) \<subseteq> set xs"
  by (induction k xs rule: map_erase.induct) (auto split: if_splits)

lemma group_ok_erase:
  "group_ok g \<Longrightarrow> group_ok (g\<lparr> g_members := map_erase t (g_members g) \<rparr>)"
  using map_erase_subset [of t "g_members g"] map_ok_erase by (auto simp: group_ok_def)

lemma PutBackMember_absent:
  assumes "group_ok g" "g_tid (g_cos g c) > 0" "map_of (g_members g) (g_tid (g_cos g c)) = None"
  shows "PutBackMember c g = Some (g\<lparr> g_members := map_set (g_tid (g_cos g c)) c (g_members g) \<rparr>)"
  using assms by (simp add: PutBackMember_def HasMember_def GetMember_def not_main_def IsMain_def MAIN_TID_def)

lemma group_ok_put:
  assumes "group_ok g" "g_tid (g_cos g c) > 0" "g_group (g_cos g c) = Some (g_this g)"
  shows "group_ok (g\<lparr> g_members := map_set (g_tid (g_cos g c)) c (g_members g) \<rparr>)"
proof -
  have "set (map_set k v xs) \<subseteq> insert (k, v) (set xs)" for k :: int and v :: nat and xs
    by (induction k v xs rule: map_set.induct) auto
  then show ?thesis using assms map_ok_set by (fastforce simp: group_ok_def)
qed

text \<open>What a sequence of take-outs and put-backs does to the map.\<close>

lemma take_out_all:
  assumes "group_ok g" "distinct cs" "set cs \<subseteq> set (members g)"
  shows "\<exists>g1. WithoutGroup cs g = Some g1 \<and> group_ok g1 \<and> g1 = g\<lparr> g_members := g_members g1 \<rparr>
     \<and> map_of (g_members g1) = (map_of (g_members g)) |` (- (g_tid \<circ> g_cos g) ` set cs)"
  using assms
proof (induction cs arbitrary: g)
  case Nil
  then show ?case by (simp add: WithoutGroup_def)
next
  case (Cons c cs)
  then obtain t where tc: "(t, c) \<in> set (g_members g)" by (auto simp: members_def)
  let ?g = "g\<lparr> g_members := map_erase t (g_members g) \<rparr>"
  have t: "g_tid (g_cos g c) = t" using Cons.prems(1) tc by (auto simp: group_ok_def)
  have map: "map_of (g_members ?g) = (map_of (g_members g))(t := None)"
    using Cons.prems(1) by (auto simp: group_ok_def map_of_erase)
  have "set cs \<subseteq> set (members ?g)"
  proof
    fix d assume d: "d \<in> set cs"
    then obtain u where u: "(u, d) \<in> set (g_members g)" using Cons.prems(3) by (auto simp: members_def)
    have "u \<noteq> t" using Cons.prems(1,2) u tc d
      by (auto simp: group_ok_def dest: map_ok_distinct dest!: eq_key_imp_eq_value)
    then have "map_of (g_members ?g) u = Some d"
      using map u Cons.prems(1) by (simp add: group_ok_def map_of_eq_Some_iff [OF map_ok_distinct])
    then show "d \<in> set (members ?g)" by (force simp: members_def dest: map_of_SomeD)
  qed
  with Cons.IH [OF group_ok_erase [OF Cons.prems(1)]] Cons.prems(2) obtain g1 where
    "WithoutGroup cs ?g = Some g1" "group_ok g1" "g1 = ?g\<lparr> g_members := g_members g1 \<rparr>"
    "map_of (g_members g1) = (map_of (g_members ?g)) |` (- (g_tid \<circ> g_cos ?g) ` set cs)"
    by fastforce
  then show ?case
    using TakeOutMember_member [OF Cons.prems(1) tc] map t
    by (auto simp: WithoutGroup_def restrict_map_def fun_eq_iff)
qed

lemma put_back_all:
  assumes "group_ok g" "distinct (map (g_tid \<circ> g_cos g) cs)"
    and "\<forall>c \<in> set cs. g_tid (g_cos g c) > 0 \<and> g_group (g_cos g c) = Some (g_this g)
      \<and> map_of (g_members g) (g_tid (g_cos g c)) = None"
  shows "\<exists>g1. WithoutGroup_end cs g = Some g1 \<and> group_ok g1 \<and> g1 = g\<lparr> g_members := g_members g1 \<rparr>
     \<and> map_of (g_members g1) = map_of (g_members g) ++ map_of (map (\<lambda>c. (g_tid (g_cos g c), c)) cs)"
  using assms
proof (induction cs arbitrary: g)
  case Nil
  then show ?case by (simp add: WithoutGroup_end_def)
next
  case (Cons c cs)
  let ?g = "g\<lparr> g_members := map_set (g_tid (g_cos g c)) c (g_members g) \<rparr>"
  have put: "PutBackMember c g = Some ?g" and ok: "group_ok ?g"
    using PutBackMember_absent group_ok_put Cons.prems by auto
  have "\<forall>d \<in> set cs. g_tid (g_cos ?g d) > 0 \<and> g_group (g_cos ?g d) = Some (g_this ?g)
      \<and> map_of (g_members ?g) (g_tid (g_cos ?g d)) = None"
    using Cons.prems(2,3) by (auto simp: map_of_set image_iff)
  moreover have "distinct (map (g_tid \<circ> g_cos ?g) cs)" using Cons.prems(2) by (simp add: comp_def)
  ultimately obtain g1 where
    "WithoutGroup_end cs ?g = Some g1" "group_ok g1" "g1 = ?g\<lparr> g_members := g_members g1 \<rparr>"
    "map_of (g_members g1) = map_of (g_members ?g) ++ map_of (map (\<lambda>c. (g_tid (g_cos ?g c), c)) cs)"
    using Cons.IH [OF ok] by blast
  moreover have "map_of (map (\<lambda>c. (g_tid (g_cos g c), c)) cs) (g_tid (g_cos g c)) = None"
    using Cons.prems(2) by (auto simp: map_of_eq_None_iff image_iff)
  ultimately show ?case
    using put by (auto simp: WithoutGroup_end_def map_of_set map_add_def fun_eq_iff split: option.splits)
qed

section \<open>Creation order\<close>

text \<open>A re-execution asks for the members one by one.\<close>

fun recreate :: "nat \<Rightarrow> group \<Rightarrow> (nat option list \<times> group) option" where
  "recreate 0 g = Some ([], g)"
| "recreate (Suc n) g = do {
     (m, g1) \<leftarrow> GetNextCreatedMember g;
     (ms, g2) \<leftarrow> recreate n g1;
     Some (m # ms, g2) }"

definition added :: "(nat \<Rightarrow> co_obj) \<Rightarrow> nat list \<Rightarrow> group \<Rightarrow> bool" where
  "added cos cs g \<longleftrightarrow> g_members g = zip (map (\<lambda>i. int i + 1) [0..<length cs]) cs
     \<and> g_tidseq g = map (\<lambda>i. int i + 1) [0..<length cs] \<and> g_next_idx g = length cs
     \<and> g_next_tid g = int (length cs) + 1
     \<and> (\<forall>i < length cs. g_cos g (cs ! i) = (cos (cs ! i))\<lparr> g_tid := int i + 1, g_group := Some (g_this g) \<rparr>)
     \<and> (\<forall>c. c \<notin> set cs \<longrightarrow> g_cos g c = cos c)"

lemma added_AddMember:
  assumes "added cos cs g" "c \<notin> set cs" "g_tid (cos c) = -1"
  shows "\<exists>g1. AddMember c g = Some g1 \<and> added cos (cs @ [c]) g1 \<and> g_this g1 = g_this g \<and> g_main g1 = g_main g"
proof -
  have co: "g_cos g c = cos c" using assms(1,2) by (simp add: added_def)
  have keys: "fst ` set (g_members g) \<subseteq> {1..int (length cs)}"
    using assms(1) by (auto simp: added_def dest!: set_zip_leftD)
  have "map_of (g_members g) (-1) = None"
    using keys by (auto simp: map_of_eq_None_iff)
  then have lookup: "HasMember g c = Some False" "not_main g c = Some ()"
    using co assms(3) by (simp_all add: HasMember_def GetMember_def not_main_def IsMain_def MAIN_TID_def)
  let ?n = "int (length cs) + 1"
  have set: "map_set ?n c (g_members g) = g_members g @ [(?n, c)]"
    using keys by (intro map_set_last) auto
  have nth: "(cs @ [c]) ! i = cs ! i \<and> cs ! i \<noteq> c" if "i < length cs" for i
    using that assms(2) by (metis nth_append nth_mem)
  show ?thesis
    using assms(1) lookup set co assms(3) nth
    by (auto simp: AddMember_def added_def upd_co_def Let_def less_Suc_eq)
qed

lemma added_all:
  assumes "added cos as g" "distinct (as @ cs)" "\<forall>c \<in> set cs. g_tid (cos c) = -1"
  shows "\<exists>g1. each AddMember cs g = Some g1 \<and> added cos (as @ cs) g1 \<and> g_this g1 = g_this g \<and> g_main g1 = g_main g"
  using assms
proof (induction cs arbitrary: as g)
  case (Cons c cs)
  obtain g1 where g1: "AddMember c g = Some g1" "added cos (as @ [c]) g1" "g_this g1 = g_this g" "g_main g1 = g_main g"
    using added_AddMember [OF Cons.prems(1), of c] Cons.prems(2,3) by auto
  then show ?case using Cons.IH [OF g1(2)] Cons.prems(2,3) by auto
qed auto

lemma recreate_from:
  assumes "added cos cs g" "distinct cs" "\<forall>c \<in> set cs. g_status (cos c) > PASSIVE" "i + n = length cs"
  shows "recreate n (g\<lparr> g_next_idx := i \<rparr>) = Some (map Some (drop i cs), g\<lparr> g_next_idx := length cs \<rparr>)"
  using assms(4)
proof (induction n arbitrary: i)
  case 0
  then show ?case by simp
next
  case (Suc n)
  let ?g = "g\<lparr> g_next_idx := i \<rparr>"
  have i: "i < length cs" using Suc.prems by simp
  have co: "g_cos g (cs ! i) = (cos (cs ! i))\<lparr> g_tid := int i + 1, g_group := Some (g_this g) \<rparr>"
    using assms(1) i by (simp add: added_def)
  have dist: "distinct (map fst (g_members g))"
    using assms(1) by (simp add: added_def distinct_map inj_on_def)
  have "(int i + 1, cs ! i) \<in> set (g_members g)"
    using assms(1) i by (auto simp: added_def set_zip intro!: exI [of _ i])
  then have mem: "map_of (g_members g) (int i + 1) = Some (cs ! i)"
    by (simp add: map_of_eq_Some_iff [OF dist])
  have st: "g_status (cos (cs ! i)) > PASSIVE" using assms(3) i by simp
  have "GetNthCreatedMember i (-1) ?g = Some (Some (cs ! i))"
    using assms(1) i co mem st
    by (simp add: GetNthCreatedMember_def added_def GetMember_def MAIN_TID_def Let_def)
  then have "GetNextCreatedMember ?g = Some (Some (cs ! i), g\<lparr> g_next_idx := i + 1 \<rparr>)"
    using assms(1) i co
    by (simp add: GetNextCreatedMember_def added_def not_main_def IsMain_def MAIN_TID_def Let_def)
  then show ?case using Suc.IH [of "i + 1"] Suc.prems by (simp add: Cons_nth_drop_Suc [OF i, symmetric])
qed

definition sample_cos :: "nat \<Rightarrow> co_obj" where
  "sample_cos c = \<lparr> g_tid = (if c = 9 then 0 else -1), g_status = ENABLED, g_group = None, g_pthread = c \<rparr>"

lemma lookup_members:
  assumes "group_ok g"
  shows "map_of (g_members g) t = Some c \<longleftrightarrow> c \<in> set (members g) \<and> t = g_tid (g_cos g c)"
proof -
  have "distinct (map fst (g_members g))" using assms by (simp add: group_ok_def map_ok_distinct)
  then have "map_of (g_members g) t = Some c \<longleftrightarrow> (t, c) \<in> set (g_members g)" by simp
  also have "\<dots> \<longleftrightarrow> c \<in> set (members g) \<and> t = g_tid (g_cos g c)"
    using assms by (force simp: members_def group_ok_def)
  finally show ?thesis .
qed

lemma member_facts:
  assumes "group_ok g" "c \<in> set (members g)"
  shows "g_tid (g_cos g c) > 0" "g_group (g_cos g c) = Some (g_this g)"
  using assms by (force simp: members_def group_ok_def)+

lemma tid_inj:
  assumes "group_ok g" "c \<in> set (members g)" "d \<in> set (members g)" "g_tid (g_cos g c) = g_tid (g_cos g d)"
  shows "c = d"
  using lookup_members [OF assms(1), of "g_tid (g_cos g c)" c]
    lookup_members [OF assms(1), of "g_tid (g_cos g c)" d] assms(2-4) by simp

lemma taken_out_members:
  assumes "group_ok g" "group_ok g1" "g_cos g1 = g_cos g" "set cs \<subseteq> set (members g)"
    and map: "map_of (g_members g1) = (map_of (g_members g)) |` (- (g_tid \<circ> g_cos g) ` set cs)"
  shows "set (members g1) = set (members g) - set cs"
proof -
  have "c \<in> set (members g1) \<longleftrightarrow> c \<in> set (members g) \<and> c \<notin> set cs" for c
  proof -
    have "c \<in> set (members g1) \<longleftrightarrow> map_of (g_members g1) (g_tid (g_cos g c)) = Some c"
      using lookup_members [OF assms(2), of _ c] assms(3) by simp
    also have "\<dots> \<longleftrightarrow> c \<in> set (members g) \<and> g_tid (g_cos g c) \<notin> (g_tid \<circ> g_cos g) ` set cs"
      unfolding map using lookup_members [OF assms(1), of _ c] by (auto simp: restrict_map_def)
    also have "\<dots> \<longleftrightarrow> c \<in> set (members g) \<and> c \<notin> set cs"
      using tid_inj [OF assms(1)] assms(4) by (auto simp: image_iff)
    finally show ?thesis .
  qed
  then show ?thesis by blast
qed

lemma put_back_map:
  assumes "group_ok g" "set cs \<subseteq> set (members g)"
  shows "map_of (g_members g) |` (- (g_tid \<circ> g_cos g) ` set cs)
      ++ map_of (map (\<lambda>c. (g_tid (g_cos g c), c)) cs) = map_of (g_members g)"
proof
  fix t
  show "(map_of (g_members g) |` (- (g_tid \<circ> g_cos g) ` set cs)
      ++ map_of (map (\<lambda>c. (g_tid (g_cos g c), c)) cs)) t = map_of (g_members g) t"
  proof (cases "map_of (map (\<lambda>c. (g_tid (g_cos g c), c)) cs) t")
    case None
    then have "t \<notin> (g_tid \<circ> g_cos g) ` set cs" by (auto simp: map_of_eq_None_iff image_image)
    then show ?thesis using None by (simp add: map_add_def restrict_map_def)
  next
    case (Some c)
    then have "c \<in> set cs \<and> t = g_tid (g_cos g c)" by (auto dest!: map_of_SomeD)
    then show ?thesis using Some lookup_members [OF assms(1), of t c] assms(2) by (auto simp: map_add_def)
  qed
qed

definition sample_group :: group where
  "sample_group = \<lparr> g_this = 1, g_cos = (\<lambda>c. \<lparr> g_tid = int c, g_status = ENABLED, g_group = Some 1, g_pthread = c \<rparr>),
     g_main = Some 0, g_members = [(2, 2), (4, 4), (7, 7)], g_next_tid = 8, g_tidseq = [2, 4, 7], g_next_idx = 3 \<rparr>"

section \<open>Properties\<close>

text \<open>C35: After a restart, a group hands out its members again in the order in which they
  were created, and then none.\<close>

theorem group_recreates_in_order:
  assumes "distinct cs" "\<forall>c \<in> set cs. g_tid (cos c) = -1 \<and> g_status (cos c) > PASSIVE" "m \<notin> set cs"
  shows "\<exists>g g1 g2. each AddMember cs (CoroutineGroup gid cos (Some m)) = Some g
    \<and> Group_Restart g = Some g1
    \<and> recreate (length cs) g1 = Some (map Some cs, g2)
    \<and> GetNextCreatedMember g2 = Some (None, g2)"
proof -
  have start: "added cos [] (CoroutineGroup gid cos (Some m))"
    by (simp add: added_def CoroutineGroup_def)
  obtain g where g: "each AddMember cs (CoroutineGroup gid cos (Some m)) = Some g"
    "added cos cs g" "g_this g = gid" "g_main g = Some m"
    using added_all [OF start, of cs] assms(1,2) by (auto simp: CoroutineGroup_def)
  let ?f = "\<lambda>c. c\<lparr> g_group := Some gid \<rparr>"
  have "added (cos(m := ?f (cos m))) cs (upd_co m ?f g)"
    using g(2,3) assms(3) by (auto simp: added_def upd_co_def)
  note r = recreate_from [OF this assms(1), of 0 "length cs"]
  have "\<forall>c \<in> set cs. g_status ((cos(m := ?f (cos m))) c) > PASSIVE" using assms(2,3) by auto
  moreover have "Group_Restart g = Some ((upd_co m ?f g)\<lparr> g_next_idx := 0 \<rparr>)"
    using g(3,4) by (simp add: Group_Restart_def)
  moreover have "length (g_tidseq g) = length cs" using g(2) by (simp add: added_def)
  ultimately show ?thesis
    using g(1) r by (fastforce simp: GetNextCreatedMember_def upd_co_def)
qed

theorem group_recreates_in_order_witness:
  "\<exists>g g1 g2. each AddMember [4, 2, 7] (CoroutineGroup 1 sample_cos (Some 9)) = Some g
    \<and> Group_Restart g = Some g1 \<and> recreate 3 g1 = Some ([Some 4, Some 2, Some 7], g2)"
  using group_recreates_in_order [of "[4, 2, 7]" sample_cos 9 1]
  by (auto simp: sample_cos_def status_order eval_nat_numeral)

text \<open>The guard WithoutGroup takes the given members out of the group while it lives
  and its destructor restores the group exactly.\<close>

lemma WithoutGroup_roundtrip:
  assumes "group_ok g" "distinct cs" "set cs \<subseteq> set (members g)"
  shows "\<exists>g1. WithoutGroup cs g = Some g1 \<and> set (members g1) = set (members g) - set cs
    \<and> WithoutGroup_end cs g1 = Some g"
proof -
  obtain g1 where g1: "WithoutGroup cs g = Some g1" "group_ok g1" "g1 = g\<lparr> g_members := g_members g1 \<rparr>"
    "map_of (g_members g1) = (map_of (g_members g)) |` (- (g_tid \<circ> g_cos g) ` set cs)"
    using take_out_all [OF assms] by blast
  have eqs: "g_cos g1 = g_cos g" "g_this g1 = g_this g" by (subst g1(3); simp)+
  have dist: "distinct (map (g_tid \<circ> g_cos g1) cs)"
    using tid_inj [OF assms(1)] assms(2,3) by (auto simp: distinct_map inj_on_def eqs subset_iff)
  have out: "\<forall>c \<in> set cs. g_tid (g_cos g1 c) > 0 \<and> g_group (g_cos g1 c) = Some (g_this g1)
      \<and> map_of (g_members g1) (g_tid (g_cos g1 c)) = None"
    using member_facts [OF assms(1)] assms(3) by (auto simp: eqs g1(4) restrict_map_def)
  obtain g2 where g2: "WithoutGroup_end cs g1 = Some g2" "group_ok g2" "g2 = g1\<lparr> g_members := g_members g2 \<rparr>"
    "map_of (g_members g2) = map_of (g_members g1) ++ map_of (map (\<lambda>c. (g_tid (g_cos g1 c), c)) cs)"
    using put_back_all [OF g1(2) dist out] by blast
  have "map_of (g_members g2) = map_of (g_members g)"
    using g2(4) put_back_map [OF assms(1,3)] by (simp add: eqs g1(4))
  then have "g_members g2 = g_members g"
    using g2(2) assms(1) by (auto simp: group_ok_def intro: map_ok_unique)
  then have "g2 = g" using g2(3) by (subst g2(3), subst g1(3)) simp
  then show ?thesis
    using g1(1) g2(1) taken_out_members [OF assms(1) g1(2) eqs(1) assms(3) g1(4)] by auto
qed

lemma WithoutGroup_roundtrip_example:
  "\<exists>g1. WithoutGroup [4] (sample_group) = Some g1 \<and> WithoutGroup_end [4] g1 = Some sample_group"
  using WithoutGroup_roundtrip [of sample_group "[4]"]
  by (auto simp: sample_group_def group_ok_def members_def map_ok_def)

lemma AddMember_overwrites:
  "\<exists>g. each AddMember [4, 2, 7] (CoroutineGroup 1 (\<lambda>c. \<lparr> g_tid = (if c = 4 then 2 else if c = 2 then 1 else -1),
       g_status = ENABLED, g_group = None, g_pthread = c \<rparr>) (Some 9)) = Some g
    \<and> members g = [2, 7] \<and> g_tidseq g = [2, 1, 2]"
  by (simp add: AddMember_def CoroutineGroup_def not_main_def IsMain_def HasMember_def GetMember_def
      MAIN_TID_def upd_co_def members_def Let_def)

end
