(* ===== verification/Stat_Counters.thy ===== *)
theory Stat_Counters
  imports Util_Text
begin

text \<open>
  statistics.h and statistics.cpp: timers, counters and averaging counters, and their registry.
  An unsigned long is a 64-bit word, a timeval a pair of seconds and microseconds.  The clock, the
  calendar text of a time and the contents of /proc/self/status are arguments.  The readings of
  a timer as doubles are arguments as well, already truncated to integers, where a string is built
  from them.
\<close>

section \<open>Timer\<close>

type_synonym timeval = "int \<times> int"

record timer =
  t_name :: string
  t_started :: bool
  t_stopped :: bool
  t_startTime :: timeval
  t_endTime :: timeval
  t_elapsedTime :: timeval

definition timer_reset :: "timer \<Rightarrow> timer" where
  "timer_reset t = t\<lparr> t_startTime := (0, 0), t_endTime := (0, 0), t_elapsedTime := (0, 0),
     t_started := False, t_stopped := False \<rparr>"

definition new_Timer :: "string \<Rightarrow> timer" where
  "new_Timer name = \<lparr> t_name = name, t_started = False, t_stopped = False, t_startTime = (0, 0),
     t_endTime = (0, 0), t_elapsedTime = (0, 0) \<rparr>"

text \<open>The subtraction of the GNU C library manual: the result and 1 when it is negative.  C division
  truncates toward zero; in the second test the dividend is negative.\<close>

definition timeval_subtract :: "timeval \<Rightarrow> timeval \<Rightarrow> timeval \<times> int" where
  "timeval_subtract x y =
     (let (y_sec, y_usec) =
        (if snd x < snd y
         then (let nsec = (snd y - snd x) div 1000000 + 1 in (fst y + nsec, snd y - 1000000 * nsec))
         else y);
       (y_sec, y_usec) =
        (if snd x - y_usec > 1000000
         then (let nsec = - ((snd x - y_usec) div 1000000) in (y_sec - nsec, y_usec + 1000000 * nsec))
         else (y_sec, y_usec))
      in ((fst x - y_sec, snd x - y_usec), if fst x < y_sec then 1 else 0))"

definition recordElapsedTime :: "timeval \<Rightarrow> timer \<Rightarrow> timer option" where
  "recordElapsedTime now t = do {
     safe_assert (t_started t);
     let (d, neg) = timeval_subtract now (t_startTime t);
     safe_assert (neg = 0);
     Some (t\<lparr> t_endTime := now, t_elapsedTime := d \<rparr>) }"

definition timer_start :: "timeval \<Rightarrow> timer \<Rightarrow> timer option" where
  "timer_start now t = do {
     t1 \<leftarrow> (if t_started t then do { safe_assert (\<not> t_stopped t); Some (timer_reset t) } else Some t);
     safe_assert (\<not> t_stopped t1);
     Some (t1\<lparr> t_started := True, t_startTime := now, t_endTime := now \<rparr>) }"

definition timer_stop :: "timeval \<Rightarrow> timer \<Rightarrow> timer option" where
  "timer_stop now t = do {
     safe_assert (t_started t \<and> \<not> t_stopped t);
     recordElapsedTime now (t\<lparr> t_stopped := True \<rparr>) }"

definition getElapsedTime :: "timeval \<Rightarrow> timer \<Rightarrow> (timeval \<times> timer) option" where
  "getElapsedTime now t = do {
     safe_assert (t_started t);
     t1 \<leftarrow> (if \<not> t_stopped t then recordElapsedTime now t else Some t);
     Some (t_elapsedTime t1, t1) }"

text \<open>The fields of ElapsedTimeToString from the readings in hours, minutes, seconds, milli- and
  microseconds.\<close>

definition elapsed_fields :: "int \<Rightarrow> int \<Rightarrow> int \<Rightarrow> int \<Rightarrow> int \<Rightarrow> int \<times> int \<times> int \<times> int \<times> int" where
  "elapsed_fields hours mins secs millis micros =
     (let h = hours; m = mins - h * 60; s = secs - m * 60; ml = millis - s * 1000; mc = micros - ml * 1000
      in (h, m, s, ml, mc))"

definition ElapsedTimeToString :: "int \<Rightarrow> int \<Rightarrow> int \<Rightarrow> int \<Rightarrow> int \<Rightarrow> string" where
  "ElapsedTimeToString hours mins secs millis micros =
     (case elapsed_fields hours mins secs millis micros of (h, m, s, ml, mc) \<Rightarrow>
        format_string (to_string h @ '' Hour | '' @ to_string m @ '' Min | '' @ to_string s @ '' Sec | ''
          @ to_string ml @ '' MlSec | '' @ to_string mc @ '' McSec''))"

section \<open>Counters\<close>

record counter =
  c_name :: string
  c_value :: "64 word"

definition new_Counter :: "string \<Rightarrow> counter" where
  "new_Counter name = \<lparr> c_name = name, c_value = 0 \<rparr>"

definition counter_increment :: "64 word \<Rightarrow> counter \<Rightarrow> counter" where
  "counter_increment k c = c\<lparr> c_value := c_value c + k \<rparr>"

definition counter_reset :: "string \<Rightarrow> counter \<Rightarrow> counter" where
  "counter_reset name c = (if name \<noteq> '''' then c\<lparr> c_name := name, c_value := 0 \<rparr> else c\<lparr> c_value := 0 \<rparr>)"

definition counter_ToString :: "counter \<Rightarrow> string" where
  "counter_ToString c = format_string (c_name c @ '': '' @ nat_to_string (unat (c_value c)))"

record avg_counter = counter +
  a_count :: "64 word"
  a_min :: "64 word"
  a_max :: "64 word"

definition ULONG_MAX :: "64 word" where
  "ULONG_MAX = - 1"

definition new_AvgCounter :: "string \<Rightarrow> avg_counter" where
  "new_AvgCounter name = \<lparr> c_name = name, c_value = 0, a_count = 0, a_min = ULONG_MAX, a_max = 0 \<rparr>"

definition avg_increment :: "64 word \<Rightarrow> avg_counter \<Rightarrow> avg_counter" where
  "avg_increment k c = (let c1 = c\<lparr> c_value := c_value c + k \<rparr>;
     c2 = (if k > a_max c1 then c1\<lparr> a_max := k \<rparr> else c1);
     c3 = (if k < a_min c2 then c2\<lparr> a_min := k \<rparr> else c2)
   in c3\<lparr> a_count := a_count c3 + 1 \<rparr>)"

definition avg_reset :: "string \<Rightarrow> avg_counter \<Rightarrow> avg_counter" where
  "avg_reset name c = (let c1 = (if name \<noteq> '''' then c\<lparr> c_name := name, c_value := 0 \<rparr> else c\<lparr> c_value := 0 \<rparr>)
   in c1\<lparr> a_count := 0, a_min := ULONG_MAX, a_max := 0 \<rparr>)"

text \<open>The average; a division by zero when nothing was counted is undefined, here an abort.\<close>

definition avg_value :: "avg_counter \<Rightarrow> 64 word option" where
  "avg_value c = do { safe_assert (a_count c \<noteq> 0); Some (c_value c div a_count c) }"

definition avg_ToString :: "avg_counter \<Rightarrow> string option" where
  "avg_ToString c = do {
     safe_assert (a_count c > 0);
     Some (format_string (c_name c @ '': Num: '' @ nat_to_string (unat (a_count c))
       @ '' | Total: '' @ nat_to_string (unat (c_value c))
       @ '' | Avg: '' @ nat_to_string (unat (c_value c div a_count c))
       @ '' | Min: '' @ nat_to_string (unat (a_min c)) @ '' | Max: '' @ nat_to_string (unat (a_max c)))) }"

section \<open>The registry\<close>

record statistics =
  s_timers :: "string \<Rightarrow> timer option"
  s_counters :: "string \<Rightarrow> counter option"
  s_avgcounters :: "string \<Rightarrow> avg_counter option"

definition stat_Reset :: statistics where
  "stat_Reset = \<lparr> s_timers = Map.empty, s_counters = Map.empty, s_avgcounters = Map.empty \<rparr>"

definition stat_timer :: "string \<Rightarrow> statistics \<Rightarrow> timer \<times> statistics" where
  "stat_timer name s = (case s_timers s name of
     None \<Rightarrow> (new_Timer name, s\<lparr> s_timers := (s_timers s)(name \<mapsto> new_Timer name) \<rparr>)
   | Some t \<Rightarrow> (t, s))"

definition stat_counter :: "string \<Rightarrow> statistics \<Rightarrow> counter \<times> statistics" where
  "stat_counter name s = (case s_counters s name of
     None \<Rightarrow> (new_Counter name, s\<lparr> s_counters := (s_counters s)(name \<mapsto> new_Counter name) \<rparr>)
   | Some c \<Rightarrow> (c, s))"

definition stat_avg_counter :: "string \<Rightarrow> statistics \<Rightarrow> avg_counter \<times> statistics" where
  "stat_avg_counter name s = (case s_avgcounters s name of
     None \<Rightarrow> (new_AvgCounter name, s\<lparr> s_avgcounters := (s_avgcounters s)(name \<mapsto> new_AvgCounter name) \<rparr>)
   | Some c \<Rightarrow> (c, s))"

text \<open>The memory use: the number after VmData: in the status file, read in pieces of at most 63
  characters; 0 when there is no such file.\<close>

definition is_digit :: "char \<Rightarrow> bool" where
  "is_digit c \<longleftrightarrow> c \<in> set ''0123456789''"

definition is_space :: "char \<Rightarrow> bool" where
  "is_space c \<longleftrightarrow> c \<in> {CHR '' '', CHR 0x09, CHR 0x0A, CHR 0x0B, CHR 0x0C, CHR 0x0D}"

definition scan_9lu :: "string \<Rightarrow> nat option" where
  "scan_9lu s = (let d = takeWhile is_digit (take 9 (dropWhile is_space s))
     in if d = [] then None else Some (parse_nat d))"

function MemoryUsage_loop :: "string \<Rightarrow> nat" where
  "MemoryUsage_loop [] = 0"
| "MemoryUsage_loop (c # s) = (let (l, r) = fgets 63 (c # s); b = c_str l;
     b1 = (if b \<noteq> [] \<and> last b = newline then butlast b else b)
   in if b1 \<noteq> [] \<and> take 7 b1 = ''VmData:''
      then (case scan_9lu (drop 7 b1) of Some n \<Rightarrow> n | None \<Rightarrow> 0)
      else MemoryUsage_loop r)"
  by pat_completeness auto
termination
proof (relation "measure length", goal_cases)
  case (2 c s x l r)
  have "fgets 63 (c # s) = fgets (Suc 62) (c # s)" by simp
  with 2 show ?case using fgets_rest_less [of 62 c s] by (metis in_measure snd_conv)
qed simp

definition GetMemoryUsageInKB :: "string option \<Rightarrow> nat option" where
  "GetMemoryUsageInKB status = (case status of
     None \<Rightarrow> Some 0
   | Some s \<Rightarrow> do { let mem = MemoryUsage_loop s; safe_assert (mem > 0); Some mem })"

section \<open>What the functions guarantee\<close>

lemma avg_fold:
  "fold avg_increment ks c = c\<lparr> c_value := c_value c + sum_list ks, a_count := a_count c + of_nat (length ks),
     a_min := fold min ks (a_min c), a_max := fold max ks (a_max c) \<rparr>"
proof (induction ks arbitrary: c)
  case (Cons k ks)
  have "avg_increment k c = c\<lparr> c_value := c_value c + k, a_count := a_count c + 1,
      a_min := min k (a_min c), a_max := max k (a_max c) \<rparr>"
    by (cases c) (auto simp: avg_increment_def Let_def min_def max_def)
  then show ?case using Cons by (simp add: ac_simps)
qed simp

lemma fold_min_Min: "ks \<noteq> [] \<Longrightarrow> fold min ks (ULONG_MAX) = Min (set ks)"
proof -
  assume ne: "ks \<noteq> []"
  have "fold min ks ULONG_MAX = Min (set (ULONG_MAX # ks))" by (rule Min.set_eq_fold [symmetric])
  also have "\<dots> = Min (set ks)" using ne by (simp add: ULONG_MAX_def min_absorb2)
  finally show ?thesis .
qed

lemma fold_max_Max: "ks \<noteq> [] \<Longrightarrow> fold max ks (0 :: 64 word) = Max (set ks)"
proof -
  assume ne: "ks \<noteq> []"
  have "fold max ks 0 = Max (set ((0 :: 64 word) # ks))" by (rule Max.set_eq_fold [symmetric])
  also have "\<dots> = Max (set ks)" using ne by (simp add: max_absorb2)
  finally show ?thesis .
qed

lemma timer_start_stop:
  assumes "timeval_subtract t1 t0 = (d, 0)"
  shows "Option.bind (timer_start t0 (new_Timer n)) (timer_stop t1)
    = Some \<lparr> t_name = n, t_started = True, t_stopped = True, t_startTime = t0, t_endTime = t1, t_elapsedTime = d \<rparr>"
  using assms by (simp add: timer_start_def timer_stop_def new_Timer_def recordElapsedTime_def)

lemma stat_counter_twice: "stat_counter n (snd (stat_counter n s)) = (fst (stat_counter n s), snd (stat_counter n s))"
  by (auto simp: stat_counter_def split: option.splits)

lemma elapsed_fields_split:
  assumes "t = 1000 * a + r0" "a = 1000 * b + r1" "b = 60 * m + r2"
  shows "elapsed_fields 0 m b a t = (0, m, r2, r1 + 60000 * m, r0 + 1000000 * r2)"
  using assms by (simp add: elapsed_fields_def)

section \<open>Properties\<close>

text \<open>C40: For times with microseconds in range, timeval_subtract_ returns the exact
  difference with microseconds in range, and 1 exactly when the difference is negative.\<close>

theorem timeval_subtract_spec:
  assumes "0 \<le> xu" "xu < 1000000" "0 \<le> yu" "yu < 1000000"
  shows "\<exists>s u. timeval_subtract (xs, xu) (ys, yu) = ((s, u), if xs * 1000000 + xu < ys * 1000000 + yu then 1 else 0)
    \<and> s * 1000000 + u = (xs * 1000000 + xu) - (ys * 1000000 + yu) \<and> BETWEEN 0 u 999999"
proof (cases "xu < yu")
  case True
  have "(yu - xu) div 1000000 = 0" using assms True by simp
  then show ?thesis using assms True
    by (auto simp: timeval_subtract_def Let_def BETWEEN_def)
next
  case False
  then show ?thesis using assms
    by (auto simp: timeval_subtract_def Let_def BETWEEN_def)
qed

theorem timeval_subtract_spec_witness:
  "\<exists>s u. timeval_subtract (12, 5) (10, 999999) = ((s, u), 0) \<and> s * 1000000 + u = 1000006 \<and> BETWEEN 0 u 999999"
  using timeval_subtract_spec [of 5 999999 12 10] by simp

text \<open>After increments by a nonempty list of values an AvgCounter holds their sum,
  their number, their minimum and their maximum.\<close>

lemma avg_counter_spec:
  assumes "ks \<noteq> []"
  shows "fold avg_increment ks (new_AvgCounter n) =
    \<lparr> c_name = n, c_value = sum_list ks, a_count = of_nat (length ks), a_min = Min (set ks), a_max = Max (set ks) \<rparr>"
  using assms by (simp add: avg_fold new_AvgCounter_def fold_min_Min fold_max_Max)

lemma avg_counter_spec_example:
  "c_value (fold avg_increment [7, 3, 5] (new_AvgCounter ''t'')) = 15"
  by (subst avg_counter_spec) simp_all

lemma elapsed_fields_below_hour:
  assumes "0 \<le> t" "t < 3600000000"
  shows "elapsed_fields (t div 3600000000) (t div 60000000) (t div 1000000) (t div 1000) t =
    (0, t div 60000000, t div 1000000 mod 60, t div 1000 mod 1000 + 60000 * (t div 60000000),
     t mod 1000 + 1000000 * (t div 1000000 mod 60))"
proof -
  have h: "t div 3600000000 = 0" using assms by simp
  have s: "t div 1000000 = t div 1000 div 1000" by (simp add: zdiv_zmult2_eq [symmetric])
  have m: "t div 60000000 = t div 1000 div 1000 div 60" by (simp add: zdiv_zmult2_eq [symmetric])
  show ?thesis
    unfolding h m s by (rule elapsed_fields_split) (simp_all only: mult_div_mod_eq)
qed

end
