(* ===== verification/Event_Wire.thy ===== *)
theory Event_Wire
  imports Util_Text
begin

text \<open>
  interface.h and the wire format of ipc.h: the event buffer, its assignment operator, and the
  bytes that Send writes to the pipe and Recv reads from it.  Fields are written one by one in the
  byte order of the machine (little endian) with the width of their C type.
\<close>

section \<open>Integers as bytes\<close>

fun le_bytes :: "nat \<Rightarrow> nat \<Rightarrow> byte list" where
  "le_bytes 0 v = []"
| "le_bytes (Suc n) v = of_nat v # le_bytes n (v div 256)"

fun le_value :: "byte list \<Rightarrow> nat" where
  "le_value [] = 0"
| "le_value (b # bs) = unat b + 256 * le_value bs"

lemma length_le_bytes [simp]: "length (le_bytes n v) = n"
  by (induction n arbitrary: v) auto

lemma le_value_bytes: "le_value (le_bytes n v) = v mod 256 ^ n"
proof (induction n arbitrary: v)
  case (Suc n)
  have "unat (of_nat v :: byte) = v mod 256" by (simp add: unat_of_nat)
  then show ?case using Suc by (simp add: mod_mult2_eq)
qed simp

lemma le_value_u32 [simp]: "le_value (le_bytes 4 (unat (w :: 32 word))) = unat w"
proof -
  have "unat w < 2 ^ LENGTH(32)" by (rule unsigned_less)
  then show ?thesis by (simp add: le_value_bytes)
qed

lemma le_value_u64 [simp]: "le_value (le_bytes 8 (unat (w :: 64 word))) = unat w"
proof -
  have "unat w < 2 ^ LENGTH(64)" by (rule unsigned_less)
  then show ?thesis by (simp add: le_value_bytes)
qed

section \<open>Event buffers\<close>

type_synonym EventKind = "32 word"

definition InvalidEventKind :: EventKind where "InvalidEventKind = 0"
definition MemAccessBefore :: EventKind where "MemAccessBefore = 1"
definition MemAccessAfter :: EventKind where "MemAccessAfter = 2"
definition MemWrite :: EventKind where "MemWrite = 3"
definition MemRead :: EventKind where "MemRead = 4"
definition FuncCall :: EventKind where "FuncCall = 5"
definition FuncEnter :: EventKind where "FuncEnter = 6"
definition FuncReturn :: EventKind where "FuncReturn = 7"
definition ThreadStart :: EventKind where "ThreadStart = 8"
definition ThreadEnd :: EventKind where "ThreadEnd = 9"
definition TestStart :: EventKind where "TestStart = 10"
definition TestEnd :: EventKind where "TestEnd = 11"
definition AtPc_event :: EventKind where "AtPc_event = 12"
definition Continue :: EventKind where "Continue = 13"
definition TestShutdown :: EventKind where "TestShutdown = 14"
definition ThreadEndIntern :: EventKind where "ThreadEndIntern = 15"
definition AddressOfSymbol :: EventKind where "AddressOfSymbol = 16"

lemmas kind_defs = InvalidEventKind_def MemAccessBefore_def MemAccessAfter_def MemWrite_def
  MemRead_def FuncCall_def FuncEnter_def FuncReturn_def ThreadStart_def ThreadEnd_def TestStart_def
  TestEnd_def AtPc_event_def Continue_def TestShutdown_def ThreadEndIntern_def AddressOfSymbol_def

definition EventKindToString :: "EventKind \<Rightarrow> string option" where
  "EventKindToString k = map_of
    [(InvalidEventKind, ''InvalidEventKind''), (MemAccessBefore, ''MemAccessBefore''),
     (MemAccessAfter, ''MemAccessAfter''), (MemWrite, ''MemWrite''), (MemRead, ''MemRead''),
     (FuncCall, ''FuncCall''), (FuncEnter, ''FuncEnter''), (FuncReturn, ''FuncReturn''),
     (ThreadStart, ''ThreadStart''), (ThreadEnd, ''ThreadEnd''), (TestStart, ''TestStart''),
     (TestEnd, ''TestEnd''), (AtPc_event, ''AtPc''), (Continue, ''Continue''),
     (TestShutdown, ''TestShutdown''), (ThreadEndIntern, ''ThreadEndIntern''),
     (AddressOfSymbol, ''AddressOfSymbol'')] k"

record event =
  e_type :: EventKind
  e_threadid :: "32 word"
  e_addr :: addr
  e_addr_target :: addr
  e_size :: "32 word"
  e_direct :: "32 word"
  e_arg0 :: addr
  e_arg1 :: addr
  e_retval :: addr
  e_pc :: "32 word"
  e_loc_src :: "nat option"
  e_loc_target :: "nat option"
  e_str :: "byte list"

text \<open>The thread id and the program counter are signed 32-bit integers; the word holds their bits.\<close>

definition INVALID_TID :: "32 word" where
  "INVALID_TID = of_int INVALID_THREADID"

definition event_Clear :: event where
  "event_Clear = \<lparr> e_type = InvalidEventKind, e_threadid = INVALID_TID, e_addr = 0, e_addr_target = 0,
     e_size = 0, e_direct = 1, e_arg0 = 0, e_arg1 = 0, e_retval = 0, e_pc = 0, e_loc_src = None,
     e_loc_target = None, e_str = replicate 64 0 \<rparr>"

definition event_Check :: "event \<Rightarrow> bool" where
  "event_Check e \<longleftrightarrow> e_type e \<noteq> InvalidEventKind \<and> e_threadid e \<noteq> INVALID_TID"

text \<open>The assignment operator copies the fields that the kind of the source uses.\<close>

definition event_assign :: "event \<Rightarrow> event \<Rightarrow> event" where
  "event_assign e d = (let d1 = d\<lparr> e_type := e_type e, e_threadid := e_threadid e, e_loc_src := e_loc_src e \<rparr>;
     k = e_type e in
     if k = MemRead \<or> k = MemWrite then d1\<lparr> e_addr := e_addr e, e_size := e_size e \<rparr>
     else if k = FuncEnter then d1\<lparr> e_addr := e_addr e, e_arg0 := e_arg0 e, e_arg1 := e_arg1 e \<rparr>
     else if k = FuncReturn then d1\<lparr> e_addr := e_addr e, e_retval := e_retval e \<rparr>
     else if k = FuncCall then d1\<lparr> e_addr := e_addr e, e_addr_target := e_addr_target e,
       e_direct := e_direct e, e_arg0 := e_arg0 e, e_arg1 := e_arg1 e, e_loc_target := e_loc_target e \<rparr>
     else if k = AtPc_event then d1\<lparr> e_pc := e_pc e \<rparr>
     else if k = AddressOfSymbol then d1\<lparr> e_addr := e_addr e, e_str := e_str e \<rparr>
     else d1)"

section \<open>Send and receive\<close>

datatype field = F32 "32 word" | F64 addr | FStr "byte list"

fun send_field :: "field \<Rightarrow> byte list" where
  "send_field (F32 w) = le_bytes 4 (unat w)"
| "send_field (F64 w) = le_bytes 8 (unat w)"
| "send_field (FStr s) = take 64 s"

text \<open>DECL_SEND_RECV: the payload of a kind, as the fields of an event that are sent and as the
  update of an event by the fields that were received.\<close>

definition payload :: "event \<Rightarrow> field list" where
  "payload e = (let k = e_type e in
     if k = MemRead \<or> k = MemWrite then [F64 (e_addr e), F32 (e_size e)]
     else if k = FuncEnter then [F64 (e_addr e), F64 (e_arg0 e), F64 (e_arg1 e)]
     else if k = FuncReturn then [F64 (e_addr e), F64 (e_retval e)]
     else if k = FuncCall then [F64 (e_addr e), F64 (e_addr_target e), F64 (e_arg0 e), F64 (e_arg1 e)]
     else if k = AtPc_event then [F32 (e_pc e)]
     else if k = AddressOfSymbol then [F64 (e_addr e), FStr (e_str e)]
     else [])"

definition Send_bytes :: "event \<Rightarrow> byte list" where
  "Send_bytes e = concat (map send_field ([F32 (e_type e), F32 (e_threadid e)] @ payload e))"

text \<open>Send clears the buffer after it wrote the bytes.\<close>

definition EventPipe_Send :: "event \<Rightarrow> (byte list \<times> event) option" where
  "EventPipe_Send e = do {
     safe_assert (e_type e \<noteq> InvalidEventKind);
     safe_assert (e_threadid e \<noteq> INVALID_TID);
     Some (Send_bytes e, event_Clear) }"

text \<open>A receiver of \<open>'a\<close> takes bytes from the stream; \<open>Wait_bytes\<close> means that it waits for more.\<close>

datatype 'a recv = Wait_bytes | Got 'a "byte list"

fun recv_bind :: "'a recv \<Rightarrow> ('a \<Rightarrow> byte list \<Rightarrow> 'b recv) \<Rightarrow> 'b recv" where
  "recv_bind Wait_bytes f = Wait_bytes"
| "recv_bind (Got x bs) f = f x bs"

definition recv_bytes :: "nat \<Rightarrow> byte list \<Rightarrow> byte list recv" where
  "recv_bytes n bs = (if length bs < n then Wait_bytes else Got (take n bs) (drop n bs))"

definition recv32 :: "byte list \<Rightarrow> (32 word) recv" where
  "recv32 bs = recv_bind (recv_bytes 4 bs) (\<lambda>b r. Got (of_nat (le_value b)) r)"

definition recv64 :: "byte list \<Rightarrow> (64 word) recv" where
  "recv64 bs = recv_bind (recv_bytes 8 bs) (\<lambda>b r. Got (of_nat (le_value b)) r)"

definition recv_payload :: "event \<Rightarrow> byte list \<Rightarrow> event recv" where
  "recv_payload e bs = (let k = e_type e in
     if k = MemRead \<or> k = MemWrite then
       recv_bind (recv64 bs) (\<lambda>a r. recv_bind (recv32 r) (\<lambda>s r. Got (e\<lparr> e_addr := a, e_size := s \<rparr>) r))
     else if k = FuncEnter then
       recv_bind (recv64 bs) (\<lambda>a r. recv_bind (recv64 r) (\<lambda>x r. recv_bind (recv64 r) (\<lambda>y r.
         Got (e\<lparr> e_addr := a, e_arg0 := x, e_arg1 := y \<rparr>) r)))
     else if k = FuncReturn then
       recv_bind (recv64 bs) (\<lambda>a r. recv_bind (recv64 r) (\<lambda>v r. Got (e\<lparr> e_addr := a, e_retval := v \<rparr>) r))
     else if k = FuncCall then
       recv_bind (recv64 bs) (\<lambda>a r. recv_bind (recv64 r) (\<lambda>t r. recv_bind (recv64 r) (\<lambda>x r.
         recv_bind (recv64 r) (\<lambda>y r. Got (e\<lparr> e_addr := a, e_addr_target := t, e_arg0 := x, e_arg1 := y \<rparr>) r))))
     else if k = AtPc_event then recv_bind (recv32 bs) (\<lambda>p r. Got (e\<lparr> e_pc := p \<rparr>) r)
     else if k = AddressOfSymbol then
       recv_bind (recv64 bs) (\<lambda>a r. recv_bind (recv_bytes 64 r) (\<lambda>s r. Got (e\<lparr> e_addr := a, e_str := s \<rparr>) r))
     else Got e bs)"

definition EventPipe_Recv :: "byte list \<Rightarrow> event recv option" where
  "EventPipe_Recv bs =
     (case recv_bind (recv32 bs) (\<lambda>k r. recv_bind (recv32 r) (\<lambda>t r.
        recv_payload (event_Clear\<lparr> e_type := k, e_threadid := t \<rparr>) r)) of
        Wait_bytes \<Rightarrow> Some Wait_bytes
      | Got e r \<Rightarrow> do {
          safe_assert (e_type e \<noteq> InvalidEventKind);
          safe_assert (e_threadid e \<noteq> INVALID_TID);
          Some (Got e r) })"

section \<open>Round trip\<close>

text \<open>What the other side sees of an event: the fields its kind sends, in a cleared buffer.\<close>

definition wire_image :: "event \<Rightarrow> event" where
  "wire_image e = event_assign (e\<lparr> e_loc_src := None, e_loc_target := None, e_direct := 1 \<rparr>) event_Clear"

lemma recv_bytes_append [simp]: "length b = n \<Longrightarrow> recv_bytes n (b @ r) = Got b r"
  by (simp add: recv_bytes_def)

lemma recv32_send [simp]: "recv32 (le_bytes 4 (unat w) @ r) = Got w r"
  by (simp add: recv32_def)

lemma recv64_send [simp]: "recv64 (le_bytes 8 (unat w) @ r) = Got w r"
  by (simp add: recv64_def)

lemma event_roundtrip:
  assumes "event_Check e" "length (e_str e) = 64"
  shows "EventPipe_Recv (Send_bytes e @ r) = Some (Got (wire_image e) r)"
  using assms
  by (auto simp: EventPipe_Recv_def Send_bytes_def payload_def recv_payload_def wire_image_def
      event_assign_def event_Check_def event_Clear_def Let_def)

lemma wire_image_assign: "length (e_str e) = 64 \<Longrightarrow> wire_image (event_assign e d) = wire_image e"
  by (auto simp: wire_image_def event_assign_def Let_def)

text \<open>A receiver that got its value from a stream gets the same value when more bytes follow.\<close>

definition stable :: "(byte list \<Rightarrow> 'a recv) \<Rightarrow> bool" where
  "stable f \<longleftrightarrow> (\<forall>bs x r s. f bs = Got x r \<longrightarrow> f (bs @ s) = Got x (r @ s))"

lemma stable_bytes: "stable (recv_bytes n)"
  by (auto simp: stable_def recv_bytes_def)

lemma stable_Got: "stable (Got x)"
  by (simp add: stable_def)

lemma stable_bind:
  assumes "stable f" "\<And>x. stable (g x)"
  shows "stable (\<lambda>bs. recv_bind (f bs) g)"
  unfolding stable_def
proof (intro allI impI)
  fix bs x r s
  assume "recv_bind (f bs) g = Got x r"
  then obtain y r1 where "f bs = Got y r1" "g y r1 = Got x r" by (cases "f bs") auto
  then show "recv_bind (f (bs @ s)) g = Got x (r @ s)"
    using assms by (simp add: stable_def)
qed

lemma stable_recv32: "stable recv32"
  unfolding recv32_def by (intro stable_bind stable_bytes stable_Got)

lemma stable_recv64: "stable recv64"
  unfolding recv64_def by (intro stable_bind stable_bytes stable_Got)

lemma stable_if: "stable f \<Longrightarrow> stable g \<Longrightarrow> stable (\<lambda>bs. if b then f bs else g bs)"
  by (simp add: stable_def)

lemmas stable_intros = stable_if stable_bind stable_bytes stable_recv32 stable_recv64 stable_Got

lemma stable_payload: "stable (recv_payload e)"
  unfolding recv_payload_def Let_def by (intro stable_intros)

definition recv_event :: "byte list \<Rightarrow> event recv" where
  "recv_event bs = recv_bind (recv32 bs) (\<lambda>k r. recv_bind (recv32 r) (\<lambda>t r.
     recv_payload (event_Clear\<lparr> e_type := k, e_threadid := t \<rparr>) r))"

lemma stable_event: "stable recv_event"
  unfolding recv_event_def by (intro stable_intros stable_payload)

lemma Recv_event: "EventPipe_Recv bs = (case recv_event bs of Wait_bytes \<Rightarrow> Some Wait_bytes
    | Got e r \<Rightarrow> if event_Check e then Some (Got e r) else None)"
  by (auto simp: EventPipe_Recv_def recv_event_def event_Check_def safe_assert_def split: recv.splits)

lemma Recv_prefix_waits:
  assumes "event_Check e" "length (e_str e) = 64" "Send_bytes e = p @ q" "q \<noteq> []"
  shows "EventPipe_Recv p = Some Wait_bytes"
proof (cases "recv_event p")
  case (Got e1 r1)
  then have "recv_event (p @ q) = Got e1 (r1 @ q)" using stable_event by (simp add: stable_def)
  moreover have "EventPipe_Recv (p @ q) = Some (Got (wire_image e) [])"
    using event_roundtrip [OF assms(1,2), of "[]"] assms(3) by simp
  ultimately have "r1 @ q = []" by (auto simp: Recv_event split: if_splits)
  then show ?thesis using assms(4) by simp
qed (simp add: Recv_event)

section \<open>A stream of events\<close>

fun recv_all :: "nat \<Rightarrow> byte list \<Rightarrow> (event list \<times> byte list) option" where
  "recv_all 0 bs = Some ([], bs)"
| "recv_all (Suc n) bs = do {
     x \<leftarrow> EventPipe_Recv bs;
     (case x of Wait_bytes \<Rightarrow> None
      | Got e r \<Rightarrow> do { (es, r2) \<leftarrow> recv_all n r; Some (e # es, r2) }) }"

definition sendable :: "event \<Rightarrow> bool" where
  "sendable e \<longleftrightarrow> event_Check e \<and> length (e_str e) = 64"

lemma recv_all_sent:
  "list_all sendable es \<Longrightarrow>
   recv_all (length es) (concat (map Send_bytes es) @ r) = Some (map wire_image es, r)"
  by (induction es) (auto simp: sendable_def event_roundtrip)

section \<open>Properties\<close>

text \<open>C31: The receiver of a pipe decodes a stream of sent events to exactly these events
  with the fields that their kind transmits, and for a proper prefix of a further event it waits
  without having consumed it.\<close>

theorem event_stream_roundtrip:
  assumes "list_all sendable es" "sendable e" "Send_bytes e = p @ q" "q \<noteq> []"
  shows "recv_all (length es) (concat (map Send_bytes es) @ p) = Some (map wire_image es, p)
    \<and> EventPipe_Recv p = Some Wait_bytes"
  using recv_all_sent [OF assms(1)] Recv_prefix_waits [of e p q] assms(2-4) by (simp add: sendable_def)

definition sample_event :: event where
  "sample_event = event_Clear\<lparr> e_type := MemRead, e_threadid := 3, e_addr := 0x1234, e_size := 8 \<rparr>"

theorem event_stream_roundtrip_witness:
  "EventPipe_Recv [4, 0, 0, 0] = Some Wait_bytes"
proof -
  have s: "sendable sample_event"
    by (simp add: sendable_def event_Check_def sample_event_def event_Clear_def kind_defs INVALID_TID_def
        INVALID_THREADID_def)
  have b: "Send_bytes sample_event = [4, 0, 0, 0] @ drop 4 (Send_bytes sample_event)"
    by code_simp
  have "drop 4 (Send_bytes sample_event) \<noteq> []"
    by code_simp
  then show ?thesis
    using event_stream_roundtrip [OF _ s b, of "[]"] by simp
qed

text \<open>The direct flag of an event is not transmitted: whatever it is, the receiver sees
  it as set.\<close>

lemma FuncCall_direct_lost:
  assumes "sendable e"
  shows "\<exists>e1. EventPipe_Recv (Send_bytes (e\<lparr> e_direct := d \<rparr>)) = Some (Got e1 []) \<and> e_direct e1 = 1"
proof -
  have "e_direct (wire_image (e\<lparr> e_direct := d \<rparr>)) = 1"
    by (simp add: wire_image_def event_assign_def event_Clear_def Let_def)
  then show ?thesis
    using event_roundtrip [of "e\<lparr> e_direct := d \<rparr>" "[]"] assms
    by (simp add: sendable_def event_Check_def)
qed

lemma FuncCall_direct_lost_example:
  "\<exists>e1. EventPipe_Recv (Send_bytes ((sample_event\<lparr> e_type := FuncCall \<rparr>)\<lparr> e_direct := 0 \<rparr>)) = Some (Got e1 [])
     \<and> e_direct e1 = 1"
  by (rule FuncCall_direct_lost)
    (simp add: sendable_def event_Check_def sample_event_def event_Clear_def kind_defs INVALID_TID_def
      INVALID_THREADID_def)

end
