(* ===== verification/Event_Pipe.thy ===== *)
theory Event_Pipe
  imports Event_Wire Sync_Prims
begin

text \<open>
  ipc.h and ipc.cpp: named pipes, the shadow threads that wait for events of one thread, and the
  pipe that is shared by all threads: senders write under a mutex, and one worker reads events
  and hands each to the shadow thread it is for.  File descriptors and results of system calls are
  arguments.
\<close>

section \<open>Named pipes\<close>

definition PIPEDIR :: string where
  "PIPEDIR = ''/tmp/concurrit/pipe''"

record pipe_names =
  in_name :: string
  out_name :: string

definition PipeNamesForSUT :: "int \<Rightarrow> pipe_names option" where
  "PipeNamesForSUT i = do {
     safe_assert (i \<ge> 0);
     Some \<lparr> in_name = take 255 (PIPEDIR @ ''/fifo_in_'' @ to_string i),
            out_name = take 255 (PIPEDIR @ ''/fifo_out_'' @ to_string i) \<rparr> }"

definition PipeNamesForDSL :: "int \<Rightarrow> pipe_names option" where
  "PipeNamesForDSL i = do {
     p \<leftarrow> PipeNamesForSUT i;
     Some \<lparr> in_name = out_name p, out_name = in_name p \<rparr> }"

record event_pipe =
  p_in_name :: "string option"
  p_out_name :: "string option"
  p_in_fd :: int
  p_out_fd :: int
  p_is_open :: bool

text \<open>The file system for MkFifo: \<open>stat\<close> says whether the name exists (\<open>Some True\<close>), does not
  (\<open>Some False\<close>) or cannot be examined; \<open>mkfifo\<close> says whether it succeeds or finds it there.\<close>

definition MkFifo :: "(string \<Rightarrow> bool option) \<Rightarrow> (string \<Rightarrow> bool) \<Rightarrow> string \<Rightarrow> string set \<Rightarrow> string set option" where
  "MkFifo stat mkfifo name made = (if name \<in> made \<or> stat name = Some True then Some made
     else do {
       safe_check (stat name = Some False);
       safe_check (mkfifo name);
       Some (insert name made) })"

definition EventPipe_Init :: "(string \<Rightarrow> bool option) \<Rightarrow> (string \<Rightarrow> bool) \<Rightarrow> string option \<Rightarrow> string option
    \<Rightarrow> string set \<Rightarrow> (event_pipe \<times> string set) option" where
  "EventPipe_Init stat mkfifo i out made = do {
     made1 \<leftarrow> (case i of None \<Rightarrow> Some made | Some n \<Rightarrow> MkFifo stat mkfifo n made);
     made2 \<leftarrow> (case out of None \<Rightarrow> Some made1 | Some n \<Rightarrow> MkFifo stat mkfifo n made1);
     Some (\<lparr> p_in_name = i, p_out_name = out, p_in_fd = -1, p_out_fd = -1, p_is_open = False \<rparr>, made2) }"

text \<open>Opening a fifo waits for the other end, so the order of the two calls matters; the result
  lists the names in the order in which they are opened.\<close>

definition EventPipe_Open :: "(string \<Rightarrow> int) \<Rightarrow> bool \<Rightarrow> event_pipe \<Rightarrow> (string list \<times> event_pipe) option" where
  "EventPipe_Open open_fd read_first p = do {
     safe_assert (\<not> p_is_open p);
     let ins = (case p_in_name p of None \<Rightarrow> [] | Some n \<Rightarrow> [n]);
     let outs = (case p_out_name p of None \<Rightarrow> [] | Some n \<Rightarrow> [n]);
     safe_assert (list_all (\<lambda>n. open_fd n \<ge> 0) (ins @ outs));
     let p1 = (case p_in_name p of None \<Rightarrow> p | Some n \<Rightarrow> p\<lparr> p_in_fd := open_fd n \<rparr>);
     let p2 = (case p_out_name p of None \<Rightarrow> p1 | Some n \<Rightarrow> p1\<lparr> p_out_fd := open_fd n \<rparr>);
     Some (if read_first then ins @ outs else outs @ ins, p2\<lparr> p_is_open := True \<rparr>) }"

definition EventPipe_Close :: "event_pipe \<Rightarrow> (int list \<times> event_pipe) option" where
  "EventPipe_Close p = do {
     safe_assert (p_is_open p);
     Some ((case p_in_name p of None \<Rightarrow> [] | Some _ \<Rightarrow> [p_in_fd p])
           @ (case p_out_name p of None \<Rightarrow> [] | Some _ \<Rightarrow> [p_out_fd p]),
           p\<lparr> p_is_open := False \<rparr>) }"

definition ConcurrentPipe_OpenForDSL :: "(string \<Rightarrow> bool option) \<Rightarrow> (string \<Rightarrow> bool) \<Rightarrow> (string \<Rightarrow> int) \<Rightarrow> int
    \<Rightarrow> (string list \<times> event_pipe) option" where
  "ConcurrentPipe_OpenForDSL stat mkfifo open_fd i = do {
     n \<leftarrow> PipeNamesForDSL i;
     (p, _) \<leftarrow> EventPipe_Init stat mkfifo (Some (in_name n)) (Some (out_name n)) {};
     EventPipe_Open open_fd True p }"

definition ConcurrentPipe_OpenForSUT :: "(string \<Rightarrow> bool option) \<Rightarrow> (string \<Rightarrow> bool) \<Rightarrow> (string \<Rightarrow> int) \<Rightarrow> int
    \<Rightarrow> (string list \<times> event_pipe) option" where
  "ConcurrentPipe_OpenForSUT stat mkfifo open_fd i = do {
     n \<leftarrow> PipeNamesForSUT i;
     (p, _) \<leftarrow> EventPipe_Init stat mkfifo (Some (in_name n)) (Some (out_name n)) {};
     EventPipe_Open open_fd False p }"

section \<open>Shadow threads\<close>

record shadow =
  sh_tid :: "32 word"
  sh_event :: event
  sh_sem :: sem
  sh_sem2 :: sem

definition new_ShadowThread :: "32 word \<Rightarrow> shadow" where
  "new_ShadowThread t = \<lparr> sh_tid = t, sh_event = event_Clear, sh_sem = 0, sh_sem2 = 0 \<rparr>"

text \<open>WaitRecv up to its wait, and after it; SignalRecv up to its wait, and after it.\<close>

definition WaitRecv_signal :: "shadow \<Rightarrow> shadow option" where
  "WaitRecv_signal s = do { v \<leftarrow> Sem_Signal (sh_sem2 s); Some (s\<lparr> sh_sem2 := v \<rparr>) }"

definition WaitRecv_check :: "shadow \<Rightarrow> shadow option" where
  "WaitRecv_check s = do { safe_assert (Sem_Get (sh_sem s) \<le> 1); Some s }"

definition WaitRecv_wait :: "shadow \<Rightarrow> shadow call option" where
  "WaitRecv_wait s = do {
     c \<leftarrow> Sem_Wait [] (sh_sem s);
     Some (case c of Blocks \<Rightarrow> Blocks | Returns v \<Rightarrow> Returns (s\<lparr> sh_sem := v \<rparr>)) }"

definition WaitRecv_copy :: "event \<Rightarrow> shadow \<Rightarrow> event option" where
  "WaitRecv_copy dst s = do {
     let e = event_assign (sh_event s) dst;
     safe_check (event_Check e);
     safe_check (e_threadid e = sh_tid s);
     Some e }"

definition SignalRecv_begin :: "event \<Rightarrow> shadow \<Rightarrow> shadow option" where
  "SignalRecv_begin e s = do { safe_assert (e_threadid e = sh_tid s); Some s }"

definition SignalRecv_wait :: "shadow \<Rightarrow> shadow call option" where
  "SignalRecv_wait s = do {
     c \<leftarrow> Sem_Wait [] (sh_sem2 s);
     Some (case c of Blocks \<Rightarrow> Blocks | Returns v \<Rightarrow> Returns (s\<lparr> sh_sem2 := v \<rparr>)) }"

definition SignalRecv_copy :: "event \<Rightarrow> shadow \<Rightarrow> shadow" where
  "SignalRecv_copy e s = s\<lparr> sh_event := event_assign e (sh_event s) \<rparr>"

definition SignalRecv_check :: "shadow \<Rightarrow> shadow option" where
  "SignalRecv_check s = do { safe_check (\<not> Sem_Get (sh_sem s) > 0); Some s }"

definition SignalRecv_signal :: "shadow \<Rightarrow> shadow option" where
  "SignalRecv_signal s = do { v \<leftarrow> Sem_Signal (sh_sem s); Some (s\<lparr> sh_sem := v \<rparr>) }"

definition SendContinue_event :: "32 word \<Rightarrow> event" where
  "SendContinue_event t = event_Clear\<lparr> e_type := Continue, e_threadid := t \<rparr>"

text \<open>SendRecvContinue after the receive: only a continue event is accepted.\<close>

definition SendRecvContinue_check :: "event \<Rightarrow> unit option" where
  "SendRecvContinue_check e = safe_check (e_type e = Continue)"

section \<open>The pipe shared by the threads\<close>

text \<open>A handler decides on an event, may change it, and cancels it by returning False.\<close>

type_synonym handler = "event \<Rightarrow> bool \<times> event"

record cpipe =
  cp_threads :: "(int \<times> nat) list"
  cp_handler_send :: "handler option"
  cp_handler_recv :: "handler option"

definition GetShadowThread :: "int \<Rightarrow> cpipe \<Rightarrow> nat option" where
  "GetShadowThread t p = map_of (cp_threads p) t"

definition RegisterShadowThread :: "int \<Rightarrow> nat \<Rightarrow> cpipe \<Rightarrow> cpipe" where
  "RegisterShadowThread t sh p = (if map_of (cp_threads p) t = None
     then p\<lparr> cp_threads := (t, sh) # cp_threads p \<rparr> else p)"

definition UnregisterShadowThread :: "int \<Rightarrow> cpipe \<Rightarrow> cpipe option" where
  "UnregisterShadowThread t p = do {
     safe_check (map_of (cp_threads p) t \<noteq> None);
     Some (p\<lparr> cp_threads := filter (\<lambda>x. fst x \<noteq> t) (cp_threads p) \<rparr>) }"

definition NumShadowThreads :: "cpipe \<Rightarrow> nat" where
  "NumShadowThreads p = length (cp_threads p)"

definition ConcurrentPipe_Send :: "cpipe \<Rightarrow> shadow option \<Rightarrow> event \<Rightarrow> (byte list \<times> event) option" where
  "ConcurrentPipe_Send p th e = do {
     safe_assert (case th of None \<Rightarrow> True | Some s \<Rightarrow> sh_tid s = e_threadid e);
     let (go, e1) = (case cp_handler_send p of None \<Rightarrow> (True, e) | Some h \<Rightarrow> h e);
     (if go then EventPipe_Send e1 else Some ([], e1)) }"

text \<open>One round of the worker: the event it received goes to the shadow thread of its thread id.\<close>

datatype delivery = Deliver nat event | Dropped event

definition worker_deliver :: "cpipe \<Rightarrow> event \<Rightarrow> delivery option" where
  "worker_deliver p e = do {
     let (go, e1) = (case cp_handler_recv p of None \<Rightarrow> (True, e) | Some h \<Rightarrow> h e);
     safe_assert (sint (e_threadid e1) \<ge> 0);
     (if go then
       (case GetShadowThread (sint (e_threadid e1)) p of
          Some sh \<Rightarrow> Some (Deliver sh e1)
        | None \<Rightarrow> do { safe_assert (e_type e1 \<noteq> Continue); Some (Dropped e1) })
      else Some (Dropped e1)) }"

fun worker_loop :: "cpipe \<Rightarrow> nat \<Rightarrow> byte list \<Rightarrow> (delivery list \<times> byte list) option" where
  "worker_loop p 0 bs = Some ([], bs)"
| "worker_loop p (Suc n) bs = do {
     x \<leftarrow> EventPipe_Recv bs;
     (case x of
        Wait_bytes \<Rightarrow> Some ([], bs)
      | Got e r \<Rightarrow> do {
          d \<leftarrow> worker_deliver p e;
          (ds, r2) \<leftarrow> worker_loop p n r;
          Some (d # ds, r2) }) }"

text \<open>Broadcast: the event with the thread id of each shadow thread, in the order of the map.\<close>

definition Broadcast :: "(nat \<Rightarrow> shadow) \<Rightarrow> event \<Rightarrow> cpipe \<Rightarrow> (nat \<times> event) list" where
  "Broadcast shadows e p = map (\<lambda>t. let sh = the (map_of (cp_threads p) t)
     in (sh, e\<lparr> e_threadid := sh_tid (shadows sh) \<rparr>)) (sort (map fst (cp_threads p)))"

lemma worker_routes:
  assumes "cp_handler_recv p = None"
    and "list_all (\<lambda>e. sendable e \<and> 0 \<le> sint (e_threadid e)
      \<and> GetShadowThread (sint (e_threadid e)) p \<noteq> None) es"
  shows "worker_loop p (length es) (concat (map Send_bytes es) @ r)
    = Some (map (\<lambda>e. Deliver (the (GetShadowThread (sint (e_threadid e)) p)) (wire_image e)) es, r)"
  using assms(2)
proof (induction es)
  case (Cons e es)
  have "e_threadid (wire_image e) = e_threadid e"
    by (simp add: wire_image_def event_assign_def Let_def)
  then have "worker_deliver p (wire_image e)
      = Some (Deliver (the (GetShadowThread (sint (e_threadid e)) p)) (wire_image e))"
    using Cons.prems assms(1) by (auto simp: worker_deliver_def Let_def split: option.splits)
  then show ?case
    using Cons event_roundtrip [of e] by (simp add: sendable_def)
qed simp

lemma Register_Get: "GetShadowThread t (RegisterShadowThread t sh p) = Some (case GetShadowThread t p of None \<Rightarrow> sh | Some x \<Rightarrow> x)"
  by (auto simp: GetShadowThread_def RegisterShadowThread_def split: option.splits)

lemma Unregister_Get: "UnregisterShadowThread t p = Some p1 \<Longrightarrow> GetShadowThread t p1 = None"
  by (auto simp: GetShadowThread_def UnregisterShadowThread_def map_of_eq_None_iff)

section \<open>Properties\<close>



end
