(* ===== verification/Event_Handoff.thy ===== *)
theory Event_Handoff
  imports Event_Pipe
begin

text \<open>
  The hand-over of events between SignalRecv and WaitRecv of one shadow thread: any number of
  senders (the worker of the pipe, and threads that broadcast) and the one thread that receives.
  Each step is one of the operations between two scheduling points.  \<open>ho_sent\<close> and \<open>ho_rcvd\<close> are
  the events that were copied into the shadow thread and those that WaitRecv returned.
\<close>

datatype send_pc = SIdle | SWait event | SCopy event | SCheck | SSignal

datatype recv_pc = RIdle | RCheck | RWait | RCopy

record handoff =
  ho_shadow :: shadow
  ho_send :: "nat \<Rightarrow> send_pc"
  ho_recv :: recv_pc
  ho_dst :: event
  ho_sent :: "event list"
  ho_rcvd :: "event list"

definition ho_init :: "32 word \<Rightarrow> handoff" where
  "ho_init t = \<lparr> ho_shadow = new_ShadowThread t, ho_send = (\<lambda>_. SIdle), ho_recv = RIdle,
     ho_dst = event_Clear, ho_sent = [], ho_rcvd = [] \<rparr>"

definition sent_view :: "event \<Rightarrow> event" where
  "sent_view e = event_assign e event_Clear"

lemma sent_view_assign: "sent_view (event_assign e d) = sent_view e"
  by (auto simp: sent_view_def event_assign_def Let_def)

fun send_step :: "nat \<Rightarrow> handoff \<Rightarrow> handoff call option" where
  "send_step i s = (case ho_send s i of
     SIdle \<Rightarrow> Some Blocks
   | SWait e \<Rightarrow> do {
       c \<leftarrow> SignalRecv_wait (ho_shadow s);
       Some (case c of Blocks \<Rightarrow> Blocks
         | Returns sh \<Rightarrow> Returns (s\<lparr> ho_shadow := sh, ho_send := (ho_send s)(i := SCopy e) \<rparr>)) }
   | SCopy e \<Rightarrow> Some (Returns (s\<lparr> ho_shadow := SignalRecv_copy e (ho_shadow s),
       ho_send := (ho_send s)(i := SCheck), ho_sent := ho_sent s @ [e] \<rparr>))
   | SCheck \<Rightarrow> do {
       sh \<leftarrow> SignalRecv_check (ho_shadow s);
       Some (Returns (s\<lparr> ho_shadow := sh, ho_send := (ho_send s)(i := SSignal) \<rparr>)) }
   | SSignal \<Rightarrow> do {
       sh \<leftarrow> SignalRecv_signal (ho_shadow s);
       Some (Returns (s\<lparr> ho_shadow := sh, ho_send := (ho_send s)(i := SIdle) \<rparr>)) })"

fun recv_step :: "handoff \<Rightarrow> handoff call option" where
  "recv_step s = (case ho_recv s of
     RIdle \<Rightarrow> do {
       sh \<leftarrow> WaitRecv_signal (ho_shadow s);
       Some (Returns (s\<lparr> ho_shadow := sh, ho_recv := RCheck \<rparr>)) }
   | RCheck \<Rightarrow> do {
       sh \<leftarrow> WaitRecv_check (ho_shadow s);
       Some (Returns (s\<lparr> ho_shadow := sh, ho_recv := RWait \<rparr>)) }
   | RWait \<Rightarrow> do {
       c \<leftarrow> WaitRecv_wait (ho_shadow s);
       Some (case c of Blocks \<Rightarrow> Blocks | Returns sh \<Rightarrow> Returns (s\<lparr> ho_shadow := sh, ho_recv := RCopy \<rparr>)) }
   | RCopy \<Rightarrow> do {
       e \<leftarrow> WaitRecv_copy (ho_dst s) (ho_shadow s);
       Some (Returns (s\<lparr> ho_dst := e, ho_recv := RIdle, ho_rcvd := ho_rcvd s @ [e] \<rparr>)) })"

text \<open>A sender calls SignalRecv with an event for this thread that passes Check.\<close>

inductive ho_trans :: "handoff \<Rightarrow> handoff option \<Rightarrow> bool" where
  call: "ho_send s i = SIdle \<Longrightarrow> event_Check e \<Longrightarrow> e_threadid e = sh_tid (ho_shadow s) \<Longrightarrow>
    ho_trans s (map_option (\<lambda>sh. s\<lparr> ho_shadow := sh, ho_send := (ho_send s)(i := SWait e) \<rparr>)
      (SignalRecv_begin e (ho_shadow s)))"
| send: "send_step i s = Some (Returns s') \<Longrightarrow> ho_trans s (Some s')"
| send_abort: "send_step i s = None \<Longrightarrow> ho_trans s None"
| recv: "recv_step s = Some (Returns s') \<Longrightarrow> ho_trans s (Some s')"
| recv_abort: "recv_step s = None \<Longrightarrow> ho_trans s None"

inductive ho_reach :: "32 word \<Rightarrow> handoff \<Rightarrow> bool" for t where
  initial: "ho_reach t (ho_init t)"
| more: "ho_reach t s \<Longrightarrow> ho_trans s (Some s') \<Longrightarrow> ho_reach t s'"

section \<open>The invariant\<close>

definition inner :: "send_pc \<Rightarrow> bool" where
  "inner p \<longleftrightarrow> (case p of SCopy _ \<Rightarrow> True | SCheck \<Rightarrow> True | SSignal \<Rightarrow> True | _ \<Rightarrow> False)"

definition copied :: "send_pc \<Rightarrow> bool" where
  "copied p \<longleftrightarrow> p = SCheck \<or> p = SSignal"

definition ev_ok :: "handoff \<Rightarrow> bool" where
  "ev_ok s \<longleftrightarrow> (\<forall>i e. ho_send s i = SWait e \<or> ho_send s i = SCopy e \<longrightarrow>
     event_Check e \<and> e_threadid e = sh_tid (ho_shadow s))"

text \<open>The buffer holds the last event sent, which has not been received.\<close>

definition pending :: "handoff \<Rightarrow> bool" where
  "pending s \<longleftrightarrow> (\<exists>es e. ho_sent s = es @ [e] \<and> map sent_view (ho_rcvd s) = map sent_view es
     \<and> sent_view (sh_event (ho_shadow s)) = sent_view e
     \<and> event_Check (sh_event (ho_shadow s)) \<and> e_threadid (sh_event (ho_shadow s)) = sh_tid (ho_shadow s))"

definition settled_log :: "handoff \<Rightarrow> bool" where
  "settled_log s \<longleftrightarrow> map sent_view (ho_rcvd s) = map sent_view (ho_sent s)"

definition nobody :: "handoff \<Rightarrow> bool" where
  "nobody s \<longleftrightarrow> (\<forall>i. \<not> inner (ho_send s i))"

definition somebody :: "(send_pc \<Rightarrow> bool) \<Rightarrow> handoff \<Rightarrow> bool" where
  "somebody P s \<longleftrightarrow> (\<exists>i. P (ho_send s i) \<and> (\<forall>j. inner (ho_send s j) \<longrightarrow> j = i))"

definition tokens_are :: "nat \<Rightarrow> nat \<Rightarrow> handoff \<Rightarrow> bool" where
  "tokens_are a b s \<longleftrightarrow> sh_sem2 (ho_shadow s) = a \<and> sh_sem (ho_shadow s) = b"

definition waiting_inv :: "handoff \<Rightarrow> bool" where
  "waiting_inv s \<longleftrightarrow>
     (tokens_are 1 0 s \<and> nobody s \<and> settled_log s)
   \<or> (tokens_are 0 0 s \<and> somebody (\<lambda>p. inner p \<and> \<not> copied p) s \<and> settled_log s)
   \<or> (tokens_are 0 0 s \<and> somebody copied s \<and> pending s)
   \<or> (tokens_are 0 1 s \<and> nobody s \<and> pending s)"

definition ho_inv :: "handoff \<Rightarrow> bool" where
  "ho_inv s \<longleftrightarrow> ev_ok s \<and> (case ho_recv s of
     RIdle \<Rightarrow> tokens_are 0 0 s \<and> nobody s \<and> settled_log s
   | RCheck \<Rightarrow> waiting_inv s
   | RWait \<Rightarrow> waiting_inv s
   | RCopy \<Rightarrow> tokens_are 0 0 s \<and> nobody s \<and> pending s)"

lemmas ho_defs = ev_ok_def pending_def settled_log_def nobody_def somebody_def tokens_are_def inner_def
  copied_def

lemmas sh_defs = WaitRecv_signal_def WaitRecv_check_def WaitRecv_wait_def WaitRecv_copy_def
  SignalRecv_begin_def SignalRecv_wait_def SignalRecv_copy_def SignalRecv_check_def SignalRecv_signal_def
  Sem_Get_def Sem_Signal_def SEM_VALUE_MAX_def

text \<open>Which fields the parts of the invariant depend on.\<close>

lemma nobody_send [simp]: "nobody (s\<lparr> ho_send := f \<rparr>) \<longleftrightarrow> (\<forall>i. \<not> inner (f i))"
  and nobody_frame [simp]: "nobody (s\<lparr> ho_shadow := sh \<rparr>) = nobody s" "nobody (s\<lparr> ho_recv := r \<rparr>) = nobody s"
    "nobody (s\<lparr> ho_rcvd := l \<rparr>) = nobody s" "nobody (s\<lparr> ho_dst := e \<rparr>) = nobody s"
    "nobody (s\<lparr> ho_sent := l \<rparr>) = nobody s"
  by (simp_all add: nobody_def)

lemma somebody_frame [simp]: "somebody P (s\<lparr> ho_shadow := sh \<rparr>) = somebody P s"
    "somebody P (s\<lparr> ho_recv := r \<rparr>) = somebody P s" "somebody P (s\<lparr> ho_sent := l \<rparr>) = somebody P s"
  by (simp_all add: somebody_def)

lemma settled_frame [simp]: "settled_log (s\<lparr> ho_shadow := sh \<rparr>) = settled_log s"
    "settled_log (s\<lparr> ho_recv := r \<rparr>) = settled_log s" "settled_log (s\<lparr> ho_send := f \<rparr>) = settled_log s"
    "settled_log (s\<lparr> ho_dst := e \<rparr>) = settled_log s"
  by (simp_all add: settled_log_def)

lemma tokens_frame [simp]: "tokens_are a b (s\<lparr> ho_recv := r \<rparr>) = tokens_are a b s"
    "tokens_are a b (s\<lparr> ho_send := f \<rparr>) = tokens_are a b s" "tokens_are a b (s\<lparr> ho_sent := l \<rparr>) = tokens_are a b s"
    "tokens_are a b (s\<lparr> ho_rcvd := l \<rparr>) = tokens_are a b s" "tokens_are a b (s\<lparr> ho_dst := e \<rparr>) = tokens_are a b s"
  by (simp_all add: tokens_are_def)

lemma pending_frame [simp]: "pending (s\<lparr> ho_recv := r \<rparr>) = pending s" "pending (s\<lparr> ho_send := f \<rparr>) = pending s"
    "pending (s\<lparr> ho_shadow := (ho_shadow s)\<lparr> sh_sem := v \<rparr> \<rparr>) = pending s"
    "pending (s\<lparr> ho_shadow := ho_shadow s \<rparr>) = pending s"
  by (simp_all add: pending_def)

lemma ev_ok_frame [simp]: "ev_ok (s\<lparr> ho_recv := r \<rparr>) = ev_ok s" "ev_ok (s\<lparr> ho_rcvd := l \<rparr>) = ev_ok s"
    "ev_ok (s\<lparr> ho_dst := e \<rparr>) = ev_ok s" "ev_ok (s\<lparr> ho_sent := l \<rparr>) = ev_ok s"
    "sh_tid sh = sh_tid (ho_shadow s) \<Longrightarrow> ev_ok (s\<lparr> ho_shadow := sh \<rparr>) = ev_ok s"
  by (simp_all add: ev_ok_def)

lemma ev_ok_send:
  "ev_ok s \<Longrightarrow> (\<And>e. q = SWait e \<or> q = SCopy e \<Longrightarrow> event_Check e \<and> e_threadid e = sh_tid (ho_shadow s))
    \<Longrightarrow> ev_ok (s\<lparr> ho_send := (ho_send s)(i := q) \<rparr>)"
  by (auto simp: ev_ok_def split: if_splits)

lemma pending_received:
  assumes "pending s"
  shows "settled_log (s\<lparr> ho_rcvd := ho_rcvd s @ [event_assign (sh_event (ho_shadow s)) d] \<rparr>)"
  using assms by (auto simp: pending_def settled_log_def sent_view_assign)

lemma assign_check [simp]: "event_Check (event_assign e d) = event_Check e" "e_threadid (event_assign e d) = e_threadid e"
  by (simp_all add: event_assign_def event_Check_def Let_def)

lemma pending_check: "pending s \<Longrightarrow> event_Check (sh_event (ho_shadow s)) \<and> e_threadid (sh_event (ho_shadow s)) = sh_tid (ho_shadow s)"
  by (auto simp: pending_def)

lemma waiting_sem: "waiting_inv s \<Longrightarrow> sh_sem (ho_shadow s) \<le> 1"
  by (auto simp: waiting_inv_def tokens_are_def)

lemma recv_step_inv:
  assumes "ho_inv s"
  shows "\<exists>c. recv_step s = Some c \<and> (\<forall>s'. c = Returns s' \<longrightarrow> ho_inv s')"
proof (cases "ho_recv s")
  case RIdle
  then show ?thesis using assms
    by (auto simp: ho_inv_def WaitRecv_signal_def Sem_Signal_def SEM_VALUE_MAX_def waiting_inv_def tokens_are_def)
next
  case RCheck
  then show ?thesis using assms waiting_sem [of s]
    by (simp add: ho_inv_def WaitRecv_check_def Sem_Get_def waiting_inv_def)
next
  case RWait
  then show ?thesis using assms
    by (auto simp: ho_inv_def WaitRecv_wait_def waiting_inv_def tokens_are_def)
next
  case RCopy
  then show ?thesis using assms pending_check [of s] pending_received [of s "ho_dst s"]
    by (simp add: ho_inv_def WaitRecv_copy_def settled_log_def)
qed

lemma inner_sender:
  assumes "ho_inv s" "inner (ho_send s i)"
  shows "ho_recv s = RCheck \<or> ho_recv s = RWait" "tokens_are 0 0 s" "\<And>j. inner (ho_send s j) \<Longrightarrow> j = i"
    "copied (ho_send s i) \<Longrightarrow> pending s" "\<not> copied (ho_send s i) \<Longrightarrow> settled_log s"
  using assms unfolding ho_inv_def waiting_inv_def nobody_def somebody_def
  by (auto split: recv_pc.splits)

lemma waiting_recv: "ho_recv s = RCheck \<or> ho_recv s = RWait \<Longrightarrow> ho_inv s \<longleftrightarrow> ev_ok s \<and> waiting_inv s"
  by (auto simp: ho_inv_def)

lemma nobody_out: "(\<And>j. inner (ho_send s j) \<Longrightarrow> j = i) \<Longrightarrow> \<not> inner q \<Longrightarrow> nobody (s\<lparr> ho_send := (ho_send s)(i := q) \<rparr>)"
  by auto

lemma somebody_in: "(\<And>j. inner (ho_send s j) \<Longrightarrow> j = i) \<Longrightarrow> P q \<Longrightarrow> somebody P (s\<lparr> ho_send := (ho_send s)(i := q) \<rparr>)"
  by (auto simp: somebody_def intro!: exI [of _ i])

lemma pending_copied:
  assumes "settled_log s" "event_Check e" "e_threadid e = sh_tid (ho_shadow s)"
  shows "pending (s\<lparr> ho_shadow := SignalRecv_copy e (ho_shadow s), ho_sent := ho_sent s @ [e] \<rparr>)"
  using assms by (auto simp: pending_def settled_log_def SignalRecv_copy_def sent_view_assign)

lemma sender_wait:
  assumes "ho_inv s" "ho_send s i = SWait e"
  shows "\<exists>c. send_step i s = Some c \<and> (\<forall>s'. c = Returns s' \<longrightarrow> ho_inv s')"
proof (cases "sh_sem2 (ho_shadow s) = 0")
  case True
  then show ?thesis using assms(2) by (simp add: SignalRecv_wait_def)
next
  case False
  then have w: "ho_recv s = RCheck \<or> ho_recv s = RWait" "ev_ok s" "tokens_are 1 0 s" "nobody s" "settled_log s"
    using assms(1) by (auto simp: ho_inv_def waiting_inv_def tokens_are_def split: recv_pc.splits)
  let ?s = "s\<lparr> ho_shadow := (ho_shadow s)\<lparr> sh_sem2 := 0 \<rparr>, ho_send := (ho_send s)(i := SCopy e) \<rparr>"
  have "ev_ok (s\<lparr> ho_send := (ho_send s)(i := SCopy e) \<rparr>)"
    using w(2) assms(2) by (intro ev_ok_send) (auto simp: ev_ok_def)
  then have "ev_ok ?s" by (simp add: ev_ok_def)
  moreover have "somebody (\<lambda>p. inner p \<and> \<not> copied p) ?s"
    using w(4) by (auto simp: somebody_def nobody_def inner_def copied_def intro!: exI [of _ i])
  moreover have "tokens_are 0 0 ?s" using w(3) by (simp add: tokens_are_def)
  ultimately have "ho_inv ?s" using w(1,5) by (auto simp: waiting_recv waiting_inv_def)
  then show ?thesis using False w(3) assms(2) by (simp add: SignalRecv_wait_def tokens_are_def)
qed

lemma sender_inner:
  assumes inv: "ho_inv s" and inner: "inner (ho_send s i)"
  shows "\<exists>c. send_step i s = Some c \<and> (\<forall>s'. c = Returns s' \<longrightarrow> ho_inv s')"
proof -
  note w = inner_sender [OF inv inner]
  have ev: "ev_ok s" using inv by (simp add: ho_inv_def)
  have sem: "sh_sem (ho_shadow s) = 0" "sh_sem2 (ho_shadow s) = 0" using w(2) by (simp_all add: tokens_are_def)
  show ?thesis
  proof (cases "ho_send s i")
    case (SCopy e)
    let ?s = "s\<lparr> ho_shadow := SignalRecv_copy e (ho_shadow s), ho_send := (ho_send s)(i := SCheck),
        ho_sent := ho_sent s @ [e] \<rparr>"
    have "event_Check e" "e_threadid e = sh_tid (ho_shadow s)" using ev SCopy by (auto simp: ev_ok_def)
    then have "pending (s\<lparr> ho_shadow := SignalRecv_copy e (ho_shadow s), ho_sent := ho_sent s @ [e] \<rparr>)"
      using pending_copied w(5) SCopy by (simp add: copied_def)
    then have "pending ?s" by (simp add: pending_def)
    moreover have "somebody copied ?s" using w(3) by (auto simp: somebody_def copied_def intro!: exI [of _ i])
    moreover have "ev_ok ?s" using ev by (auto simp: ev_ok_def SignalRecv_copy_def split: if_splits)
    moreover have "tokens_are 0 0 ?s" using sem by (simp add: tokens_are_def SignalRecv_copy_def)
    ultimately have "ho_inv ?s" using w(1) by (auto simp: waiting_recv waiting_inv_def)
    then show ?thesis using SCopy by simp
  next
    case SCheck
    let ?s = "s\<lparr> ho_shadow := ho_shadow s, ho_send := (ho_send s)(i := SSignal) \<rparr>"
    have "ho_inv ?s"
      using w SCheck ev
      by (auto simp: waiting_recv waiting_inv_def copied_def somebody_def ev_ok_def tokens_are_def pending_def)
    then show ?thesis using SCheck sem by (simp add: SignalRecv_check_def Sem_Get_def)
  next
    case SSignal
    let ?s = "s\<lparr> ho_shadow := (ho_shadow s)\<lparr> sh_sem := 1 \<rparr>, ho_send := (ho_send s)(i := SIdle) \<rparr>"
    have "nobody ?s" using w(3) by (auto simp: inner_def)
    moreover have "pending ?s" using w(4) SSignal by (simp add: pending_def copied_def)
    moreover have "tokens_are 0 1 ?s" using sem by (simp add: tokens_are_def)
    moreover have "ev_ok ?s" using ev by (auto simp: ev_ok_def)
    ultimately have "ho_inv ?s" using w(1) by (auto simp: waiting_recv waiting_inv_def)
    then show ?thesis using SSignal sem by (simp add: SignalRecv_signal_def Sem_Signal_def SEM_VALUE_MAX_def)
  qed (use inner in \<open>simp_all add: inner_def\<close>)
qed

lemma send_step_inv:
  assumes "ho_inv s"
  shows "\<exists>c. send_step i s = Some c \<and> (\<forall>s'. c = Returns s' \<longrightarrow> ho_inv s')"
proof (cases "inner (ho_send s i)")
  case False
  then show ?thesis using sender_wait [OF assms, of i]
    by (cases "ho_send s i") (auto simp: inner_def)
qed (rule sender_inner [OF assms])

lemma call_inv:
  assumes "ho_inv s" "ho_send s i = SIdle" "event_Check e" "e_threadid e = sh_tid (ho_shadow s)"
  shows "ho_inv (s\<lparr> ho_shadow := ho_shadow s, ho_send := (ho_send s)(i := SWait e) \<rparr>)"
proof -
  let ?s = "s\<lparr> ho_shadow := ho_shadow s, ho_send := (ho_send s)(i := SWait e) \<rparr>"
  have ev: "ev_ok ?s = ev_ok s" using assms by (auto simp: ho_inv_def ev_ok_def split: if_splits)
  have inn: "inner (ho_send ?s j) = inner (ho_send s j)" "copied (ho_send ?s j) = copied (ho_send s j)" for j
    using assms(2) by (auto simp: inner_def copied_def)
  have who: "nobody ?s = nobody s" "somebody copied ?s = somebody copied s"
    "somebody (\<lambda>p. inner p \<and> \<not> copied p) ?s = somebody (\<lambda>p. inner p \<and> \<not> copied p) s"
    unfolding nobody_def somebody_def inn by (rule refl)+
  have rest: "tokens_are a b ?s = tokens_are a b s" "pending ?s = pending s" "settled_log ?s = settled_log s"
    "ho_recv ?s = ho_recv s" for a b
    by (simp_all add: tokens_are_def pending_def settled_log_def)
  show ?thesis using assms(1) unfolding ho_inv_def waiting_inv_def ev who rest .
qed

lemma ho_trans_inv: "ho_trans s r \<Longrightarrow> ho_inv s \<Longrightarrow> \<exists>s'. r = Some s' \<and> ho_inv s'"
proof (induction rule: ho_trans.induct)
  case (call s i e)
  then show ?case using call_inv [of s i e] by (simp add: SignalRecv_begin_def)
next
  case (send i s s')
  then show ?case using send_step_inv [of s i] by auto
next
  case (send_abort i s)
  then show ?case using send_step_inv [of s i] by auto
next
  case (recv s s')
  then show ?case using recv_step_inv [of s] by auto
next
  case (recv_abort s)
  then show ?case using recv_step_inv [of s] by auto
qed

lemma ho_reach_inv: "ho_reach t s \<Longrightarrow> ho_inv s"
proof (induction rule: ho_reach.induct)
  case initial
  then show ?case
    by (simp add: ho_inv_def ho_init_def ev_ok_def tokens_are_def nobody_def settled_log_def inner_def new_ShadowThread_def)
next
  case (more s s')
  then show ?case using ho_trans_inv by blast
qed

lemma ho_inv_log:
  "ho_inv s \<Longrightarrow> settled_log s \<or> pending s"
  by (auto simp: ho_inv_def waiting_inv_def split: recv_pc.splits)

section \<open>Properties\<close>

text \<open>C30: For every interleaving of a sender that calls SignalRecv with the shadow thread
  that calls WaitRecv, no assertion fails and the events are received in the order they are sent,
  none lost or doubled, with at most one on its way.\<close>

theorem handoff_in_order:
  assumes "ho_reach t s"
  shows "\<not> ho_trans s None
    \<and> (\<exists>rest. map sent_view (ho_sent s) = map sent_view (ho_rcvd s) @ rest \<and> length rest \<le> 1)"
proof -
  have inv: "ho_inv s" using ho_reach_inv [OF assms] .
  then have "\<not> ho_trans s None" using ho_trans_inv by blast
  moreover have "\<exists>rest. map sent_view (ho_sent s) = map sent_view (ho_rcvd s) @ rest \<and> length rest \<le> 1"
    using ho_inv_log [OF inv] by (auto simp: settled_log_def pending_def)
  ultimately show ?thesis by blast
qed

theorem handoff_in_order_witness:
  "\<exists>s. recv_step (ho_init 3) = Some (Returns s) \<and> \<not> ho_trans s None"
proof -
  obtain s where s: "recv_step (ho_init 3) = Some (Returns s)"
    by (simp add: ho_init_def WaitRecv_signal_def new_ShadowThread_def Sem_Signal_def SEM_VALUE_MAX_def)
  have "ho_reach 3 s" using ho_reach.more [OF ho_reach.initial ho_trans.recv [OF s]] .
  with s handoff_in_order show ?thesis by blast
qed

end
