(* ===== verification/Trans_Pred.thy ===== *)
theory Trans_Pred
  imports Thread_Vars Aux_Vars
begin

text \<open>
  Transition predicates: the auxiliary state of transpred.h/transpred.cpp, the predicate classes as
  one datatype with a constructor per class, their \<open>EvalState\<close>, and the predicate builders of
  api.h.

  Evaluation has effects: a predicate whose operand is an unset cell binds the cell
  (\<open>AuxConst0::set\<close>) and a \<open>CONSTRAIN_FST\<close> predicate replaces itself by \<open>True\<close> once it held.
  Both are fields of the environment.  Values of all auxiliary variables are kept as integers: a
  bool is 0 or 1, a machine word its unsigned value; each variable has its own undefined value.
\<close>

section \<open>Auxiliary state\<close>

datatype aux0name = Ends | Pc | AtPc

datatype aux1name =
    Reads | Writes | CallsFrom | CallsTo | Enters | Returns | InFunc | NumInFunc | Arg0 | Arg1 | RetVal

record aux_env =
  vars :: tvstore
  aux0 :: "aux0name \<Rightarrow> int aux0"
  aux1 :: "aux1name \<Rightarrow> (addr, int) aux1"
  cells :: "nat \<Rightarrow> int"
  next_cell :: nat
  fired :: "nat \<Rightarrow> bool"

definition TID :: tvref where
  "TID = 0"

definition undef0 :: "aux0name \<Rightarrow> int" where
  "undef0 v = (if v = Pc then -1 else 0)"

definition AuxState_Init :: aux_env where
  "AuxState_Init = \<lparr>vars = (\<lambda>r. new_thread_var None (if r = TID then ''TID'' else ''<unknown>'')),
     aux0 = (\<lambda>_. Map.empty), aux1 = (\<lambda>_. Map.empty), cells = (\<lambda>_. 0), next_cell = 0,
     fired = (\<lambda>_. False)\<rparr>"

definition reset1 :: "aux1name \<Rightarrow> tid \<Rightarrow> aux_env \<Rightarrow> aux_env" where
  "reset1 v t env = env\<lparr>aux1 := (aux1 env)(v := aux1_reset (aux1 env v) t)\<rparr>"

definition reset0 :: "aux0name \<Rightarrow> tid \<Rightarrow> aux_env \<Rightarrow> aux_env" where
  "reset0 v t env = env\<lparr>aux0 := (aux0 env)(v := aux0_reset (undef0 v) (aux0 env v) t)\<rparr>"

definition clear1 :: "aux1name \<Rightarrow> aux_env \<Rightarrow> aux_env" where
  "clear1 v env = env\<lparr>aux1 := (aux1 env)(v := aux1_clear (aux1 env v))\<rparr>"

definition clear0 :: "aux0name \<Rightarrow> aux_env \<Rightarrow> aux_env" where
  "clear0 v env = env\<lparr>aux0 := (aux0 env)(v := aux0_clear (aux0 env v))\<rparr>"

definition set1 :: "aux1name \<Rightarrow> addr \<Rightarrow> int \<Rightarrow> tid \<Rightarrow> aux_env \<Rightarrow> aux_env option" where
  "set1 v k x t env = do {
     m \<leftarrow> aux1_set 0 0 (aux1 env v) k x t;
     Some (env\<lparr>aux1 := (aux1 env)(v := m)\<rparr>) }"

definition set0 :: "aux0name \<Rightarrow> int \<Rightarrow> tid \<Rightarrow> aux_env \<Rightarrow> aux_env" where
  "set0 v x t env = env\<lparr>aux0 := (aux0 env)(v := aux0_set (undef0 v) (aux0 env v) x t)\<rparr>"

definition AuxState_Reset :: "tid \<Rightarrow> aux_env \<Rightarrow> aux_env" where
  "AuxState_Reset t env =
     reset0 AtPc t (reset1 Returns t (reset1 Enters t (reset1 CallsTo t
       (reset1 CallsFrom t (reset1 Writes t (reset1 Reads t env))))))"

definition AuxState_Clear :: "aux_env \<Rightarrow> aux_env" where
  "AuxState_Clear env = (let
     e1 = clear1 Writes (clear1 Reads (clear0 Ends env));
     e2 = clear1 CallsTo (clear1 CallsFrom e1);
     e3 = clear1 Returns (clear1 Enters e2);
     e4 = clear0 AtPc (clear0 Pc e3);
     e5 = clear1 NumInFunc (clear1 InFunc e4);
     e6 = clear1 RetVal (clear1 Arg1 (clear1 Arg0 e5))
   in e6\<lparr>vars := clear_thread (vars e6) TID\<rparr>)"

section \<open>Predicates\<close>

datatype opnd = OCell nat | OVar aux0name
  \<comment> \<open>an \<open>AuxConst0\<close> object, or an \<open>AuxVar0\<close>\<close>

datatype tpred =
    TPTrue
  | TPFalse
  | TPNot tpred
  | TPAnd "tpred list"
  | TPOr "tpred list"
  | TPAll tpred
  | TPFirst nat tpred
  | TPAux0 aux0name "opnd option" "tvref option"
  | TPAux1 aux1name "opnd option" "opnd option" "tvref option"
  | TPInFunc addr "tvref option"
  | TPEqual "tvref option" "tvref option"
  | TPNotEqual "tvref option" "tvref option"
  | TEAny
  | TEVar "tvref option"
  | TENeg "tvref option"
  | TEPlus tpred "tvref option"
  | TEMinus tpred "tvref option"

definition op_get :: "int \<Rightarrow> aux_env \<Rightarrow> opnd \<Rightarrow> tid \<Rightarrow> int option" where
  "op_get undef env a t = (case a of
     OCell n \<Rightarrow> Some (const0_get (cells env n) t)
   | OVar v \<Rightarrow> aux0_get undef (aux0 env v) t)"

definition op_isset :: "int \<Rightarrow> aux_env \<Rightarrow> opnd \<Rightarrow> tid \<Rightarrow> bool option" where
  "op_isset undef env a t = (case a of
     OCell n \<Rightarrow> Some (const0_isset undef (cells env n) t)
   | OVar v \<Rightarrow> aux0_isset undef (aux0 env v) t)"

definition op_set :: "int \<Rightarrow> aux_env \<Rightarrow> opnd \<Rightarrow> int \<Rightarrow> tid \<Rightarrow> aux_env" where
  "op_set undef env a x t = (case a of
     OCell n \<Rightarrow> env\<lparr>cells := (cells env)(n := const0_set (cells env n) x t)\<rparr>
   | OVar v \<Rightarrow> env\<lparr>aux0 := (aux0 env)(v := aux0_set undef (aux0 env v) x t)\<rparr>)"

text \<open>\<open>tvar_ == NULL ? t->tid() : safe_notnull(tvar_->thread())->tid()\<close>\<close>

definition eval_tid :: "aux_env \<Rightarrow> co option \<Rightarrow> tvref option \<Rightarrow> tid option" where
  "eval_tid env t tvar = (case tvar of
     None \<Rightarrow> do { c \<leftarrow> t; Some (co_tid c) }
   | Some r \<Rightarrow> do { c \<leftarrow> safe_notnull (tv_thread (vars env r)); Some (co_tid c) })"

definition eval_aux0 ::
  "aux_env \<Rightarrow> co option \<Rightarrow> aux0name \<Rightarrow> opnd option \<Rightarrow> tvref option \<Rightarrow> (bool \<times> aux_env) option" where
  "eval_aux0 env t v var2 tvar = do {
     safe_assert (t \<noteq> None);
     d \<leftarrow> eval_tid env t tvar;
     let u = undef0 v;
     let m = aux0 env v;
     (case var2 of
        None \<Rightarrow> do { b \<leftarrow> aux0_isset u m d; Some (b, env) }
      | Some a \<Rightarrow> do {
          s2 \<leftarrow> op_isset u env a d;
          s1 \<leftarrow> aux0_isset u m d;
          if \<not> s2 then
            (if s1 then do { x \<leftarrow> aux0_get u m d; Some (True, op_set u env a x d) }
             else Some (False, env))
          else if s1 then do { x \<leftarrow> aux0_get u m d; y \<leftarrow> op_get u env a d; Some (x = y, env) }
          else Some (False, env) }) }"

definition eval_aux1 ::
  "aux_env \<Rightarrow> co option \<Rightarrow> aux1name \<Rightarrow> opnd option \<Rightarrow> opnd option \<Rightarrow> tvref option
     \<Rightarrow> (bool \<times> aux_env) option" where
  "eval_aux1 env t v key val tvar = do {
     safe_assert (t \<noteq> None);
     d \<leftarrow> eval_tid env t tvar;
     let m = aux1 env v;
     (case key of
        None \<Rightarrow> do { safe_assert (val = None); Some (aux1_isset m d, env) }
      | Some k \<Rightarrow> (case val of
          None \<Rightarrow> do {
            sk \<leftarrow> op_isset 0 env k d;
            if \<not> sk then
              (if aux1_isset m d
               then do { fk \<leftarrow> aux1_get_first_key 0 m d; Some (True, op_set 0 env k (uint fk) d) }
               else Some (False, env))
            else do { kv \<leftarrow> op_get 0 env k d; b \<leftarrow> aux1_isset_key 0 0 m (word_of_int kv) d; Some (b, env) } }
        | Some x \<Rightarrow> do {
            sk \<leftarrow> op_isset 0 env k d;
            safe_assert sk;
            kv \<leftarrow> op_get 0 env k d;
            b \<leftarrow> aux1_isset_key 0 0 m (word_of_int kv) d;
            sx \<leftarrow> op_isset 0 env x d;
            if \<not> sx then
              (if b then do { y \<leftarrow> aux1_get 0 0 m (word_of_int kv) d; Some (True, op_set 0 env x y d) }
               else Some (False, env))
            else if b then do { y \<leftarrow> aux1_get 0 0 m (word_of_int kv) d; z \<leftarrow> op_get 0 env x d; Some (y = z, env) }
            else Some (False, env) })) }"

definition eval_in_func :: "aux_env \<Rightarrow> co option \<Rightarrow> addr \<Rightarrow> tvref option \<Rightarrow> (bool \<times> aux_env) option" where
  "eval_in_func env t a tvar = do {
     d \<leftarrow> eval_tid env t tvar;
     x \<leftarrow> aux1_get 0 0 (aux1 env InFunc) a d;
     Some (x > 0, env) }"

text \<open>Two variables are compared by thread id; an unbound variable is equal to, and different
  from, every thread.\<close>

definition eval_vars_equal :: "aux_env \<Rightarrow> tvref option \<Rightarrow> tvref option \<Rightarrow> bool option" where
  "eval_vars_equal env t1 t2 = do {
     a \<leftarrow> safe_notnull t1; b \<leftarrow> safe_notnull t2;
     Some (case (tv_thread (vars env a), tv_thread (vars env b)) of
        (Some c1, Some c2) \<Rightarrow> co_tid c1 = co_tid c2 | _ \<Rightarrow> True) }"

definition eval_vars_not_equal :: "aux_env \<Rightarrow> tvref option \<Rightarrow> tvref option \<Rightarrow> bool option" where
  "eval_vars_not_equal env t1 t2 = do {
     a \<leftarrow> safe_notnull t1; b \<leftarrow> safe_notnull t2;
     Some (case (tv_thread (vars env a), tv_thread (vars env b)) of
        (Some c1, Some c2) \<Rightarrow> co_tid c1 \<noteq> co_tid c2 | _ \<Rightarrow> True) }"

definition with_env :: "aux_env \<Rightarrow> bool option \<Rightarrow> (bool \<times> aux_env) option" where
  "with_env env r = do { b \<leftarrow> r; Some (b, env) }"

text \<open>The rest of \<open>EvalState\<close> in the classes with an operand, once the operand is known.\<close>

definition TransitionConstraintFirst_rest :: "aux_env \<Rightarrow> nat \<Rightarrow> bool \<Rightarrow> (bool \<times> aux_env) option" where
  [simp]: "TransitionConstraintFirst_rest env n b =
     (if b then Some (True, env\<lparr>fired := (fired env)(n := True)\<rparr>) else Some (False, env))"

definition ThreadVarExpr_EvalState :: "aux_env \<Rightarrow> tvref option \<Rightarrow> (bool \<times> aux_env) option" where
  [simp]: "ThreadVarExpr_EvalState env r = with_env env (eval_vars_equal env (Some TID) r)"

definition NegThreadVarExpr_EvalState :: "aux_env \<Rightarrow> tvref option \<Rightarrow> (bool \<times> aux_env) option" where
  [simp]: "NegThreadVarExpr_EvalState env r = with_env env (eval_vars_not_equal env (Some TID) r)"

definition PlusThreadExpr_rest :: "aux_env \<Rightarrow> tvref option \<Rightarrow> bool \<Rightarrow> (bool \<times> aux_env) option" where
  [simp]: "PlusThreadExpr_rest env r b = (if b then Some (True, env) else ThreadVarExpr_EvalState env r)"

definition MinusThreadExpr_rest :: "aux_env \<Rightarrow> tvref option \<Rightarrow> bool \<Rightarrow> (bool \<times> aux_env) option" where
  [simp]: "MinusThreadExpr_rest env r b =
     (if \<not> b then Some (False, env) else NegThreadVarExpr_EvalState env r)"

fun EvalState :: "aux_env \<Rightarrow> co option \<Rightarrow> tpred \<Rightarrow> (bool \<times> aux_env) option"
and eval_all :: "aux_env \<Rightarrow> co option \<Rightarrow> tpred list \<Rightarrow> (bool \<times> aux_env) option"
and eval_any :: "aux_env \<Rightarrow> co option \<Rightarrow> tpred list \<Rightarrow> (bool \<times> aux_env) option" where
  "EvalState env t TPTrue = Some (True, env)"
| "EvalState env t TPFalse = Some (False, env)"
| "EvalState env t (TPNot p) = do { (b, env') \<leftarrow> EvalState env t p; Some (\<not> b, env') }"
| "EvalState env t (TPAnd ps) = eval_all env t ps"
| "EvalState env t (TPOr ps) = eval_any env t ps"
| "EvalState env t (TPAll p) = EvalState env t p"
| "EvalState env t (TPFirst n p) =
     (if fired env n then Some (True, env)
      else do {
        (b, env') \<leftarrow> EvalState env t p;
        TransitionConstraintFirst_rest env' n b })"
| "EvalState env t (TPAux0 v a tvar) = eval_aux0 env t v a tvar"
| "EvalState env t (TPAux1 v k x tvar) = eval_aux1 env t v k x tvar"
| "EvalState env t (TPInFunc a tvar) = eval_in_func env t a tvar"
| "EvalState env t (TPEqual t1 t2) = with_env env (eval_vars_equal env t1 t2)"
| "EvalState env t (TPNotEqual t1 t2) = with_env env (eval_vars_not_equal env t1 t2)"
| "EvalState env t TEAny = Some (True, env)"
| "EvalState env t (TEVar r) = ThreadVarExpr_EvalState env r"
| "EvalState env t (TENeg r) = NegThreadVarExpr_EvalState env r"
| "EvalState env t (TEPlus e r) = do {
     (b, env') \<leftarrow> EvalState env t e;
     PlusThreadExpr_rest env' r b }"
| "EvalState env t (TEMinus e r) = do {
     (b, env') \<leftarrow> EvalState env t e;
     MinusThreadExpr_rest env' r b }"
| "eval_all env t [] = Some (True, env)"
| "eval_all env t (p # ps) = do {
     (b, env') \<leftarrow> EvalState env t p;
     if b then eval_all env' t ps else Some (False, env') }"
| "eval_any env t [] = Some (False, env)"
| "eval_any env t (p # ps) = do {
     (b, env') \<leftarrow> EvalState env t p;
     if b then Some (True, env') else eval_any env' t ps }"

section \<open>The predicate builders of api.h\<close>

text \<open>\<open>TP1\<close> and \<open>TP3\<close> allocate an \<open>AuxConst0\<close> holding the constant.\<close>

definition new_const :: "aux_env \<Rightarrow> int \<Rightarrow> opnd \<times> aux_env" where
  "new_const env x = (OCell (next_cell env),
     env\<lparr>cells := (cells env)(next_cell env := x), next_cell := Suc (next_cell env)\<rparr>)"

definition arg_tid :: "tvref option \<Rightarrow> tvref option" where
  "arg_tid t = (case t of None \<Rightarrow> Some TID | Some r \<Rightarrow> Some r)"

definition aux0_TP0 :: "aux0name \<Rightarrow> tvref option \<Rightarrow> aux_env \<Rightarrow> tpred \<times> aux_env" where
  "aux0_TP0 v t env = (TPAux0 v None t, env)"

definition aux0_TP1 :: "aux0name \<Rightarrow> int \<Rightarrow> tvref option \<Rightarrow> aux_env \<Rightarrow> tpred \<times> aux_env" where
  "aux0_TP1 v x t env = (let (a, env') = new_const env x in (TPAux0 v (Some a) t, env'))"

definition aux1_TP0 :: "aux1name \<Rightarrow> tvref option \<Rightarrow> aux_env \<Rightarrow> tpred \<times> aux_env" where
  "aux1_TP0 v t env = (TPAux1 v None None t, env)"

definition aux1_TP1 :: "aux1name \<Rightarrow> addr \<Rightarrow> tvref option \<Rightarrow> aux_env \<Rightarrow> tpred \<times> aux_env" where
  "aux1_TP1 v k t env = (let (a, env') = new_const env (uint k) in (TPAux1 v (Some a) None t, env'))"

definition aux1_TP3 :: "aux1name \<Rightarrow> addr \<Rightarrow> int \<Rightarrow> tvref option \<Rightarrow> aux_env \<Rightarrow> tpred \<times> aux_env" where
  "aux1_TP3 v k x t env = (let (a, env1) = new_const env (uint k); (b, env2) = new_const env1 x
     in (TPAux1 v (Some a) (Some b) t, env2))"

definition aux1_TP5 :: "aux1name \<Rightarrow> addr \<Rightarrow> opnd \<Rightarrow> tvref option \<Rightarrow> aux_env \<Rightarrow> tpred \<times> aux_env" where
  "aux1_TP5 v k x t env = (let (a, env') = new_const env (uint k) in (TPAux1 v (Some a) (Some x) t, env'))"

definition api_ENDS :: "tvref option \<Rightarrow> aux_env \<Rightarrow> tpred \<times> aux_env" where
  "api_ENDS t env = aux0_TP1 Ends 1 (arg_tid t) env"

definition api_READS :: "addr \<Rightarrow> tvref option \<Rightarrow> aux_env \<Rightarrow> tpred \<times> aux_env" where
  "api_READS x t env =
     (if x = 0 then aux1_TP0 Reads (arg_tid t) env else aux1_TP1 Reads x (arg_tid t) env)"

definition api_WRITES :: "addr \<Rightarrow> tvref option \<Rightarrow> aux_env \<Rightarrow> tpred \<times> aux_env" where
  "api_WRITES x t env =
     (if x = 0 then aux1_TP0 Writes (arg_tid t) env else aux1_TP1 Writes x (arg_tid t) env)"

definition api_ACCESSES :: "addr \<Rightarrow> tvref option \<Rightarrow> aux_env \<Rightarrow> tpred \<times> aux_env" where
  "api_ACCESSES x t env = (let (p, env1) = api_READS x t env; (q, env2) = api_WRITES x t env1
     in (TPOr [p, q], env2))"

definition api_ENTERS :: "addr \<Rightarrow> tvref option \<Rightarrow> aux_env \<Rightarrow> tpred \<times> aux_env" where
  "api_ENTERS f t env =
     (if f = 0 then aux1_TP0 Enters (arg_tid t) env else aux1_TP3 Enters f 1 (arg_tid t) env)"

definition api_RETURNS :: "addr \<Rightarrow> tvref option \<Rightarrow> aux_env \<Rightarrow> tpred \<times> aux_env" where
  "api_RETURNS f t env =
     (if f = 0 then aux1_TP0 Returns (arg_tid t) env else aux1_TP3 Returns f 1 (arg_tid t) env)"

definition api_CALLS :: "addr \<Rightarrow> tvref option \<Rightarrow> aux_env \<Rightarrow> tpred \<times> aux_env" where
  "api_CALLS f t env =
     (if f = 0 then aux1_TP0 CallsTo (arg_tid t) env else aux1_TP3 CallsTo f 1 (arg_tid t) env)"

definition api_IN_FUNC :: "addr \<Rightarrow> tvref option \<Rightarrow> int \<Rightarrow> aux_env \<Rightarrow> (tpred \<times> aux_env) option" where
  "api_IN_FUNC f t k env = do {
     safe_assert (k \<ge> 1);
     if k = 1 then do { safe_assert (f \<noteq> 0); Some (TPInFunc f (arg_tid t), env) }
     else Some (aux1_TP3 NumInFunc f k (arg_tid t) env) }"

definition api_AT_PC :: "int \<Rightarrow> tvref option \<Rightarrow> aux_env \<Rightarrow> tpred \<times> aux_env" where
  "api_AT_PC pc t env = (if pc < 0 then aux0_TP0 Pc (arg_tid t) env else aux0_TP1 Pc pc (arg_tid t) env)"

definition api_HITS_PC :: "int \<Rightarrow> tvref option \<Rightarrow> aux_env \<Rightarrow> tpred \<times> aux_env" where
  "api_HITS_PC pc t env =
     (if pc < 0 then aux0_TP0 AtPc (arg_tid t) env
      else (let (p, env1) = aux0_TP0 AtPc (arg_tid t) env; (q, env2) = aux0_TP1 Pc pc (arg_tid t) env1
            in (TPAnd [p, q], env2)))"

definition api_WITH_ARG :: "aux1name \<Rightarrow> addr \<Rightarrow> opnd \<Rightarrow> tvref option \<Rightarrow> aux_env \<Rightarrow> tpred \<times> aux_env" where
  "api_WITH_ARG v f x t env = aux1_TP5 v f x (arg_tid t) env"

definition api_WITH_ARG_const :: "aux1name \<Rightarrow> addr \<Rightarrow> addr \<Rightarrow> tvref option \<Rightarrow> aux_env \<Rightarrow> tpred \<times> aux_env" where
  "api_WITH_ARG_const v f x t env = aux1_TP3 v f (uint x) (arg_tid t) env"

text \<open>\<open>_ARG0\<close>, \<open>_ARG1\<close> and \<open>_RETVAL\<close> read the current auxiliary state.\<close>

definition api_read_aux :: "aux1name \<Rightarrow> tvref option \<Rightarrow> addr \<Rightarrow> aux_env \<Rightarrow> int option" where
  "api_read_aux v t f env = do {
     r \<leftarrow> safe_notnull t;
     d \<leftarrow> ThreadVar_tid (vars env) r;
     if f = 0 then aux1_get_first_value uint 0 0 (aux1 env v) d
     else aux1_get 0 0 (aux1 env v) f d }"

definition api_BY :: "tvref option \<Rightarrow> tpred" where
  "api_BY t = TEVar t"

definition api_NOT_BY :: "tvref option \<Rightarrow> tpred" where
  "api_NOT_BY t = TENeg t"

fun plus_until_null :: "tpred \<Rightarrow> tvref option list \<Rightarrow> tpred" where
  "plus_until_null p [] = p"
| "plus_until_null p (None # ts) = p"
| "plus_until_null p (Some t # ts) = plus_until_null (TEPlus p (Some t)) ts"

definition api_TEXPR :: "tvref option list \<Rightarrow> tpred" where
  "api_TEXPR ts = plus_until_null TEAny (take 5 ts)"

definition api_DISTINCT :: "tvset \<Rightarrow> tpred" where
  "api_DISTINCT scope = fold (\<lambda>t e. TEMinus e (Some t)) scope TEAny"

definition HAS_ENDED :: "(co \<Rightarrow> bool) \<Rightarrow> tvstore \<Rightarrow> tvref option \<Rightarrow> bool option" where
  "HAS_ENDED ended st t = do { r \<leftarrow> t; c \<leftarrow> tv_thread (st r); Some (ended c) }"

fun have_ended_rest :: "(co \<Rightarrow> bool) \<Rightarrow> tvstore \<Rightarrow> tvref option list \<Rightarrow> bool option" where
  "have_ended_rest ended st [] = Some True"
| "have_ended_rest ended st (None # ts) = have_ended_rest ended st ts"
| "have_ended_rest ended st (Some t # ts) = do {
     b \<leftarrow> HAS_ENDED ended st (Some t);
     if \<not> b then Some False else have_ended_rest ended st ts }"

definition HAVE_ENDED :: "(co \<Rightarrow> bool) \<Rightarrow> tvstore \<Rightarrow> tvref option \<Rightarrow> tvref option list \<Rightarrow> bool option" where
  "HAVE_ENDED ended st t1 ts = do {
     b \<leftarrow> HAS_ENDED ended st t1;
     if \<not> b then Some False else have_ended_rest ended st (take 4 ts) }"


section \<open>Invariant and frame of evaluation\<close>

definition env_ok :: "aux_env \<Rightarrow> bool" where
  "env_ok env \<longleftrightarrow> (\<forall>v. aux0_ok (undef0 v) (aux0 env v)) \<and> (\<forall>v. aux1_ok 0 0 (aux1 env v))"

lemma AuxState_Init_ok: "env_ok AuxState_Init"
  by (simp add: env_ok_def AuxState_Init_def aux0_ok_def aux1_ok_def)

lemma reset1_ok: "env_ok env \<Longrightarrow> env_ok (reset1 v t env)"
  by (simp add: env_ok_def reset1_def aux1_reset_ok)

lemma reset0_ok: "env_ok env \<Longrightarrow> env_ok (reset0 v t env)"
  by (simp add: env_ok_def reset0_def aux0_reset_def aux0_set_ok)

lemma clear_ok: "env_ok env \<Longrightarrow> env_ok (clear0 v env) \<and> env_ok (clear1 w env)"
  by (simp add: env_ok_def clear0_def clear1_def aux0_clear_def aux1_clear_def aux0_ok_def aux1_ok_def)

lemma set1_ok: "env_ok env \<Longrightarrow> set1 v k x t env = Some env' \<Longrightarrow> env_ok env'"
  by (auto simp: env_ok_def set1_def abort_simps) (metis aux1_set_ok)

lemma set0_ok: "env_ok env \<Longrightarrow> env_ok (set0 v x t env)"
  by (simp add: env_ok_def set0_def aux0_set_ok)

lemma set1_total: "k \<noteq> 0 \<Longrightarrow> \<exists>env'. set1 v k x t env = Some env'"
  by (simp add: set1_def aux1_set_Some)

lemma AuxState_Reset_ok: "env_ok env \<Longrightarrow> env_ok (AuxState_Reset t env)"
  by (simp add: AuxState_Reset_def reset1_ok reset0_ok)

text \<open>Evaluation can write cells, the fired marks, and (through an \<open>AuxVar0\<close> operand) thread
  values; it never changes a thread variable or a keyed auxiliary variable.\<close>

definition same_frame :: "aux_env \<Rightarrow> aux_env \<Rightarrow> bool" where
  "same_frame env env' \<longleftrightarrow> vars env' = vars env \<and> aux1 env' = aux1 env \<and> next_cell env' = next_cell env
     \<and> (\<forall>n. fired env n \<longrightarrow> fired env' n)"

lemma same_frame_refl [simp]: "same_frame env env"
  by (simp add: same_frame_def)

lemma same_frame_trans: "same_frame a b \<Longrightarrow> same_frame b c \<Longrightarrow> same_frame a c"
  by (simp add: same_frame_def)

lemma op_set_frame [simp]: "same_frame env (op_set u env a x d)"
  by (simp add: op_set_def same_frame_def split: opnd.splits)

lemma eval_aux0_frame: "eval_aux0 env t v a tvar = Some (b, env') \<Longrightarrow> same_frame env env'"
  by (auto simp: eval_aux0_def Let_def abort_simps split: option.splits if_splits)

lemma eval_aux1_frame: "eval_aux1 env t v k x tvar = Some (b, env') \<Longrightarrow> same_frame env env'"
  by (auto simp: eval_aux1_def Let_def abort_simps split: option.splits if_splits)

lemma eval_in_func_frame: "eval_in_func env t a tvar = Some (b, env') \<Longrightarrow> env' = env"
  by (auto simp: eval_in_func_def abort_simps)

lemma with_env_frame: "with_env env r = Some (b, env') \<Longrightarrow> env' = env \<and> r = Some b"
  by (auto simp: with_env_def abort_simps)

lemma fire_frame: "same_frame env (env\<lparr>fired := (fired env)(n := True)\<rparr>)"
  by (simp add: same_frame_def)

lemma EvalState_frame:
  "EvalState env t p = Some (b, env') \<Longrightarrow> same_frame env env'"
  "eval_all env t ps = Some (b, env') \<Longrightarrow> same_frame env env'"
  "eval_any env t ps = Some (b, env') \<Longrightarrow> same_frame env env'"
proof (induction env t p and env t ps and env t ps arbitrary: b env' and b env' and b env'
       rule: EvalState_eval_all_eval_any.induct)
  case (7 env t n p)
  show ?case
  proof (cases "fired env n")
    case True
    with 7 show ?thesis by simp
  next
    case False
    obtain b1 env1 where e: "EvalState env t p = Some (b1, env1)"
      using 7(2) False by (cases "EvalState env t p") auto
    with 7(2) False have env': "env' = (if b1 then env1\<lparr>fired := (fired env1)(n := True)\<rparr> else env1)"
      by (auto split: if_splits)
    from 7(1) [OF False e] env' show ?thesis
      by (auto intro: same_frame_trans fire_frame)
  qed
next
  case (19 env t p ps)
  then show ?case by (fastforce simp: bind_eq_Some_conv split: if_splits intro: same_frame_trans)
next
  case (21 env t p ps)
  then show ?case by (fastforce simp: bind_eq_Some_conv split: if_splits intro: same_frame_trans)
qed (auto simp: bind_eq_Some_conv split: if_splits
       dest: eval_aux0_frame eval_aux1_frame eval_in_func_frame with_env_frame)

section \<open>Laws of evaluation\<close>

text \<open>De Morgan, effects included: both sides stop at the same operand.\<close>

lemma eval_any_not: "eval_any env t (map TPNot ps) = (case eval_all env t ps of
    None \<Rightarrow> None | Some (b, env') \<Rightarrow> Some (\<not> b, env'))"
proof (induction ps arbitrary: env)
  case (Cons p ps)
  then show ?case by (cases "EvalState env t p") (auto split: option.splits if_splits)
qed simp

lemma not_and: "EvalState env t (TPNot (TPAnd ps)) = EvalState env t (TPOr (map TPNot ps))"
  by (auto simp: eval_any_not split: option.splits)

lemma first_stays_true:
  "EvalState env t (TPFirst n p) = Some (True, env') \<Longrightarrow> fired env' n"
  by (auto simp: bind_eq_Some_conv split: if_splits)

lemma plus_true:
  "EvalState env t e = Some (True, env) \<Longrightarrow> EvalState env t (plus_until_null e ts) = Some (True, env)"
  by (induction e ts rule: plus_until_null.induct) auto

lemma TEXPR_true: "EvalState env t (api_TEXPR ts) = Some (True, env)"
  unfolding api_TEXPR_def by (rule plus_true) simp

definition distinct_from :: "aux_env \<Rightarrow> tvref \<Rightarrow> bool" where
  "distinct_from env r = (case (tv_thread (vars env TID), tv_thread (vars env r)) of
     (Some c1, Some c2) \<Rightarrow> co_tid c1 \<noteq> co_tid c2 | _ \<Rightarrow> True)"

lemma minus_fold:
  "EvalState env t e = Some (b, env) \<Longrightarrow>
   EvalState env t (fold (\<lambda>t e. TEMinus e (Some t)) scope e)
     = Some (b \<and> (\<forall>r \<in> set scope. distinct_from env r), env)"
proof (induction scope arbitrary: e b)
  case (Cons r scope)
  have "EvalState env t (TEMinus e (Some r)) = Some (b \<and> distinct_from env r, env)"
    using Cons.prems by (simp add: with_env_def eval_vars_not_equal_def safe_notnull_def distinct_from_def)
  with Cons.IH [OF this] show ?case by simp
qed simp

lemma DISTINCT_sem:
  "EvalState env t (api_DISTINCT scope) = Some (\<forall>r \<in> set scope. distinct_from env r, env)"
  unfolding api_DISTINCT_def using minus_fold [of env t TEAny True scope] by simp

section \<open>Refinement: evaluation computes the meaning\<close>

definition lookup1 :: "aux_env \<Rightarrow> aux1name \<Rightarrow> tid \<Rightarrow> addr \<Rightarrow> int option" where
  "lookup1 env v d k = (case aux1 env v d of None \<Rightarrow> None | Some mm \<Rightarrow> mm_find mm k)"

definition sem_tid :: "aux_env \<Rightarrow> co \<Rightarrow> tvref option \<Rightarrow> tid" where
  "sem_tid env c tvar = (case tvar of None \<Rightarrow> co_tid c
     | Some r \<Rightarrow> (case tv_thread (vars env r) of None \<Rightarrow> -1 | Some c \<Rightarrow> co_tid c))"

definition bound_var :: "aux_env \<Rightarrow> tvref option \<Rightarrow> bool" where
  "bound_var env tvar = (case tvar of None \<Rightarrow> True | Some r \<Rightarrow> tv_thread (vars env r) \<noteq> None)"

definition sem_eq :: "aux_env \<Rightarrow> tvref option \<Rightarrow> tvref option \<Rightarrow> bool" where
  "sem_eq env t1 t2 = (case (Option.bind t1 (\<lambda>r. tv_thread (vars env r)), Option.bind t2 (\<lambda>r. tv_thread (vars env r))) of
     (Some c1, Some c2) \<Rightarrow> co_tid c1 = co_tid c2 | _ \<Rightarrow> True)"

definition sem_neq :: "aux_env \<Rightarrow> tvref option \<Rightarrow> tvref option \<Rightarrow> bool" where
  "sem_neq env t1 t2 = (case (Option.bind t1 (\<lambda>r. tv_thread (vars env r)), Option.bind t2 (\<lambda>r. tv_thread (vars env r))) of
     (Some c1, Some c2) \<Rightarrow> co_tid c1 \<noteq> co_tid c2 | _ \<Rightarrow> True)"

definition set_cell :: "int \<Rightarrow> aux_env \<Rightarrow> opnd option \<Rightarrow> bool" where
  "set_cell u env a = (case a of None \<Rightarrow> True | Some (OCell n) \<Rightarrow> cells env n \<noteq> u | Some (OVar v) \<Rightarrow> False)"

definition cell_of :: "aux_env \<Rightarrow> opnd \<Rightarrow> int" where
  "cell_of env a = (case a of OCell n \<Rightarrow> cells env n | OVar v \<Rightarrow> 0)"

text \<open>A settled predicate has no binding or firing left to do: operands are set cells, thread
  variables are bound, first-constraints have fired.\<close>

fun settled :: "aux_env \<Rightarrow> tpred \<Rightarrow> bool" where
  "settled env TPTrue = True"
| "settled env TPFalse = True"
| "settled env (TPNot p) = settled env p"
| "settled env (TPAnd ps) = list_all (settled env) ps"
| "settled env (TPOr ps) = list_all (settled env) ps"
| "settled env (TPAll p) = settled env p"
| "settled env (TPFirst n p) = fired env n"
| "settled env (TPAux0 v a tvar) = (set_cell (undef0 v) env a \<and> bound_var env tvar)"
| "settled env (TPAux1 v k x tvar) =
     (set_cell 0 env x \<and> bound_var env tvar \<and> (k = None \<longrightarrow> x = None) \<and>
      (case k of None \<Rightarrow> True | Some a \<Rightarrow> set_cell 0 env k \<and> (word_of_int (cell_of env a) :: addr) \<noteq> 0))"
| "settled env (TPInFunc a tvar) = (a \<noteq> 0 \<and> bound_var env tvar)"
| "settled env (TPEqual t1 t2) = (t1 \<noteq> None \<and> t2 \<noteq> None)"
| "settled env (TPNotEqual t1 t2) = (t1 \<noteq> None \<and> t2 \<noteq> None)"
| "settled env TEAny = True"
| "settled env (TEVar r) = (r \<noteq> None)"
| "settled env (TENeg r) = (r \<noteq> None)"
| "settled env (TEPlus e r) = (settled env e \<and> r \<noteq> None)"
| "settled env (TEMinus e r) = (settled env e \<and> r \<noteq> None)"

fun tp_sem :: "aux_env \<Rightarrow> co \<Rightarrow> tpred \<Rightarrow> bool" where
  "tp_sem env c TPTrue = True"
| "tp_sem env c TPFalse = False"
| "tp_sem env c (TPNot p) = (\<not> tp_sem env c p)"
| "tp_sem env c (TPAnd ps) = list_all (tp_sem env c) ps"
| "tp_sem env c (TPOr ps) = list_ex (tp_sem env c) ps"
| "tp_sem env c (TPAll p) = tp_sem env c p"
| "tp_sem env c (TPFirst n p) = True"
| "tp_sem env c (TPAux0 v a tvar) = (case a of
     None \<Rightarrow> aux0 env v (sem_tid env c tvar) \<noteq> None
   | Some a \<Rightarrow> aux0 env v (sem_tid env c tvar) = Some (cell_of env a))"
| "tp_sem env c (TPAux1 v k x tvar) = (case k of
     None \<Rightarrow> (\<exists>a. lookup1 env v (sem_tid env c tvar) a \<noteq> None)
   | Some k \<Rightarrow> (case x of
       None \<Rightarrow> lookup1 env v (sem_tid env c tvar) (word_of_int (cell_of env k)) \<noteq> None
     | Some x \<Rightarrow> lookup1 env v (sem_tid env c tvar) (word_of_int (cell_of env k)) = Some (cell_of env x)))"
| "tp_sem env c (TPInFunc a tvar) = (case lookup1 env InFunc (sem_tid env c tvar) a of
     None \<Rightarrow> False | Some x \<Rightarrow> x > 0)"
| "tp_sem env c (TPEqual t1 t2) = sem_eq env t1 t2"
| "tp_sem env c (TPNotEqual t1 t2) = sem_neq env t1 t2"
| "tp_sem env c TEAny = True"
| "tp_sem env c (TEVar r) = sem_eq env (Some TID) r"
| "tp_sem env c (TENeg r) = sem_neq env (Some TID) r"
| "tp_sem env c (TEPlus e r) = (tp_sem env c e \<or> sem_eq env (Some TID) r)"
| "tp_sem env c (TEMinus e r) = (tp_sem env c e \<and> sem_neq env (Some TID) r)"


lemma eval_tid_settled: "bound_var env tvar \<Longrightarrow> eval_tid env (Some c) tvar = Some (sem_tid env c tvar)"
  by (auto simp: eval_tid_def bound_var_def sem_tid_def safe_notnull_def split: option.splits)

lemma eval_aux0_settled:
  assumes "env_ok env" "set_cell (undef0 v) env a" "bound_var env tvar"
  shows "eval_aux0 env (Some c) v a tvar = Some (tp_sem env c (TPAux0 v a tvar), env)"
proof -
  have ok: "aux0_ok (undef0 v) (aux0 env v)" using assms(1) by (simp add: env_ok_def)
  show ?thesis
    using assms(2,3)
    by (cases "aux0 env v (sem_tid env c tvar)")
      (auto simp: eval_aux0_def eval_tid_settled aux0_isset_ok [OF ok] aux0_get_ok [OF ok]
        op_isset_def op_get_def const0_isset_def const0_get_def set_cell_def cell_of_def Let_def
        split: option.splits opnd.splits)
qed

lemma aux1_isset_lookup: "aux1_isset (aux1 env v) d \<longleftrightarrow> (\<exists>a. lookup1 env v d a \<noteq> None)"
proof (cases "aux1 env v d")
  case (Some mm)
  then show ?thesis by (cases mm) (auto simp: aux1_isset_def lookup1_def)
qed (simp add: aux1_isset_def lookup1_def)

lemma isset_key_lookup:
  assumes "env_ok env" "k \<noteq> 0"
  shows "aux1_isset_key 0 0 (aux1 env v) k d = Some (lookup1 env v d k \<noteq> None)"
    and "lookup1 env v d k = Some x \<Longrightarrow> aux1_get 0 0 (aux1 env v) k d = Some x"
    and "lookup1 env v d k = None \<Longrightarrow> aux1_get 0 0 (aux1 env v) k d = Some 0"
proof -
  have ok: "aux1_ok 0 0 (aux1 env v)" using assms by (simp add: env_ok_def)
  show "aux1_isset_key 0 0 (aux1 env v) k d = Some (lookup1 env v d k \<noteq> None)"
    using assms(2) by (auto simp: aux1_isset_key_ok [OF ok] aux1_get_ok [OF ok] lookup1_def
        split: option.splits dest!: aux1_inner_ok [OF ok] dest: mm_find_ok)
  show "lookup1 env v d k = Some x \<Longrightarrow> aux1_get 0 0 (aux1 env v) k d = Some x"
    "lookup1 env v d k = None \<Longrightarrow> aux1_get 0 0 (aux1 env v) k d = Some 0"
    using assms(2) by (auto simp: aux1_get_ok [OF ok] lookup1_def split: option.splits)
qed

lemma eval_aux1_settled:
  assumes "env_ok env" "settled env (TPAux1 v k x tvar)"
  shows "eval_aux1 env (Some c) v k x tvar = Some (tp_sem env c (TPAux1 v k x tvar), env)"
proof (cases k)
  case None
  with assms show ?thesis
    by (simp add: eval_aux1_def eval_tid_settled aux1_isset_lookup Let_def)
next
  case (Some a)
  then obtain n where a: "a = OCell n" using assms(2) by (auto simp: set_cell_def split: opnd.splits)
  have nz: "(word_of_int (cells env n) :: addr) \<noteq> 0" "cells env n \<noteq> 0"
    using assms(2) Some a by (auto simp: set_cell_def cell_of_def)
  have d: "eval_tid env (Some c) tvar = Some (sem_tid env c tvar)"
    using assms(2) by (simp add: eval_tid_settled)
  let ?k = "word_of_int (cells env n) :: addr"
  note look = isset_key_lookup [OF assms(1) nz(1), of v "sem_tid env c tvar"]
  show ?thesis
  proof (cases x)
    case None
    with Some a nz d look(1) show ?thesis
      by (simp add: eval_aux1_def Let_def op_isset_def op_get_def const0_isset_def const0_get_def cell_of_def)
  next
    case (Some y)
    then obtain n2 where y: "y = OCell n2" "cells env n2 \<noteq> 0"
      using assms(2) by (auto simp: set_cell_def split: opnd.splits)
    show ?thesis
      using \<open>k = Some a\<close> Some a y nz d look
      by (cases "lookup1 env v (sem_tid env c tvar) ?k")
        (auto simp: eval_aux1_def Let_def op_isset_def op_get_def const0_isset_def const0_get_def cell_of_def)
  qed
qed

lemma eval_settled:
  "env_ok env \<Longrightarrow> settled env p \<Longrightarrow> EvalState env (Some c) p = Some (tp_sem env c p, env)"
proof (induction p)
  case (TPAnd ps)
  have "list_all (settled env) ps \<Longrightarrow> (\<And>p. p \<in> set ps \<Longrightarrow> settled env p \<Longrightarrow>
      EvalState env (Some c) p = Some (tp_sem env c p, env)) \<Longrightarrow>
      eval_all env (Some c) ps = Some (list_all (tp_sem env c) ps, env)"
    by (induction ps) auto
  with TPAnd show ?case by simp
next
  case (TPOr ps)
  have "list_all (settled env) ps \<Longrightarrow> (\<And>p. p \<in> set ps \<Longrightarrow> settled env p \<Longrightarrow>
      EvalState env (Some c) p = Some (tp_sem env c p, env)) \<Longrightarrow>
      eval_any env (Some c) ps = Some (list_ex (tp_sem env c) ps, env)"
    by (induction ps) auto
  with TPOr show ?case by simp
next
  case (TPAux0 v a tvar)
  then show ?case using eval_aux0_settled [of env v a tvar c] by simp
next
  case (TPAux1 v k x tvar)
  then show ?case using eval_aux1_settled [of env v k x tvar c] by simp
next
  case (TPInFunc a tvar)
  then show ?case
    using isset_key_lookup(2,3) [of env a InFunc "sem_tid env c tvar"]
    by (cases "lookup1 env InFunc (sem_tid env c tvar) a")
      (auto simp: eval_in_func_def eval_tid_settled)
qed (auto simp: with_env_def eval_vars_equal_def eval_vars_not_equal_def safe_notnull_def
       sem_eq_def sem_neq_def split: option.splits)

text \<open>Binding is stable: once an atom held, it holds again and changes nothing.\<close>

lemma eval_aux0_stable:
  assumes "env_ok env" "eval_aux0 env t v (Some (OCell n)) tvar = Some (True, env')"
  shows "eval_aux0 env' t v (Some (OCell n)) tvar = Some (True, env')"
proof -
  have ok: "aux0_ok (undef0 v) (aux0 env v)" using assms(1) by (simp add: env_ok_def)
  from assms(2) obtain d where d: "t \<noteq> None" "eval_tid env t tvar = Some d"
    by (auto simp: eval_aux0_def Let_def abort_simps split: if_splits)
  from assms(2) d obtain x where x: "aux0 env v d = Some x"
    by (cases "aux0 env v d")
      (auto simp: eval_aux0_def Let_def aux0_isset_ok [OF ok] abort_simps split: if_splits)
  have xu: "x \<noteq> undef0 v" using ok x by (auto simp: aux0_ok_def ran_def)
  from assms(2) d x have env': "env' = env\<lparr>cells := (cells env)(n := x)\<rparr>"
    by (auto simp: eval_aux0_def aux0_isset_ok [OF ok] aux0_get_ok [OF ok] op_isset_def op_get_def op_set_def
        const0_isset_def const0_get_def const0_set_def Let_def abort_simps split: if_splits)
  have "eval_tid env' t tvar = Some d" using d env' by (auto simp: eval_tid_def split: option.splits)
  with d x xu env' show ?thesis
    by (simp add: eval_aux0_def aux0_isset_ok [OF ok] aux0_get_ok [OF ok] op_isset_def op_get_def
        const0_isset_def const0_get_def Let_def)
qed

section \<open>Properties\<close>

text \<open>C25: Evaluating a transition predicate implements its meaning: in a well-formed
  auxiliary state, when every constant of the predicate is set and every CONSTRAIN_FST operand is
  settled, EvalState returns the truth value of the predicate and leaves the state unchanged.\<close>

theorem EvalState_sem:
  "env_ok env \<Longrightarrow> settled env p \<Longrightarrow> EvalState env (Some c) p = Some (tp_sem env c p, env)"
  by (rule eval_settled(1))

theorem EvalState_sem_witness:
  "EvalState AuxState_Init (Some (Co 1 1)) (TPOr [TEVar (Some TID), TPAux0 Ends None None])
     = Some (tp_sem AuxState_Init (Co 1 1) (TPOr [TEVar (Some TID), TPAux0 Ends None None]), AuxState_Init)"
  by (rule EvalState_sem) (rule AuxState_Init_ok, simp add: AuxState_Init_def set_cell_def bound_var_def)

text \<open>C27: The negation of a conjunction evaluates like the disjunction of the negations,
  with the same short-circuit order and the same effects on the state.\<close>

theorem not_and_is_or_not: "EvalState env t (TPNot (TPAnd ps)) = EvalState env t (TPOr (map TPNot ps))"
  by (rule not_and)

text \<open>The thread expression built by TEXPR is true for every thread and every argument
  list, because it starts from the expression that holds for any thread and adds alternatives to
  it.\<close>

lemma TEXPR_always_true: "EvalState env t (api_TEXPR ts) = Some (True, env)"
  by (rule TEXPR_true)

text \<open>The predicate DISTINCT over a scope holds exactly when the current thread differs
  from the thread of every bound variable of the scope, and its evaluation has no effect.\<close>

lemma DISTINCT_excludes:
  "EvalState env t (api_DISTINCT scope) = Some (b, env') \<longleftrightarrow>
     env' = env \<and> (b \<longleftrightarrow> set scope \<subseteq> {r. distinct_from env r})"
  unfolding DISTINCT_sem by auto



end
