(* ===== verification/Exceptions.thy ===== *)
theory Exceptions
  imports Shared_Access
begin

text \<open>
  exception.h and exception.cpp.  An exception object is its identity (the address, which
  \<open>ConcurritException::contains\<close> compares) and its class with the fields of the class.  The
  \<open>next_\<close> chain of a \<open>ConcurritException\<close> is the list of its links, and the NULL pointer is the
  empty list.
\<close>

section \<open>Backtrack reasons\<close>

datatype BacktrackReason =
    SEARCH_ENDS | SUCCESS | SPEC_UNSATISFIED | THREADS_ALLENDED | TREENODE_COVERED
  | ASSUME_FAILS | TIMEOUT | EXCEPTION | PTH_EXIT | REPLAY_FAILS | UNKNOWN

fun reason_code :: "BacktrackReason \<Rightarrow> int" where
  "reason_code SEARCH_ENDS = 1"
| "reason_code SUCCESS = 2"
| "reason_code SPEC_UNSATISFIED = 3"
| "reason_code THREADS_ALLENDED = 4"
| "reason_code TREENODE_COVERED = 5"
| "reason_code ASSUME_FAILS = 6"
| "reason_code TIMEOUT = 7"
| "reason_code EXCEPTION = 8"
| "reason_code PTH_EXIT = 9"
| "reason_code REPLAY_FAILS = 10"
| "reason_code UNKNOWN = -1"

fun ReasonToString :: "BacktrackReason \<Rightarrow> string" where
  "ReasonToString SEARCH_ENDS = ''SEARCH_ENDS''"
| "ReasonToString SUCCESS = ''SUCCESS''"
| "ReasonToString SPEC_UNSATISFIED = ''SPEC_UNSATISFIED''"
| "ReasonToString THREADS_ALLENDED = ''THREADS_ALLENDED''"
| "ReasonToString TREENODE_COVERED = ''TREENODE_COVERED''"
| "ReasonToString ASSUME_FAILS = ''ASSUME_FAILS''"
| "ReasonToString TIMEOUT = ''TIMEOUT''"
| "ReasonToString EXCEPTION = ''EXCEPTION''"
| "ReasonToString PTH_EXIT = ''PTH_EXIT''"
| "ReasonToString REPLAY_FAILS = ''REPLAY_FAILS''"
| "ReasonToString UNKNOWN = ''UNKNOWN''"

section \<open>Exception objects\<close>

datatype exn = Exn (exn_addr: nat) (exn_body: exn_body)
and exn_body =
    BacktrackE BacktrackReason
  | AssumptionE string "src_loc option"
  | AssertionE string "src_loc option"
  | DeadlockE
  | InternalE string "src_loc option"
  | ConcurritE "conc_link list"
  | StdE string
and conc_link = ConcLink (cl_where: string) (cl_cause: exn) (cl_owner: "co option")

type_synonym conc = "conc_link list"

text \<open>The class hierarchy: an assumption violation is a \<open>BacktrackException\<close> with the reason
  \<open>ASSUME_FAILS\<close>, a deadlock is an \<open>AssertionViolationException\<close>.\<close>

definition as_backtrack :: "exn \<Rightarrow> BacktrackReason option" where
  "as_backtrack e = (case exn_body e of
     BacktrackE r \<Rightarrow> Some r | AssumptionE _ _ \<Rightarrow> Some ASSUME_FAILS | _ \<Rightarrow> None)"

definition is_backtrack :: "exn \<Rightarrow> bool" where
  "is_backtrack e \<longleftrightarrow> as_backtrack e \<noteq> None"

definition is_assertion_violation :: "exn \<Rightarrow> bool" where
  "is_assertion_violation e = (case exn_body e of
     AssertionE _ _ \<Rightarrow> True | DeadlockE \<Rightarrow> True | _ \<Rightarrow> False)"

definition is_internal :: "exn \<Rightarrow> bool" where
  "is_internal e = (case exn_body e of InternalE _ _ \<Rightarrow> True | _ \<Rightarrow> False)"

definition AssertionViolationException :: "nat \<Rightarrow> string option \<Rightarrow> src_loc option \<Rightarrow> exn" where
  "AssertionViolationException a cond loc =
     Exn a (AssertionE (case cond of None \<Rightarrow> ''Unknown'' | Some c \<Rightarrow> c) loc)"

definition AssumptionViolationException :: "nat \<Rightarrow> string option \<Rightarrow> src_loc option \<Rightarrow> exn" where
  "AssumptionViolationException a cond loc =
     Exn a (AssumptionE (case cond of None \<Rightarrow> ''Unknown'' | Some c \<Rightarrow> c) loc)"

definition nl :: string where
  "nl = [newline]"

fun exn_what :: "exn \<Rightarrow> string"
and body_what :: "exn_body \<Rightarrow> string"
and conc_what :: "conc_link list \<Rightarrow> string"
and cause_what :: "conc_link \<Rightarrow> string" where
  "exn_what (Exn a b) = body_what b"
| "body_what (BacktrackE r) = ''Backtrack due to '' @ ReasonToString r"
| "body_what (AssumptionE cond loc) = format_string
     (''Assumption violated: '' @ cond @ nl @ ''Source location: '' @ SourceLocation_str loc @ nl)"
| "body_what (AssertionE cond loc) = format_string
     (''Assertion violated: '' @ cond @ nl @ ''Source location: '' @ SourceLocation_str loc @ nl)"
| "body_what DeadlockE = format_string
     (''Assertion violated: '' @ ''DEADLOCK'' @ nl @ ''Source location: '' @ SourceLocation_str None @ nl)"
| "body_what (InternalE msg loc) = format_string
     (''Internal exception: '' @ msg @ nl @ ''Source location: '' @ SourceLocation_str loc @ nl)"
| "body_what (ConcurritE c) = conc_what c"
| "body_what (StdE s) = s"
| "conc_what [] = ''''"
| "conc_what (l # ls) = format_string
     (''Exception in: '' @ cl_where l @ nl @ ''Cause: '' @ cause_what l @ nl @ conc_what ls)"
| "cause_what (ConcLink w e co) = exn_what e"

definition ConcurritException :: "exn \<Rightarrow> co option \<Rightarrow> string \<Rightarrow> conc \<Rightarrow> conc" where
  "ConcurritException e owner wh nxt = ConcLink wh e owner # nxt"

section \<open>The chain\<close>

fun conc_contains :: "conc \<Rightarrow> exn \<Rightarrow> bool" where
  "conc_contains [] e = False"
| "conc_contains (l # ls) e = (if exn_addr (cl_cause l) = exn_addr e then True else conc_contains ls e)"

fun find_cause :: "(exn \<Rightarrow> bool) \<Rightarrow> conc \<Rightarrow> exn option" where
  "find_cause P [] = None"
| "find_cause P (l # ls) = (if P (cl_cause l) then Some (cl_cause l) else find_cause P ls)"

definition get_backtrack :: "conc \<Rightarrow> exn option" where
  "get_backtrack c = find_cause is_backtrack c"

definition get_assertion_violation :: "conc \<Rightarrow> exn option" where
  "get_assertion_violation c = find_cause is_assertion_violation c"

definition get_internal :: "conc \<Rightarrow> exn option" where
  "get_internal c = find_cause is_internal c"

definition get_non_backtrack :: "conc \<Rightarrow> exn option" where
  "get_non_backtrack c = find_cause (\<lambda>e. \<not> is_backtrack e) c"

text \<open>The objects the destructor deletes: the backtrack causes along the chain.\<close>

fun conc_deletes :: "conc \<Rightarrow> nat list" where
  "conc_deletes [] = []"
| "conc_deletes (l # ls) =
     (if is_backtrack (cl_cause l) then [exn_addr (cl_cause l)] else []) @ conc_deletes ls"

section \<open>Raising\<close>

definition TRIGGER_BACKTRACK :: "nat \<Rightarrow> nat \<Rightarrow> BacktrackReason \<Rightarrow> bool \<Rightarrow> exn" where
  "TRIGGER_BACKTRACK a a2 reason wrap = (let e = Exn a (BacktrackE reason) in
     if wrap then Exn a2 (ConcurritE (ConcurritException e None '''' [])) else e)"

definition TRIGGER_TERMINATE_SEARCH :: "nat \<Rightarrow> exn" where
  "TRIGGER_TERMINATE_SEARCH a = TRIGGER_BACKTRACK a 0 SEARCH_ENDS False"

definition TRIGGER_ASSERTION_VIOLATION :: "nat \<Rightarrow> string \<Rightarrow> string \<Rightarrow> string \<Rightarrow> int \<Rightarrow> exn" where
  "TRIGGER_ASSERTION_VIOLATION a expr filename funcname line =
     AssertionViolationException a (Some expr) (Some (SourceLocation (Some filename) (Some funcname) line 0 (Some '''')))"

definition TRIGGER_DEADLOCK :: "nat \<Rightarrow> exn" where
  "TRIGGER_DEADLOCK a = Exn a DeadlockE"

definition TRIGGER_INTERNAL_EXCEPTION :: "nat \<Rightarrow> string \<Rightarrow> src_loc \<Rightarrow> exn" where
  "TRIGGER_INTERNAL_EXCEPTION a msg here = Exn a (InternalE msg (Some here))"

section \<open>What the functions guarantee\<close>

lemma reason_code_inj: "reason_code r = reason_code s \<longleftrightarrow> r = s"
  by (cases r; cases s) auto

lemma ReasonToString_inj: "ReasonToString r = ReasonToString s \<longleftrightarrow> r = s"
  by (cases r; cases s) auto

lemma conc_contains_iff: "conc_contains c e \<longleftrightarrow> exn_addr e \<in> (exn_addr \<circ> cl_cause) ` set c"
  by (induction c) auto

lemma find_cause_None: "find_cause P c = None \<longleftrightarrow> (\<forall>l \<in> set c. \<not> P (cl_cause l))"
  by (induction c) auto

lemma find_cause_Some:
  "find_cause P c = Some e \<Longrightarrow> P e \<and> e \<in> cl_cause ` set c"
  by (induction c) (auto split: if_splits)

lemma find_cause_first:
  "find_cause P c = Some e \<longleftrightarrow>
     (\<exists>as l bs. c = as @ l # bs \<and> cl_cause l = e \<and> P e \<and> (\<forall>a \<in> set as. \<not> P (cl_cause a)))"
proof (induction c)
  case (Cons x c)
  show ?case
  proof (cases "P (cl_cause x)")
    case True
    then show ?thesis
      by (auto simp: Cons_eq_append_conv intro: exI [of _ "[]"])
  next
    case False
    then show ?thesis using Cons.IH
      by (auto simp: Cons_eq_append_conv) (metis set_ConsD append_Cons)+
  qed
qed simp

lemma chain_classified:
  "c \<noteq> [] \<Longrightarrow> get_backtrack c \<noteq> None \<or> get_non_backtrack c \<noteq> None"
  by (cases c) (auto simp: get_backtrack_def get_non_backtrack_def)

lemma assertion_violation_not_backtrack: "is_assertion_violation e \<Longrightarrow> \<not> is_backtrack e"
  by (cases "exn_body e") (auto simp: is_assertion_violation_def is_backtrack_def as_backtrack_def)

lemma get_assertion_violation_non_backtrack:
  "get_assertion_violation c \<noteq> None \<Longrightarrow> get_non_backtrack c \<noteq> None"
  unfolding get_assertion_violation_def get_non_backtrack_def
  by (metis find_cause_None assertion_violation_not_backtrack)

lemma conc_deletes_backtrack:
  "a \<in> set (conc_deletes c) \<longleftrightarrow> (\<exists>l \<in> set c. is_backtrack (cl_cause l) \<and> exn_addr (cl_cause l) = a)"
  by (induction c) auto

section \<open>Properties\<close>

text \<open>get_non_backtrack returns the first cause of the chain that is not a backtrack
  exception, and NULL exactly when there is none.\<close>

lemma get_non_backtrack_first:
  "get_non_backtrack c = Some e \<longleftrightarrow>
     (\<exists>as l bs. c = as @ l # bs \<and> cl_cause l = e \<and> \<not> is_backtrack e
        \<and> set as \<subseteq> {a. is_backtrack (cl_cause a)})"
  unfolding get_non_backtrack_def find_cause_first by (auto simp: subset_iff)

end
