(* ===== verification/Exec_Tree.thy ===== *)
theory Exec_Tree
  imports Trans_Pred Exceptions
begin

text \<open>
  The execution tree of dsl.h and dsl.cpp: the node classes, and the operations of
  \<open>ExecutionTree\<close>, its subclasses and \<open>ChildLoc\<close>.

  Nodes live in a heap from references to node records, because the code shares them: a node is
  reached from its parent's child array, from the node stack and from its children's \<open>parent_\<close>
  field, and the end node is a child of many nodes.  A dangling reference is a reference that is
  not in the heap, and its use stops the run.  The three nodes that the manager embeds have fixed
  references.  The virtual methods dispatch on the node kind.
\<close>

section \<open>Nodes\<close>

type_synonym noderef = nat

definition ROOTNODE :: noderef where "ROOTNODE = 0"
definition LOCKNODE :: noderef where "LOCKNODE = 1"
definition ENDNODE :: noderef where "ENDNODE = 2"

text \<open>\<open>StaticDSLInfo\<close>; the choice part is that of \<open>StaticChoiceInfo\<close>: \<open>nondet_\<close> and \<open>covered_[2]\<close>.\<close>

record static_info =
  si_message :: string
  si_choice :: "(bool \<times> bool \<times> bool) option"

text \<open>The fields of \<open>SelectThreadNode\<close>.\<close>

record select_thread =
  st_pred :: "tpred option"
  st_scope :: "tvset option"
  st_scope_size :: nat
  st_lvar :: tvref

datatype node_kind =
    KRoot
  | KLock
  | KEnd
  | KChoice
  | KConditional bool
  | KExists select_thread tvset
  | KForall select_thread "(tvref \<times> nat) list" "tvref list"
  | KRunThrough "tpred option" "tvref option"
  | KRunUntil "tpred option" "tvref option"

record node =
  n_info :: nat
  n_parent :: "noderef option"
  n_children :: "noderef option list"
  n_covered :: bool
  n_kind :: node_kind

record tree_state =
  heap :: "noderef \<Rightarrow> node option"
  next_ref :: nat
  sinfo :: "nat \<Rightarrow> static_info"
  stat_log :: "(string \<times> int) list"
    \<comment> \<open>increments of the scenario's counters, latest first\<close>

definition is_end_kind :: "node_kind \<Rightarrow> bool" where
  "is_end_kind k \<longleftrightarrow> k = KEnd"

definition is_transition :: "node_kind \<Rightarrow> bool" where
  "is_transition k = (case k of KRunThrough _ _ \<Rightarrow> True | KRunUntil _ _ \<Rightarrow> True | _ \<Rightarrow> False)"

definition is_select_thread :: "node_kind \<Rightarrow> bool" where
  "is_select_thread k = (case k of KExists _ _ \<Rightarrow> True | KForall _ _ _ \<Rightarrow> True | _ \<Rightarrow> False)"

definition is_selection :: "node_kind \<Rightarrow> bool" where
  "is_selection k \<longleftrightarrow> k = KChoice \<or> is_select_thread k"

definition upd_node :: "noderef \<Rightarrow> (node \<Rightarrow> node) \<Rightarrow> 'a tree_state_scheme \<Rightarrow> 'a tree_state_scheme" where
  "upd_node r f t = t\<lparr>heap := (heap t)(r := map_option f (heap t r))\<rparr>"

definition bump :: "string \<Rightarrow> int \<Rightarrow> 'a tree_state_scheme \<Rightarrow> 'a tree_state_scheme" where
  "bump nm k t = t\<lparr>stat_log := (nm, k) # stat_log t\<rparr>"

section \<open>Static choice information\<close>

definition sc_is_covered :: "'a tree_state_scheme \<Rightarrow> nat \<Rightarrow> int \<Rightarrow> bool option" where
  "sc_is_covered t s i = do {
     safe_assert (i = 0 \<or> i = 1);
     (nd, c0, c1) \<leftarrow> safe_notnull (si_choice (sinfo t s));
     Some (if i = 0 then c0 else c1) }"

definition sc_set_covered :: "'a tree_state_scheme \<Rightarrow> nat \<Rightarrow> int \<Rightarrow> bool \<Rightarrow> 'a tree_state_scheme option" where
  "sc_set_covered t s i c = do {
     safe_assert (i = 0 \<or> i = 1);
     (nd, c0, c1) \<leftarrow> safe_notnull (si_choice (sinfo t s));
     Some (t\<lparr>sinfo := (sinfo t)(s := (sinfo t s)\<lparr>si_choice :=
        Some (nd, (if i = 0 then c else c0), (if i = 1 then c else c1))\<rparr>)\<rparr>) }"

definition sc_nondet :: "'a tree_state_scheme \<Rightarrow> nat \<Rightarrow> bool option" where
  "sc_nondet t s = do { (nd, c0, c1) \<leftarrow> safe_notnull (si_choice (sinfo t s)); Some nd }"

section \<open>Construction and the child array\<close>

definition InitChildren :: "noderef \<Rightarrow> nat \<Rightarrow> 'a tree_state_scheme \<Rightarrow> 'a tree_state_scheme" where
  "InitChildren r n t = upd_node r (\<lambda>nd. nd\<lparr>n_children := replicate n None\<rparr>) t"

text \<open>The number of children each constructor passes to \<open>ExecutionTree\<close>.\<close>

fun num_children :: "node_kind \<Rightarrow> nat" where
  "num_children KRoot = 1"
| "num_children KLock = 0"
| "num_children KEnd = 1"
| "num_children KChoice = 2"
| "num_children (KConditional b) = 1"
| "num_children (KExists s cv) = 1"
| "num_children (KForall s m l) = 0"
| "num_children (KRunThrough p v) = 1"
| "num_children (KRunUntil p v) = 1"

definition mk_node :: "nat \<Rightarrow> node_kind \<Rightarrow> node" where
  "mk_node s k = \<lparr>n_info = s, n_parent = None, n_children = replicate (num_children k) None,
     n_covered = False, n_kind = k\<rparr>"

definition new_node :: "nat \<Rightarrow> node_kind \<Rightarrow> 'a tree_state_scheme \<Rightarrow> noderef \<times> 'a tree_state_scheme" where
  "new_node s k t = (next_ref t,
     bump ''Num execution-tree nodes'' 1
       (t\<lparr>heap := (heap t)(next_ref t \<mapsto> mk_node s k), next_ref := Suc (next_ref t)\<rparr>))"

definition ContainsChild :: "'a tree_state_scheme \<Rightarrow> noderef \<Rightarrow> noderef \<Rightarrow> bool option" where
  "ContainsChild t r c = do { nd \<leftarrow> heap t r; Some (Some c \<in> set (n_children nd)) }"

definition check_index :: "node \<Rightarrow> int \<Rightarrow> bool" where
  "check_index nd i = BETWEEN 0 i (int (length (n_children nd)) - 1)"

definition child :: "'a tree_state_scheme \<Rightarrow> noderef \<Rightarrow> int \<Rightarrow> noderef option option" where
  "child t r i = do {
     nd \<leftarrow> heap t r;
     safe_assert (0 \<le> i);
     Some (if i \<ge> int (length (n_children nd)) then None else n_children nd ! nat i) }"

fun index_from :: "noderef option list \<Rightarrow> noderef option \<Rightarrow> int \<Rightarrow> int" where
  "index_from [] c i = -1"
| "index_from (x # xs) c i = (if x = c then i else index_from xs c (i + 1))"

definition index_of :: "'a tree_state_scheme \<Rightarrow> noderef \<Rightarrow> noderef option \<Rightarrow> int option" where
  "index_of t r c = do { nd \<leftarrow> heap t r; Some (index_from (n_children nd) c 0) }"

definition add_child :: "'a tree_state_scheme \<Rightarrow> noderef \<Rightarrow> noderef \<Rightarrow> 'a tree_state_scheme option" where
  "add_child t r c = do {
     b \<leftarrow> ContainsChild t r c;
     Some (if b then t else upd_node r (\<lambda>nd. nd\<lparr>n_children := n_children nd @ [Some c]\<rparr>) t) }"

definition set_child ::
  "'a tree_state_scheme \<Rightarrow> noderef \<Rightarrow> noderef option \<Rightarrow> int \<Rightarrow> 'a tree_state_scheme option" where
  "set_child t r c i = do {
     nd \<leftarrow> heap t r;
     safe_assert (check_index nd i);
     Some (upd_node r (\<lambda>nd. nd\<lparr>n_children := (n_children nd)[nat i := c]\<rparr>) t) }"

definition get_child :: "'a tree_state_scheme \<Rightarrow> noderef \<Rightarrow> int \<Rightarrow> noderef option option" where
  "get_child t r i = do {
     nd \<leftarrow> heap t r;
     safe_assert (check_index nd i);
     Some (n_children nd ! nat i) }"

definition set_parent :: "'a tree_state_scheme \<Rightarrow> noderef \<Rightarrow> noderef option \<Rightarrow> 'a tree_state_scheme option" where
  "set_parent t r p = do { nd \<leftarrow> heap t r; Some (upd_node r (\<lambda>nd. nd\<lparr>n_parent := p\<rparr>) t) }"

definition set_covered :: "'a tree_state_scheme \<Rightarrow> noderef \<Rightarrow> bool \<Rightarrow> 'a tree_state_scheme option" where
  "set_covered t r c = do { nd \<leftarrow> heap t r; Some (upd_node r (\<lambda>nd. nd\<lparr>n_covered := c\<rparr>) t) }"

definition covered :: "'a tree_state_scheme \<Rightarrow> noderef \<Rightarrow> bool option" where
  "covered t r = do { nd \<leftarrow> heap t r; Some (n_covered nd) }"

text \<open>\<open>IS_ENDNODE\<close>: the class test on a non-NULL node, with its assertion.\<close>

definition IS_ENDNODE :: "'a tree_state_scheme \<Rightarrow> noderef option \<Rightarrow> bool option" where
  "IS_ENDNODE t r = (case r of
     None \<Rightarrow> Some False
   | Some x \<Rightarrow> do {
       nd \<leftarrow> heap t x;
       safe_assert (\<not> is_end_kind (n_kind nd) \<or> x = ENDNODE);
       Some (is_end_kind (n_kind nd)) })"

section \<open>Coverage\<close>

definition base_child_covered :: "'a tree_state_scheme \<Rightarrow> noderef \<Rightarrow> int \<Rightarrow> bool option" where
  "base_child_covered t r i = do {
     nd \<leftarrow> heap t r;
     safe_assert (check_index nd i);
     c \<leftarrow> child t r i;
     (case c of None \<Rightarrow> Some False | Some x \<Rightarrow> covered t x) }"

definition child_covered :: "'a tree_state_scheme \<Rightarrow> noderef \<Rightarrow> int \<Rightarrow> bool option" where
  "child_covered t r i = do {
     nd \<leftarrow> heap t r;
     (case n_kind nd of
        KChoice \<Rightarrow> do {
          safe_assert (i = 0 \<or> i = 1);
          b \<leftarrow> base_child_covered t r i;
          if b then Some True else sc_is_covered t (n_info nd) i }
      | _ \<Rightarrow> base_child_covered t r i) }"

fun all_children_covered :: "'a tree_state_scheme \<Rightarrow> noderef option list \<Rightarrow> bool option" where
  "all_children_covered t [] = Some True"
| "all_children_covered t (None # cs) = Some False"
| "all_children_covered t (Some c # cs) = do {
     b \<leftarrow> covered t c;
     if b then all_children_covered t cs else Some False }"

text \<open>The coverage of one node from its immediate children, as the three classes compute it.
  \<open>nm\<close> is the number of members of the thread group.\<close>

definition base_coverage :: "'a tree_state_scheme \<Rightarrow> noderef \<Rightarrow> (bool \<times> 'a tree_state_scheme) option" where
  "base_coverage t r = do {
     nd \<leftarrow> heap t r;
     cov \<leftarrow> (if n_covered nd then Some True else all_children_covered t (n_children nd));
     t' \<leftarrow> set_covered t r cov;
     Some (cov, t') }"

definition both_covered :: "'a tree_state_scheme \<Rightarrow> noderef \<Rightarrow> bool option" where
  "both_covered t r = do {
     c0 \<leftarrow> child_covered t r 0;
     if c0 then child_covered t r 1 else Some False }"

definition choice_coverage :: "'a tree_state_scheme \<Rightarrow> noderef \<Rightarrow> (bool \<times> 'a tree_state_scheme) option" where
  "choice_coverage t r = do {
     nd \<leftarrow> heap t r;
     cov \<leftarrow> (if n_covered nd then Some True else both_covered t r);
     t' \<leftarrow> set_covered t r cov;
     both \<leftarrow> both_covered t' r;
     safe_assert (\<not> cov \<or> both);
     safe_assert (cov \<or> \<not> both);
     Some (cov, t') }"

definition forall_coverage ::
  "nat \<Rightarrow> select_thread \<Rightarrow> 'a tree_state_scheme \<Rightarrow> noderef \<Rightarrow> (bool \<times> 'a tree_state_scheme) option" where
  "forall_coverage nm s t r = do {
     nd \<leftarrow> heap t r;
     if n_covered nd then Some (True, t)
     else (let sz = (if st_scope_size s = 0 then nm else st_scope_size s) in
           if length (n_children nd) = sz then base_coverage t r
           else do { t' \<leftarrow> set_covered t r False; Some (False, t') }) }"

definition ComputeCoverage ::
  "nat \<Rightarrow> 'a tree_state_scheme \<Rightarrow> noderef \<Rightarrow> (bool \<times> 'a tree_state_scheme) option" where
  "ComputeCoverage nm t r = do {
     nd \<leftarrow> heap t r;
     (case n_kind nd of
        KChoice \<Rightarrow> choice_coverage t r
      | KForall s m l \<Rightarrow> forall_coverage nm s t r
      | _ \<Rightarrow> base_coverage t r) }"

text \<open>With \<open>call_parent\<close> the coverage is passed on to the ancestors; \<open>None\<close> also stands for a
  parent chain that never ends.\<close>

partial_function (option) ComputeCoverage_up ::
  "nat \<Rightarrow> 'a tree_state_scheme \<Rightarrow> noderef \<Rightarrow> (bool \<times> 'a tree_state_scheme) option" where
  [code]: "ComputeCoverage_up nm t r =
     Option.bind (heap t r) (\<lambda>nd.
     Option.bind (ComputeCoverage nm t r) (\<lambda>(cov, t').
       if cov then
         (case n_parent nd of
            None \<Rightarrow> Some (True, t')
          | Some p \<Rightarrow> Option.bind (ComputeCoverage_up nm t' p) (\<lambda>(_, t''). Some (True, t'')))
       else Some (False, t')))"

section \<open>Destruction\<close>

text \<open>\<open>delete\<close> on a list of subtrees.  A node is freed together with its children, except
  children that are end nodes.\<close>

partial_function (option) delete_list :: "noderef option list \<Rightarrow> 'a tree_state_scheme \<Rightarrow> 'a tree_state_scheme option" where
  [code]: "delete_list rs t = (case rs of
     [] \<Rightarrow> Some t
   | None # rs' \<Rightarrow> delete_list rs' t
   | Some r # rs' \<Rightarrow> Option.bind (heap t r) (\<lambda>nd.
       if is_end_kind (n_kind nd) then delete_list rs' t
       else delete_list (n_children nd @ rs') (t\<lparr>heap := (heap t)(r := None)\<rparr>)))"

definition delete_node :: "noderef \<Rightarrow> 'a tree_state_scheme \<Rightarrow> 'a tree_state_scheme option" where
  "delete_node r t = do {
     nd \<leftarrow> heap t r;
     safe_assert (\<not> is_end_kind (n_kind nd));
     delete_list [Some r] t }"

section \<open>Child locations\<close>

record child_loc =
  cl_parent :: "noderef option"
  cl_index :: int

definition Loc :: "noderef option \<Rightarrow> int \<Rightarrow> child_loc" where
  "Loc p i = \<lparr>cl_parent = p, cl_index = i\<rparr>"

definition EMPTY_LOC :: child_loc where
  "EMPTY_LOC = Loc None (-1)"

definition loc_empty :: "child_loc \<Rightarrow> bool" where
  "loc_empty l \<longleftrightarrow> cl_parent l = None \<or> cl_index l < 0"

definition loc_set :: "'a tree_state_scheme \<Rightarrow> child_loc \<Rightarrow> noderef option \<Rightarrow> 'a tree_state_scheme option" where
  "loc_set t l c = do {
     safe_assert (\<not> loc_empty l);
     p \<leftarrow> cl_parent l;
     t' \<leftarrow> set_child t p c (cl_index l);
     (case c of None \<Rightarrow> Some t' | Some x \<Rightarrow> set_parent t' x (Some p)) }"

definition loc_get :: "'a tree_state_scheme \<Rightarrow> child_loc \<Rightarrow> noderef option option" where
  "loc_get t l = do {
     safe_assert (\<not> loc_empty l);
     p \<leftarrow> cl_parent l;
     get_child t p (cl_index l) }"

definition loc_check :: "'a tree_state_scheme \<Rightarrow> child_loc \<Rightarrow> noderef option \<Rightarrow> bool option" where
  "loc_check t l c = do {
     p \<leftarrow> safe_notnull (cl_parent l);
     x \<leftarrow> get_child t p (cl_index l);
     (case c of
        None \<Rightarrow> Some (x = None)
      | Some r \<Rightarrow> if x = Some r then do { nd \<leftarrow> heap t r; Some (n_parent nd = Some p) } else Some False) }"

definition loc_exchange ::
  "'a tree_state_scheme \<Rightarrow> child_loc \<Rightarrow> noderef option \<Rightarrow> (noderef option \<times> 'a tree_state_scheme) option" where
  "loc_exchange t l c = do { old \<leftarrow> loc_get t l; t' \<leftarrow> loc_set t l c; Some (old, t') }"

text \<open>\<open>operator ==\<close> on locations is the equality of the record.\<close>

section \<open>Events on a node\<close>

text \<open>\<open>OnConsumed\<close> and \<open>OnTaken\<close>; the thread variables are passed and returned.\<close>

definition base_OnConsumed :: "'a tree_state_scheme \<Rightarrow> noderef \<Rightarrow> int \<Rightarrow> unit option" where
  "base_OnConsumed t r i = do {
     nd \<leftarrow> heap t r;
     safe_assert (check_index nd i) }"

definition node_var :: "node_kind \<Rightarrow> tvref option" where
  "node_var k = (case k of KRunThrough p v \<Rightarrow> v | KRunUntil p v \<Rightarrow> v | _ \<Rightarrow> None)"

definition OnConsumed :: "'a tree_state_scheme \<Rightarrow> tvstore \<Rightarrow> noderef \<Rightarrow> co \<Rightarrow> int \<Rightarrow> tvstore option" where
  "OnConsumed t vs r c i = do {
     nd \<leftarrow> heap t r;
     base_OnConsumed t r i;
     (case n_kind nd of
        KExists s cv \<Rightarrow> do { safe_assert (tv_thread (vs (st_lvar s)) = Some c); Some vs }
      | KForall s m l \<Rightarrow> do { safe_assert (tv_thread (vs (st_lvar s)) = Some c); Some vs }
      | KRunThrough p v \<Rightarrow> Some (case v of None \<Rightarrow> vs | Some x \<Rightarrow> set_thread vs x (Some c))
      | KRunUntil p v \<Rightarrow> Some (case v of None \<Rightarrow> vs | Some x \<Rightarrow> set_thread vs x (Some c))
      | _ \<Rightarrow> Some vs) }"

definition OnTaken ::
  "'a tree_state_scheme \<Rightarrow> tvstore \<Rightarrow> noderef \<Rightarrow> co \<Rightarrow> int \<Rightarrow> (tvstore \<times> 'a tree_state_scheme) option" where
  "OnTaken t vs r c i = do {
     nd \<leftarrow> heap t r;
     safe_assert (is_transition (n_kind nd));
     safe_assert (check_index nd i);
     let vs' = (case node_var (n_kind nd) of None \<Rightarrow> vs | Some x \<Rightarrow> set_thread vs x (Some c));
     Some (vs', bump ''Num Events'' 1 t) }"

end
