(* ===== verification/Tree_Manager.thy ===== *)
theory Tree_Manager
  imports Exec_Tree
begin

text \<open>
  \<open>ExecutionTreeManager\<close> of dsl.h and dsl.cpp: the node stack and its index, the atomic reference
  with its lock and end nodes, and the operations that extend the current path, end it and
  backtrack.

  An operation that can throw or wait returns an outcome: a value, a thrown exception, or that the
  calling thread waits forever.  While a thread waits, the other threads may change the manager;
  what they do is the argument \<open>es\<close>, the list of their changes, one for each time the waiting
  thread looks at the reference and cannot go on.  When the list is used up nothing more happens,
  and a timed wait ends by its timeout.
\<close>

section \<open>Configuration and state\<close>

record config =
  DeleteCoveredSubtrees :: bool
  KeepExecutionTree :: bool
  MarkEndingBranchesCovered :: bool

definition default_config :: config where
  "default_config = \<lparr>DeleteCoveredSubtrees = True, KeepExecutionTree = False,
     MarkEndingBranchesCovered = True\<rparr>"

record mgr = tree_state +
  node_stack :: "child_loc list"
  stack_index :: nat
  atomic_ref :: "noderef option"
  sem_ref :: nat
  lock_owner :: "co option"
  end_exception :: conc

datatype 'a outcome = Returns 'a | Throws exn | Blocked

definition throw_backtrack :: "BacktrackReason \<Rightarrow> mgr \<Rightarrow> 'a outcome \<times> mgr" where
  "throw_backtrack reason m =
     (Throws (Exn (next_ref m) (BacktrackE reason)), m\<lparr>next_ref := Suc (next_ref m)\<rparr>)"

definition and_then ::
  "('a outcome \<times> mgr) option \<Rightarrow> ('a \<Rightarrow> mgr \<Rightarrow> ('b outcome \<times> mgr) option) \<Rightarrow> ('b outcome \<times> mgr) option" where
  "and_then r f = (case r of
     None \<Rightarrow> None
   | Some (Returns x, m) \<Rightarrow> f x m
   | Some (Throws e, m) \<Rightarrow> Some (Throws e, m)
   | Some (Blocked, m) \<Rightarrow> Some (Blocked, m))"

text \<open>The mark on a manager for \<open>IS_LOCKNODE\<close>, \<open>IS_EMPTY\<close> and \<open>IS_FULL\<close>.\<close>

definition IS_EMPTY :: "noderef option \<Rightarrow> bool" where
  "IS_EMPTY n \<longleftrightarrow> n = None"

definition IS_LOCKNODE :: "noderef option \<Rightarrow> bool" where
  "IS_LOCKNODE n \<longleftrightarrow> n = Some LOCKNODE"

definition IS_FULL :: "mgr \<Rightarrow> noderef option \<Rightarrow> bool option" where
  "IS_FULL m n = do { e \<leftarrow> IS_ENDNODE m n; Some (\<not> IS_EMPTY n \<and> \<not> IS_LOCKNODE n \<and> \<not> e) }"

section \<open>The node stack\<close>

definition AddToNodeStack :: "child_loc \<Rightarrow> mgr \<Rightarrow> mgr option" where
  "AddToNodeStack current m = do {
     safe_assert (\<not> loc_empty current);
     let sz = length (node_stack m);
     e \<leftarrow> IS_ENDNODE m (cl_parent current);
     safe_check (\<not> e \<or> stack_index m = sz);
     (if stack_index m = sz
      then Some (m\<lparr>node_stack := node_stack m @ [current], stack_index := stack_index m + 1\<rparr>)
      else do {
        safe_check (stack_index m < sz \<and> node_stack m ! stack_index m = current);
        Some (m\<lparr>stack_index := stack_index m + 1\<rparr>) }) }"

definition GetNextNodeInStack :: "mgr \<Rightarrow> child_loc option" where
  "GetNextNodeInStack m = do {
     safe_assert (stack_index m \<le> length (node_stack m));
     (if stack_index m < length (node_stack m)
      then (let l = node_stack m ! stack_index m in do { safe_assert (\<not> loc_empty l); Some l })
      else do {
        safe_check (node_stack m \<noteq> []);
        c \<leftarrow> loc_get m (last (node_stack m));
        Some (Loc c (-1)) }) }"

definition GetLastNodeInStack :: "mgr \<Rightarrow> child_loc option" where
  "GetLastNodeInStack m = do {
     safe_assert (BETWEEN 0 (int (stack_index m) - 1) (int (length (node_stack m)) - 1));
     let l = node_stack m ! (stack_index m - 1);
     safe_assert (\<not> loc_empty l);
     Some l }"

definition TruncateNodeStack :: "nat \<Rightarrow> mgr \<Rightarrow> mgr option" where
  "TruncateNodeStack index m = do {
     safe_assert (index \<le> length (node_stack m));
     Some (m\<lparr>node_stack := take index (node_stack m), stack_index := index\<rparr>) }"

definition AddToPath :: "noderef \<Rightarrow> int \<Rightarrow> mgr \<Rightarrow> mgr option" where
  "AddToPath r child_index m = do {
     safe_assert (child_index \<ge> 0);
     loc \<leftarrow> GetLastNodeInStack m;
     is_end \<leftarrow> IS_ENDNODE m (Some r);
     (loc2, m2) \<leftarrow>
       (if is_end then do {
          last_node \<leftarrow> loc_get m loc;
          let sz = length (node_stack m);
          safe_assert (last_node \<noteq> None \<or> stack_index m = sz);
          (case last_node of
             None \<Rightarrow> Some (loc, m)
           | Some ln \<Rightarrow> do {
               safe_assert (stack_index m \<le> sz);
               (loc1, last1, m1) \<leftarrow>
                 (if stack_index m < sz then do {
                    m' \<leftarrow> TruncateNodeStack (stack_index m + 1) m;
                    safe_assert (node_stack m' \<noteq> [] \<and> \<not> loc_empty (last (node_stack m')));
                    safe_assert (last_node = cl_parent (last (node_stack m')));
                    l \<leftarrow> GetLastNodeInStack m';
                    n \<leftarrow> loc_get m' l;
                    Some (l, n, m') }
                  else Some (loc, last_node, m));
               (if last1 \<noteq> Some r then do {
                  e \<leftarrow> IS_ENDNODE m1 last1;
                  safe_assert (\<not> e);
                  m'' \<leftarrow> (case last1 of None \<Rightarrow> Some m1 | Some x \<Rightarrow> delete_node x m1);
                  Some (loc1, m'') }
                else Some (loc1, m1)) }) }
        else do {
          b0 \<leftarrow> loc_check m loc None;
          b1 \<leftarrow> (if b0 then Some True else loc_check m loc (Some r));
          safe_assert (b0 \<or> b1);
          Some (loc, m) });
     m3 \<leftarrow> loc_set m2 loc2 (Some r);
     AddToNodeStack (Loc (Some r) child_index) m3 }"

section \<open>The atomic reference\<close>

datatype AcquireRefMode = EXIT_ON_EMPTY | EXIT_ON_FULL | EXIT_ON_LOCK

definition SetRef :: "noderef option \<Rightarrow> mgr \<Rightarrow> mgr" where
  "SetRef r m = m\<lparr>atomic_ref := r\<rparr>"

definition OnLock :: "co \<Rightarrow> mgr \<Rightarrow> mgr option" where
  "OnLock c m = do { safe_assert (lock_owner m = None); Some (m\<lparr>lock_owner := Some c\<rparr>) }"

definition OnUnlock :: "co \<Rightarrow> mgr \<Rightarrow> mgr option" where
  "OnUnlock c m = do { safe_assert (lock_owner m = Some c); Some (m\<lparr>lock_owner := None\<rparr>) }"

text \<open>One iteration of the loop of \<open>AcquireRef\<close>: the thread returns with a node, or it looks again
  after yielding (\<open>Spin\<close>), or it goes through the semaphore first (\<open>Wait\<close>).\<close>

datatype acquire_step = Acquired "noderef option" | Spin | Wait

definition AcquireRef_try :: "AcquireRefMode \<Rightarrow> co \<Rightarrow> mgr \<Rightarrow> (acquire_step \<times> mgr) option" where
  "AcquireRef_try mode c m = do {
     let n = atomic_ref m;
     let m1 = SetRef (Some LOCKNODE) m;
     (if IS_LOCKNODE n then
        (if lock_owner m1 = Some c
         then (if mode = EXIT_ON_LOCK then Some (Acquired n, m1) else None)
         else Some (Spin, m1))
      else do {
        e \<leftarrow> IS_ENDNODE m1 n;
        if e then Some (Acquired n, SetRef n m1)
        else if mode = EXIT_ON_LOCK then do { m2 \<leftarrow> OnLock c m1; Some (Acquired n, m2) }
        else if IS_EMPTY n then
          (if mode = EXIT_ON_EMPTY then do { m2 \<leftarrow> OnLock c m1; Some (Acquired None, m2) }
           else Some (Wait, SetRef None m1))
        else
          (if mode = EXIT_ON_FULL then do { m2 \<leftarrow> OnLock c m1; Some (Acquired n, m2) }
           else Some (Wait, SetRef n m1)) }) }"

definition AcquireRef_giveup :: "bool \<Rightarrow> mgr \<Rightarrow> (noderef option outcome \<times> mgr) option" where
  "AcquireRef_giveup timed m = Some (if timed then throw_backtrack TIMEOUT m else (Blocked, m))"

fun AcquireRef_loop ::
  "AcquireRefMode \<Rightarrow> co \<Rightarrow> bool \<Rightarrow> bool \<Rightarrow> (mgr \<Rightarrow> mgr) list \<Rightarrow> mgr \<Rightarrow> (noderef option outcome \<times> mgr) option" where
  "AcquireRef_loop mode c timed waiting es m =
     (if waiting \<and> sem_ref m = 0
      then (case es of [] \<Rightarrow> AcquireRef_giveup timed m | e # es' \<Rightarrow> AcquireRef_loop mode c timed True es' (e m))
      else (case AcquireRef_try mode c m of
         None \<Rightarrow> None
       | Some (Acquired n, m1) \<Rightarrow> Some (Returns n, m1)
       | Some (st, m1) \<Rightarrow>
           (case es of [] \<Rightarrow> AcquireRef_giveup timed m1
            | e # es' \<Rightarrow> AcquireRef_loop mode c timed (st = Wait) es' (e m1))))"

declare AcquireRef_loop.simps [simp del]

definition IsMain :: "co \<Rightarrow> bool" where
  "IsMain c \<longleftrightarrow> co_tid c = MAIN_TID"

definition AcquireRef ::
  "AcquireRefMode \<Rightarrow> co \<Rightarrow> bool \<Rightarrow> (mgr \<Rightarrow> mgr) list \<Rightarrow> mgr \<Rightarrow> (noderef option outcome \<times> mgr) option" where
  "AcquireRef mode c timed es m = do {
     safe_assert (\<not> timed \<or> IsMain c);
     AcquireRef_loop mode c timed False es m }"

text \<open>The main thread's acquisition: always timed, and an end node put there by another thread is
  rethrown as a backtrack.\<close>

definition AcquireRefEx ::
  "AcquireRefMode \<Rightarrow> co \<Rightarrow> (mgr \<Rightarrow> mgr) list \<Rightarrow> mgr \<Rightarrow> (noderef option outcome \<times> mgr) option" where
  "AcquireRefEx mode c es m = do {
     safe_assert (IsMain c);
     and_then (AcquireRef mode c True es m) (\<lambda>n m1. do {
       e \<leftarrow> IS_ENDNODE m1 n;
       (if e then do {
          l \<leftarrow> GetLastNodeInStack m1;
          safe_assert (cl_parent l = n);
          safe_assert (end_exception m1 \<noteq> []);
          (case get_backtrack (end_exception m1) of
             Some be \<Rightarrow> Some (Throws be, m1)
           | None \<Rightarrow> Some (throw_backtrack EXCEPTION m1)) }
        else Some (Returns n, m1)) }) }"

definition ReleaseRef :: "co \<Rightarrow> noderef option \<Rightarrow> int \<Rightarrow> mgr \<Rightarrow> mgr option" where
  "ReleaseRef c n child_index m = do {
     safe_assert (IS_LOCKNODE (atomic_ref m));
     m1 \<leftarrow> OnUnlock c m;
     is_end \<leftarrow> IS_ENDNODE m1 n;
     let m2 = (if is_end then bump ''Search stack size'' (int (length (node_stack m1))) m1 else m1);
     m3 \<leftarrow> (if child_index \<ge> 0 then do {
              r \<leftarrow> safe_notnull n;
              m' \<leftarrow> AddToPath r child_index m2;
              Some (SetRef (if is_end then n else None) m') }
            else Some (SetRef n m2));
     Some (m3\<lparr>sem_ref := sem_ref m3 + 1\<rparr>) }"

section \<open>Restart\<close>

definition RestartChildIndexStack :: "config \<Rightarrow> mgr \<Rightarrow> mgr option" where
  "RestartChildIndexStack cfg m = do {
     let m1 = (if KeepExecutionTree cfg then m\<lparr>node_stack := [Loc (Some ROOTNODE) 0]\<rparr> else m);
     m2 \<leftarrow> AddToNodeStack (Loc (Some ROOTNODE) 0) (m1\<lparr>stack_index := 0\<rparr>);
     safe_assert (stack_index m2 = 1);
     safe_assert (\<not> KeepExecutionTree cfg \<or> length (node_stack m2) = 1);
     Some m2 }"

definition Restart :: "config \<Rightarrow> mgr \<Rightarrow> mgr option" where
  "Restart cfg m = do {
     m1 \<leftarrow> RestartChildIndexStack cfg (m\<lparr>end_exception := [], sem_ref := 0\<rparr>);
     Some (SetRef None m1) }"

definition fixed_heap :: "noderef \<Rightarrow> node option" where
  "fixed_heap = Map.empty(
     ROOTNODE \<mapsto> mk_node 0 KRoot,
     LOCKNODE \<mapsto> mk_node 1 KLock,
     ENDNODE \<mapsto> (mk_node 2 KEnd)\<lparr>n_covered := True, n_children := [Some ENDNODE]\<rparr>)"

definition ExecutionTreeManager :: "config \<Rightarrow> (nat \<Rightarrow> static_info) \<Rightarrow> mgr option" where
  "ExecutionTreeManager cfg infos = Restart cfg
     \<lparr>heap = fixed_heap, next_ref = 3, sinfo = infos, stat_log = [],
      node_stack = [Loc (Some ROOTNODE) 0], stack_index = 0, atomic_ref = None, sem_ref = 0,
      lock_owner = None, end_exception = []\<rparr>"

section \<open>Paths\<close>

partial_function (option) ComputePath_loop :: "mgr \<Rightarrow> child_loc \<Rightarrow> child_loc list option" where
  [code]: "ComputePath_loop m loc =
     Option.bind (cl_parent loc) (\<lambda>n.
     Option.bind (heap m n) (\<lambda>nd.
       case n_parent nd of
         None \<Rightarrow> if n = ROOTNODE then Some [loc] else None
       | Some p \<Rightarrow> Option.bind (index_of m p (Some n)) (\<lambda>i.
           if i \<ge> 0 then Option.bind (ComputePath_loop m (Loc (Some p) i)) (\<lambda>rest. Some (loc # rest))
           else None)))"

definition ComputePath :: "mgr \<Rightarrow> child_loc \<Rightarrow> child_loc list option" where
  "ComputePath m loc = do { safe_assert (cl_parent loc \<noteq> None); ComputePath_loop m loc }"

definition CheckCompletePath :: "child_loc list \<Rightarrow> mgr \<Rightarrow> bool option" where
  "CheckCompletePath path m = do {
     let sz = length path;
     safe_assert (sz \<ge> 2);
     safe_assert (cl_parent (path ! 0) = Some ROOTNODE);
     g \<leftarrow> loc_get m (last path);
     e1 \<leftarrow> IS_ENDNODE m g;
     safe_assert e1;
     e2 \<leftarrow> IS_ENDNODE m (cl_parent (last path));
     safe_assert e2;
     g2 \<leftarrow> loc_get m (path ! (sz - 2));
     e3 \<leftarrow> IS_ENDNODE m g2;
     safe_assert e3;
     e4 \<leftarrow> IS_ENDNODE m (cl_parent (path ! (sz - 2)));
     safe_assert (\<not> e4);
     safe_assert (cl_parent (last path) = g);
     Some True }"

text \<open>\<open>GetIndexInNodesStack\<close>: from the top, the entry whose parent is the parent of the location.\<close>

fun index_in_stack :: "mgr \<Rightarrow> child_loc \<Rightarrow> nat \<Rightarrow> int option" where
  "index_in_stack m loc 0 = Some (-1)"
| "index_in_stack m loc (Suc i) = do {
     let el = node_stack m ! i;
     safe_assert (\<not> loc_empty el);
     ok \<leftarrow> (if Suc i = length (node_stack m) then Some True
            else loc_check m el (cl_parent (node_stack m ! Suc i)));
     safe_assert ok;
     (if cl_parent el = cl_parent loc
      then do { safe_assert (cl_index el \<noteq> cl_index loc); Some (int i) }
      else index_in_stack m loc i) }"

definition GetIndexInNodesStack :: "mgr \<Rightarrow> child_loc \<Rightarrow> int option" where
  "GetIndexInNodesStack m loc = do {
     safe_assert (length (node_stack m) > 1);
     index_in_stack m loc (length (node_stack m)) }"

section \<open>Backtracking\<close>

text \<open>The loop of \<open>DoBacktrack\<close> that propagates coverage: \<open>hc\<close> is \<open>highest_covered_index\<close>, and the
  entry examined next is the one below it.\<close>

fun cov_loop :: "nat \<Rightarrow> nat \<Rightarrow> mgr \<Rightarrow> (nat \<times> mgr) option" where
  "cov_loop nm 0 m = Some (0, m)"
| "cov_loop nm (Suc i) m = do {
     let element = node_stack m ! i;
     safe_assert (\<not> loc_empty element);
     ok \<leftarrow> loc_check m element (cl_parent (node_stack m ! Suc i));
     safe_assert ok;
     r \<leftarrow> cl_parent element;
     (cov, m1) \<leftarrow> ComputeCoverage nm m r;
     (if cov then cov_loop nm i m1 else Some (Suc i, m1)) }"

definition covered_at :: "mgr \<Rightarrow> nat \<Rightarrow> bool option" where
  "covered_at m i = do { r \<leftarrow> cl_parent (node_stack m ! i); covered m r }"

text \<open>Deleting the largest covered subtree: its parent is linked to the end node instead.\<close>

definition delete_covered :: "nat \<Rightarrow> mgr \<Rightarrow> mgr option" where
  "delete_covered hc m = do {
     let sz = length (node_stack m);
     let parent_loc = node_stack m ! (hc - 1);
     subtree_root \<leftarrow> loc_get m parent_loc;
     safe_assert (subtree_root = cl_parent (node_stack m ! hc));
     m1 \<leftarrow> loc_set m parent_loc (Some ENDNODE);
     let pre = node_stack m1 ! (sz - 2);
     safe_assert (cl_parent pre \<noteq> Some ENDNODE);
     g \<leftarrow> loc_get m1 pre;
     safe_assert (g = Some ENDNODE);
     m2 \<leftarrow> loc_set m1 pre None;
     r \<leftarrow> subtree_root;
     delete_node r m2 }"

definition DoBacktrack :: "config \<Rightarrow> nat \<Rightarrow> BacktrackReason \<Rightarrow> mgr \<Rightarrow> (bool \<times> mgr) option" where
  "DoBacktrack cfg nm reason m = do {
     safe_assert (reason \<noteq> SEARCH_ENDS \<and> reason \<noteq> EXCEPTION \<and> reason \<noteq> UNKNOWN);
     ok \<leftarrow> CheckCompletePath (node_stack m) m;
     safe_assert ok;
     let sz = length (node_stack m);
     safe_assert (sz > 1);
     (hc, m1) \<leftarrow> cov_loop nm (sz - 1) m;
     safe_assert (hc \<le> sz - 1);
     c1 \<leftarrow> covered_at m1 hc;
     safe_assert c1;
     c2 \<leftarrow> (if hc = 0 then Some False else covered_at m1 (hc - 1));
     safe_assert (\<not> c2);
     e1 \<leftarrow> IS_ENDNODE m1 (cl_parent (last (node_stack m1)));
     safe_assert e1;
     g \<leftarrow> loc_get m1 (last (node_stack m1));
     e2 \<leftarrow> IS_ENDNODE m1 g;
     safe_assert e2;
     rc \<leftarrow> covered m1 ROOTNODE;
     safe_assert (hc > 1 \<or> rc);
     m2 \<leftarrow> (if DeleteCoveredSubtrees cfg \<and> 1 \<le> hc \<and> hc \<le> sz - 2 then delete_covered hc m1 else Some m1);
     m3 \<leftarrow> TruncateNodeStack (if hc > 0 then hc - 1 else 0) m2;
     rc' \<leftarrow> covered m3 ROOTNODE;
     Some (\<not> rc', m3) }"

section \<open>Ending a path\<close>

text \<open>\<open>create_thread_var\<close>: the name is the expression \<open>"THR-" + current->tid()\<close>, which in C++ is the
  literal from position \<open>tid\<close> on.\<close>

definition create_thread_var :: "co \<Rightarrow> thread_var" where
  "create_thread_var c = new_thread_var (Some c) (drop (nat (co_tid c)) ''THR-'')"

definition UpdateCoveredVars ::
  "tvstore \<Rightarrow> tvref \<Rightarrow> select_thread \<Rightarrow> tvset \<Rightarrow> (tvset \<times> tvstore) option" where
  "UpdateCoveredVars vs fresh s cv = do {
     c \<leftarrow> tv_thread (vs (st_lvar s));
     (t, vs') \<leftarrow> (case st_scope s of
        Some (x # xs) \<Rightarrow> do { t \<leftarrow> FindByThread vs (x # xs) (Some c); Some (t, vs) }
      | _ \<Rightarrow> Some (fresh, vs(fresh := create_thread_var c)));
     safe_assert (tv_thread (vs' t) = Some c);
     Some (set_insert t cv, vs') }"

text \<open>The first part of \<open>EndWithSuccess\<close>: take the reference.  The result is \<open>None\<close> when another
  thread has ended the path, with the new reason.\<close>

definition end_acquire ::
  "co \<Rightarrow> (mgr \<Rightarrow> mgr) list \<Rightarrow> BacktrackReason \<Rightarrow> mgr \<Rightarrow> (BacktrackReason option \<times> mgr) option" where
  "end_acquire c es reason m =
     (if reason = THREADS_ALLENDED
      then do { m1 \<leftarrow> OnLock c (SetRef (Some LOCKNODE) m); Some (None, m1) }
      else (case AcquireRefEx EXIT_ON_LOCK c es m of
         Some (Returns n, m1) \<Rightarrow> do {
           e \<leftarrow> IS_FULL m1 n; safe_assert (IS_EMPTY n \<or> e);
           Some (None, m1) }
       | Some (Throws x, m1) \<Rightarrow> do {
           r \<leftarrow> as_backtrack x;
           safe_assert (r = EXCEPTION);
           b \<leftarrow> IS_ENDNODE m1 (atomic_ref m1);
           safe_assert b;
           Some (Some r, m1) }
       | _ \<Rightarrow> None))"

text \<open>Marking on the last node of the path: a thread selection that can no longer be consumed, and
  the branch of a choice that reaches the end of the script.\<close>

definition end_marking :: "config \<Rightarrow> BacktrackReason \<Rightarrow> child_loc \<Rightarrow> mgr \<Rightarrow> mgr option" where
  "end_marking cfg reason l m = do {
     r \<leftarrow> cl_parent l;
     nd \<leftarrow> heap m r;
     m1 \<leftarrow> (if reason = THREADS_ALLENDED \<and> is_select_thread (n_kind nd) then set_covered m r True else Some m);
     (if reason = SUCCESS \<and> MarkEndingBranchesCovered cfg \<and> n_kind nd = KChoice
      then sc_set_covered m1 (n_info nd) (cl_index l) True
      else Some m1) }"

definition EndWithSuccess ::
  "config \<Rightarrow> nat \<Rightarrow> co \<Rightarrow> (mgr \<Rightarrow> mgr) list \<Rightarrow> tvref \<Rightarrow> tvstore \<Rightarrow> BacktrackReason \<Rightarrow> mgr
     \<Rightarrow> (bool \<times> BacktrackReason \<times> tvstore \<times> mgr) option" where
  "EndWithSuccess cfg nm c es fresh vs reason m = do {
     (ended, m1) \<leftarrow> end_acquire c es reason m;
     (case ended of
        Some r \<Rightarrow> Some (False, r, vs, m1)
      | None \<Rightarrow> do {
          b \<leftarrow> (if IS_LOCKNODE (atomic_ref m1) then Some True else IS_ENDNODE m1 (atomic_ref m1));
          safe_assert b;
          l \<leftarrow> GetLastNodeInStack m1;
          m2 \<leftarrow> end_marking cfg reason l m1;
          r \<leftarrow> cl_parent l;
          nd \<leftarrow> heap m2 r;
          (case (n_kind nd, n_covered nd) of
             (KExists s cv, False) \<Rightarrow> do {
               (cv', vs') \<leftarrow> UpdateCoveredVars vs fresh s cv;
               let m3 = upd_node r (\<lambda>nd. nd\<lparr>n_kind := KExists s cv'\<rparr>) m2;
               m4 \<leftarrow> ReleaseRef c (Some ENDNODE) (-1) m3;
               Some (False, reason, vs', m4) }
           | _ \<Rightarrow> do {
               e \<leftarrow> IS_ENDNODE m2 (Some r);
               m3 \<leftarrow> (if e then Some m2 else AddToPath ENDNODE 0 m2);
               l3 \<leftarrow> GetLastNodeInStack m3;
               g \<leftarrow> loc_get m3 l3;
               e3 \<leftarrow> IS_ENDNODE m3 g;
               safe_assert e3;
               (b, m4) \<leftarrow> DoBacktrack cfg nm reason m3;
               m5 \<leftarrow> ReleaseRef c (Some ENDNODE) (-1) m4;
               Some (False, reason, vs, m5) }) }) }"

text \<open>\<open>EndNode::add_exception\<close> appends only to an end node without exceptions: the condition is
  \<open>exception_ == NULL && !exception_->contains(e)\<close>.\<close>

definition add_exception :: "exn \<Rightarrow> co \<Rightarrow> string \<Rightarrow> mgr \<Rightarrow> mgr" where
  "add_exception e owner wh m =
     (if end_exception m = [] \<and> \<not> conc_contains (end_exception m) e
      then m\<lparr>end_exception := ConcurritException e (Some owner) wh (end_exception m)\<rparr>
      else m)"

definition EndWithException ::
  "co \<Rightarrow> (mgr \<Rightarrow> mgr) list \<Rightarrow> exn \<Rightarrow> string \<Rightarrow> mgr \<Rightarrow> (unit outcome \<times> mgr) option" where
  "EndWithException c es e wh m =
     (case AcquireRef EXIT_ON_LOCK c False es m of
        Some (Returns n, m1) \<Rightarrow> do {
          let m2 = add_exception e c wh m1;
          b \<leftarrow> IS_ENDNODE m2 n;
          m3 \<leftarrow> (if b then Some m2 else ReleaseRef c (Some ENDNODE) 0 m2);
          Some (Returns (), m3) }
      | Some (Blocked, m1) \<Rightarrow> Some (Blocked, m1)
      | _ \<Rightarrow> None)"

definition EndWithBacktrack ::
  "co \<Rightarrow> (mgr \<Rightarrow> mgr) list \<Rightarrow> BacktrackReason \<Rightarrow> string \<Rightarrow> mgr \<Rightarrow> (unit outcome \<times> mgr) option" where
  "EndWithBacktrack c es reason wh m =
     EndWithException c es (Exn (next_ref m) (BacktrackE reason)) wh (m\<lparr>next_ref := Suc (next_ref m)\<rparr>)"

section \<open>Properties\<close>

text \<open>The end node keeps only the first exception added to it: its guard tests for
  NULL, so an exception of another thread that comes later is dropped instead of being chained.\<close>

lemma add_exception_keeps_first:
  "end_exception (add_exception e2 c2 w2 (add_exception e1 c1 w1 m)) = end_exception (add_exception e1 c1 w1 m)"
  by (simp add: add_exception_def ConcurritException_def)

end
