(* ===== verification/Config_Options.thy ===== *)
theory Config_Options
  imports Util_Text Tree_Manager
begin

text \<open>
  config.h and config.cpp, and the start-up of concurrit.cpp: the options with their defaults, the
  command line parser over getopt, the split of the arguments between the library and the driver,
  and the life of the library state between Init and Destroy.  Printed messages are left out.
\<close>

section \<open>Options\<close>

record options =
  OnlyShowHelp :: bool
  opt_ExitOnFirstExecution :: int
  opt_DeleteCoveredSubtrees :: bool
  SaveDotGraphToFile :: "string option"
  MaxWaitTimeUSecs :: int
  RunUncontrolled :: bool
  TestLibraryFile :: "string option"
  opt_IsStarNondeterministic :: bool
  opt_KeepExecutionTree :: bool
  opt_MaxTimeOutsBeforeDeadlock :: int
  ManualInstrEnabled :: bool
  PinInstrEnabled :: bool
  ReloadTestLibraryOnRestart :: bool
  opt_MarkEndingBranchesCovered :: bool
  SaveExecutionTraceToFile :: bool
  CancelThreadsToRestart :: bool
  Verbosity :: "string option"

definition USECSPERSEC :: int where
  "USECSPERSEC = 1000000"

definition default_options :: options where
  "default_options = \<lparr> OnlyShowHelp = False, opt_ExitOnFirstExecution = -1,
     opt_DeleteCoveredSubtrees = True, SaveDotGraphToFile = None, MaxWaitTimeUSecs = USECSPERSEC,
     RunUncontrolled = False, TestLibraryFile = None, opt_IsStarNondeterministic = False,
     opt_KeepExecutionTree = False, opt_MaxTimeOutsBeforeDeadlock = 10, ManualInstrEnabled = True,
     PinInstrEnabled = True, ReloadTestLibraryOnRestart = False, opt_MarkEndingBranchesCovered = True,
     SaveExecutionTraceToFile = False, CancelThreadsToRestart = False, Verbosity = None \<rparr>"

section \<open>getopt\<close>

text \<open>Short options of GNU getopt with the string of the parser: an option without argument, with a
  required one (the rest of the word, or the next word) or with an optional one (the rest of the
  word only).  Words that are not options are skipped, and the word of two dashes ends the options.
  The result is the sequence of calls: the option and its argument, with \<open>?\<close> for an option that is
  unknown or lacks its argument.\<close>

datatype arity = NoArg | ReqArg | OptArg

definition option_arity :: "char \<Rightarrow> arity option" where
  "option_arity = map_of [(CHR ''c'', OptArg), (CHR ''d'', OptArg), (CHR ''f'', OptArg), (CHR ''h'', NoArg),
     (CHR ''k'', NoArg), (CHR ''l'', ReqArg), (CHR ''m'', OptArg), (CHR ''p'', OptArg), (CHR ''r'', NoArg),
     (CHR ''s'', NoArg), (CHR ''t'', NoArg), (CHR ''u'', NoArg), (CHR ''v'', ReqArg), (CHR ''w'', ReqArg)]"

text \<open>The options in one word, after its dash: the calls, and the option that takes the next word.\<close>

fun getopt_word :: "string \<Rightarrow> (char \<times> string option) list \<times> char option" where
  "getopt_word [] = ([], None)"
| "getopt_word (c # s) = (case option_arity c of
     None \<Rightarrow> (let (r, n) = getopt_word s in ((CHR ''?'', None) # r, n))
   | Some NoArg \<Rightarrow> (let (r, n) = getopt_word s in ((c, None) # r, n))
   | Some OptArg \<Rightarrow> ([(c, if s = [] then None else Some s)], None)
   | Some ReqArg \<Rightarrow> (if s = [] then ([], Some c) else ([(c, Some s)], None)))"

fun getopt_all :: "string list \<Rightarrow> (char \<times> string option) list" where
  "getopt_all [] = []"
| "getopt_all (w # ws) =
     (if w = ''--'' then []
      else if length w \<ge> 2 \<and> hd w = CHR ''-'' then
        (case getopt_word (tl w) of
           (r, None) \<Rightarrow> r @ getopt_all ws
         | (r, Some c) \<Rightarrow> (case ws of
             [] \<Rightarrow> r @ [(CHR ''?'', None)]
           | a # ws' \<Rightarrow> r @ (c, Some a) # getopt_all ws'))
      else getopt_all ws)"

section \<open>The parser\<close>

definition c_digit :: "char \<Rightarrow> bool" where
  "c_digit c \<longleftrightarrow> c \<in> set ''0123456789''"

definition atoi :: "string \<Rightarrow> int" where
  "atoi s = (let s1 = dropWhile (\<lambda>c. c \<in> {CHR '' '', CHR 0x09, CHR 0x0A, CHR 0x0B, CHR 0x0C, CHR 0x0D}) s in
     case s1 of
       [] \<Rightarrow> 0
     | c # r \<Rightarrow> (if c = CHR ''-'' then - int (parse_nat (takeWhile c_digit r))
                else if c = CHR ''+'' then int (parse_nat (takeWhile c_digit r))
                else int (parse_nat (takeWhile c_digit s1))))"

definition get_bool_opt :: "string option \<Rightarrow> bool option" where
  "get_bool_opt opt = (case opt of
     None \<Rightarrow> Some True
   | Some s \<Rightarrow> if take 1 s = ''1'' then Some True else if take 1 s = ''0'' then Some False else None)"

definition InConcurritWorkDir :: "string \<Rightarrow> string \<Rightarrow> string" where
  "InConcurritWorkDir home f = home @ ''/work/'' @ f"

definition parse_option :: "string \<Rightarrow> char \<times> string option \<Rightarrow> options \<Rightarrow> options option" where
  "parse_option home opt c = (case opt of (k, arg) \<Rightarrow>
     if k = CHR ''c'' then do { b \<leftarrow> get_bool_opt arg; Some (c\<lparr> opt_DeleteCoveredSubtrees := b \<rparr>) }
     else if k = CHR ''h'' then Some (c\<lparr> OnlyShowHelp := True \<rparr>)
     else if k = CHR ''f'' then do {
       let n = (case arg of None \<Rightarrow> 1 | Some a \<Rightarrow> atoi a);
       safe_assert (n \<ge> 1);
       Some (c\<lparr> opt_ExitOnFirstExecution := n \<rparr>) }
     else if k = CHR ''d'' then Some (c\<lparr> SaveDotGraphToFile :=
       Some (case arg of Some a \<Rightarrow> a | None \<Rightarrow> InConcurritWorkDir home ''exec_tree.dot'') \<rparr>)
     else if k = CHR ''k'' then Some (c\<lparr> CancelThreadsToRestart := True, ReloadTestLibraryOnRestart := True \<rparr>)
     else if k = CHR ''m'' then do { b \<leftarrow> get_bool_opt arg; Some (c\<lparr> ManualInstrEnabled := b \<rparr>) }
     else if k = CHR ''p'' then do { b \<leftarrow> get_bool_opt arg; Some (c\<lparr> PinInstrEnabled := b \<rparr>) }
     else if k = CHR ''r'' then Some (c\<lparr> ReloadTestLibraryOnRestart := True \<rparr>)
     else if k = CHR ''s'' then do { b \<leftarrow> get_bool_opt arg; Some (c\<lparr> opt_KeepExecutionTree := \<not> b \<rparr>) }
     else if k = CHR ''t'' then Some (c\<lparr> SaveExecutionTraceToFile := True \<rparr>)
     else if k = CHR ''u'' then (let c1 = c\<lparr> RunUncontrolled := True \<rparr> in
       Some (if opt_ExitOnFirstExecution c1 < 0 then c1\<lparr> opt_ExitOnFirstExecution := 1 \<rparr> else c1))
     else if k = CHR ''w'' then do {
       a \<leftarrow> arg;
       safe_assert (atoi a > 0);
       Some (c\<lparr> MaxWaitTimeUSecs := atoi a \<rparr>) }
     else if k = CHR ''l'' then do { a \<leftarrow> arg; Some (c\<lparr> TestLibraryFile := Some a \<rparr>) }
     else if k = CHR ''v'' then do { a \<leftarrow> arg; Some (c\<lparr> Verbosity := Some a \<rparr>) }
     else Some c)"

fun parse_options :: "string \<Rightarrow> (char \<times> string option) list \<Rightarrow> options \<Rightarrow> options option" where
  "parse_options home [] c = Some c"
| "parse_options home (x # xs) c = do { c1 \<leftarrow> parse_option home x c; parse_options home xs c1 }"

text \<open>The arguments include the program name, which getopt skips.\<close>

definition ParseCommandLine :: "string \<Rightarrow> string list \<Rightarrow> options \<Rightarrow> (bool \<times> options) option" where
  "ParseCommandLine home av c = (if av = [] then Some (False, c)
     else do { c1 \<leftarrow> parse_options home (getopt_all (tl av)) c; Some (True, c1) })"

text \<open>The part of the options that the execution tree manager uses.\<close>

definition manager_config :: "options \<Rightarrow> config \<Rightarrow> config" where
  "manager_config c g = g\<lparr> DeleteCoveredSubtrees := opt_DeleteCoveredSubtrees c,
     MarkEndingBranchesCovered := opt_MarkEndingBranchesCovered c, KeepExecutionTree := opt_KeepExecutionTree c \<rparr>"

section \<open>Start-up\<close>

text \<open>Init: the arguments before the first one that starts with two dashes are for the library;
  that one is dropped, and the rest is for the driver.\<close>

definition starts_with_dashes :: "string \<Rightarrow> bool" where
  "starts_with_dashes s \<longleftrightarrow> take 2 s = ''--''"

definition concurrit_args :: "string list \<Rightarrow> string list" where
  "concurrit_args av = takeWhile (\<lambda>a. \<not> starts_with_dashes a) av"

definition driver_args_of :: "string list \<Rightarrow> string list" where
  "driver_args_of av = ''<bench-name>'' # drop 1 (dropWhile (\<lambda>a. \<not> starts_with_dashes a) av)"

record library =
  lb_initialized :: bool
  lb_options :: options
  lb_driver_args :: "main_args option"
  lb_driver_handle :: "nat option"
  lb_driver_main :: "nat option"
  lb_sem_driver_load :: nat
  lb_sem_test_start :: nat
  lb_pin_enabled :: bool
  lb_pin_down :: bool
  lb_main :: bool

definition new_library :: library where
  "new_library = \<lparr> lb_initialized = False, lb_options = default_options, lb_driver_args = None,
     lb_driver_handle = None, lb_driver_main = None, lb_sem_driver_load = 0, lb_sem_test_start = 0,
     lb_pin_enabled = False, lb_pin_down = False, lb_main = False \<rparr>"

text \<open>The result is the state, or the exit of the process after the help text.\<close>

datatype init_result = Initialized library | ExitSuccess

definition Concurrit_Init :: "string option \<Rightarrow> string list \<Rightarrow> library \<Rightarrow> init_result option" where
  "Concurrit_Init home av l = do {
     safe_assert (\<not> lb_initialized l);
     h \<leftarrow> safe_notnull home;
     safe_assert (av \<noteq> []);
     (_, c) \<leftarrow> ParseCommandLine h (concurrit_args av) (lb_options l);
     if OnlyShowHelp c then Some ExitSuccess
     else do {
       let down = (lb_pin_down l \<or> RunUncontrolled c \<or> \<not> PinInstrEnabled c);
       safe_assert (\<not> lb_main l);
       Some (Initialized (l\<lparr> lb_options := c, lb_driver_args := Some (ArgVectorToMainArgs (driver_args_of av)),
         lb_pin_down := down, lb_sem_driver_load := 0, lb_sem_test_start := 0, lb_driver_handle := None,
         lb_driver_main := None, lb_main := True, lb_initialized := True \<rparr>)) } }"

definition Concurrit_Destroy :: "library \<Rightarrow> library option" where
  "Concurrit_Destroy l = do {
     safe_assert (lb_initialized l);
     safe_assert (\<not> lb_pin_enabled l);
     safe_assert (lb_main l);
     Some (l\<lparr> lb_pin_down := True, lb_initialized := False, lb_main := False \<rparr>) }"

text \<open>The test library: \<open>dlopen\<close> and the lookup of its main function are arguments.\<close>

definition LoadTestLibrary :: "(string \<Rightarrow> nat option) \<Rightarrow> (nat \<Rightarrow> nat option) \<Rightarrow> library \<Rightarrow> library option" where
  "LoadTestLibrary dlopen main_of l = do {
     safe_assert (lb_driver_handle l = None);
     (case TestLibraryFile (lb_options l) of
        None \<Rightarrow> Some (l\<lparr> lb_driver_handle := None, lb_driver_main := None \<rparr>)
      | Some f \<Rightarrow> do {
          h \<leftarrow> dlopen f;
          m \<leftarrow> main_of h;
          Some (l\<lparr> lb_driver_handle := Some h, lb_driver_main := Some m \<rparr>) }) }"

definition UnloadTestLibrary :: "(nat \<Rightarrow> bool) \<Rightarrow> library \<Rightarrow> library option" where
  "UnloadTestLibrary dlclose l = do {
     h \<leftarrow> lb_driver_handle l;
     safe_check (dlclose h);
     Some (l\<lparr> lb_driver_handle := None, lb_driver_main := None \<rparr>) }"

text \<open>Up to the call of the main function, which is the result.\<close>

definition CallDriverMain :: "(string \<Rightarrow> nat option) \<Rightarrow> (nat \<Rightarrow> nat option) \<Rightarrow> (nat \<Rightarrow> bool) \<Rightarrow> library
    \<Rightarrow> (nat \<times> library) option" where
  "CallDriverMain dlopen main_of dlclose l = do {
     l1 \<leftarrow> (if ReloadTestLibraryOnRestart (lb_options l) \<and> lb_driver_handle l \<noteq> None
            then UnloadTestLibrary dlclose l else Some l);
     l2 \<leftarrow> (if lb_driver_handle l1 = None then LoadTestLibrary dlopen main_of l1 else Some l1);
     let l3 = l2\<lparr> lb_sem_driver_load := lb_sem_driver_load l2 + 1 \<rparr>;
     m \<leftarrow> lb_driver_main l3;
     a \<leftarrow> lb_driver_args l3;
     safe_assert (main_args_check a);
     Some (m, l3) }"

text \<open>SignalHandler: the first thread that gets a signal handles it; a signal in that thread while it
  does kills the process, and other threads ignore theirs.\<close>

datatype signal_action = HandleSignal | KillProcess | IgnoreSignal

definition SignalHandler :: "nat \<Rightarrow> nat \<Rightarrow> signal_action \<times> nat" where
  "SignalHandler self handling =
     (if handling = 0 then (HandleSignal, self)
      else if handling = self then (KillProcess, handling) else (IgnoreSignal, handling))"

section \<open>What the parser guarantees\<close>

lemma parse_options_append:
  "parse_options home (xs @ ys) c = Option.bind (parse_options home xs c) (parse_options home ys)"
  by (induction xs arbitrary: c) (auto split: Option.bind_splits)

lemma args_split: "concurrit_args av @ dropWhile (\<lambda>a. \<not> starts_with_dashes a) av = av"
  by (simp add: concurrit_args_def)

text \<open>The options that only -f and -u read or write.\<close>

definition exit_state :: "options \<Rightarrow> bool \<times> int" where
  "exit_state c = (RunUncontrolled c, opt_ExitOnFirstExecution c)"

lemma parse_option_keeps_exit:
  "k \<noteq> CHR ''f'' \<Longrightarrow> k \<noteq> CHR ''u'' \<Longrightarrow> parse_option home (k, a) c = Some c1 \<Longrightarrow> exit_state c1 = exit_state c"
  by (auto simp: parse_option_def exit_state_def bind_Some_iff split: if_splits)

lemma parse_options_exit:
  "parse_options home xs c = Some c1 \<Longrightarrow> opt_ExitOnFirstExecution c < 0 \<Longrightarrow> \<not> RunUncontrolled c \<Longrightarrow>
   (opt_ExitOnFirstExecution c1 < 0 \<longleftrightarrow> CHR ''f'' \<notin> fst ` set xs \<and> CHR ''u'' \<notin> fst ` set xs)
   \<and> (RunUncontrolled c1 \<longleftrightarrow> CHR ''u'' \<in> fst ` set xs)"
proof (induction xs arbitrary: c c1 rule: rev_induct)
  case (snoc x xs)
  then obtain c2 where c2: "parse_options home xs c = Some c2" "parse_option home x c2 = Some c1"
    by (auto simp: parse_options_append bind_Some_iff)
  note IH = snoc.IH [OF c2(1) snoc.prems(2,3)]
  obtain k a where x: "x = (k, a)" by fastforce
  show ?case
  proof (cases "k = CHR ''f'' \<or> k = CHR ''u''")
    case True
    then show ?thesis using IH c2(2) x
      by (auto simp: parse_option_def Let_def split: if_splits)
  next
    case False
    then show ?thesis using IH parse_option_keeps_exit [of k home a c2 c1] c2(2) x
      by (auto simp: exit_state_def)
  qed
qed auto

section \<open>Properties\<close>

text \<open>The parser sets RunUncontrolled exactly when -u is among the parsed options, and
  a bound on the number of executions is set exactly when -f or -u is among them.\<close>

lemma uncontrolled_run_ends:
  assumes "ParseCommandLine home (prog # args) default_options = Some (r, c)"
  shows "(RunUncontrolled c \<longleftrightarrow> CHR ''u'' \<in> fst ` set (getopt_all args))
    \<and> (opt_ExitOnFirstExecution c \<ge> 0 \<longleftrightarrow>
        {CHR ''f'', CHR ''u''} \<inter> fst ` set (getopt_all args) \<noteq> {})"
proof -
  have "parse_options home (getopt_all args) default_options = Some c"
    using assms by (auto simp: ParseCommandLine_def bind_Some_iff)
  moreover have "opt_ExitOnFirstExecution default_options < 0" "\<not> RunUncontrolled default_options"
    by (simp_all add: default_options_def)
  ultimately have "(opt_ExitOnFirstExecution c < 0 \<longleftrightarrow> CHR ''f'' \<notin> fst ` set (getopt_all args)
        \<and> CHR ''u'' \<notin> fst ` set (getopt_all args))
      \<and> (RunUncontrolled c \<longleftrightarrow> CHR ''u'' \<in> fst ` set (getopt_all args))"
    by (rule parse_options_exit)
  then show ?thesis by (cases "opt_ExitOnFirstExecution c < 0") auto
qed

lemma sample_getopt: "getopt_all [''x'', ''-ut''] = [(CHR ''u'', None), (CHR ''t'', None)]"
  by (simp add: option_arity_def)

lemma sample_command_line:
  "ParseCommandLine ''/h'' [''prog'', ''x'', ''-ut''] default_options = Some (True,
     default_options\<lparr> RunUncontrolled := True, opt_ExitOnFirstExecution := 1, SaveExecutionTraceToFile := True \<rparr>)"
proof -
  have "parse_option ''/h'' (CHR ''u'', None) default_options
      = Some (default_options\<lparr> RunUncontrolled := True, opt_ExitOnFirstExecution := 1 \<rparr>)"
    by (simp add: parse_option_def default_options_def)
  moreover have "parse_option ''/h'' (CHR ''t'', None) c = Some (c\<lparr> SaveExecutionTraceToFile := True \<rparr>)" for c
    by (simp add: parse_option_def)
  ultimately show ?thesis by (simp only: ParseCommandLine_def list.sel sample_getopt) simp
qed

lemma uncontrolled_run_ends_example:
  "CHR ''u'' \<in> fst ` set (getopt_all [''x'', ''-ut''])"
  using uncontrolled_run_ends [OF sample_command_line] by simp

lemma stack_option_has_no_argument:
  "getopt_all [''-s0''] = [(CHR ''s'', None), (CHR ''?'', None)]
   \<and> ParseCommandLine home [''prog'', ''-s0''] c = Some (True, c\<lparr> opt_KeepExecutionTree := False \<rparr>)"
  by (simp add: ParseCommandLine_def option_arity_def parse_option_def get_bool_opt_def)

end
