(* ===== verification/Pin_Monitor.thy ===== *)
theory Pin_Monitor
  imports Trans_Pred Config_Options Event_Wire Coroutines
begin

text \<open>
  pinmonitor.h/.cpp, instrument.cpp and manual.h/.cpp: the callbacks of the instrumentation.  A
  callback records what the current thread is about to do in the auxiliary state and then lets
  the scenario control the transition.  \<open>oct\<close> is \<open>Scenario::OnControlledTransition\<close> for the current
  thread: it returns, or it leaves by an exception, in which case the rest of the callback does not run.
\<close>

record pin_state =
  pm_enabled :: bool
  pm_down :: bool
  pm_symbols :: "string \<Rightarrow> addr option"
  pm_env :: aux_env
  pm_srcloc :: "src_loc option"
  pm_info :: string
  pm_status :: StatusType
  pm_sem_test_start :: nat
  pm_pintool :: "string list"

text \<open>\<open>pm_pintool\<close> is the sequence of calls of the functions that Pin watches for.\<close>

datatype 'a ctrl = Resumes 'a | Unwinds exn 'a | Stuck 'a

type_synonym 'a pin_op = "'a pin_state_scheme \<Rightarrow> 'a pin_state_scheme ctrl option"

definition notify_pin :: "string \<Rightarrow> 'a pin_state_scheme \<Rightarrow> 'a pin_state_scheme" where
  "notify_pin f s = s\<lparr> pm_pintool := pm_pintool s @ [f] \<rparr>"

definition Pin_Init :: "'a pin_state_scheme \<Rightarrow> 'a pin_state_scheme" where
  "Pin_Init s = (if pm_down s then s else notify_pin ''InitPinTool'' s)"

definition Pin_Enable :: "options \<Rightarrow> 'a pin_state_scheme \<Rightarrow> 'a pin_state_scheme" where
  "Pin_Enable c s = (if RunUncontrolled c then s
     else (if PinInstrEnabled c \<and> \<not> pm_down s then notify_pin ''EnablePinTool'' s else s)\<lparr> pm_enabled := True \<rparr>)"

definition Pin_Disable :: "options \<Rightarrow> 'a pin_state_scheme \<Rightarrow> 'a pin_state_scheme" where
  "Pin_Disable c s = (if RunUncontrolled c then s
     else (if PinInstrEnabled c \<and> \<not> pm_down s then notify_pin ''DisablePinTool'' s else s)\<lparr> pm_enabled := False \<rparr>)"

definition Pin_Shutdown :: "'a pin_state_scheme \<Rightarrow> 'a pin_state_scheme" where
  "Pin_Shutdown s = (if pm_down s then s else (notify_pin ''ShutdownPinTool'' s)\<lparr> pm_down := True \<rparr>)"

definition AddressOfSymbol_set :: "string option \<Rightarrow> addr \<Rightarrow> 'a pin_state_scheme \<Rightarrow> 'a pin_state_scheme option" where
  "AddressOfSymbol_set symbol a s = do {
     nm \<leftarrow> safe_notnull symbol;
     safe_check (length nm < 64);
     Some (s\<lparr> pm_symbols := (pm_symbols s)(nm \<mapsto> a) \<rparr>) }"

definition GetAddressOfSymbol :: "string \<Rightarrow> addr \<Rightarrow> 'a pin_state_scheme \<Rightarrow> addr" where
  "GetAddressOfSymbol symbol a s = (case pm_symbols s symbol of Some x \<Rightarrow> x | None \<Rightarrow> a)"

section \<open>Callbacks\<close>

definition hex_digit :: "nat \<Rightarrow> char" where
  "hex_digit d = ''0123456789abcdef'' ! d"

fun to_hex :: "nat \<Rightarrow> string" where
  "to_hex n = (if n < 16 then [hex_digit n] else to_hex (n div 16) @ [hex_digit (n mod 16)])"

declare to_hex.simps [simp del]

definition hex :: "addr \<Rightarrow> string" where
  "hex a = to_hex (unat a)"

definition trace_info :: "options \<Rightarrow> string option \<Rightarrow> 'a pin_state_scheme \<Rightarrow> 'a pin_state_scheme option" where
  "trace_info c info s = (if SaveExecutionTraceToFile c
     then do { i \<leftarrow> info; Some (s\<lparr> pm_info := take 255 i \<rparr>) } else Some s)"

definition funcname_of :: "src_loc option \<Rightarrow> string option" where
  "funcname_of loc = do { l \<leftarrow> loc; Some (sl_funcname l) }"

definition set1_pin :: "aux1name \<Rightarrow> addr \<Rightarrow> int \<Rightarrow> tid \<Rightarrow> 'a pin_state_scheme \<Rightarrow> 'a pin_state_scheme option" where
  "set1_pin v k x t s = do { e \<leftarrow> set1 v k x t (pm_env s); Some (s\<lparr> pm_env := e \<rparr>) }"

definition get1_pin :: "aux1name \<Rightarrow> addr \<Rightarrow> tid \<Rightarrow> 'a pin_state_scheme \<Rightarrow> int option" where
  "get1_pin v k t s = aux1_get 0 0 (aux1 (pm_env s) v) k t"

definition PM_MemAccessBefore :: "'a pin_op \<Rightarrow> src_loc option \<Rightarrow> 'a pin_op" where
  "PM_MemAccessBefore oct loc s = oct (s\<lparr> pm_srcloc := loc \<rparr>)"

definition PM_MemAccessAfter :: "'a pin_op" where
  "PM_MemAccessAfter s = Some (Resumes s)"

definition PM_MemWrite :: "options \<Rightarrow> tid \<Rightarrow> addr \<Rightarrow> 32 word \<Rightarrow> src_loc option \<Rightarrow> 'a pin_op" where
  "PM_MemWrite c t a sz loc s = do {
     s1 \<leftarrow> trace_info c (Some (''MemWrite by '' @ to_string t @ '' to '' @ hex a @ '' size '' @ to_string (sint sz))) s;
     s2 \<leftarrow> set1_pin Writes a (uint sz) t s1;
     Some (Resumes (s2\<lparr> pm_srcloc := loc \<rparr>)) }"

definition PM_MemRead :: "options \<Rightarrow> tid \<Rightarrow> addr \<Rightarrow> 32 word \<Rightarrow> src_loc option \<Rightarrow> 'a pin_op" where
  "PM_MemRead c t a sz loc s = do {
     s1 \<leftarrow> trace_info c (Some (''MemRead by '' @ to_string t @ '' from '' @ hex a @ '' size '' @ to_string (sint sz))) s;
     s2 \<leftarrow> set1_pin Reads a (uint sz) t s1;
     Some (Resumes (s2\<lparr> pm_srcloc := loc \<rparr>)) }"

text \<open>The calls of set with two arguments pass the thread id as the value, converted to bool, and
  take the default -1 for the thread.\<close>

definition PM_FuncCall :: "options \<Rightarrow> 'a pin_op \<Rightarrow> tid \<Rightarrow> addr \<Rightarrow> addr \<Rightarrow> bool \<Rightarrow> src_loc option \<Rightarrow> src_loc option
    \<Rightarrow> addr \<Rightarrow> addr \<Rightarrow> 'a pin_op" where
  "PM_FuncCall c oct t src target direct loc_src loc_target x0 x1 s = do {
     safe_assert (loc_src \<noteq> None \<and> loc_target \<noteq> None);
     s1 \<leftarrow> trace_info c (do { f \<leftarrow> funcname_of loc_src; g \<leftarrow> funcname_of loc_target;
       Some (''FuncCall['' @ (if direct then ''direct'' else ''indirect'') @ ''] by '' @ to_string t @ '' from ''
         @ f @ ''('' @ hex src @ '') to '' @ g @ ''('' @ hex target @ '')'') }) s;
     s2 \<leftarrow> set1_pin CallsFrom src (if t = 0 then 0 else 1) (-1) s1;
     s3 \<leftarrow> set1_pin CallsTo target (if t = 0 then 0 else 1) (-1) s2;
     s4 \<leftarrow> set1_pin Arg0 target (uint x0) t s3;
     s5 \<leftarrow> set1_pin Arg1 target (uint x1) t s4;
     oct (s5\<lparr> pm_srcloc := loc_src \<rparr>) }"

definition PM_FuncEnter :: "options \<Rightarrow> 'a pin_op \<Rightarrow> tid \<Rightarrow> addr \<Rightarrow> src_loc option \<Rightarrow> addr \<Rightarrow> addr \<Rightarrow> 'a pin_op" where
  "PM_FuncEnter c oct t a loc x0 x1 s = do {
     s1 \<leftarrow> trace_info c (do { f \<leftarrow> funcname_of loc;
       Some (''FuncEnter by '' @ to_string t @ '' to '' @ f @ ''('' @ hex a @ '') with arg0 ''
         @ nat_to_string (unat x0) @ '' arg1 '' @ nat_to_string (unat x1)) }) s;
     s2 \<leftarrow> set1_pin Enters a 1 t s1;
     n \<leftarrow> get1_pin InFunc a t s2;
     safe_assert (n \<ge> 0);
     s3 \<leftarrow> set1_pin InFunc a (n + 1) t s2;
     k \<leftarrow> get1_pin NumInFunc a t s3;
     safe_assert (k \<ge> 0);
     s4 \<leftarrow> set1_pin NumInFunc a (k + 1) t s3;
     s5 \<leftarrow> set1_pin Arg0 a (uint x0) t s4;
     s6 \<leftarrow> set1_pin Arg1 a (uint x1) t s5;
     oct (s6\<lparr> pm_srcloc := loc \<rparr>) }"

definition PM_FuncReturn_after :: "tid \<Rightarrow> addr \<Rightarrow> 'a pin_state_scheme \<Rightarrow> 'a pin_state_scheme option" where
  "PM_FuncReturn_after t a s = do {
     n \<leftarrow> get1_pin InFunc a t s;
     safe_assert (n \<ge> 0);
     if n = 0 then Some s
     else do {
       s1 \<leftarrow> set1_pin InFunc a (n - 1) t s;
       s2 \<leftarrow> set1_pin Arg0 a 0 t s1;
       set1_pin Arg1 a 0 t s2 } }"

definition PM_FuncReturn :: "options \<Rightarrow> 'a pin_op \<Rightarrow> tid \<Rightarrow> addr \<Rightarrow> src_loc option \<Rightarrow> addr \<Rightarrow> 'a pin_op" where
  "PM_FuncReturn c oct t a loc retval s = do {
     s1 \<leftarrow> trace_info c (do { f \<leftarrow> funcname_of loc;
       Some (''FuncReturn by '' @ to_string t @ '' from '' @ f @ ''('' @ hex a @ '') with ret ''
         @ nat_to_string (unat retval)) }) s;
     s2 \<leftarrow> set1_pin aux1name.Returns a 1 t s1;
     s3 \<leftarrow> set1_pin RetVal a (uint retval) t s2;
     r \<leftarrow> oct (s3\<lparr> pm_srcloc := loc \<rparr>);
     (case r of Unwinds e s4 \<Rightarrow> Some (Unwinds e s4) | Stuck s4 \<Rightarrow> Some (Stuck s4)
      | Resumes s4 \<Rightarrow> do { s5 \<leftarrow> PM_FuncReturn_after t a s4; Some (Resumes s5) }) }"

definition PM_ThreadEnd :: "options \<Rightarrow> 'a pin_op \<Rightarrow> tid \<Rightarrow> 'a pin_op" where
  "PM_ThreadEnd c oct t s = do {
     s1 \<leftarrow> trace_info c (Some (''ThreadEnd by '' @ to_string t)) s;
     safe_assert (pm_status s1 = ENABLED);
     b \<leftarrow> aux0_isset 0 (aux0 (pm_env s1) Ends) t;
     safe_assert (\<not> b);
     r \<leftarrow> oct (s1\<lparr> pm_env := set0 Ends 1 t (pm_env s1) \<rparr>);
     (case r of Unwinds e s2 \<Rightarrow> Some (Unwinds e s2) | Stuck s2 \<Rightarrow> Some (Stuck s2)
      | Resumes s2 \<Rightarrow> do {
          b2 \<leftarrow> aux0_isset 0 (aux0 (pm_env s2) Ends) t;
          safe_assert b2;
          Some (Resumes s2) }) }"

definition PM_AtPc :: "options \<Rightarrow> 'a pin_op \<Rightarrow> tid \<Rightarrow> int \<Rightarrow> src_loc option \<Rightarrow> 'a pin_op" where
  "PM_AtPc c oct t pc loc s = do {
     s1 \<leftarrow> trace_info c (Some (''AtPc by '' @ to_string t @ '' at '' @ to_string pc)) s;
     let e = set0 AtPc 1 t (set0 Pc pc t (pm_env s1));
     oct (s1\<lparr> pm_env := e, pm_srcloc := loc \<rparr>) }"

text \<open>The dispatch on the kind of event.  The location pointers of the event are looked up in
  \<open>locs\<close>, and the symbol is the text before the first NUL of the buffer.\<close>

definition event_symbol :: "event \<Rightarrow> string" where
  "event_symbol e = map (\<lambda>b. char_of (unat b)) (takeWhile (\<lambda>b. b \<noteq> 0) (e_str e))"

definition CallPinMonitor :: "options \<Rightarrow> 'a pin_op \<Rightarrow> (nat \<Rightarrow> src_loc) \<Rightarrow> co option \<Rightarrow> event \<Rightarrow> 'a pin_op" where
  "CallPinMonitor c oct locs current e s = do {
     safe_assert (\<not> pm_down s);
     let k = e_type e;
     if k = AddressOfSymbol then do {
       s1 \<leftarrow> AddressOfSymbol_set (Some (event_symbol e)) (e_addr e) s; Some (Resumes s1) }
     else if \<not> pm_enabled s then Some (Resumes s)
     else do {
       co \<leftarrow> safe_notnull current;
       let t = co_tid co;
       safe_assert (t \<noteq> MAIN_TID);
       let src = map_option locs (e_loc_src e);
       if k = MemAccessBefore then PM_MemAccessBefore oct src s
       else if k = MemAccessAfter then PM_MemAccessAfter s
       else if k = MemWrite then PM_MemWrite c t (e_addr e) (e_size e) src s
       else if k = MemRead then PM_MemRead c t (e_addr e) (e_size e) src s
       else if k = FuncEnter then PM_FuncEnter c oct t (e_addr e) src (e_arg0 e) (e_arg1 e) s
       else if k = FuncReturn then PM_FuncReturn c oct t (e_addr e) src (e_retval e) s
       else if k = FuncCall then PM_FuncCall c oct t (e_addr e) (e_addr_target e) (e_direct e = 1) src
         (map_option locs (e_loc_target e)) (e_arg0 e) (e_arg1 e) s
       else if k = ThreadEnd then PM_ThreadEnd c oct t s
       else if k = AtPc_event then PM_AtPc c oct t (sint (e_pc e)) src s
       else None } }"

section \<open>The handlers called by the program\<close>

text \<open>The functions of the program's own instrumentation (instrument.cpp) go to the current handler:
  the default one does nothing, the one of the library does what follows.  \<open>who\<close> is the current
  coroutine with its group's scenario; a missing one aborts.  A location is built from the arguments.\<close>

definition here :: "string option \<Rightarrow> string option \<Rightarrow> int \<Rightarrow> src_loc" where
  "here filename funcname line = SourceLocation filename funcname line 0 (Some '''')"

datatype instr_call =
    IAddressOfSymbol "string option" addr
  | IStartTest
  | IEndTest
  | IEndSearch
  | IStartInstrument "string option" "string option" int
  | IEndInstrument "string option" "string option" int
  | IAtPc int "string option" "string option" int
  | IFuncEnter addr addr addr "string option" "string option" int
  | IFuncReturn addr addr "string option" "string option" int
  | IFuncCall addr addr addr addr "string option" "string option" int
  | IMemRead addr "64 word" "string option" "string option" int
  | IMemWrite addr "64 word" "string option" "string option" int
  | IMemAccessBefore "string option" "string option" int
  | IMemAccessAfter "string option" "string option" int
  | IThreadStart "string option" "string option" int
  | IThreadEnd "string option" "string option" int
  | ITriggerAssert string string string int

definition guarded :: "bool \<Rightarrow> 'a pin_op \<Rightarrow> 'a pin_op" where
  "guarded skip f s = (if skip then Some (Resumes s) else f s)"

definition manual_off :: "options \<Rightarrow> 'a pin_state_scheme \<Rightarrow> bool" where
  "manual_off c s \<longleftrightarrow> \<not> pm_enabled s \<or> \<not> ManualInstrEnabled c"

definition with_current :: "co option \<Rightarrow> (tid \<Rightarrow> 'a pin_op) \<Rightarrow> 'a pin_op" where
  "with_current who f s = do { co \<leftarrow> safe_notnull who; f (co_tid co) s }"

definition set_loc :: "string option \<Rightarrow> string option \<Rightarrow> int \<Rightarrow> 'a pin_state_scheme \<Rightarrow> 'a pin_state_scheme" where
  "set_loc filename funcname line s =
     (if filename \<noteq> None then s\<lparr> pm_srcloc := Some (here filename funcname line) \<rparr> else s)"

text \<open>\<open>end_test\<close> is EndWithBacktrack of the execution tree, which ends the path.  FinishControlledTransition
  resets the auxiliary state of the thread and enables it.\<close>

definition pin_FinishControlledTransition :: "tid \<Rightarrow> 'a pin_state_scheme \<Rightarrow> 'a pin_state_scheme" where
  "pin_FinishControlledTransition t s = s\<lparr> pm_env := AuxState_Reset t (pm_env s), pm_srcloc := None,
     pm_info := '''', pm_status := ENABLED \<rparr>"

fun handle_call :: "options \<Rightarrow> 'a pin_op \<Rightarrow> 'a pin_op \<Rightarrow> co option \<Rightarrow> instr_call \<Rightarrow> 'a pin_op" where
  "handle_call c oct end_test who (IAddressOfSymbol nm a) s =
     (if RunUncontrolled c then Some (Resumes s)
      else do { s1 \<leftarrow> AddressOfSymbol_set nm a s; Some (Resumes s1) })"
| "handle_call c oct end_test who IStartTest s =
     (if RunUncontrolled c then Some (Resumes s)
      else Some (Resumes (let s1 = Pin_Enable c s in s1\<lparr> pm_sem_test_start := pm_sem_test_start s1 + 1 \<rparr>)))"
| "handle_call c oct end_test who IEndTest s =
     (if RunUncontrolled c then Some (Resumes s) else end_test (Pin_Disable c s))"
| "handle_call c oct end_test who IEndSearch s = Some (Unwinds (TRIGGER_TERMINATE_SEARCH 0) s)"
| "handle_call c oct end_test who (IStartInstrument f g l) s =
     guarded (\<not> pm_enabled s \<or> RunUncontrolled c) (with_current who (\<lambda>t s.
       Some (Resumes (notify_pin ''StartInstrument'' (set_loc f g l s))))) s"
| "handle_call c oct end_test who (IEndInstrument f g l) s =
     guarded (\<not> pm_enabled s \<or> RunUncontrolled c) (with_current who (\<lambda>t s.
       Some (Resumes (pin_FinishControlledTransition t (notify_pin ''EndInstrument'' (set_loc f g l s)))))) s"
| "handle_call c oct end_test who (IAtPc pc f g l) s =
     guarded (\<not> pm_enabled s) (with_current who (\<lambda>t. PM_AtPc c oct t pc (Some (here f g l)))) s"
| "handle_call c oct end_test who (IFuncEnter a x y f g l) s =
     guarded (manual_off c s) (with_current who (\<lambda>t. PM_FuncEnter c oct t a (Some (here f g l)) x y)) s"
| "handle_call c oct end_test who (IFuncReturn a v f g l) s =
     guarded (manual_off c s) (with_current who (\<lambda>t. PM_FuncReturn c oct t a (Some (here f g l)) v)) s"
| "handle_call c oct end_test who (IFuncCall a b x y f g l) s =
     guarded (manual_off c s) (with_current who (\<lambda>t. PM_FuncCall c oct t a b True (Some (here f g l)) None x y)) s"
| "handle_call c oct end_test who (IMemRead a n f g l) s =
     guarded (manual_off c s) (with_current who (\<lambda>t. PM_MemRead c t a (ucast n) (Some (here f g l)))) s"
| "handle_call c oct end_test who (IMemWrite a n f g l) s =
     guarded (manual_off c s) (with_current who (\<lambda>t. PM_MemWrite c t a (ucast n) (Some (here f g l)))) s"
| "handle_call c oct end_test who (IMemAccessBefore f g l) s =
     guarded (manual_off c s) (with_current who (\<lambda>t. PM_MemAccessBefore oct (Some (here f g l)))) s"
| "handle_call c oct end_test who (IMemAccessAfter f g l) s =
     guarded (manual_off c s) (with_current who (\<lambda>t. PM_MemAccessAfter)) s"
| "handle_call c oct end_test who (IThreadStart f g l) s = Some (Resumes s)"
| "handle_call c oct end_test who (IThreadEnd f g l) s =
     guarded (manual_off c s) (with_current who (\<lambda>t s. PM_ThreadEnd c oct t (set_loc f g l s))) s"
| "handle_call c oct end_test who (ITriggerAssert expr f g l) s =
     Some (Unwinds (TRIGGER_ASSERTION_VIOLATION 0 expr f g l) s)"

definition instrument_call :: "bool \<Rightarrow> options \<Rightarrow> 'a pin_op \<Rightarrow> 'a pin_op \<Rightarrow> co option \<Rightarrow> instr_call \<Rightarrow> 'a pin_op" where
  "instrument_call installed c oct end_test who x s =
     (if installed then handle_call c oct end_test who x s else Some (Resumes s))"

section \<open>What the callbacks record\<close>

text \<open>A recorded value is read back and nothing else changes.\<close>

definition pin_ok :: "'a pin_state_scheme \<Rightarrow> bool" where
  "pin_ok s \<longleftrightarrow> env_ok (pm_env s)"

lemma set1_pin_step:
  fixes s :: "'a pin_state_scheme"
  assumes "pin_ok s" "k \<noteq> 0"
  shows "\<exists>e. set1_pin v k x t s = Some (s\<lparr> pm_env := e \<rparr>) \<and> env_ok e \<and> aux0 e = aux0 (pm_env s) \<and>
    (\<forall>w j u (s' :: 'a pin_state_scheme). j \<noteq> 0 \<longrightarrow> pm_env s' = e \<longrightarrow>
       get1_pin w j u s' = (if w = v \<and> j = k \<and> u = t then Some x else get1_pin w j u s))"
proof -
  let ?m = "aux1 (pm_env s) v"
  obtain m' where m': "aux1_set 0 0 ?m k x t = Some m'"
    using assms(2) by (simp add: aux1_set_Some)
  define e where "e = (pm_env s)\<lparr> aux1 := (aux1 (pm_env s))(v := m') \<rparr>"
  have set1: "set1 v k x t (pm_env s) = Some e" using m' by (simp add: set1_def e_def)
  have ok: "env_ok e" using set1_ok [OF _ set1] assms(1) by (simp add: pin_ok_def)
  have ok0: "aux1_ok 0 0 (aux1 (pm_env s) w)" "aux1_ok 0 0 (aux1 e w)" for w
    using assms(1) ok by (simp_all add: pin_ok_def env_ok_def)
  have m'_eq: "m' = ?m(t \<mapsto> (if x = 0 then mm_erase (case ?m t of None \<Rightarrow> [] | Some mm \<Rightarrow> mm) k
      else mm_put (case ?m t of None \<Rightarrow> [] | Some mm \<Rightarrow> mm) k x))"
    using m' assms(2) by (simp add: aux1_set_Some)
  have "get1_pin w j u s' = (if w = v \<and> j = k \<and> u = t then Some x else get1_pin w j u s)"
    if "j \<noteq> 0" "pm_env s' = e" for w j u and s' :: "'a pin_state_scheme"
    using that ok0 [of w] aux1_get_ok [of 0 0 "aux1 e w" j u] aux1_get_ok [of 0 0 "aux1 (pm_env s) w" j u]
    by (auto simp: get1_pin_def e_def m'_eq split: option.splits)
  then show ?thesis using set1 ok by (auto simp: set1_pin_def e_def)
qed

text \<open>What a callback does before its controlled transition: it changes the auxiliary variables and the
  location, and leaves the thread variables, the constants and the rest of the state alone.\<close>

definition recorded :: "'a pin_state_scheme \<Rightarrow> 'a pin_state_scheme \<Rightarrow> bool" where
  "recorded s s' \<longleftrightarrow> s' = s\<lparr> pm_env := pm_env s', pm_srcloc := pm_srcloc s' \<rparr> \<and>
     vars (pm_env s') = vars (pm_env s) \<and> cells (pm_env s') = cells (pm_env s)"

lemma recorded_set1: "set1_pin v k x t s = Some s' \<Longrightarrow> recorded s s'"
  by (auto simp: set1_pin_def set1_def recorded_def bind_eq_Some_conv)

lemma recorded_trans: "recorded s s1 \<Longrightarrow> recorded s1 s2 \<Longrightarrow> recorded s s2"
  unfolding recorded_def by (metis pin_state.surjective pin_state.update_convs(4,5))

lemma recorded_srcloc: "recorded s s1 \<Longrightarrow> recorded s (s1\<lparr> pm_srcloc := l \<rparr>)"
  unfolding recorded_def by (cases s; cases s1) auto

lemma get1_pin_cong: "pm_env s = pm_env s' \<Longrightarrow> get1_pin v k t s = get1_pin v k t s'"
  by (simp add: get1_pin_def)

lemma pin_ok_env [simp]: "pin_ok (s\<lparr> pm_env := e \<rparr>) \<longleftrightarrow> env_ok e" "pin_ok (s\<lparr> pm_srcloc := loc \<rparr>) \<longleftrightarrow> pin_ok s"
  by (simp_all add: pin_ok_def)

lemma get1_pin_upd [simp]: "get1_pin v k t (s\<lparr> pm_srcloc := loc \<rparr>) = get1_pin v k t s"
  by (simp add: get1_pin_def)

lemma set1_pinE:
  assumes "pin_ok s" "k \<noteq> 0"
  obtains s' where "set1_pin v k x t s = Some s'" "pin_ok s'"
    "\<And>w j u. j \<noteq> 0 \<Longrightarrow> get1_pin w j u s' = (if w = v \<and> j = k \<and> u = t then Some x else get1_pin w j u s)"
  using set1_pin_step [OF assms, of v x t] by auto

lemma FuncEnter_steps:
  assumes "pin_ok s" "a \<noteq> 0" "\<not> SaveExecutionTraceToFile c"
    and "get1_pin InFunc a t s = Some n" "n \<ge> 0" "get1_pin NumInFunc a t s = Some k" "k \<ge> 0"
  shows "\<exists>s'. PM_FuncEnter c oct t a loc x0 x1 s = oct s' \<and> pin_ok s' \<and> recorded s s' \<and> pm_srcloc s' = loc \<and>
    get1_pin Enters a t s' = Some 1 \<and>
    get1_pin InFunc a t s' = Some (n + 1) \<and> get1_pin NumInFunc a t s' = Some (k + 1) \<and>
    get1_pin Arg0 a t s' = Some (uint x0) \<and> get1_pin Arg1 a t s' = Some (uint x1) \<and>
    (\<forall>w j u. j \<noteq> 0 \<and> (j \<noteq> a \<or> u \<noteq> t) \<longrightarrow> get1_pin w j u s' = get1_pin w j u s)"
proof -
  note step = set1_pinE [OF _ assms(2), of _ _ _ t]
  obtain s1 where s1: "set1_pin Enters a 1 t s = Some s1" "pin_ok s1"
    "\<And>w j u. j \<noteq> 0 \<Longrightarrow> get1_pin w j u s1 = (if w = Enters \<and> j = a \<and> u = t then Some 1 else get1_pin w j u s)"
    using step [OF assms(1)] by metis
  obtain s2 where s2: "set1_pin InFunc a (n + 1) t s1 = Some s2" "pin_ok s2"
    "\<And>w j u. j \<noteq> 0 \<Longrightarrow> get1_pin w j u s2 = (if w = InFunc \<and> j = a \<and> u = t then Some (n + 1) else get1_pin w j u s1)"
    using step [OF s1(2)] by metis
  obtain s3 where s3: "set1_pin NumInFunc a (k + 1) t s2 = Some s3" "pin_ok s3"
    "\<And>w j u. j \<noteq> 0 \<Longrightarrow> get1_pin w j u s3 = (if w = NumInFunc \<and> j = a \<and> u = t then Some (k + 1) else get1_pin w j u s2)"
    using step [OF s2(2)] by metis
  obtain s4 where s4: "set1_pin Arg0 a (uint x0) t s3 = Some s4" "pin_ok s4"
    "\<And>w j u. j \<noteq> 0 \<Longrightarrow> get1_pin w j u s4 = (if w = Arg0 \<and> j = a \<and> u = t then Some (uint x0) else get1_pin w j u s3)"
    using step [OF s3(2)] by metis
  obtain s5 where s5: "set1_pin Arg1 a (uint x1) t s4 = Some s5" "pin_ok s5"
    "\<And>w j u. j \<noteq> 0 \<Longrightarrow> get1_pin w j u s5 = (if w = Arg1 \<and> j = a \<and> u = t then Some (uint x1) else get1_pin w j u s4)"
    using step [OF s4(2)] by metis
  have "PM_FuncEnter c oct t a loc x0 x1 s = oct (s5\<lparr> pm_srcloc := loc \<rparr>)"
    using s1 s2 s3 s4 s5 assms by (simp add: PM_FuncEnter_def trace_info_def)
  moreover have "recorded s (s5\<lparr> pm_srcloc := loc \<rparr>)"
    using recorded_set1 [OF s1(1)] recorded_set1 [OF s2(1)] recorded_set1 [OF s3(1)] recorded_set1 [OF s4(1)]
      recorded_set1 [OF s5(1)] recorded_trans recorded_srcloc by metis
  ultimately show ?thesis
    using s5(2) assms(2) by (intro exI [of _ "s5\<lparr> pm_srcloc := loc \<rparr>"]) (simp add: s1(3) s2(3) s3(3) s4(3) s5(3))
qed

lemma FuncReturn_records:
  assumes "pin_ok s" "a \<noteq> 0" "\<not> SaveExecutionTraceToFile c" "get1_pin InFunc a t s = Some n" "n > 0"
  shows "\<exists>s'. PM_FuncReturn c (\<lambda>s. Some (Resumes s)) t a loc v s = Some (Resumes s') \<and> pin_ok s' \<and>
    (\<forall>w j u. j \<noteq> 0 \<longrightarrow> get1_pin w j u s' = (if j = a \<and> u = t then
       (case w of aux1name.Returns \<Rightarrow> Some 1 | RetVal \<Rightarrow> Some (uint v) | InFunc \<Rightarrow> Some (n - 1)
        | Arg0 \<Rightarrow> Some 0 | Arg1 \<Rightarrow> Some 0 | _ \<Rightarrow> get1_pin w j u s) else get1_pin w j u s))"
proof -
  note step = set1_pinE [OF _ assms(2), of _ _ _ t]
  obtain s1 where s1: "set1_pin aux1name.Returns a 1 t s = Some s1" "pin_ok s1"
    "\<And>w j u. j \<noteq> 0 \<Longrightarrow> get1_pin w j u s1 = (if w = aux1name.Returns \<and> j = a \<and> u = t then Some 1 else get1_pin w j u s)"
    using step [OF assms(1)] by metis
  obtain s2 where s2: "set1_pin RetVal a (uint v) t s1 = Some s2" "pin_ok s2"
    "\<And>w j u. j \<noteq> 0 \<Longrightarrow> get1_pin w j u s2 = (if w = RetVal \<and> j = a \<and> u = t then Some (uint v) else get1_pin w j u s1)"
    using step [OF s1(2)] by metis
  let ?s = "s2\<lparr> pm_srcloc := loc \<rparr>"
  have ok: "pin_ok ?s" using s2(2) by simp
  obtain s3 where s3: "set1_pin InFunc a (n - 1) t ?s = Some s3" "pin_ok s3"
    "\<And>w j u. j \<noteq> 0 \<Longrightarrow> get1_pin w j u s3 = (if w = InFunc \<and> j = a \<and> u = t then Some (n - 1) else get1_pin w j u s2)"
    using step [OF ok] get1_pin_upd by metis
  obtain s4 where s4: "set1_pin Arg0 a 0 t s3 = Some s4" "pin_ok s4"
    "\<And>w j u. j \<noteq> 0 \<Longrightarrow> get1_pin w j u s4 = (if w = Arg0 \<and> j = a \<and> u = t then Some 0 else get1_pin w j u s3)"
    using step [OF s3(2)] by metis
  obtain s5 where s5: "set1_pin Arg1 a 0 t s4 = Some s5" "pin_ok s5"
    "\<And>w j u. j \<noteq> 0 \<Longrightarrow> get1_pin w j u s5 = (if w = Arg1 \<and> j = a \<and> u = t then Some 0 else get1_pin w j u s4)"
    using step [OF s4(2)] by metis
  have "get1_pin InFunc a t ?s = Some n" using assms(2,4) by (simp add: s1(3) s2(3))
  then have "PM_FuncReturn_after t a ?s = Some s5"
    using s3(1) s4(1) s5(1) assms(5) by (simp add: PM_FuncReturn_after_def)
  then have "PM_FuncReturn c (\<lambda>s. Some (Resumes s)) t a loc v s = Some (Resumes s5)"
    using s1(1) s2(1) assms(3) by (simp add: PM_FuncReturn_def trace_info_def)
  then show ?thesis
    using s5(2) assms(2) by (intro exI [of _ s5]) (simp add: s1(3) s2(3) s3(3) s4(3) s5(3) split: aux1name.splits)
qed

text \<open>A FuncEnter callback followed by the FuncReturn callback of the same function and
  thread leaves the nesting count InFunc as it was and the arguments unset, counts the call in
  NumInFunc and records the returned value.\<close>

lemma enter_return_balanced:
  assumes "pin_ok s" "a \<noteq> 0" "\<not> SaveExecutionTraceToFile c"
    and "get1_pin InFunc a t s = Some n" "n \<ge> 0" "get1_pin NumInFunc a t s = Some k" "k \<ge> 0"
  shows "\<exists>s1 s2. PM_FuncEnter c (\<lambda>s. Some (Resumes s)) t a loc x0 x1 s = Some (Resumes s1) \<and>
    PM_FuncReturn c (\<lambda>s. Some (Resumes s)) t a loc v s1 = Some (Resumes s2) \<and>
    get1_pin InFunc a t s2 = Some n \<and> get1_pin NumInFunc a t s2 = Some (k + 1) \<and>
    get1_pin Arg0 a t s2 = Some 0 \<and> get1_pin Arg1 a t s2 = Some 0 \<and>
    get1_pin RetVal a t s2 = Some (uint v)"
proof -
  obtain s1 where s1: "PM_FuncEnter c (\<lambda>s. Some (Resumes s)) t a loc x0 x1 s = Some (Resumes s1)" "pin_ok s1"
    "get1_pin InFunc a t s1 = Some (n + 1)" "get1_pin NumInFunc a t s1 = Some (k + 1)"
    using FuncEnter_steps [OF assms, of "\<lambda>s. Some (Resumes s)" loc x0 x1] by auto
  from FuncReturn_records [OF s1(2) assms(2,3) s1(3), of loc v] assms(5)
  obtain s2 where s2: "PM_FuncReturn c (\<lambda>s. Some (Resumes s)) t a loc v s1 = Some (Resumes s2)"
    "\<And>w j u. j \<noteq> 0 \<Longrightarrow> get1_pin w j u s2 = (if j = a \<and> u = t then
       (case w of aux1name.Returns \<Rightarrow> Some 1 | RetVal \<Rightarrow> Some (uint v) | InFunc \<Rightarrow> Some (n + 1 - 1)
        | Arg0 \<Rightarrow> Some 0 | Arg1 \<Rightarrow> Some 0 | _ \<Rightarrow> get1_pin w j u s1) else get1_pin w j u s1)"
    by (auto simp del: add_diff_cancel_right')
  show ?thesis using s1 s2(1) s2(2) [OF assms(2)] by (intro exI [of _ s1] exI [of _ s2]) simp
qed

definition pin_start :: pin_state where
  "pin_start = \<lparr> pm_enabled = True, pm_down = False, pm_symbols = Map.empty, pm_env = AuxState_Init,
     pm_srcloc = None, pm_info = '''', pm_status = PASSIVE, pm_sem_test_start = 0, pm_pintool = [] \<rparr>"

lemma pin_start_ok: "pin_ok pin_start"
  by (simp add: pin_ok_def pin_start_def AuxState_Init_ok)

lemma pin_start_get1: "k \<noteq> 0 \<Longrightarrow> get1_pin v k t pin_start = Some 0"
  by (simp add: get1_pin_def pin_start_def aux1_get_def AuxState_Init_def)

lemma enter_return_balanced_example:
  "\<exists>s1 s2. PM_FuncEnter default_options (\<lambda>s. Some (Resumes s)) 1 64 None 7 8 pin_start = Some (Resumes s1) \<and>
    PM_FuncReturn default_options (\<lambda>s. Some (Resumes s)) 1 64 None 9 s1 = Some (Resumes s2) \<and>
    get1_pin InFunc 64 1 s2 = Some 0 \<and> get1_pin NumInFunc 64 1 s2 = Some (0 + 1) \<and>
    get1_pin Arg0 64 1 s2 = Some 0 \<and> get1_pin Arg1 64 1 s2 = Some 0 \<and>
    get1_pin RetVal 64 1 s2 = Some (uint (9 :: addr))"
  by (rule enter_return_balanced) (simp_all add: pin_start_ok pin_start_get1 default_options_def)

text \<open>FuncCall records the caller and the callee for thread -1 instead of the calling
  thread: of every real thread the auxiliary variables CallsFrom and CallsTo stay as they were.\<close>

lemma FuncCall_misses_caller:
  assumes "pin_ok s" "src \<noteq> 0" "target \<noteq> 0" "\<not> SaveExecutionTraceToFile c" "t > 0"
  shows "\<exists>s'. PM_FuncCall c oct t src target direct (Some l1) (Some l2) x0 x1 s = oct s' \<and>
    get1_pin CallsFrom src (-1) s' = Some 1 \<and> get1_pin CallsTo target (-1) s' = Some 1 \<and>
    (\<forall>u j. u \<noteq> -1 \<and> j \<noteq> 0 \<longrightarrow> get1_pin CallsFrom j u s' = get1_pin CallsFrom j u s
       \<and> get1_pin CallsTo j u s' = get1_pin CallsTo j u s)"
proof -
  obtain s1 where s1: "set1_pin CallsFrom src 1 (-1) s = Some s1" "pin_ok s1"
    "\<And>w j u. j \<noteq> 0 \<Longrightarrow> get1_pin w j u s1 = (if w = CallsFrom \<and> j = src \<and> u = -1 then Some 1 else get1_pin w j u s)"
    using set1_pinE [OF assms(1,2), of CallsFrom 1 "-1"] by metis
  obtain s2 where s2: "set1_pin CallsTo target 1 (-1) s1 = Some s2" "pin_ok s2"
    "\<And>w j u. j \<noteq> 0 \<Longrightarrow> get1_pin w j u s2 = (if w = CallsTo \<and> j = target \<and> u = -1 then Some 1 else get1_pin w j u s1)"
    using set1_pinE [OF s1(2) assms(3), of CallsTo 1 "-1"] by metis
  obtain s3 where s3: "set1_pin Arg0 target (uint x0) t s2 = Some s3" "pin_ok s3"
    "\<And>w j u. j \<noteq> 0 \<Longrightarrow> get1_pin w j u s3 = (if w = Arg0 \<and> j = target \<and> u = t then Some (uint x0) else get1_pin w j u s2)"
    using set1_pinE [OF s2(2) assms(3), of Arg0 "uint x0" t] by metis
  obtain s4 where s4: "set1_pin Arg1 target (uint x1) t s3 = Some s4" "pin_ok s4"
    "\<And>w j u. j \<noteq> 0 \<Longrightarrow> get1_pin w j u s4 = (if w = Arg1 \<and> j = target \<and> u = t then Some (uint x1) else get1_pin w j u s3)"
    using set1_pinE [OF s3(2) assms(3), of Arg1 "uint x1" t] by metis
  have "PM_FuncCall c oct t src target direct (Some l1) (Some l2) x0 x1 s = oct (s4\<lparr> pm_srcloc := Some l1 \<rparr>)"
    using s1(1) s2(1) s3(1) s4(1) assms(4,5) by (simp add: PM_FuncCall_def trace_info_def)
  then show ?thesis
    using assms(2,3) by (intro exI [of _ "s4\<lparr> pm_srcloc := Some l1 \<rparr>"]) (simp add: s1(3) s2(3) s3(3) s4(3))
qed

lemma FuncCall_misses_caller_example:
  "\<exists>s'. PM_FuncCall default_options (\<lambda>s. Some (Resumes s)) 1 64 128 True (Some (here None None 1))
      (Some (here None None 2)) 7 8 pin_start = Some (Resumes s') \<and>
    get1_pin CallsFrom 64 (-1) s' = Some 1 \<and> get1_pin CallsFrom 64 1 s' = Some 0"
  using FuncCall_misses_caller [OF pin_start_ok, of 64 128 default_options 1 "\<lambda>s. Some (Resumes s)" True
      "here None None 1" "here None None 2" 7 8]
  by (auto simp: pin_start_get1 default_options_def)

lemma FuncCallEx_aborts:
  assumes "\<not> manual_off c s"
  shows "handle_call c oct end_test who (IFuncCall a b x y f g l) s = None"
  using assms by (cases who) (auto simp: guarded_def with_current_def PM_FuncCall_def safe_notnull_def safe_assert_def)

end
