(* ===== verification/Tree_Rep.thy ===== *)
theory Tree_Rep
  imports Tree_Manager "HOL-Library.Multiset"
begin

text \<open>
  The abstract execution tree and its representation on the heap.

  An abstract tree is an unexplored branch (\<open>XU\<close>, a NULL child), a finished branch (\<open>XE\<close>, a child
  that is the end node) or a node.  \<open>rep h p x\<close> says that the heap holds the nodes of \<open>x\<close> under the
  parent \<open>p\<close>, with their child arrays and parent fields.  A path is a list of child indices; the
  locations along a path are what the node stack of the manager holds.
\<close>

section \<open>Abstract trees\<close>

datatype xt = XU | XE | XN noderef nat node_kind bool "xt list"

fun ptr :: "xt \<Rightarrow> noderef option" where
  "ptr XU = None"
| "ptr XE = Some ENDNODE"
| "ptr (XN r s k c xs) = Some r"

fun covd :: "xt \<Rightarrow> bool" where
  "covd XU = False"
| "covd XE = True"
| "covd (XN r s k c xs) = c"

fun refs :: "xt \<Rightarrow> noderef list" where
  "refs XU = []"
| "refs XE = []"
| "refs (XN r s k c xs) = r # concat (map refs xs)"

fun sub :: "xt \<Rightarrow> nat list \<Rightarrow> xt" where
  "sub x [] = x"
| "sub (XN r s k c xs) (i # is) = sub (xs ! i) is"
| "sub x (i # is) = x"

fun valid_path :: "xt \<Rightarrow> nat list \<Rightarrow> bool" where
  "valid_path x [] = True"
| "valid_path (XN r s k c xs) (i # is) = (i < length xs \<and> valid_path (xs ! i) is)"
| "valid_path x (i # is) = False"

fun put_sub :: "xt \<Rightarrow> nat list \<Rightarrow> xt \<Rightarrow> xt" where
  "put_sub x [] y = y"
| "put_sub (XN r s k c xs) (i # is) y = XN r s k c (xs[i := put_sub (xs ! i) is y])"
| "put_sub x (i # is) y = x"

fun locs :: "xt \<Rightarrow> nat list \<Rightarrow> child_loc list" where
  "locs x [] = []"
| "locs (XN r s k c xs) (i # is) = Loc (Some r) (int i) # locs (xs ! i) is"
| "locs x (i # is) = []"

definition node_of :: "noderef option \<Rightarrow> xt \<Rightarrow> node" where
  "node_of p x = (case x of XN r s k c xs \<Rightarrow>
     \<lparr>n_info = s, n_parent = p, n_children = map ptr xs, n_covered = c, n_kind = k\<rparr>)"

fun rep :: "(noderef \<Rightarrow> node option) \<Rightarrow> noderef option \<Rightarrow> xt \<Rightarrow> bool" where
  "rep h p XU = True"
| "rep h p XE = True"
| "rep h p (XN r s k c xs) =
     (h r = Some (node_of p (XN r s k c xs)) \<and> (\<forall>x \<in> set xs. rep h (Some r) x))"

lemma node_of_XN [simp]: "node_of p (XN r s k c xs) =
   \<lparr>n_info = s, n_parent = p, n_children = map ptr xs, n_covered = c, n_kind = k\<rparr>"
  by (simp add: node_of_def)

lemma rep_cong: "(\<And>r. r \<in> set (refs x) \<Longrightarrow> h r = h' r) \<Longrightarrow> rep h p x = rep h' p x"
proof (induction x arbitrary: p)
  case (XN r s k c xs)
  have "h r = h' r" using XN.prems by simp
  moreover have "rep h (Some r) x = rep h' (Some r) x" if "x \<in> set xs" for x
    using that XN.prems by (intro XN.IH) auto
  ultimately show ?case by simp
qed auto

lemma rep_upd_other: "r \<notin> set (refs x) \<Longrightarrow> rep (h(r := v)) p x = rep h p x"
  by (rule rep_cong) auto

section \<open>Paths\<close>

lemma length_locs [simp]: "valid_path x d \<Longrightarrow> length (locs x d) = length d"
  by (induction x d rule: locs.induct) auto

lemma sub_append: "valid_path x d \<Longrightarrow> sub x (d @ e) = sub (sub x d) e"
  by (induction x d rule: valid_path.induct) auto

lemma valid_append: "valid_path x (d @ e) \<longleftrightarrow> valid_path x d \<and> valid_path (sub x d) e"
  by (induction x d rule: valid_path.induct) auto

lemma locs_append: "valid_path x d \<Longrightarrow> locs x (d @ e) = locs x d @ locs (sub x d) e"
  by (induction x d rule: valid_path.induct) auto

lemma put_append: "valid_path x d \<Longrightarrow> put_sub x (d @ e) y = put_sub x d (put_sub (sub x d) e y)"
  by (induction x d rule: valid_path.induct) auto

lemma sub_put [simp]: "valid_path x d \<Longrightarrow> sub (put_sub x d y) d = y"
  by (induction x d rule: valid_path.induct) auto

lemma put_sub_id: "valid_path x d \<Longrightarrow> put_sub x d (sub x d) = x"
  by (induction x d rule: valid_path.induct) auto

lemma put_put [simp]: "valid_path x d \<Longrightarrow> put_sub (put_sub x d y) d z = put_sub x d z"
  by (induction x d rule: valid_path.induct) auto

lemma valid_put [simp]: "valid_path x d \<Longrightarrow> valid_path (put_sub x d y) d"
  by (induction x d rule: valid_path.induct) auto

lemma locs_put [simp]: "valid_path x d \<Longrightarrow> locs (put_sub x d y) d = locs x d"
  by (induction x d rule: valid_path.induct) auto

lemma valid_take: "valid_path x d \<Longrightarrow> valid_path x (take n d)"
  by (metis append_take_drop_id valid_append)

lemma locs_take: "valid_path x d \<Longrightarrow> locs x (take n d) = take n (locs x d)"
  by (induction x d arbitrary: n rule: valid_path.induct) (auto simp: take_Cons split: nat.splits)

lemma sub_take_Suc:
  assumes "valid_path x d" "n < length d"
  obtains r s k c xs where "sub x (take n d) = XN r s k c xs" "d ! n < length xs"
    "sub x (take (Suc n) d) = xs ! (d ! n)" "locs x d ! n = Loc (Some r) (int (d ! n))"
proof -
  have d: "d = take n d @ d ! n # drop (Suc n) d"
    using assms(2) by (simp add: id_take_nth_drop)
  have v: "valid_path x (take n d)" "valid_path (sub x (take n d)) (d ! n # drop (Suc n) d)"
    using assms(1) valid_append [of x "take n d" "d ! n # drop (Suc n) d"] d by auto
  then obtain r s k c xs where n: "sub x (take n d) = XN r s k c xs" "d ! n < length xs"
    by (cases "sub x (take n d)") auto
  have "sub x (take (Suc n) d) = xs ! (d ! n)"
    using v(1) n assms(2) by (simp add: take_Suc_conv_app_nth sub_append)
  moreover have "locs x d ! n = Loc (Some r) (int (d ! n))"
  proof -
    have "locs x d = locs x (take n d) @ locs (XN r s k c xs) (d ! n # drop (Suc n) d)"
      using d n v(1) locs_append by metis
    moreover have "length (locs x (take n d)) = n" using v(1) assms(2) by simp
    ultimately show ?thesis by (simp add: nth_append)
  qed
  ultimately show ?thesis using n that by blast
qed

lemma sub_refs: "valid_path x d \<Longrightarrow> set (refs (sub x d)) \<subseteq> set (refs x)"
  by (induction x d rule: valid_path.induct) (auto dest: nth_mem)

lemma concat_refs_split:
  assumes "i < length xs"
  shows "concat (map refs xs) = concat (map refs (take i xs)) @ refs (xs ! i) @ concat (map refs (drop (Suc i) xs))"
  by (subst id_take_nth_drop [OF assms]) simp

lemma distinct_refs_other:
  assumes "distinct (concat (map refs xs))" "i < length xs" "j < length xs" "i \<noteq> j" "r \<in> set (refs (xs ! i))"
  shows "r \<notin> set (refs (xs ! j))"
  using assms
proof (induction xs arbitrary: i j)
  case (Cons x xs)
  show ?case
  proof (cases i; cases j)
    fix j' assume "i = 0" "j = Suc j'"
    with Cons.prems have "xs ! j' \<in> set xs" "set (refs x) \<inter> set (concat (map refs xs)) = {}" "r \<in> set (refs x)"
      by auto
    with \<open>j = Suc j'\<close> show ?thesis by auto
  next
    fix i' assume "i = Suc i'" "j = 0"
    with Cons.prems have "xs ! i' \<in> set xs" "set (refs x) \<inter> set (concat (map refs xs)) = {}"
      "r \<in> set (refs (xs ! i'))" by auto
    with \<open>j = 0\<close> show ?thesis by auto
  next
    fix i' j' assume "i = Suc i'" "j = Suc j'"
    with Cons.prems Cons.IH [of i' j'] show ?thesis by simp
  qed (use Cons.prems in auto)
qed simp

lemma distinct_sub: "valid_path x d \<Longrightarrow> distinct (refs x) \<Longrightarrow> distinct (refs (sub x d))"
proof (induction x d rule: valid_path.induct)
  case (2 r s k c xs i "is")
  then have "distinct (refs (xs ! i))" using concat_refs_split [of i xs] by auto
  with 2 show ?case by simp
qed auto

lemma rep_sub:
  assumes "rep h p x" "valid_path x d" "sub x d = XN r s k c xs"
  shows "\<exists>q. h r = Some (node_of q (XN r s k c xs)) \<and> (\<forall>y \<in> set xs. rep h (Some r) y)
     \<and> (d = [] \<longrightarrow> q = p) \<and> (d \<noteq> [] \<longrightarrow> q = cl_parent (last (locs x d)))"
  using assms
proof (induction x d arbitrary: p rule: valid_path.induct)
  case (2 r' s' k' c' xs' i "is")
  then have "rep h (Some r') (xs' ! i)" "valid_path (xs' ! i) is" "sub (xs' ! i) is = XN r s k c xs"
    by auto
  from "2.IH" [OF this] show ?case
  proof (cases "is = []")
    case True
    with \<open>rep h (Some r') (xs' ! i)\<close> \<open>sub (xs' ! i) is = XN r s k c xs\<close>
    have "rep h (Some r') (XN r s k c xs)" by simp
    with True show ?thesis by (simp add: Loc_def)
  next
    case False
    hence "locs (xs' ! i) is \<noteq> []"
      using \<open>valid_path (xs' ! i) is\<close> by (metis length_0_conv length_locs)
    with False 2 \<open>rep h (Some r') (xs' ! i)\<close> show ?thesis
      using "2.IH" [OF \<open>rep h (Some r') (xs' ! i)\<close> \<open>valid_path (xs' ! i) is\<close> \<open>sub (xs' ! i) is = XN r s k c xs\<close>]
      by auto
  qed
qed auto

text \<open>Replacing a subtree: only the child array of the node above changes.\<close>

lemma rep_put:
  assumes "rep h p x" "distinct (refs x)" "valid_path x d" "sub x d = XN r s k c xs" "i < length xs"
    "h' = h(r := Some (\<lparr>n_info = s, n_parent = q, n_children = (map ptr xs)[i := ptr y], n_covered = c', n_kind = k\<rparr>))"
    "h r = Some (node_of q (XN r s k c xs))" "rep h' (Some r) y"
  shows "rep h' p (put_sub x d (XN r s k c' (xs[i := y])))"
  using assms
proof (induction x d arbitrary: p rule: valid_path.induct)
  case (1 x)
  then have x: "x = XN r s k c xs" by simp
  have r: "r \<notin> set (refs (xs ! j))" if "j < length xs" for j
    using 1 that by (auto simp: x dest: nth_mem)
  have "rep h' (Some r) z" if "z \<in> set (xs[i := y])" for z
  proof -
    from that obtain j where j: "j < length xs" "z = xs[i := y] ! j" by (auto simp: in_set_conv_nth)
    show ?thesis
    proof (cases "j = i")
      case True
      with j 1 show ?thesis by simp
    next
      case False
      with j have z: "z = xs ! j" by simp
      with j have "rep h (Some r) z" using 1 x by (auto dest: nth_mem)
      thus ?thesis using r [OF j(1)] unfolding z 1(6) by (simp only: rep_upd_other not_False_eq_True)
    qed
  qed
  moreover have "q = p" using 1 x by auto
  ultimately show ?case using 1 by (simp add: map_update)
next
  case (2 r0 s0 k0 c0 xs0 j "is")
  have v: "j < length xs0" "valid_path (xs0 ! j) is" "sub (xs0 ! j) is = XN r s k c xs"
    using 2 by auto
  have rj: "r \<in> set (refs (xs0 ! j))"
    using sub_refs [OF v(2)] v(3) by auto
  have d: "distinct (concat (map refs xs0))" "r0 \<notin> set (concat (map refs xs0))" using 2 by auto
  have "refs (xs0 ! j) \<in> set (map refs xs0)" using v by simp
  hence ne: "r \<noteq> r0" using rj d(2) by auto
  have dj: "distinct (refs (xs0 ! j))" using concat_refs_split [OF v(1)] d(1) by auto
  have "rep h (Some r0) (xs0 ! j)" using 2 v by auto
  from "2.IH" [OF this dj v(2,3) "2.prems"(5-8)]
  have IH: "rep h' (Some r0) (put_sub (xs0 ! j) is (XN r s k c' (xs[i := y])))" .
  have "rep h' (Some r0) z"
    if "z \<in> set (xs0[j := put_sub (xs0 ! j) is (XN r s k c' (xs[i := y]))])" for z
  proof -
    from that obtain l where l: "l < length xs0"
      "z = xs0[j := put_sub (xs0 ! j) is (XN r s k c' (xs[i := y]))] ! l" by (auto simp: in_set_conv_nth)
    show ?thesis
    proof (cases "l = j")
      case True
      with l IH show ?thesis by simp
    next
      case False
      with l have z: "z = xs0 ! l" by simp
      have "r \<notin> set (refs z)" using distinct_refs_other [OF d(1) v(1) l(1) _ rj] False z by simp
      moreover have "rep h (Some r0) z" unfolding z using "2.prems"(1) nth_mem [OF l(1)] by simp
      ultimately show ?thesis unfolding "2.prems"(6) by (simp only: rep_upd_other not_False_eq_True)
    qed
  qed
  moreover have "h' r0 = h r0" using 2 ne by simp
  moreover have "ptr (put_sub (xs0 ! j) is (XN r s k c' (xs[i := y]))) = ptr (xs0 ! j)"
    using v(2,3) by (cases "is"; cases "xs0 ! j") auto
  hence "map ptr (xs0[j := put_sub (xs0 ! j) is (XN r s k c' (xs[i := y]))]) = map ptr xs0"
    using v(1) by (metis list_update_id map_update nth_map length_map)
  ultimately show ?case using 2 by simp
qed auto

section \<open>Destruction of a represented subtree\<close>

definition heap_minus :: "(noderef \<Rightarrow> node option) \<Rightarrow> noderef set \<Rightarrow> noderef \<Rightarrow> node option" where
  "heap_minus h R = (\<lambda>r. if r \<in> R then None else h r)"

text \<open>Deleting a list of represented trees frees exactly their nodes.\<close>

fun tsize :: "xt \<Rightarrow> nat" where
  "tsize XU = 1"
| "tsize XE = 1"
| "tsize (XN r s k c xs) = Suc (sum_list (map tsize xs))"

fun no_end :: "xt \<Rightarrow> bool" where
  "no_end XU = True"
| "no_end XE = True"
| "no_end (XN r s k c xs) = (k \<noteq> KEnd \<and> (\<forall>x \<in> set xs. no_end x))"

lemma tsize_pos: "0 < tsize x"
  by (cases x) auto

lemma delete_list_Nil [simp]: "delete_list [] t = Some t"
  by (subst delete_list.simps) simp

lemma delete_list_None [simp]: "delete_list (None # rs) t = delete_list rs t"
  by (subst delete_list.simps) simp

lemma delete_list_end:
  "heap t r = Some nd \<Longrightarrow> n_kind nd = KEnd \<Longrightarrow> delete_list (Some r # rs) t = delete_list rs t"
  by (subst delete_list.simps) (simp add: is_end_kind_def)

lemma delete_list_node:
  "heap t r = Some nd \<Longrightarrow> n_kind nd \<noteq> KEnd \<Longrightarrow>
   delete_list (Some r # rs) t = delete_list (n_children nd @ rs) (t\<lparr>heap := (heap t)(r := None)\<rparr>)"
  by (subst delete_list.simps) (simp add: is_end_kind_def)

lemma delete_represented:
  assumes "\<And>x. x \<in> set xs \<Longrightarrow> \<exists>p. rep (heap t) p x" "distinct (concat (map refs xs))"
    "\<And>x. x \<in> set xs \<Longrightarrow> no_end x"
    "heap t ENDNODE = Some en" "n_kind en = KEnd" "ENDNODE \<notin> set (concat (map refs xs))"
  shows "delete_list (map ptr xs) (t :: 'a tree_state_scheme)
     = Some (t\<lparr>heap := heap_minus (heap t) (set (concat (map refs xs)))\<rparr>)"
  using assms
proof (induction "sum_list (map tsize xs)" arbitrary: xs t rule: less_induct)
  case less
  show ?case
  proof (cases xs)
    case Nil
    then show ?thesis by (simp add: heap_minus_def)
  next
    case (Cons x ys)
    show ?thesis
    proof (cases x)
      case XU
      have "delete_list (map ptr ys) t = Some (t\<lparr>heap := heap_minus (heap t) (set (concat (map refs ys)))\<rparr>)"
        using less Cons XU by (intro less.hyps) auto
      with Cons XU show ?thesis by simp
    next
      case XE
      have "delete_list (map ptr ys) t = Some (t\<lparr>heap := heap_minus (heap t) (set (concat (map refs ys)))\<rparr>)"
        using less Cons XE by (intro less.hyps) auto
      with Cons XE show ?thesis using less.prems delete_list_end [of t ENDNODE en "map ptr ys"] by simp
    next
      case (XN r s k c zs)
      obtain p where rp: "rep (heap t) p (XN r s k c zs)" using less.prems(1) Cons XN by (meson list.set_intros(1))
      hence hr: "heap t r = Some (node_of p (XN r s k c zs))" by simp
      have k: "k \<noteq> KEnd" using less.prems(3) Cons XN by fastforce
      let ?t = "t\<lparr>heap := (heap t)(r := None)\<rparr>"
      have dist: "distinct (concat (map refs (zs @ ys)))" "r \<notin> set (concat (map refs (zs @ ys)))"
        using less.prems(2) Cons XN by auto
      have "delete_list (map ptr (zs @ ys)) ?t
          = Some (?t\<lparr>heap := heap_minus (heap ?t) (set (concat (map refs (zs @ ys))))\<rparr>)"
      proof (rule less.hyps)
        show "sum_list (map tsize (zs @ ys)) < sum_list (map tsize xs)"
          using Cons XN by simp
        show "\<exists>p. rep (heap ?t) p x" if "x \<in> set (zs @ ys)" for x
        proof -
          have "r \<notin> set (refs x)" using dist(2) that by auto
          moreover have "\<exists>p. rep (heap t) p x"
            using that rp less.prems(1) Cons by (auto simp: rep.simps)
          ultimately show ?thesis by (simp add: rep_upd_other)
        qed
        show "distinct (concat (map refs (zs @ ys)))" by (rule dist)
        show "no_end x" if "x \<in> set (zs @ ys)" for x
          using that less.prems(3) Cons XN by fastforce
        show "heap ?t ENDNODE = Some en" using less.prems(4,6) Cons XN by auto
        show "n_kind en = KEnd" by (rule less.prems(5))
        show "ENDNODE \<notin> set (concat (map refs (zs @ ys)))" using less.prems(6) Cons XN by auto
      qed
      moreover have "?t\<lparr>heap := heap_minus (heap ?t) (set (concat (map refs (zs @ ys))))\<rparr>
          = t\<lparr>heap := heap_minus (heap t) (set (concat (map refs xs)))\<rparr>"
        using Cons XN by (auto simp: heap_minus_def fun_eq_iff)
      ultimately show ?thesis
        using Cons XN hr k delete_list_node [of t r _ "map ptr ys"] by simp
    qed
  qed
qed

lemma delete_node_represented:
  assumes "rep (heap t) p x" "x = XN r s k c xs" "distinct (refs x)" "no_end x"
    "heap t ENDNODE = Some en" "n_kind en = KEnd" "ENDNODE \<notin> set (refs x)"
  shows "delete_node r t = Some (t\<lparr>heap := heap_minus (heap t) (set (refs x))\<rparr>)"
proof -
  have "delete_list (map ptr [x]) t = Some (t\<lparr>heap := heap_minus (heap t) (set (concat (map refs [x])))\<rparr>)"
    using assms by (intro delete_represented) auto
  with assms show ?thesis by (simp add: delete_node_def is_end_kind_def)
qed

end
