(* ===== verification/Scenario_DSL.thy ===== *)
theory Scenario_DSL
  imports Tree_Manager "HOL-Library.AList"
begin

text \<open>
  The script operations of scenario.cpp that the main thread runs: \<open>DSLChoice\<close>,
  \<open>DSLConditional\<close>, \<open>DSLRunThrough\<close>, \<open>DSLRunUntil\<close>, \<open>DSLForallThread\<close> and \<open>DSLExistsThread\<close>.

  \<open>rnd\<close> is the random generator; \<open>es\<close>, \<open>es2\<close> are what the other threads do while main waits;
  \<open>all_ended\<close> is \<open>group_.IsAllEnded()\<close>.
\<close>

section \<open>Choices and conditionals\<close>

text \<open>The branch: the one on the stack, else the uncovered one, else random or true.\<close>

definition choose_branch :: "(mgr \<Rightarrow> bool) \<Rightarrow> noderef \<Rightarrow> int \<Rightarrow> mgr \<Rightarrow> int option" where
  "choose_branch rnd r ret m =
     (if ret < 0 then do {
        cov_0 \<leftarrow> child_covered m r 0;
        cov_1 \<leftarrow> child_covered m r 1;
        safe_assert (\<not> cov_0 \<or> \<not> cov_1);
        (if \<not> cov_0 \<and> \<not> cov_1 then do {
           nd \<leftarrow> heap m r;
           n \<leftarrow> sc_nondet m (n_info nd);
           Some (if n then (if rnd m then 1 else 0) else 1) }
         else Some (if \<not> cov_0 then 0 else 1)) }
      else Some ret)"

text \<open>The rest of \<open>DSLChoice\<close> once the node is known.\<close>

definition DSLChoice_at :: "(mgr \<Rightarrow> bool) \<Rightarrow> co \<Rightarrow> noderef \<Rightarrow> mgr \<Rightarrow> (bool outcome \<times> mgr) option" where
  "DSLChoice_at rnd c r m = do {
     cov \<leftarrow> covered m r;
     safe_assert (\<not> cov);
     loc \<leftarrow> GetNextNodeInStack m;
     let ret0 = cl_index loc;
     safe_assert (BETWEEN (-1) ret0 1);
     safe_assert ((ret0 < 0 \<and> cl_parent loc = None) \<or> cl_parent loc = Some r);
     ret \<leftarrow> choose_branch rnd r ret0 m;
     cc \<leftarrow> child_covered m r ret;
     safe_assert (\<not> cc);
     base_OnConsumed m r ret;
     m1 \<leftarrow> ReleaseRef c (Some r) ret m;
     Some (Returns (ret = 1), m1) }"

definition set_message :: "nat \<Rightarrow> string option \<Rightarrow> mgr \<Rightarrow> mgr" where
  "set_message s msg m = (case msg of None \<Rightarrow> m
     | Some x \<Rightarrow> m\<lparr>sinfo := (sinfo m)(s := (sinfo m s)\<lparr>si_message := x\<rparr>)\<rparr>)"

definition DSLChoice ::
  "(mgr \<Rightarrow> bool) \<Rightarrow> co \<Rightarrow> (mgr \<Rightarrow> mgr) list \<Rightarrow> nat \<Rightarrow> string option \<Rightarrow> mgr \<Rightarrow> (bool outcome \<times> mgr) option" where
  "DSLChoice rnd c es s msg m =
     and_then (AcquireRefEx EXIT_ON_EMPTY c es (set_message s msg m)) (\<lambda>n m1. do {
       safe_assert (n = None);
       loc \<leftarrow> GetNextNodeInStack m1;
       (case cl_parent loc of
          Some r \<Rightarrow> do {
            nd \<leftarrow> heap m1 r;
            safe_assert (n_kind nd = KChoice);
            (cov, m2) \<leftarrow> ComputeCoverage 0 m1 r;
            (if cov then do { m3 \<leftarrow> ReleaseRef c None (-1) m2; Some (throw_backtrack TREENODE_COVERED m3) }
             else DSLChoice_at rnd c r m2) }
        | None \<Rightarrow> (let (r, m2) = new_node s KChoice m1 in DSLChoice_at rnd c r m2)) })"

definition DSLConditional_at :: "co \<Rightarrow> noderef \<Rightarrow> bool \<Rightarrow> mgr \<Rightarrow> (bool outcome \<times> mgr) option" where
  "DSLConditional_at c r v m = do {
     nd \<leftarrow> heap m r;
     safe_assert (\<not> n_covered nd);
     loc \<leftarrow> GetNextNodeInStack m;
     let child_index = cl_index loc;
     safe_assert (child_index = -1 \<or> child_index = 0);
     safe_assert ((child_index < 0 \<and> cl_parent loc = None) \<or> cl_parent loc = Some r);
     (if n_kind nd \<noteq> KConditional v then do {
        m1 \<leftarrow> ReleaseRef c None (-1) m;
        Some (throw_backtrack REPLAY_FAILS (bump ''Num replay fails'' 1 m1)) }
      else do {
        cc \<leftarrow> child_covered m r 0;
        safe_assert (\<not> cc);
        base_OnConsumed m r 0;
        m1 \<leftarrow> ReleaseRef c (Some r) 0 m;
        Some (Returns v, m1) }) }"

definition is_conditional :: "node_kind \<Rightarrow> bool" where
  "is_conditional k = (case k of KConditional b \<Rightarrow> True | _ \<Rightarrow> False)"

definition DSLConditional ::
  "co \<Rightarrow> (mgr \<Rightarrow> mgr) list \<Rightarrow> nat \<Rightarrow> bool \<Rightarrow> string option \<Rightarrow> mgr \<Rightarrow> (bool outcome \<times> mgr) option" where
  "DSLConditional c es s v msg m =
     and_then (AcquireRefEx EXIT_ON_EMPTY c es (set_message s msg m)) (\<lambda>n m1. do {
       safe_assert (n = None);
       loc \<leftarrow> GetNextNodeInStack m1;
       (case cl_parent loc of
          Some r \<Rightarrow> do {
            nd \<leftarrow> heap m1 r;
            safe_assert (is_conditional (n_kind nd));
            (cov, m2) \<leftarrow> ComputeCoverage 0 m1 r;
            (if cov then do { m3 \<leftarrow> ReleaseRef c None (-1) m2; Some (throw_backtrack TREENODE_COVERED m3) }
             else DSLConditional_at c r v m2) }
        | None \<Rightarrow> (let (r, m2) = new_node s (KConditional v) m1 in DSLConditional_at c r v m2)) })"

section \<open>Transitions\<close>

text \<open>\<open>DSLRunThrough\<close> and \<open>DSLRunUntil\<close> differ in the node class: submit the node, then wait until
  a thread has consumed it.\<close>

definition is_run_through :: "node_kind \<Rightarrow> bool" where
  "is_run_through k = (case k of KRunThrough p v \<Rightarrow> True | _ \<Rightarrow> False)"

definition is_run_until :: "node_kind \<Rightarrow> bool" where
  "is_run_until k = (case k of KRunUntil p v \<Rightarrow> True | _ \<Rightarrow> False)"

definition submit_transition ::
  "(node_kind \<Rightarrow> bool) \<Rightarrow> node_kind \<Rightarrow> co \<Rightarrow> bool \<Rightarrow> (mgr \<Rightarrow> mgr) list \<Rightarrow> (mgr \<Rightarrow> mgr) list \<Rightarrow> nat
     \<Rightarrow> string option \<Rightarrow> mgr \<Rightarrow> (unit outcome \<times> mgr) option" where
  "submit_transition same_class k c all_ended es es2 s msg m =
     (let m0 = set_message s msg m in
      if all_ended then Some (throw_backtrack THREADS_ALLENDED m0)
      else and_then (AcquireRefEx EXIT_ON_EMPTY c es m0) (\<lambda>n m1. do {
        safe_assert (n = None);
        loc \<leftarrow> GetNextNodeInStack m1;
        (r, m2) \<leftarrow> (case cl_parent loc of
            Some r \<Rightarrow> do {
              nd \<leftarrow> heap m1 r;
              safe_assert (same_class (n_kind nd) \<and> \<not> n_covered nd);
              Some (r, upd_node r (\<lambda>nd. nd\<lparr>n_kind := k\<rparr>) m1) }
          | None \<Rightarrow> Some (new_node s k m1));
        cov \<leftarrow> covered m2 r;
        safe_assert (\<not> cov);
        m3 \<leftarrow> ReleaseRef c (Some r) (-1) m2;
        and_then (AcquireRefEx EXIT_ON_EMPTY c es2 m3) (\<lambda>n m4. do {
          safe_assert (n = None);
          m5 \<leftarrow> ReleaseRef c None (-1) m4;
          Some (Returns (), m5) }) }))"

definition DSLRunThrough ::
  "co \<Rightarrow> bool \<Rightarrow> (mgr \<Rightarrow> mgr) list \<Rightarrow> (mgr \<Rightarrow> mgr) list \<Rightarrow> nat \<Rightarrow> tpred option \<Rightarrow> tvref option
     \<Rightarrow> string option \<Rightarrow> mgr \<Rightarrow> (unit outcome \<times> mgr) option" where
  "DSLRunThrough c all_ended es es2 s p v msg m =
     submit_transition is_run_through (KRunThrough p v) c all_ended es es2 s msg m"

definition DSLRunUntil ::
  "co \<Rightarrow> bool \<Rightarrow> (mgr \<Rightarrow> mgr) list \<Rightarrow> (mgr \<Rightarrow> mgr) list \<Rightarrow> nat \<Rightarrow> tpred option \<Rightarrow> tvref option
     \<Rightarrow> string option \<Rightarrow> mgr \<Rightarrow> (unit outcome \<times> mgr) option" where
  "DSLRunUntil c all_ended es es2 s p v msg m =
     submit_transition is_run_until (KRunUntil p v) c all_ended es es2 s msg m"

section \<open>Thread selections\<close>

text \<open>The manager together with the auxiliary environment, which holds the thread variables.  The
  steps of other threads change both.\<close>

record world =
  w_mgr :: mgr
  w_env :: aux_env
  w_next_tv :: tvref

definition SelectThread_Init :: "tvset option \<Rightarrow> tpred option \<Rightarrow> tvref \<Rightarrow> select_thread" where
  "SelectThread_Init scope p lvar = \<lparr>st_pred = p, st_scope = scope,
     st_scope_size = (case scope of None \<Rightarrow> 0 | Some s \<Rightarrow> length s), st_lvar = lvar\<rparr>"

definition select_info :: "node_kind \<Rightarrow> select_thread option" where
  "select_info k = (case k of KExists s cv \<Rightarrow> Some s | KForall s mp l \<Rightarrow> Some s | _ \<Rightarrow> None)"

definition is_exists :: "node_kind \<Rightarrow> bool" where
  "is_exists k = (case k of KExists s cv \<Rightarrow> True | _ \<Rightarrow> False)"

definition is_forall :: "node_kind \<Rightarrow> bool" where
  "is_forall k = (case k of KForall s mp l \<Rightarrow> True | _ \<Rightarrow> False)"

definition reinit_select :: "tvset option \<Rightarrow> tpred option \<Rightarrow> node_kind \<Rightarrow> node_kind" where
  "reinit_select scope p k = (case k of
     KExists s cv \<Rightarrow> KExists (SelectThread_Init scope p (st_lvar s)) cv
   | KForall s mp l \<Rightarrow> KForall (SelectThread_Init scope p (st_lvar s)) mp l
   | _ \<Rightarrow> k)"

text \<open>\<open>ForallThreadNode::var\<close> and \<open>ExistsThreadNode::var\<close>.\<close>

definition select_var :: "tvstore \<Rightarrow> node_kind \<Rightarrow> int \<Rightarrow> tvref option" where
  "select_var vs k child_index = (case k of
     KExists s cv \<Rightarrow> do { safe_assert (child_index = 0); Some (st_lvar s) }
   | KForall s mp l \<Rightarrow> do {
       safe_assert (BETWEEN 0 child_index (int (length l) - 1));
       let v = l ! nat child_index;
       safe_assert (\<not> is_empty_var vs v);
       Some v }
   | _ \<Rightarrow> None)"

definition conj_texpr :: "tpred option \<Rightarrow> tpred option \<Rightarrow> tpred option" where
  "conj_texpr p texpr = (case texpr of None \<Rightarrow> p
     | Some e \<Rightarrow> (case p of None \<Rightarrow> None | Some q \<Rightarrow> Some (TPAnd [q, e])))"

text \<open>The node is found or made, its predicate, scope and variable are set, and it is released for
  the threads to consume.\<close>

definition submit_select ::
  "bool \<Rightarrow> co \<Rightarrow> (mgr \<Rightarrow> mgr) list \<Rightarrow> nat \<Rightarrow> tvset option \<Rightarrow> tpred option \<Rightarrow> world
     \<Rightarrow> (noderef outcome \<times> world) option" where
  "submit_select forall c es s scope p w =
     (case AcquireRefEx EXIT_ON_EMPTY c es (w_mgr w) of
        None \<Rightarrow> None
      | Some (Throws e, m1) \<Rightarrow> Some (Throws e, w\<lparr>w_mgr := m1\<rparr>)
      | Some (Blocked, m1) \<Rightarrow> Some (Blocked, w\<lparr>w_mgr := m1\<rparr>)
      | Some (Returns n, m1) \<Rightarrow> do {
          safe_assert (n = None);
          loc \<leftarrow> GetNextNodeInStack m1;
          (r, lv, m2, vs, tv) \<leftarrow> (case cl_parent loc of
              Some r \<Rightarrow> do {
                nd \<leftarrow> heap m1 r;
                safe_assert ((if forall then is_forall else is_exists) (n_kind nd) \<and> \<not> n_covered nd);
                i \<leftarrow> select_info (n_kind nd);
                Some (r, st_lvar i, upd_node r (\<lambda>nd. nd\<lparr>n_kind := reinit_select scope p (n_kind nd)\<rparr>) m1,
                      vars (w_env w), w_next_tv w) }
            | None \<Rightarrow>
                (let lv = w_next_tv w; i = SelectThread_Init scope p lv;
                     (r, m') = new_node s (if forall then KForall i [] [] else KExists i []) m1
                 in Some (r, lv, m', (vars (w_env w))(lv := new_thread_var None ''<unknown>''), Suc lv)));
          cov \<leftarrow> covered m2 r;
          safe_assert (\<not> cov);
          m3 \<leftarrow> ReleaseRef c (Some r) (-1) m2;
          Some (Returns r, \<lparr>w_mgr = m3, w_env = (w_env w)\<lparr>vars := clear_thread vs lv\<rparr>, w_next_tv = tv\<rparr>) })"

text \<open>After the selection has been consumed: the checks and the variable handed to the script.\<close>

definition finish_select ::
  "bool \<Rightarrow> co \<Rightarrow> noderef \<Rightarrow> (mgr \<Rightarrow> mgr) list \<Rightarrow> world \<Rightarrow> (tvref outcome \<times> world) option" where
  "finish_select forall c r es w =
     (case AcquireRefEx EXIT_ON_EMPTY c es (w_mgr w) of
        None \<Rightarrow> None
      | Some (Throws e, m1) \<Rightarrow> Some (Throws e, w\<lparr>w_mgr := m1\<rparr>)
      | Some (Blocked, m1) \<Rightarrow> Some (Blocked, w\<lparr>w_mgr := m1\<rparr>)
      | Some (Returns n, m1) \<Rightarrow> do {
          safe_assert (n = None);
          lst \<leftarrow> GetLastNodeInStack m1;
          safe_assert (cl_parent lst = Some r);
          nd \<leftarrow> heap m1 r;
          i \<leftarrow> select_info (n_kind nd);
          let vs = vars (w_env w);
          (if forall then do {
             safe_assert (is_forall (n_kind nd) \<and> cl_index lst \<ge> 0);
             v \<leftarrow> select_var vs (n_kind nd) (cl_index lst);
             safe_assert (tv_thread (vs (st_lvar i)) = tv_thread (vs v)) }
           else safe_assert (is_exists (n_kind nd) \<and> cl_index lst = 0));
          m2 \<leftarrow> ReleaseRef c None (-1) m1;
          Some (Returns (st_lvar i), w\<lparr>w_mgr := m2\<rparr>) })"

text \<open>Between the two parts the other threads run; \<open>others\<close> is what they do to the world.\<close>

definition DSLSelectThread ::
  "bool \<Rightarrow> co \<Rightarrow> bool \<Rightarrow> (mgr \<Rightarrow> mgr) list \<Rightarrow> (world \<Rightarrow> world) \<Rightarrow> (mgr \<Rightarrow> mgr) list \<Rightarrow> nat
     \<Rightarrow> tvset option \<Rightarrow> tpred option \<Rightarrow> tpred option \<Rightarrow> string option \<Rightarrow> world \<Rightarrow> (tvref outcome \<times> world) option" where
  "DSLSelectThread forall c all_ended es others es2 s scope p texpr msg w =
     (let w0 = w\<lparr>w_mgr := set_message s msg (w_mgr w)\<rparr> in
      if all_ended
      then (let (e, m) = throw_backtrack THREADS_ALLENDED (w_mgr w0) in Some (e, w0\<lparr>w_mgr := m\<rparr>))
      else (case submit_select forall c es s scope (conj_texpr p texpr) w0 of
              Some (Returns r, w1) \<Rightarrow> finish_select forall c r es2 (others w1)
            | Some (Throws e, w1) \<Rightarrow> Some (Throws e, w1)
            | Some (Blocked, w1) \<Rightarrow> Some (Blocked, w1)
            | None \<Rightarrow> None))"

definition DSLForallThread ::
  "co \<Rightarrow> bool \<Rightarrow> (mgr \<Rightarrow> mgr) list \<Rightarrow> (world \<Rightarrow> world) \<Rightarrow> (mgr \<Rightarrow> mgr) list \<Rightarrow> nat
     \<Rightarrow> tvset option \<Rightarrow> tpred option \<Rightarrow> tpred option \<Rightarrow> string option \<Rightarrow> world \<Rightarrow> (tvref outcome \<times> world) option" where
  "DSLForallThread = DSLSelectThread True"

definition DSLExistsThread ::
  "co \<Rightarrow> bool \<Rightarrow> (mgr \<Rightarrow> mgr) list \<Rightarrow> (world \<Rightarrow> world) \<Rightarrow> (mgr \<Rightarrow> mgr) list \<Rightarrow> nat
     \<Rightarrow> tvset option \<Rightarrow> tpred option \<Rightarrow> tpred option \<Rightarrow> string option \<Rightarrow> world \<Rightarrow> (tvref outcome \<times> world) option" where
  "DSLExistsThread = DSLSelectThread False"

section \<open>What a thread does at a controlled transition\<close>

text \<open>\<open>CanSelectThread\<close>: no predicate, or the static \<open>True\<close> object, means that every thread can be
  selected, without touching \<open>AuxState::Tid\<close>.\<close>

definition CanSelectThread :: "tpred option \<Rightarrow> co \<Rightarrow> aux_env \<Rightarrow> (bool \<times> aux_env) option" where
  "CanSelectThread p c env = (case p of
     None \<Rightarrow> Some (True, env)
   | Some TPTrue \<Rightarrow> Some (True, env)
   | Some q \<Rightarrow> EvalState (env\<lparr>vars := set_thread (vars env) TID (Some c)\<rparr>) (Some c) q)"

definition ExistsThread_Check ::
  "noderef \<Rightarrow> select_thread \<Rightarrow> tvset \<Rightarrow> co \<Rightarrow> int \<Rightarrow> world \<Rightarrow> (int \<times> world) option" where
  "ExistsThread_Check r s cv c idx w = do {
     safe_assert (idx = -1 \<or> idx = 0);
     let vs = vars (w_env w);
     let excluded = (case st_scope s of
         Some (x # xs) \<Rightarrow> (case FindByThread vs (x # xs) (Some c) of
            None \<Rightarrow> True | Some t \<Rightarrow> t \<in> set cv)
       | _ \<Rightarrow> FindByThread vs cv (Some c) \<noteq> None);
     (if excluded then Some (-1, w)
      else do {
        (ok, env1) \<leftarrow> CanSelectThread (st_pred s) c (w_env w);
        (if ok then Some (0, w\<lparr>w_env := env1\<lparr>vars := set_thread (vars env1) (st_lvar s) (Some c)\<rparr>\<rparr>)
         else do {
           safe_assert (is_empty_var (vars env1) (st_lvar s));
           Some (-1, w\<lparr>w_env := env1\<rparr>) }) }) }"

definition add_or_get_child_index :: "noderef \<Rightarrow> tvref \<Rightarrow> mgr \<Rightarrow> (nat \<times> mgr) option" where
  "add_or_get_child_index r t m = do {
     nd \<leftarrow> heap m r;
     (case n_kind nd of
        KForall s mp l \<Rightarrow> (case map_of mp t of
            None \<Rightarrow> do {
              let sz = length (n_children nd);
              safe_assert (length l = sz);
              Some (sz, upd_node r (\<lambda>nd. nd\<lparr>n_kind := KForall s (AList.update t sz mp) (l @ [t]),
                                          n_children := n_children nd @ [None]\<rparr>) m) }
          | Some i \<Rightarrow> do { safe_assert (i < length l); Some (i, m) })
      | _ \<Rightarrow> None) }"

definition ForallThread_Check ::
  "noderef \<Rightarrow> select_thread \<Rightarrow> co \<Rightarrow> int \<Rightarrow> world \<Rightarrow> (int \<times> world) option" where
  "ForallThread_Check r s c idx w = do {
     safe_assert (is_empty_var (vars (w_env w)) (st_lvar s));
     let found = (case st_scope s of
         Some (x # xs) \<Rightarrow> (case FindByThread (vars (w_env w)) (x # xs) (Some c) of
            None \<Rightarrow> None | Some t \<Rightarrow> Some (t, w))
       | _ \<Rightarrow> Some (w_next_tv w,
            w\<lparr>w_env := (w_env w)\<lparr>vars := (vars (w_env w))(w_next_tv w := create_thread_var c)\<rparr>,
              w_next_tv := Suc (w_next_tv w)\<rparr>));
     (case found of
        None \<Rightarrow> Some (-1, w)
      | Some (t, w1) \<Rightarrow> do {
          (ok, env1) \<leftarrow> CanSelectThread (st_pred s) c (w_env w1);
          let w2 = w1\<lparr>w_env := env1\<rparr>;
          (if \<not> ok then Some (-1, w2)
           else do {
             (i, m1) \<leftarrow> add_or_get_child_index r t (w_mgr w2);
             nd \<leftarrow> heap m1 r;
             safe_assert (check_index nd (int i));
             safe_assert (idx = -1 \<or> check_index nd idx);
             (if idx \<ge> 0 \<and> idx \<noteq> int i then Some (-1, w2\<lparr>w_mgr := m1\<rparr>)
              else do {
                b \<leftarrow> base_child_covered m1 r (int i);
                (if b then Some (-1, w2\<lparr>w_mgr := m1\<rparr>)
                 else Some (int i, w2\<lparr>w_mgr := m1,
                    w_env := env1\<lparr>vars := set_thread (vars env1) (st_lvar s) (Some c)\<rparr>\<rparr>)) }) }) }) }"

definition EvalSelectThread :: "co \<Rightarrow> noderef \<Rightarrow> world \<Rightarrow> (int \<times> world) option" where
  "EvalSelectThread c r w = do {
     let w1 = w\<lparr>w_env := (w_env w)\<lparr>vars := set_thread (vars (w_env w)) TID (Some c)\<rparr>\<rparr>;
     nd \<leftarrow> heap (w_mgr w1) r;
     safe_assert (\<not> n_covered nd);
     safe_assert (co_tid c \<ge> 0);
     loc \<leftarrow> GetNextNodeInStack (w_mgr w1);
     let idx = cl_index loc;
     safe_assert ((idx < 0 \<and> cl_parent loc = None) \<or> cl_parent loc = Some r);
     (case n_kind nd of
        KForall s mp l \<Rightarrow> ForallThread_Check r s c idx w1
      | KExists s cv \<Rightarrow> ExistsThread_Check r s cv c idx w1
      | _ \<Rightarrow> None) }"

text \<open>\<open>EvalTransition\<close>: the result is the child index and \<open>take\<close>, or a violated assertion.\<close>

datatype eval_result = EvalDone int bool | EvalViolation

definition EvalTransition ::
  "tpred list \<Rightarrow> tpred list \<Rightarrow> co \<Rightarrow> noderef \<Rightarrow> world \<Rightarrow> (eval_result \<times> world) option" where
  "EvalTransition assertions constraints c r w = do {
     let e0 = (w_env w)\<lparr>vars := set_thread (vars (w_env w)) TID (Some c)\<rparr>;
     (a_ok, e1) \<leftarrow> EvalState e0 (Some c) (TPAnd assertions);
     (if \<not> a_ok then Some (EvalViolation, w\<lparr>w_env := e1\<rparr>)
      else do {
        (c_ok, e2) \<leftarrow> EvalState e1 (Some c) (TPAnd constraints);
        (if \<not> c_ok then Some (EvalDone (-1) False, w\<lparr>w_env := e2\<rparr>)
         else do {
           nd \<leftarrow> heap (w_mgr w) r;
           (ci, tk, e3) \<leftarrow> (case n_kind nd of
               KRunThrough p v \<Rightarrow> do {
                 q \<leftarrow> p;
                 (b, e) \<leftarrow> EvalState e2 (Some c) q;
                 Some (if b then 0 else -1, True, e) }
             | KRunUntil p v \<Rightarrow> do {
                 q \<leftarrow> p;
                 (b, e) \<leftarrow> EvalState e2 (Some c) q;
                 Some (if b then 0 else -1, \<not> b, e) }
             | _ \<Rightarrow> None);
           (if tk then do {
              (vs, m1) \<leftarrow> OnTaken (w_mgr w) (vars e3) r c 0;
              Some (EvalDone ci True, w\<lparr>w_mgr := m1, w_env := e3\<lparr>vars := vs\<rparr>\<rparr>) }
            else Some (EvalDone ci False, w\<lparr>w_env := e3\<rparr>)) }) }) }"

text \<open>One round of the loop of \<open>OnControlledTransition\<close>, from the node the thread acquired: the
  result tells whether the thread leaves the loop, waits for the node to be consumed, or looks for
  the next node.\<close>

datatype controlled = Leave | WaitConsumed | NextNode | Violation

definition controlled_round ::
  "tpred list \<Rightarrow> tpred list \<Rightarrow> co \<Rightarrow> noderef \<Rightarrow> world \<Rightarrow> (controlled \<times> world) option" where
  "controlled_round assertions constraints c r w = do {
     nd \<leftarrow> heap (w_mgr w) r;
     (if is_end_kind (n_kind nd) then Some (Leave, w)
      else do {
        (res, w1) \<leftarrow>
          (if is_transition (n_kind nd) then EvalTransition assertions constraints c r w
           else if is_select_thread (n_kind nd) then do {
             (ci, w') \<leftarrow> EvalSelectThread c r w; Some (EvalDone ci False, w') }
           else None);
        (case res of
           EvalViolation \<Rightarrow> Some (Violation, w1)
         | EvalDone ci tk \<Rightarrow>
             (if ci \<ge> 0 then do {
                vs \<leftarrow> OnConsumed (w_mgr w1) (vars (w_env w1)) r c ci;
                m2 \<leftarrow> ReleaseRef c (Some r) ci (w_mgr w1);
                Some (if tk then Leave else NextNode, w1\<lparr>w_mgr := m2, w_env := (w_env w1)\<lparr>vars := vs\<rparr>\<rparr>) }
              else do {
                m2 \<leftarrow> ReleaseRef c (Some r) (-1) (w_mgr w1);
                Some (if tk then Leave else WaitConsumed, w1\<lparr>w_mgr := m2\<rparr>) })) }) }"

end
