(* ===== verification/Serialization.thy ===== *)
theory Serialization
  imports Event_Wire Tree_Rep Scenario_DSL
begin

text \<open>
  serialize.h/.cpp and the schedules of dsl.h/.cpp that are saved with it: the Serializer over a
  stdio stream, its templates at the types they are used with, and PersistentSchedule.  A stream
  holds its bytes, its position and its two indicators; \<open>f_error\<close> is a stream whose medium fails.
  A template writes the object as it lies in memory (little endian, no padding in the types used).
\<close>

section \<open>Streams\<close>

record stream =
  f_data :: "byte list"
  f_pos :: nat
  f_eof :: bool
  f_error :: bool

definition fwrite :: "byte list \<Rightarrow> stream \<Rightarrow> bool \<times> stream" where
  "fwrite bs f = (if f_error f then (False, f)
     else (True, f\<lparr> f_data := take (f_pos f) (f_data f) @ bs @ drop (f_pos f + length bs) (f_data f),
       f_pos := f_pos f + length bs \<rparr>))"

definition fread :: "nat \<Rightarrow> stream \<Rightarrow> byte list \<times> stream" where
  "fread n f = (if f_error f then ([], f)
     else let bs = take n (drop (f_pos f) (f_data f)) in
       (bs, f\<lparr> f_pos := f_pos f + length bs, f_eof := (f_eof f \<or> length bs < n) \<rparr>))"

definition feof :: "stream \<Rightarrow> bool" where
  "feof f = f_eof f"

section \<open>Serializer\<close>

text \<open>The field \<open>file_\<close> is NULL after Close; the destructor closes again.\<close>

record serializer =
  ser_file :: "stream option"

definition Serializer :: "stream option \<Rightarrow> serializer option" where
  "Serializer f = do { safe_assert (f \<noteq> None); Some \<lparr> ser_file = f \<rparr> }"

definition Serializer_Close :: "serializer \<Rightarrow> serializer option" where
  "Serializer_Close s = do { safe_assert (ser_file s \<noteq> None); Some (s\<lparr> ser_file := None \<rparr>) }"

definition Serializer_end :: "serializer \<Rightarrow> serializer option" where
  "Serializer_end s = Serializer_Close s"

definition HasMore :: "serializer \<Rightarrow> bool option" where
  "HasMore s = do { f \<leftarrow> ser_file s; Some (\<not> feof f) }"

text \<open>\<open>Store(T*)\<close> and \<open>Load(T*)\<close> on the bytes of one object.\<close>

definition Store_bytes :: "byte list \<Rightarrow> stream \<Rightarrow> stream option" where
  "Store_bytes bs f = (case fwrite bs f of (ok, f1) \<Rightarrow> if ok then Some f1 else None)"

definition Load_bytes :: "nat \<Rightarrow> stream \<Rightarrow> (byte list option \<times> stream) option" where
  "Load_bytes n f = (case fread n f of (bs, f1) \<Rightarrow>
     if length bs = n then Some (Some bs, f1) else if feof f1 then Some (None, f1) else None)"

text \<open>A type is given by its encoding, its size and its decoding.\<close>

record 'a layout =
  l_size :: nat
  l_enc :: "'a \<Rightarrow> byte list"
  l_dec :: "byte list \<Rightarrow> 'a"

definition Store :: "'a layout \<Rightarrow> 'a \<Rightarrow> stream \<Rightarrow> stream option" where
  "Store L x f = Store_bytes (l_enc L x) f"

definition Load :: "'a layout \<Rightarrow> stream \<Rightarrow> ('a option \<times> stream) option" where
  "Load L f = do { (r, f1) \<leftarrow> Load_bytes (l_size L) f; Some (map_option (l_dec L) r, f1) }"

fun Store_list :: "'a layout \<Rightarrow> 'a list \<Rightarrow> stream \<Rightarrow> stream option" where
  "Store_list L [] f = Some f"
| "Store_list L (x # xs) f = do { f1 \<leftarrow> Store L x f; Store_list L xs f1 }"

text \<open>\<open>Store(T* x, int size)\<close> on an array; an index beyond it reads foreign memory.\<close>

definition Store_array :: "'a layout \<Rightarrow> 'a list \<Rightarrow> int \<Rightarrow> stream \<Rightarrow> stream option" where
  "Store_array L xs n f = do {
     safe_assert (n \<ge> 0);
     if nat n \<le> length xs then Store_list L (take (nat n) xs) f else None }"

fun Load_list :: "'a layout \<Rightarrow> nat \<Rightarrow> stream \<Rightarrow> (bool \<times> 'a list \<times> stream) option" where
  "Load_list L 0 f = Some (True, [], f)"
| "Load_list L (Suc n) f = do {
     (r, f1) \<leftarrow> Load L f;
     (case r of None \<Rightarrow> Some (False, [], f1)
      | Some x \<Rightarrow> do { (ok, xs, f2) \<leftarrow> Load_list L n f1; Some (ok, x # xs, f2) }) }"

definition Load_array :: "'a layout \<Rightarrow> int \<Rightarrow> stream \<Rightarrow> (bool \<times> 'a list \<times> stream) option" where
  "Load_array L n f = do { safe_assert (n \<ge> 0); Load_list L (nat n) f }"

definition int_layout :: "32 word layout" where
  "int_layout = \<lparr> l_size = 4, l_enc = (\<lambda>w. le_bytes 4 (unat w)), l_dec = (\<lambda>bs. of_nat (le_value bs)) \<rparr>"

definition addrint_layout :: "64 word layout" where
  "addrint_layout = \<lparr> l_size = 8, l_enc = (\<lambda>w. le_bytes 8 (unat w)), l_dec = (\<lambda>bs. of_nat (le_value bs)) \<rparr>"

subsection \<open>Strings and pointers\<close>

text \<open>The length of the string becomes an int.  \<open>c_str\<close> ends in a NUL at the length.\<close>

definition Store_string :: "byte list \<Rightarrow> stream \<Rightarrow> stream option" where
  "Store_string s f = (let len = (of_nat (length s) :: 32 word) in
     if sint len \<ge> 256 then None
     else if sint len < 0 \<or> (s @ [0]) ! unat len \<noteq> 0 then None
     else do { f1 \<leftarrow> Store int_layout len f; Store_bytes (take (unat len) s) f1 })"

text \<open>The number of bytes to read is the length converted to \<open>size_t\<close>; more than the 256 bytes of
  the buffer is a buffer overflow.\<close>

definition Load_string :: "stream \<Rightarrow> (byte list option \<times> stream) option" where
  "Load_string f = do {
     (r, f1) \<leftarrow> Load int_layout f;
     len \<leftarrow> r;
     safe_assert (sint len < 256);
     let (bs, f2) = fread (unat (scast len :: 64 word)) f1;
     if length bs > 256 then None
     else if int (length bs) = sint len then Some (Some bs, f2)
     else if feof f2 then Some (None, f2) else None }"

definition Store_ptr :: "addr \<Rightarrow> stream \<Rightarrow> stream option" where
  "Store_ptr x f = Store addrint_layout x f"

definition Load_ptr :: "stream \<Rightarrow> (addr option \<times> stream) option" where
  "Load_ptr f = Load addrint_layout f"

section \<open>Files\<close>

text \<open>\<open>Serializable::Store\<close> and \<open>Load\<close> by name: the serializer opens the file and its destructor
  closes it, which leaves the bytes of the stream in the file.\<close>

record file_system =
  fs_files :: "string \<Rightarrow> byte list option"
  fs_writable :: "string \<Rightarrow> bool"

definition fopen_r :: "string \<Rightarrow> file_system \<Rightarrow> stream option" where
  "fopen_r name fs = do { bs \<leftarrow> fs_files fs name; Some \<lparr> f_data = bs, f_pos = 0, f_eof = False, f_error = False \<rparr> }"

definition fopen_w :: "string \<Rightarrow> file_system \<Rightarrow> stream option" where
  "fopen_w name fs = (if fs_writable fs name
     then Some \<lparr> f_data = [], f_pos = 0, f_eof = False, f_error = False \<rparr> else None)"

definition Serializable_Store :: "(stream \<Rightarrow> stream option) \<Rightarrow> string \<Rightarrow> file_system \<Rightarrow> file_system option" where
  "Serializable_Store store name fs = do {
     f \<leftarrow> fopen_w name fs;
     s \<leftarrow> Serializer (Some f);
     f0 \<leftarrow> ser_file s;
     f1 \<leftarrow> store f0;
     Serializer_end (s\<lparr> ser_file := Some f1 \<rparr>);
     Some (fs\<lparr> fs_files := (fs_files fs)(name \<mapsto> f_data f1) \<rparr>) }"

definition Serializable_Load :: "(stream \<Rightarrow> ('a \<times> stream) option) \<Rightarrow> string \<Rightarrow> file_system \<Rightarrow> 'a option" where
  "Serializable_Load load name fs = do {
     f \<leftarrow> fopen_r name fs;
     s \<leftarrow> Serializer (Some f);
     f0 \<leftarrow> ser_file s;
     (x, f1) \<leftarrow> load f0;
     Serializer_end (s\<lparr> ser_file := Some f1 \<rparr>);
     Some x }"

section \<open>Schedules\<close>

record schedule_item =
  sch_kind :: "32 word"
  sch_value :: "32 word"

definition ScheduleItem_ChildIndex :: "32 word" where "ScheduleItem_ChildIndex = 1"
definition ScheduleItem_ThreadId :: "32 word" where "ScheduleItem_ThreadId = 2"

definition item_layout :: "schedule_item layout" where
  "item_layout = \<lparr> l_size = 8,
     l_enc = (\<lambda>x. le_bytes 4 (unat (sch_kind x)) @ le_bytes 4 (unat (sch_value x))),
     l_dec = (\<lambda>bs. \<lparr> sch_kind = of_nat (le_value (take 4 bs)), sch_value = of_nat (le_value (drop 4 bs)) \<rparr>) \<rparr>"

definition Schedule_Store :: "schedule_item list \<Rightarrow> stream \<Rightarrow> stream option" where
  "Schedule_Store items f = do {
     f1 \<leftarrow> Store int_layout (of_nat (length items)) f;
     Store_list item_layout items f1 }"

definition Schedule_Load :: "schedule_item list \<Rightarrow> stream \<Rightarrow> (schedule_item list \<times> stream) option" where
  "Schedule_Load items f = do {
     (r, f1) \<leftarrow> Load int_layout f;
     sz \<leftarrow> r;
     safe_assert (sint sz \<ge> 0);
     (ok, xs, f2) \<leftarrow> Load_list item_layout (nat (sint sz)) f1;
     if ok then Some (items @ xs, f2) else None }"

definition stack_item :: "'a tree_state_scheme \<Rightarrow> tvstore \<Rightarrow> child_loc \<Rightarrow> schedule_item option" where
  "stack_item t vs loc = do {
     safe_assert (\<not> loc_empty loc);
     p \<leftarrow> cl_parent loc;
     nd \<leftarrow> heap t p;
     if is_select_thread (n_kind nd) then do {
       v \<leftarrow> select_var vs (n_kind nd) (cl_index loc);
       i \<leftarrow> ThreadVar_tid vs v;
       Some \<lparr> sch_kind = ScheduleItem_ThreadId, sch_value = word_of_int i \<rparr> }
     else Some \<lparr> sch_kind = ScheduleItem_ChildIndex, sch_value = word_of_int (cl_index loc) \<rparr> }"

fun ComputeExecutionTreeStack ::
  "'a tree_state_scheme \<Rightarrow> tvstore \<Rightarrow> child_loc list \<Rightarrow> schedule_item list \<Rightarrow> schedule_item list option" where
  "ComputeExecutionTreeStack t vs [] items = Some items"
| "ComputeExecutionTreeStack t vs (loc # path) items = do {
     x \<leftarrow> stack_item t vs loc;
     ComputeExecutionTreeStack t vs path (items @ [x]) }"

text \<open>The last part of \<open>Scenario::SaveSearchInfo\<close>.\<close>

definition save_schedule ::
  "'a tree_state_scheme \<Rightarrow> tvstore \<Rightarrow> child_loc list \<Rightarrow> string \<Rightarrow> file_system \<Rightarrow> file_system option" where
  "save_schedule t vs path name fs = do {
     items \<leftarrow> ComputeExecutionTreeStack t vs path [];
     Serializable_Store (Schedule_Store items) name fs }"


section \<open>Appending and reading back\<close>

definition at_end :: "stream \<Rightarrow> bool" where
  "at_end f \<longleftrightarrow> \<not> f_error f \<and> f_pos f = length (f_data f)"

definition ready :: "stream \<Rightarrow> byte list \<Rightarrow> bool" where
  "ready f r \<longleftrightarrow> \<not> f_error f \<and> drop (f_pos f) (f_data f) = r"

definition appended :: "stream \<Rightarrow> byte list \<Rightarrow> stream" where
  "appended f bs = f\<lparr> f_data := f_data f @ bs, f_pos := f_pos f + length bs \<rparr>"

lemma appended_simps [simp]:
  "f_data (appended f bs) = f_data f @ bs" "appended (appended f bs) cs = appended f (bs @ cs)"
  "at_end f \<Longrightarrow> at_end (appended f bs)" "f_eof (appended f bs) = f_eof f" "appended f [] = f"
  by (simp_all add: appended_def at_end_def)

lemma Store_bytes_at_end: "at_end f \<Longrightarrow> Store_bytes bs f = Some (appended f bs)"
  by (simp add: Store_bytes_def fwrite_def at_end_def appended_def)

lemma Load_bytes_ready: "ready f (bs @ r) \<Longrightarrow> length bs = n \<Longrightarrow> \<exists>f'. Load_bytes n f = Some (Some bs, f') \<and> ready f' r"
  by (auto simp: Load_bytes_def fread_def ready_def Let_def add.commute simp flip: drop_drop)

lemma Load_bytes_short: "ready f r \<Longrightarrow> length r < n \<Longrightarrow> \<exists>f'. Load_bytes n f = Some (None, f')"
  by (auto simp: Load_bytes_def fread_def ready_def Let_def feof_def)

locale codec =
  fixes L :: "'a layout"
  assumes enc_size: "length (l_enc L x) = l_size L" and dec_enc: "l_dec L (l_enc L x) = x"
begin

lemma Store_at_end: "at_end f \<Longrightarrow> Store L x f = Some (appended f (l_enc L x))"
  by (simp add: Store_def Store_bytes_at_end)

lemma Load_ready: "ready f (l_enc L x @ r) \<Longrightarrow> \<exists>f'. Load L f = Some (Some x, f') \<and> ready f' r"
  using Load_bytes_ready [of f "l_enc L x" r, OF _ enc_size] by (auto simp: Load_def dec_enc)

lemma Load_short: "ready f r \<Longrightarrow> length r < l_size L \<Longrightarrow> \<exists>f'. Load L f = Some (None, f')"
  using Load_bytes_short by (fastforce simp: Load_def)

lemma Store_list_at_end: "at_end f \<Longrightarrow> Store_list L xs f = Some (appended f (concat (map (l_enc L) xs)))"
  by (induction xs arbitrary: f) (simp_all add: Store_at_end)

lemma Load_list_ready:
  "ready f (concat (map (l_enc L) xs) @ r) \<Longrightarrow> \<exists>f'. Load_list L (length xs) f = Some (True, xs, f') \<and> ready f' r"
proof (induction xs arbitrary: f)
  case (Cons x xs)
  from Load_ready [of f x "concat (map (l_enc L) xs) @ r"] Cons.prems
  obtain f1 where f1: "Load L f = Some (Some x, f1)" "ready f1 (concat (map (l_enc L) xs) @ r)" by auto
  from Cons.IH [OF f1(2)] show ?case using f1(1) by auto
qed simp

lemma Load_list_short:
  "ready f r \<Longrightarrow> length r < n * l_size L \<Longrightarrow> (\<And>r'. length r' = l_size L \<Longrightarrow> \<exists>x. r' = l_enc L x) \<Longrightarrow>
   \<exists>ys f'. Load_list L n f = Some (False, ys, f')"
proof (induction n arbitrary: f r)
  case (Suc n)
  show ?case
  proof (cases "length r < l_size L")
    case True
    then show ?thesis using Load_short [OF Suc.prems(1)] by auto
  next
    case False
    then obtain x where x: "take (l_size L) r = l_enc L x" using Suc.prems(3) by (metis length_take min.absorb2 not_less)
    have r: "ready f (l_enc L x @ drop (l_size L) r)" using Suc.prems(1) x by (metis append_take_drop_id)
    from Load_ready [OF r] obtain f1 where
      f1: "Load L f = Some (Some x, f1)" "ready f1 (drop (l_size L) r)" by blast
    have "length (drop (l_size L) r) < n * l_size L" using Suc.prems(2) False by simp
    from Suc.IH [OF f1(2) this Suc.prems(3)] show ?thesis using f1(1) by auto
  qed
qed simp

end

interpretation int_codec: codec int_layout
  by unfold_locales (simp_all add: int_layout_def)

interpretation addrint_codec: codec addrint_layout
  by unfold_locales (simp_all add: addrint_layout_def)

interpretation item_codec: codec item_layout
  by unfold_locales (simp_all add: item_layout_def)


lemma le_value_less: "le_value bs < 256 ^ length bs"
proof (induction bs)
  case (Cons b bs)
  have "unat b < 256" using unsigned_less [of b] by simp
  then show ?case using Cons by simp
qed simp

lemma le_bytes_value: "length bs = n \<Longrightarrow> le_bytes n (le_value bs) = bs"
proof (induction bs arbitrary: n)
  case (Cons b bs)
  have b: "unat b < 256" using unsigned_less [of b] by simp
  have "(of_nat (unat b + 256 * le_value bs) :: byte) = b"
  proof -
    have zero: "(256 :: byte) = 0" by simp
    show ?thesis by (simp only: of_nat_add of_nat_mult of_nat_numeral zero) simp
  qed
  moreover have "(unat b + 256 * le_value bs) div 256 = le_value bs" using b by simp
  ultimately show ?case using Cons by auto
qed simp

lemma item_layout_onto:
  assumes "length bs = 8"
  shows "\<exists>x. bs = l_enc item_layout x"
proof -
  have word: "le_bytes 4 (unat (of_nat (le_value cs) :: 32 word)) = cs" if "length cs = 4" for cs :: "byte list"
    using le_value_less [of cs] that by (simp add: unat_of_nat le_bytes_value)
  show ?thesis
    using assms word [of "take 4 bs"] word [of "drop 4 bs"]
    by (intro exI [of _ "\<lparr> sch_kind = of_nat (le_value (take 4 bs)), sch_value = of_nat (le_value (drop 4 bs)) \<rparr>"])
      (simp add: item_layout_def)
qed

definition schedule_bytes :: "schedule_item list \<Rightarrow> byte list" where
  "schedule_bytes items = l_enc int_layout (of_nat (length items)) @ concat (map (l_enc item_layout) items)"

lemma Schedule_Store_at_end: "at_end f \<Longrightarrow> Schedule_Store items f = Some (appended f (schedule_bytes items))"
  by (simp add: Schedule_Store_def int_codec.Store_at_end item_codec.Store_list_at_end schedule_bytes_def)

lemma sint_of_nat32: "n < 2 ^ 31 \<Longrightarrow> sint (of_nat n :: 32 word) = int n"
  by (simp add: signed_of_nat signed_take_bit_int_eq_self)

lemma Schedule_Load_ready:
  assumes "ready f (schedule_bytes items @ r)" "length items < 2 ^ 31"
  shows "\<exists>f'. Schedule_Load old f = Some (old @ items, f') \<and> ready f' r"
proof -
  from int_codec.Load_ready [of f "of_nat (length items)" "concat (map (l_enc item_layout) items) @ r"] assms(1)
  obtain f1 where f1: "Load int_layout f = Some (Some (of_nat (length items)), f1)"
    "ready f1 (concat (map (l_enc item_layout) items) @ r)" by (auto simp: schedule_bytes_def)
  from item_codec.Load_list_ready [OF f1(2)] show ?thesis
    using f1(1) by (auto simp: Schedule_Load_def sint_of_nat32 [OF assms(2)])
qed


section \<open>Properties\<close>

lemma schedule_roundtrip:
  assumes "fs_writable fs name" "length items < 2 ^ 31"
  shows "\<exists>fs'. Serializable_Store (Schedule_Store items) name fs = Some fs' \<and>
    Serializable_Load (Schedule_Load old) name fs' = Some (old @ items)"
proof -
  let ?f = "\<lparr> f_data = [], f_pos = 0, f_eof = False, f_error = False \<rparr> :: stream"
  let ?g = "?f\<lparr> f_data := schedule_bytes items \<rparr>"
  have "Schedule_Store items ?f = Some (appended ?f (schedule_bytes items))"
    by (rule Schedule_Store_at_end) (simp add: at_end_def)
  then have "Serializable_Store (Schedule_Store items) name fs
      = Some (fs\<lparr> fs_files := (fs_files fs)(name \<mapsto> schedule_bytes items) \<rparr>)"
    using assms(1)
    by (simp add: Serializable_Store_def fopen_w_def Serializer_def Serializer_end_def Serializer_Close_def appended_def)
  moreover have "ready ?g (schedule_bytes items @ [])" by (simp add: ready_def)
  from Schedule_Load_ready [OF this assms(2), of old]
  have "Serializable_Load (Schedule_Load old) name (fs\<lparr> fs_files := (fs_files fs)(name \<mapsto> schedule_bytes items) \<rparr>)
      = Some (old @ items)"
    by (auto simp: Serializable_Load_def fopen_r_def Serializer_def Serializer_end_def Serializer_Close_def)
  ultimately show ?thesis by blast
qed

text \<open>A schedule file that is cut off anywhere before its end is never taken for a
  shorter schedule: loading it aborts.\<close>

lemma truncated_schedule_aborts:
  assumes "fs_files fs name = Some (take n (schedule_bytes items))" "n < length (schedule_bytes items)"
    and "length items < 2 ^ 31"
  shows "Serializable_Load (Schedule_Load old) name fs = None"
proof -
  let ?bs = "take n (schedule_bytes items)"
  let ?f = "\<lparr> f_data = ?bs, f_pos = 0, f_eof = False, f_error = False \<rparr> :: stream"
  have size: "length (concat (map (l_enc item_layout) items)) = length items * 8"
    by (induction items) (simp_all add: item_layout_def)
  have "Schedule_Load old ?f = None"
  proof (cases "n < 4")
    case True
    have "ready ?f ?bs" by (simp add: ready_def)
    moreover have "length ?bs < l_size int_layout" using True by (simp add: int_layout_def)
    ultimately obtain f' where "Load int_layout ?f = Some (None, f')" using int_codec.Load_short by blast
    then show ?thesis by (simp add: Schedule_Load_def)
  next
    case False
    define r where "r = take (n - 4) (concat (map (l_enc item_layout) items))"
    have enc4: "length (l_enc int_layout w) = 4" for w by (simp add: int_layout_def)
    have "ready ?f (l_enc int_layout (of_nat (length items)) @ r)"
      using False enc4 by (simp add: ready_def schedule_bytes_def r_def)
    from int_codec.Load_ready [OF this] obtain f1 where
      f1: "Load int_layout ?f = Some (Some (of_nat (length items)), f1)" "ready f1 r" by blast
    have "length r < length items * l_size item_layout"
      using assms(2) False size enc4 by (simp add: r_def schedule_bytes_def item_layout_def)
    from item_codec.Load_list_short [OF f1(2) this] item_layout_onto
    obtain ys f' where "Load_list item_layout (length items) f1 = Some (False, ys, f')"
      by (auto simp: item_layout_def)
    then show ?thesis using f1(1) by (simp add: Schedule_Load_def sint_of_nat32 [OF assms(3)])
  qed
  then show ?thesis
    using assms(1) by (simp add: Serializable_Load_def fopen_r_def Serializer_def)
qed

lemma le_bytes_4:
  "le_bytes 4 v = [of_nat v, of_nat (v div 256), of_nat (v div 256 div 256), of_nat (v div 256 div 256 div 256)]"
proof -
  have four: "(4 :: nat) = Suc (Suc (Suc (Suc 0)))" by simp
  show ?thesis by (simp only: four le_bytes.simps)
qed

lemma schedule_bytes_sample:
  "schedule_bytes [\<lparr> sch_kind = 2, sch_value = 7 \<rparr>] = [1, 0, 0, 0, 2, 0, 0, 0, 7, 0, 0, 0]"
  by (simp add: schedule_bytes_def int_layout_def item_layout_def le_bytes_4)

lemma truncated_schedule_aborts_example:
  "Serializable_Load (Schedule_Load []) ''s'' \<lparr> fs_files = (\<lambda>n. Some [1, 0, 0, 0, 2, 0, 0]), fs_writable = (\<lambda>n. True) \<rparr> = None"
  by (rule truncated_schedule_aborts [where items = "[\<lparr> sch_kind = 2, sch_value = 7 \<rparr>]" and n = 7])
    (simp_all add: schedule_bytes_sample)

text \<open>A string below 256 bytes that is stored at the end of a stream, NUL bytes
  included, is read back from its position, and the stream is then at the position after it.\<close>

lemma string_roundtrip:
  assumes "at_end f" "length s < 256"
  shows "\<exists>f1 f2. Store_string s f = Some f1 \<and> Load_string (f1\<lparr> f_pos := f_pos f \<rparr>) = Some (Some s, f2) \<and>
    f_pos f2 = f_pos f1"
proof -
  let ?len = "of_nat (length s) :: 32 word"
  let ?bs = "l_enc int_layout ?len"
  have len: "sint ?len = int (length s)" using assms(2) by (simp add: sint_of_nat32)
  have ulen: "unat ?len = length s" using assms(2) by (simp add: unat_of_nat)
  have n: "unat (scast ?len :: 64 word) = length s" using assms(2) by (simp add: scast_eq len unat_of_nat)
  have nul: "(s @ [0]) ! unat ?len = 0" by (simp add: ulen)
  define f1 where "f1 = appended f (?bs @ s)"
  have "Store_string s f = Some f1"
    using assms nul by (simp add: Store_string_def Let_def len int_codec.Store_at_end Store_bytes_at_end ulen f1_def)
  moreover have "ready (f1\<lparr> f_pos := f_pos f \<rparr>) (?bs @ s)"
    using assms(1) by (simp add: ready_def at_end_def f1_def appended_def)
  from int_codec.Load_ready [OF this] obtain f2 where
    f2: "Load int_layout (f1\<lparr> f_pos := f_pos f \<rparr>) = Some (Some ?len, f2)" "ready f2 s" by blast
  moreover have "f_pos f2 = f_pos f + length ?bs"
    using f2(1) assms(1) by (auto simp: Load_def Load_bytes_def fread_def at_end_def f1_def appended_def Let_def
        int_layout_def split: if_splits)
  ultimately show ?thesis
    using assms f2(2) by (auto simp: Load_string_def len n fread_def ready_def Let_def f1_def appended_def)
qed


lemma string_roundtrip_example:
  "\<exists>f1 f2. Store_string [104, 105] \<lparr> f_data = [9], f_pos = 1, f_eof = False, f_error = False \<rparr> = Some f1 \<and>
    Load_string (f1\<lparr> f_pos := 1 \<rparr>) = Some (Some [104, 105], f2) \<and> f_pos f2 = f_pos f1"
  using string_roundtrip [of "\<lparr> f_data = [9], f_pos = 1, f_eof = False, f_error = False \<rparr>" "[104, 105]"]
  by (simp add: at_end_def)

text \<open>A negative length passes the check against 256 and reads the rest of the file, which overruns
  the buffer when more than 256 bytes are left.\<close>

lemma negative_length_overruns:
  assumes "ready f (l_enc int_layout len @ r)" "sint len < 0" "length r > 256" "length r < 2 ^ 32"
  shows "Load_string f = None"
proof -
  from int_codec.Load_ready [OF assms(1)] obtain f1 where
    f1: "Load int_layout f = Some (Some len, f1)" "ready f1 r" by blast
  have lo: "sint len \<ge> - (2 ^ 31)" using sint_range_size [of len] by (simp add: word_size)
  have "uint (scast len :: 64 word) = sint len mod 2 ^ 64" by (simp only: scast_eq uint_word_of_int) simp
  also have "\<dots> = (sint len + 2 ^ 64) mod 2 ^ 64" by (simp only: mod_add_self2)
  also have "\<dots> = sint len + 2 ^ 64" using lo assms(2) by (intro mod_pos_pos_trivial) simp_all
  finally have "uint (scast len :: 64 word) = sint len + 2 ^ 64" .
  then have "unat (scast len :: 64 word) \<ge> 2 ^ 32"
    using lo by (simp only: unat_eq_nat_uint le_nat_iff) simp
  then show ?thesis
    using f1 assms(2-4) by (simp add: Load_string_def fread_def ready_def Let_def)
qed


section \<open>The schedule of a path\<close>

fun path_kinds :: "xt \<Rightarrow> nat list \<Rightarrow> node_kind list" where
  "path_kinds x [] = []"
| "path_kinds (XN r s k c xs) (i # is) = k # path_kinds (xs ! i) is"
| "path_kinds x (i # is) = []"

definition index_item :: "nat \<Rightarrow> schedule_item" where
  "index_item i = \<lparr> sch_kind = ScheduleItem_ChildIndex, sch_value = of_nat i \<rparr>"

lemma ComputeExecutionTreeStack_path:
  "rep (heap t) p x \<Longrightarrow> valid_path x d \<Longrightarrow> list_all (\<lambda>k. \<not> is_select_thread k) (path_kinds x d) \<Longrightarrow>
   ComputeExecutionTreeStack t vs (locs x d) items = Some (items @ map index_item d)"
proof (induction x d arbitrary: p items rule: valid_path.induct)
  case (2 r s k c xs i js)
  then have "stack_item t vs (Loc (Some r) (int i)) = Some (index_item i)"
    by (simp add: stack_item_def Loc_def loc_empty_def index_item_def)
  moreover have "rep (heap t) (Some r) (xs ! i)" using 2 by auto
  note 2(1) [OF this, of "items @ [index_item i]"]
  ultimately show ?case using 2 by simp
qed auto

text \<open>C34: The schedule that is saved for a path of the execution tree without thread
  selections is read back from the file as the list of the child indices of the path.\<close>

theorem saved_path_is_reloaded:
  assumes "rep (heap t) p x" "valid_path x d" "list_all (\<lambda>k. \<not> is_select_thread k) (path_kinds x d)"
    and "fs_writable fs name" "length d < 2 ^ 31"
  shows "\<exists>fs'. save_schedule t vs (locs x d) name fs = Some fs' \<and>
    Serializable_Load (Schedule_Load []) name fs' = Some (map index_item d)"
  using schedule_roundtrip [OF assms(4), of "map index_item d" "[]"] assms(5)
    ComputeExecutionTreeStack_path [OF assms(1-3)]
  by (simp add: save_schedule_def)

definition sample_xt :: xt where
  "sample_xt = XN 0 0 KRoot False [XN 3 1 KChoice False [XE, XU]]"

definition sample_tree :: tree_state where
  "sample_tree = \<lparr> heap = [0 \<mapsto> node_of None sample_xt, 3 \<mapsto> node_of (Some 0) (XN 3 1 KChoice False [XE, XU])],
     next_ref = 4, sinfo = (\<lambda>i. \<lparr> si_message = '''', si_choice = None \<rparr>), stat_log = [] \<rparr>"

theorem saved_path_is_reloaded_witness:
  "\<exists>fs'. save_schedule sample_tree undefined (locs sample_xt [0, 1]) ''s''
      \<lparr> fs_files = Map.empty, fs_writable = (\<lambda>n. True) \<rparr> = Some fs' \<and>
    Serializable_Load (Schedule_Load []) ''s'' fs' = Some (map index_item [0, 1])"
  by (rule saved_path_is_reloaded [where p = None])
    (simp_all add: sample_tree_def sample_xt_def is_select_thread_def)

end
