(* ===== verification/Dot_Graphs.thy ===== *)
theory Dot_Graphs
  imports Serialization
begin

text \<open>
  dot.h/.cpp and the UpdateDotGraph methods of dsl.h/.cpp: the drawing of the execution tree.  Dot
  nodes are objects that the graph refers to by pointer; here they are numbered in the order of
  their allocation (\<open>dg_objs\<close>).  \<open>dg_nodes\<close> is the map from ids to objects in the order of the keys.
\<close>

section \<open>Graphs\<close>

record dot_node =
  dn_label :: string
  dn_id :: int
  dn_shape :: string
  dn_color :: string

record dot_edge =
  de_source :: nat
  de_target :: nat
  de_label :: string
  de_style :: string
  de_color :: string

record dot_graph =
  dg_name :: string
  dg_objs :: "dot_node list"
  dg_nodes :: "(int \<times> nat) list"
  dg_edges :: "dot_edge list"

definition DotGraph :: "string \<Rightarrow> dot_graph" where
  "DotGraph name = \<lparr> dg_name = name, dg_objs = [], dg_nodes = [], dg_edges = [] \<rparr>"

definition DotNode :: "string \<Rightarrow> int \<Rightarrow> dot_node" where
  "DotNode label i = \<lparr> dn_label = label, dn_id = i, dn_shape = ''box'', dn_color = ''blue'' \<rparr>"

definition DotEdge :: "nat \<Rightarrow> nat \<Rightarrow> string \<Rightarrow> dot_edge" where
  "DotEdge src tgt label = \<lparr> de_source = src, de_target = tgt, de_label = label,
     de_style = ''solid'', de_color = ''black'' \<rparr>"

definition new_DotNode :: "dot_node \<Rightarrow> dot_graph \<Rightarrow> nat \<times> dot_graph" where
  "new_DotNode d g = (length (dg_objs g), g\<lparr> dg_objs := dg_objs g @ [d] \<rparr>)"

definition AddNode :: "nat \<Rightarrow> dot_graph \<Rightarrow> dot_graph option" where
  "AddNode a g = (if a \<ge> length (dg_objs g) then None
     else let d = dg_objs g ! a in
       (case mm_find (dg_nodes g) (dn_id d) of
          None \<Rightarrow> (let i = (if dn_id d < 0 then int (length (dg_nodes g)) else dn_id d) in
            Some (g\<lparr> dg_objs := (dg_objs g)[a := d\<lparr> dn_id := i \<rparr>], dg_nodes := mm_put (dg_nodes g) i a \<rparr>))
        | Some b \<Rightarrow> do { safe_assert (b = a); Some g }))"

definition AddEdge :: "dot_edge \<Rightarrow> dot_graph \<Rightarrow> dot_graph" where
  "AddEdge e g = g\<lparr> dg_edges := dg_edges g @ [e] \<rparr>"

definition GetNode :: "int \<Rightarrow> dot_graph \<Rightarrow> nat option" where
  "GetNode i g = mm_find (dg_nodes g) i"

subsection \<open>Output\<close>

definition dquote :: string where "dquote = [CHR 0x22]"
definition newline :: string where "newline = [CHR 0x0A]"

definition DotNode_ToStream :: "dot_node \<Rightarrow> string" where
  "DotNode_ToStream d = ''N'' @ to_string (dn_id d) @ '' [label='' @ dquote @ dn_label d @ dquote @
     '', shape='' @ dn_shape d @ '', color='' @ dn_color d @ ''];''"

definition DotEdge_ToStream :: "dot_graph \<Rightarrow> dot_edge \<Rightarrow> string" where
  "DotEdge_ToStream g e = ''N'' @ to_string (dn_id (dg_objs g ! de_source e)) @ '' -> N'' @
     to_string (dn_id (dg_objs g ! de_target e)) @ '' [label='' @ dquote @ de_label e @ dquote @
     '', style='' @ de_style e @ '', color='' @ de_color e @ ''];''"

definition DotGraph_ToStream :: "dot_graph \<Rightarrow> string" where
  "DotGraph_ToStream g = ''digraph '' @ dg_name g @ '' {'' @ newline @
     concat (map (\<lambda>(i, a). DotNode_ToStream (dg_objs g ! a) @ newline) (dg_nodes g)) @
     concat (map (\<lambda>e. DotEdge_ToStream g e @ newline) (dg_edges g)) @ ''}'' @ newline"

section \<open>The drawing of a tree\<close>

text \<open>The label of the end node: its exception is a ConcurritException, which is neither of the two
  classes the method asks for, so that its \<open>what()\<close> is shown.\<close>

definition EndNode_ToString :: "string option \<Rightarrow> string" where
  "EndNode_ToString what = ''EndNode('' @ (case what of None \<Rightarrow> ''SUCCESS'' | Some w \<Rightarrow> w) @ '')''"

fun dot_label :: "string option \<Rightarrow> node_kind \<Rightarrow> string" where
  "dot_label w KRoot = ''''"
| "dot_label w KLock = ''''"
| "dot_label w KEnd = EndNode_ToString w"
| "dot_label w KChoice = ''ChoiceNode''"
| "dot_label w (KConditional b) = ''ConditionalNode''"
| "dot_label w (KExists s cv) = ''ExistsThreadNode''"
| "dot_label w (KForall s mp l) = ''ForallThreadNode''"
| "dot_label w (KRunThrough p v) = ''RunThroughNode''"
| "dot_label w (KRunUntil p v) = ''RunUntilNode''"

definition transition_label :: "tvstore \<Rightarrow> tvref option \<Rightarrow> string" where
  "transition_label vs v = (case v of None \<Rightarrow> ''-'' | Some r \<Rightarrow> ThreadVar_ToString vs r)"

text \<open>The children that a node draws, with the labels of the edges to them.  The index is printed
  into a buffer of 8 characters.\<close>

definition one_child :: "'a tree_state_scheme \<Rightarrow> noderef \<Rightarrow> string \<Rightarrow> string \<Rightarrow> (noderef option \<times> string) list option" where
  "one_child t r label no_child = do { c \<leftarrow> child t r 0; Some [(c, if c = None then no_child else label)] }"

fun forall_edges :: "tvstore \<Rightarrow> tvref list \<Rightarrow> noderef option list \<Rightarrow> (noderef option \<times> string) list option" where
  "forall_edges vs l [] = Some []"
| "forall_edges vs [] (c # cs) = None"
| "forall_edges vs (v # l) (c # cs) = do {
     i \<leftarrow> ThreadVar_tid vs v;
     es \<leftarrow> forall_edges vs l cs;
     Some ((c, to_string i) # es) }"

definition child_edges :: "'a tree_state_scheme \<Rightarrow> tvstore \<Rightarrow> noderef \<Rightarrow> (noderef option \<times> string) list option" where
  "child_edges t vs r = do {
     nd \<leftarrow> heap t r;
     (case n_kind nd of
        KChoice \<Rightarrow> do { c0 \<leftarrow> child t r 0; c1 \<leftarrow> child t r 1; Some [(c0, ''F''), (c1, ''T'')] }
      | KConditional b \<Rightarrow> one_child t r (bool_to_string b) ''?''
      | KExists s cv \<Rightarrow> one_child t r ''?'' ''?''
      | KForall s mp l \<Rightarrow> forall_edges vs l (n_children nd)
      | KRunThrough p v \<Rightarrow> one_child t r (transition_label vs v) (transition_label vs v)
      | KRunUntil p v \<Rightarrow> one_child t r (transition_label vs v) (transition_label vs v)
      | _ \<Rightarrow> Some (map (\<lambda>(i, c). (c, take 7 (to_string (int i)))) (enumerate 0 (n_children nd)))) }"

text \<open>The recursion down the tree is bounded by fuel; the height of the tree is enough.\<close>

function UpdateDotGraph :: "nat \<Rightarrow> 'a tree_state_scheme \<Rightarrow> tvstore \<Rightarrow> string option \<Rightarrow> noderef \<Rightarrow> dot_graph \<Rightarrow> (nat \<times> dot_graph) option"
and dot_children :: "nat \<Rightarrow> 'a tree_state_scheme \<Rightarrow> tvstore \<Rightarrow> string option \<Rightarrow> nat \<Rightarrow> (noderef option \<times> string) list
    \<Rightarrow> dot_graph \<Rightarrow> dot_graph option" where
  "UpdateDotGraph 0 t vs w r g = None"
| "UpdateDotGraph (Suc n) t vs w r g = do {
     nd \<leftarrow> heap t r;
     let (a, g1) = new_DotNode (DotNode (dot_label w (n_kind nd)) (-1)) g;
     g2 \<leftarrow> AddNode a g1;
     if is_end_kind (n_kind nd) then Some (a, AddEdge (DotEdge a a '''') g2)
     else do {
       es \<leftarrow> child_edges t vs r;
       g3 \<leftarrow> dot_children n t vs w a es g2;
       Some (a, g3) } }"
| "dot_children n t vs w a [] g = Some g"
| "dot_children n t vs w a ((c, label) # es) g = do {
     (b, g1) \<leftarrow> (case c of None \<Rightarrow> Some (new_DotNode (DotNode ''NULL'' (-1)) g)
       | Some r \<Rightarrow> UpdateDotGraph n t vs w r g);
     g2 \<leftarrow> AddNode b g1;
     dot_children n t vs w a es (AddEdge (DotEdge a b label) g2) }"
  by pat_completeness auto
termination
  by (relation "measures [\<lambda>x. case x of Inl (n, _) \<Rightarrow> n | Inr (n, _) \<Rightarrow> n,
      \<lambda>x. case x of Inl _ \<Rightarrow> 0 | Inr (n, t, vs, w, a, es, g) \<Rightarrow> Suc (length es)]") auto

definition SaveDotGraph :: "nat \<Rightarrow> 'a tree_state_scheme \<Rightarrow> tvstore \<Rightarrow> string option \<Rightarrow> string option
    \<Rightarrow> (string \<Rightarrow> string option) \<Rightarrow> (string \<Rightarrow> string option) option" where
  "SaveDotGraph fuel t vs w filename files = do {
     name \<leftarrow> safe_notnull filename;
     (a, g) \<leftarrow> UpdateDotGraph fuel t vs w ROOTNODE (DotGraph ''ExecutionTree'');
     let g1 = g\<lparr> dg_objs := (dg_objs g)[a := (dg_objs g ! a)\<lparr> dn_label := ''Root'' \<rparr>] \<rparr>;
     Some (files(name \<mapsto> DotGraph_ToStream g1)) }"


section \<open>Well-formed graphs\<close>

text \<open>Ids are the numbers below the number of nodes, each object has the id it is stored under, and
  edges go between nodes of the graph.\<close>

definition dot_ok :: "dot_graph \<Rightarrow> bool" where
  "dot_ok g \<longleftrightarrow> map fst (dg_nodes g) = map int [0..<length (dg_nodes g)] \<and>
     (\<forall>(i, a) \<in> set (dg_nodes g). a < length (dg_objs g) \<and> dn_id (dg_objs g ! a) = i) \<and>
     (\<forall>e \<in> set (dg_edges g). de_source e \<in> snd ` set (dg_nodes g) \<and> de_target e \<in> snd ` set (dg_nodes g))"

lemma dot_ok_keys: "dot_ok g \<Longrightarrow> (i, a) \<in> set (dg_nodes g) \<Longrightarrow> 0 \<le> i \<and> i < int (length (dg_nodes g))"
proof -
  assume g: "dot_ok g" "(i, a) \<in> set (dg_nodes g)"
  then have "i \<in> set (map fst (dg_nodes g))" by force
  then have "i \<in> set (map int [0..<length (dg_nodes g)])" using g(1) by (simp only: dot_ok_def)
  then show ?thesis by auto
qed

lemma dot_ok_distinct: "dot_ok g \<Longrightarrow> distinct (map fst (dg_nodes g))"
  by (simp add: dot_ok_def distinct_map inj_on_def)

lemma mm_put_last: "(\<And>a v. (a, v) \<in> set m \<Longrightarrow> a < k) \<Longrightarrow> mm_put m k w = m @ [(k, w)]"
  by (induction m k w rule: mm_put.induct) (auto dest: less_not_sym)

lemma mm_find_distinct: "distinct (map fst m) \<Longrightarrow> (k, v) \<in> set m \<Longrightarrow> mm_find m k = Some v"
  by (induction m k rule: mm_find.induct) (auto simp: rev_image_eqI)

lemma mm_find_above: "(\<And>a v. (a, v) \<in> set m \<Longrightarrow> a \<noteq> k) \<Longrightarrow> mm_find m k = None"
  by (induction m k rule: mm_find.induct) auto

definition grown :: "string \<Rightarrow> dot_graph \<Rightarrow> dot_graph" where
  "grown label g = g\<lparr> dg_objs := dg_objs g @ [DotNode label (int (length (dg_nodes g)))],
     dg_nodes := dg_nodes g @ [(int (length (dg_nodes g)), length (dg_objs g))] \<rparr>"

lemma AddNode_new:
  assumes "dot_ok g"
  shows "AddNode (length (dg_objs g)) (g\<lparr> dg_objs := dg_objs g @ [DotNode label (-1)] \<rparr>) = Some (grown label g)"
proof -
  have keys: "0 \<le> i \<and> i < int (length (dg_nodes g))" if "(i, a) \<in> set (dg_nodes g)" for i a
    using dot_ok_keys [OF assms that] .
  have "mm_find (dg_nodes g) (-1) = None" by (rule mm_find_above) (use keys in force)
  moreover have "mm_put (dg_nodes g) (int (length (dg_nodes g))) a
      = dg_nodes g @ [(int (length (dg_nodes g)), a)]" for a
    by (rule mm_put_last) (use keys in force)
  ultimately show ?thesis by (simp add: AddNode_def DotNode_def grown_def Let_def)
qed

lemma grown_ok: "dot_ok g \<Longrightarrow> dot_ok (grown label g)"
  by (fastforce simp: dot_ok_def grown_def DotNode_def nth_append)

lemma grown_simps [simp]:
  "length (dg_nodes (grown label g)) = Suc (length (dg_nodes g))" "dg_edges (grown label g) = dg_edges g"
  "set (dg_nodes (grown label g)) = insert (int (length (dg_nodes g)), length (dg_objs g)) (set (dg_nodes g))"
  by (simp_all add: grown_def)

lemma AddNode_again:
  assumes "dot_ok g" "a \<in> snd ` set (dg_nodes g)"
  shows "AddNode a g = Some g"
proof -
  from assms(2) obtain i where i: "(i, a) \<in> set (dg_nodes g)" by auto
  then have "a < length (dg_objs g)" "dn_id (dg_objs g ! a) = i" using assms(1) by (auto simp: dot_ok_def)
  then show ?thesis
    using mm_find_distinct [OF dot_ok_distinct [OF assms(1)] i] by (simp add: AddNode_def Let_def)
qed

lemma AddEdge_ok:
  "dot_ok g \<Longrightarrow> a \<in> snd ` set (dg_nodes g) \<Longrightarrow> b \<in> snd ` set (dg_nodes g) \<Longrightarrow> dot_ok (AddEdge (DotEdge a b label) g)"
  by (auto simp: dot_ok_def AddEdge_def DotEdge_def)

lemma AddEdge_simps [simp]:
  "dg_nodes (AddEdge e g) = dg_nodes g" "dg_edges (AddEdge e g) = dg_edges g @ [e]"
  by (simp_all add: AddEdge_def)

section \<open>The drawing of a represented tree\<close>

fun kind_ok :: "tvstore \<Rightarrow> nat \<Rightarrow> node_kind \<Rightarrow> bool" where
  "kind_ok vs n (KForall s mp l) = (length l = n \<and> list_all (\<lambda>v. \<not> is_empty_var vs v) l)"
| "kind_ok vs n KEnd = False"
| "kind_ok vs n KRoot = True"
| "kind_ok vs n KLock = True"
| "kind_ok vs n k = (n = num_children k)"

fun kinds_ok :: "tvstore \<Rightarrow> xt \<Rightarrow> bool" where
  "kinds_ok vs (XN r s k c xs) = (kind_ok vs (length xs) k \<and> list_all (kinds_ok vs) xs)"
| "kinds_ok vs x = True"

fun height :: "xt \<Rightarrow> nat" where
  "height XU = 0"
| "height XE = 1"
| "height (XN r s k c xs) = Suc (foldr max (map height xs) 0)"

fun drawn_nodes :: "xt \<Rightarrow> nat" where
  "drawn_nodes XU = 1"
| "drawn_nodes XE = 1"
| "drawn_nodes (XN r s k c xs) = Suc (sum_list (map drawn_nodes xs))"

fun drawn_edges :: "xt \<Rightarrow> nat" where
  "drawn_edges XU = 0"
| "drawn_edges XE = 1"
| "drawn_edges (XN r s k c xs) = sum_list (map (\<lambda>x. Suc (drawn_edges x)) xs)"

lemma height_child: "x \<in> set xs \<Longrightarrow> height x \<le> foldr max (map height xs) 0"
  by (induction xs) (auto simp: max_def)

lemma forall_edges_total:
  "length l = length cs \<Longrightarrow> list_all (\<lambda>v. \<not> is_empty_var vs v) l \<Longrightarrow>
   \<exists>es. forall_edges vs l cs = Some es \<and> map fst es = cs"
  by (induction vs l cs rule: forall_edges.induct) (auto simp: ThreadVar_tid_def is_empty_var_def)

lemma child_edges_total:
  assumes "heap t r = Some (node_of p (XN r s k c xs))" "kind_ok vs (length xs) k"
  shows "\<exists>es. child_edges t vs r = Some es \<and> map fst es = map ptr xs"
proof -
  have one: "\<exists>es. one_child t r l l' = Some es \<and> map fst es = map ptr xs" if "length xs = 1" for l l'
    using assms(1) that by (cases xs) (auto simp: one_child_def child_def)
  show ?thesis
  proof (cases k)
    case KChoice
    then obtain x y where "xs = [x, y]" using assms(2) by (auto simp: length_Suc_conv numeral_2_eq_2)
    then show ?thesis using assms(1) KChoice by (simp add: child_edges_def child_def)
  next
    case (KForall i mp l)
    then show ?thesis
      using assms forall_edges_total [of l "map ptr xs" vs] by (simp add: child_edges_def)
  qed (use assms one in \<open>auto simp: child_edges_def comp_def case_prod_beta\<close>)
qed


definition extends :: "dot_graph \<Rightarrow> dot_graph \<Rightarrow> nat \<Rightarrow> nat \<Rightarrow> bool" where
  "extends g g' m n \<longleftrightarrow> dot_ok g' \<and> set (dg_nodes g) \<subseteq> set (dg_nodes g') \<and>
     length (dg_nodes g') = length (dg_nodes g) + m \<and> length (dg_edges g') = length (dg_edges g) + n"

lemma extends_trans: "extends g g1 m n \<Longrightarrow> extends g1 g2 m' n' \<Longrightarrow> extends g g2 (m + m') (n + n')"
  by (auto simp: extends_def)

lemma extends_grown: "dot_ok g \<Longrightarrow> extends g (grown label g) 1 0"
  by (auto simp: extends_def grown_ok)

lemma extends_edge:
  "dot_ok g \<Longrightarrow> a \<in> snd ` set (dg_nodes g) \<Longrightarrow> b \<in> snd ` set (dg_nodes g) \<Longrightarrow> extends g (AddEdge (DotEdge a b l) g) 0 1"
  by (auto simp: extends_def AddEdge_ok)

lemma extends_mem: "extends g g' m n \<Longrightarrow> a \<in> snd ` set (dg_nodes g) \<Longrightarrow> a \<in> snd ` set (dg_nodes g')"
  by (auto simp: extends_def)

lemma extends_ok: "extends g g' m n \<Longrightarrow> dot_ok g'"
  by (simp add: extends_def)

definition child_drawn :: "nat \<Rightarrow> 'a tree_state_scheme \<Rightarrow> tvstore \<Rightarrow> string option \<Rightarrow> xt \<Rightarrow> bool" where
  "child_drawn n t vs w x \<longleftrightarrow> (\<forall>g. dot_ok g \<longrightarrow> (\<exists>b g1. b \<in> snd ` set (dg_nodes g1) \<and>
     extends g g1 (drawn_nodes x) (drawn_edges x) \<and>
     do { (b, g1) \<leftarrow> (case ptr x of None \<Rightarrow> Some (new_DotNode (DotNode ''NULL'' (-1)) g)
            | Some r \<Rightarrow> UpdateDotGraph n t vs w r g);
          g2 \<leftarrow> AddNode b g1; Some (b, g2) } = Some (b, g1)))"

lemma dot_children_total:
  assumes "list_all (child_drawn n t vs w) xs"
  shows "map fst es = map ptr xs \<Longrightarrow> dot_ok g \<Longrightarrow> a \<in> snd ` set (dg_nodes g) \<Longrightarrow>
    \<exists>g'. dot_children n t vs w a es g = Some g' \<and>
      extends g g' (sum_list (map drawn_nodes xs)) (sum_list (map (\<lambda>x. Suc (drawn_edges x)) xs))"
  using assms
proof (induction xs arbitrary: es g)
  case Nil
  then show ?case by (simp add: extends_def)
next
  case (Cons x xs)
  obtain label es' where es: "es = (ptr x, label) # es'" "map fst es' = map ptr xs"
    using Cons.prems(1) by (cases es) auto
  have hd: "child_drawn n t vs w x" using Cons.prems(4) by simp
  obtain b g1 where b: "b \<in> snd ` set (dg_nodes g1)" "extends g g1 (drawn_nodes x) (drawn_edges x)"
    "do { (b, g1) \<leftarrow> (case ptr x of None \<Rightarrow> Some (new_DotNode (DotNode ''NULL'' (-1)) g)
            | Some r \<Rightarrow> UpdateDotGraph n t vs w r g);
          g2 \<leftarrow> AddNode b g1; Some (b, g2) } = Some (b, g1)"
    using Cons.prems(2) hd unfolding child_drawn_def by blast
  let ?g2 = "AddEdge (DotEdge a b label) g1"
  have step: "dot_children n t vs w a es g = dot_children n t vs w a es' ?g2"
    using b(3) by (auto simp: es(1) bind_Some_iff split: prod.splits option.splits)
  have a: "a \<in> snd ` set (dg_nodes g1)" using extends_mem [OF b(2) Cons.prems(3)] .
  have e2: "extends g1 ?g2 0 1" using extends_edge [OF extends_ok [OF b(2)] a b(1)] .
  from Cons.IH [OF es(2) extends_ok [OF e2]] a Cons.prems(4)
  obtain g' where g': "dot_children n t vs w a es' ?g2 = Some g'"
    "extends ?g2 g' (sum_list (map drawn_nodes xs)) (sum_list (map (\<lambda>x. Suc (drawn_edges x)) xs))"
    by auto
  show ?case
    using extends_trans [OF extends_trans [OF b(2) e2] g'(2)] g'(1) by (simp add: step)
qed

lemma child_drawn_null: "child_drawn n t vs w XU"
  using AddNode_new extends_grown
  by (auto simp: child_drawn_def new_DotNode_def intro!: exI [of _ "grown ''NULL'' _"])

lemma child_drawn_visit:
  assumes "ptr x = Some r"
    and "\<And>g. dot_ok g \<Longrightarrow> \<exists>a g'. UpdateDotGraph n t vs w r g = Some (a, g') \<and> a \<in> snd ` set (dg_nodes g') \<and>
      extends g g' (drawn_nodes x) (drawn_edges x)"
  shows "child_drawn n t vs w x"
proof -
  have "\<exists>b g1. b \<in> snd ` set (dg_nodes g1) \<and> extends g g1 (drawn_nodes x) (drawn_edges x) \<and>
     do { (b, g1) \<leftarrow> UpdateDotGraph n t vs w r g; g2 \<leftarrow> AddNode b g1; Some (b, g2) } = Some (b, g1)"
    if g: "dot_ok g" for g
  proof -
    obtain a g' where "UpdateDotGraph n t vs w r g = Some (a, g')" "a \<in> snd ` set (dg_nodes g')"
      "extends g g' (drawn_nodes x) (drawn_edges x)" using assms(2) [OF g] by blast
    then show ?thesis using AddNode_again [OF extends_ok] by (intro exI [of _ a] exI [of _ g']) simp
  qed
  then show ?thesis using assms(1) by (simp add: child_drawn_def)
qed


lemma UpdateDotGraph_draws:
  assumes "heap t ENDNODE = Some e" "n_kind e = KEnd"
  shows "rep (heap t) p x \<Longrightarrow> kinds_ok vs x \<Longrightarrow> height x \<le> n \<Longrightarrow> ptr x = Some r \<Longrightarrow> dot_ok g \<Longrightarrow>
    \<exists>a g'. UpdateDotGraph n t vs w r g = Some (a, g') \<and> a \<in> snd ` set (dg_nodes g') \<and>
      extends g g' (drawn_nodes x) (drawn_edges x)"
proof (induction x arbitrary: p n r g)
  case XU
  then show ?case by simp
next
  case XE
  then obtain m where n: "n = Suc m" by (cases n) auto
  let ?g = "grown (dot_label w KEnd) g"
  have g: "extends g ?g 1 0" "length (dg_objs g) \<in> snd ` set (dg_nodes ?g)"
    using extends_grown XE.prems(5) by auto
  have "UpdateDotGraph n t vs w r g = Some (length (dg_objs g), AddEdge (DotEdge (length (dg_objs g)) (length (dg_objs g)) '''') ?g)"
    using XE.prems assms AddNode_new [OF XE.prems(5), of "dot_label w KEnd"] n
    by (simp add: new_DotNode_def is_end_kind_def Let_def)
  then show ?case
    using extends_trans [OF g(1) extends_edge [OF extends_ok [OF g(1)] g(2) g(2)]] g(2) by simp
next
  case (XN q s k c xs)
  then obtain m where n: "n = Suc m" by (cases n) auto
  have r: "q = r" and hr: "heap t r = Some (node_of p (XN r s k c xs))" using XN.prems by auto
  have k: "kind_ok vs (length xs) k" "list_all (kinds_ok vs) xs" using XN.prems(2) by auto
  obtain es where es: "child_edges t vs r = Some es" "map fst es = map ptr xs"
    using child_edges_total [OF hr k(1)] by blast
  let ?g = "grown (dot_label w k) g" and ?a = "length (dg_objs g)"
  have g: "extends g ?g 1 0" "?a \<in> snd ` set (dg_nodes ?g)"
    using extends_grown XN.prems(5) by auto
  have "child_drawn m t vs w x" if x: "x \<in> set xs" for x
  proof (cases "ptr x")
    case None
    then show ?thesis using child_drawn_null by (cases x) auto
  next
    case (Some y)
    have "height x \<le> m" using height_child [OF x] XN.prems(3) n by simp
    then show ?thesis
      using XN.IH [OF x] XN.prems(1) k(2) x Some by (intro child_drawn_visit [OF Some]) (auto simp: list_all_iff)
  qed
  then have "list_all (child_drawn m t vs w) xs" by (simp add: list_all_iff)
  from dot_children_total [OF this es(2) extends_ok [OF g(1)] g(2)]
  obtain g' where g': "dot_children m t vs w ?a es ?g = Some g'"
    "extends ?g g' (sum_list (map drawn_nodes xs)) (sum_list (map (\<lambda>x. Suc (drawn_edges x)) xs))" by blast
  have "\<not> is_end_kind k" using k(1) by (cases k) (auto simp: is_end_kind_def)
  then have "UpdateDotGraph n t vs w r g = Some (?a, g')"
    using hr AddNode_new [OF XN.prems(5), of "dot_label w k"] es(1) g'(1) n
    by (simp add: new_DotNode_def Let_def)
  then show ?case
    using extends_trans [OF g(1) g'(2)] extends_mem [OF g'(2) g(2)] by simp
qed

text \<open>C36: For every execution tree on the heap and enough fuel, the drawing is built
  without an abort and has one dot node per tree node, per unexplored branch and per finished
  branch, with distinct ids, and edges only between its nodes.\<close>

theorem drawing_complete:
  assumes "heap t ENDNODE = Some e" "n_kind e = KEnd"
    and "rep (heap t) p x" "kinds_ok vs x" "ptr x = Some r" "height x \<le> n"
  shows "\<exists>a g. UpdateDotGraph n t vs w r (DotGraph name) = Some (a, g) \<and>
    length (dg_nodes g) = drawn_nodes x \<and> length (dg_edges g) = drawn_edges x \<and>
    (\<forall>(i, b) \<in> set (dg_nodes g). GetNode i g = Some b \<and> dn_id (dg_objs g ! b) = i) \<and>
    (\<forall>d \<in> set (dg_edges g). \<exists>i j. GetNode i g = Some (de_source d) \<and> GetNode j g = Some (de_target d))"
proof -
  have "dot_ok (DotGraph name)" by (simp add: dot_ok_def DotGraph_def)
  from UpdateDotGraph_draws [OF assms(1,2,3,4,6,5) this] obtain a g where
    g: "UpdateDotGraph n t vs w r (DotGraph name) = Some (a, g)" "extends (DotGraph name) g (drawn_nodes x) (drawn_edges x)"
    by blast
  have ok: "dot_ok g" using extends_ok [OF g(2)] .
  have find: "GetNode i g = Some b" if "(i, b) \<in> set (dg_nodes g)" for i b
    using mm_find_distinct [OF dot_ok_distinct [OF ok] that] by (simp add: GetNode_def)
  have mem: "\<exists>i. GetNode i g = Some b" if "b \<in> snd ` set (dg_nodes g)" for b
    using that find by force
  show ?thesis
    using g find mem ok by (intro exI [of _ a] exI [of _ g]) (auto simp: extends_def DotGraph_def dot_ok_def)
qed

theorem drawing_complete_witness:
  "\<exists>a g. UpdateDotGraph 3 (sample_tree\<lparr> heap := (heap sample_tree)(ENDNODE \<mapsto> mk_node 0 KEnd) \<rparr>) undefined None 0
      (DotGraph ''t'') = Some (a, g) \<and> length (dg_nodes g) = 4 \<and> length (dg_edges g) = 4"
proof -
  have "ENDNODE \<noteq> 0 \<and> ENDNODE \<noteq> 3" by (simp add: ENDNODE_def)
  then show ?thesis
    using drawing_complete [of "sample_tree\<lparr> heap := (heap sample_tree)(ENDNODE \<mapsto> mk_node 0 KEnd) \<rparr>"
        "mk_node 0 KEnd" None sample_xt undefined 0 3 None "''t''"]
    by (fastforce simp: sample_tree_def sample_xt_def mk_node_def)
qed

end
