(* ===== verification/Scenario_Run.thy ===== *)
theory Scenario_Run
  imports Scenario_DSL
begin

text \<open>
  Running a test: \<open>RunTestCase\<close>, \<open>JoinAllThreads\<close>, \<open>RunOnce\<close>, \<open>Explore\<close> and \<open>OnSignal\<close> of
  scenario.cpp.

  The test script is a parameter: a function on the manager that returns or throws.  So are the
  group's answers (\<open>IsAllEnded\<close>, \<open>WaitForAllEnd\<close>) and the interference of other threads.
\<close>

section \<open>Status\<close>

datatype TestStatus = TEST_BEGIN | TEST_SETUP | TEST_CONTROLLED | TEST_UNCONTROLLED
  | TEST_TEARDOWN | TEST_ENDED | TEST_TERMINATED

fun status_code :: "TestStatus \<Rightarrow> int" where
  "status_code TEST_BEGIN = 0"
| "status_code TEST_SETUP = 1"
| "status_code TEST_CONTROLLED = 2"
| "status_code TEST_UNCONTROLLED = 3"
| "status_code TEST_TEARDOWN = 4"
| "status_code TEST_ENDED = 5"
| "status_code TEST_TERMINATED = 6"

datatype ExploreType = FORALL | EXISTS

type_synonym test_case = "mgr \<Rightarrow> (unit outcome \<times> mgr) option"

section \<open>The controlled run\<close>

text \<open>\<open>WaitForTestStart\<close>: a timeout of the semaphore ends the search.\<close>

definition WaitForTestStart :: "bool \<Rightarrow> mgr \<Rightarrow> unit outcome \<times> mgr" where
  "WaitForTestStart timed_out m = (if timed_out then throw_backtrack SEARCH_ENDS m else (Returns (), m))"

text \<open>\<open>be->set_reason\<close> on the exception object.\<close>

definition set_reason :: "exn \<Rightarrow> BacktrackReason \<Rightarrow> exn" where
  "set_reason e r = (if as_backtrack e = Some r then e else Exn (exn_addr e) (BacktrackE r))"

definition retry_reason :: "BacktrackReason \<Rightarrow> bool" where
  "retry_reason r \<longleftrightarrow> r = TIMEOUT \<or> r = REPLAY_FAILS \<or> r = TREENODE_COVERED \<or> r = ASSUME_FAILS
     \<or> r = THREADS_ALLENDED"

record run_params =
  rp_cfg :: config
  rp_members :: nat
  rp_main :: co
  rp_all_ended :: bool
  rp_start_timeout :: bool
  rp_es :: "(mgr \<Rightarrow> mgr) list"
  rp_es2 :: "(mgr \<Rightarrow> mgr) list"
  rp_fresh :: tvref
  rp_uncontrolled :: bool

text \<open>After the loop: a reason other than success is recorded as the end of the path.\<close>

definition finish_testcase ::
  "run_params \<Rightarrow> exn option \<Rightarrow> BacktrackReason \<Rightarrow> tvstore \<Rightarrow> mgr \<Rightarrow> (unit outcome \<times> tvstore \<times> mgr) option" where
  "finish_testcase rp be reason vs m =
     (if reason = SUCCESS then Some (Returns (), vs, m)
      else (let (e, m1) = (case be of
                None \<Rightarrow> (Exn (next_ref m) (BacktrackE reason), m\<lparr>next_ref := Suc (next_ref m)\<rparr>)
              | Some e \<Rightarrow> (set_reason e reason, m))
            in case EndWithException (rp_main rp) (rp_es2 rp) e ''<unknown>'' m1 of
                 None \<Rightarrow> None | Some (r, m2) \<Rightarrow> Some (r, vs, m2)))"

partial_function (option) RunTestCase ::
  "run_params \<Rightarrow> test_case \<Rightarrow> tvstore \<Rightarrow> mgr \<Rightarrow> (unit outcome \<times> tvstore \<times> mgr) option" where
  [code]: "RunTestCase rp testcase vs m =
     (case (if rp_uncontrolled rp then Some (Returns (), m)
            else (case WaitForTestStart (rp_start_timeout rp) m of
                    (Returns u, m1) \<Rightarrow> testcase m1 | r \<Rightarrow> Some r)) of
        None \<Rightarrow> None
      | Some (Blocked, m1) \<Rightarrow> Some (Blocked, vs, m1)
      | Some (Returns u, m1) \<Rightarrow>
          Option.bind (EndWithSuccess (rp_cfg rp) (rp_members rp) (rp_main rp) (rp_es rp) (rp_fresh rp) vs SUCCESS m1)
            (\<lambda>(again, reason, vs', m2).
               if again then RunTestCase rp testcase vs' m2 else finish_testcase rp None reason vs' m2)
      | Some (Throws e, m1) \<Rightarrow>
          (case as_backtrack e of
             None \<Rightarrow> (case EndWithException (rp_main rp) (rp_es rp) e ''<unknown>'' m1 of
                None \<Rightarrow> None | Some (r, m2) \<Rightarrow> Some (r, vs, m2))
           | Some r0 \<Rightarrow>
               (let r = (if r0 = TIMEOUT \<and> rp_all_ended rp then THREADS_ALLENDED else r0) in
                if r0 = SUCCESS then None
                else if retry_reason r then
                  Option.bind (EndWithSuccess (rp_cfg rp) (rp_members rp) (rp_main rp) (rp_es rp) (rp_fresh rp) vs r m1)
                    (\<lambda>(again, reason, vs', m2).
                       if again then RunTestCase rp testcase vs' m2 else finish_testcase rp (Some e) reason vs' m2)
                else finish_testcase rp (Some e) r vs m1)))"

section \<open>The uncontrolled run\<close>

text \<open>\<open>JoinAllThreads\<close>: \<open>waits\<close> are the results of \<open>WaitForAllEnd\<close>, the number of threads that have
  not ended; \<open>MaxTimeOutsBeforeDeadlock\<close> timeouts count as a deadlock.\<close>

fun JoinAllThreads_loop :: "int \<Rightarrow> co \<Rightarrow> int list \<Rightarrow> int \<Rightarrow> mgr \<Rightarrow> (unit outcome \<times> mgr) option" where
  "JoinAllThreads_loop max_timeouts c waits num_timed_out m =
     (if get_non_backtrack (end_exception m) \<noteq> None then Some (Returns (), m)
      else (let n = num_timed_out + 1 in
        if n = max_timeouts
        then Some (Returns (), add_exception (Exn (next_ref m) DeadlockE) c ''JoinAllThreads''
                                 (m\<lparr>next_ref := Suc (next_ref m)\<rparr>))
        else (case waits of
            [] \<Rightarrow> Some (Blocked, m)
          | w # ws \<Rightarrow> if w > 0 then JoinAllThreads_loop max_timeouts c ws n m else Some (Returns (), m))))"

declare JoinAllThreads_loop.simps [simp del]

definition JoinAllThreads :: "int \<Rightarrow> co \<Rightarrow> int list \<Rightarrow> mgr \<Rightarrow> (unit outcome \<times> mgr) option" where
  "JoinAllThreads max_timeouts c waits m = JoinAllThreads_loop max_timeouts c waits (-1) m"

section \<open>One execution\<close>

record search =
  x_mgr :: mgr
  x_status :: TestStatus
  x_vars :: tvstore
  x_exit_on_first :: int
  x_num_executions :: int
  x_num_success :: int
  x_schedules :: nat

definition Scenario_Start :: "config \<Rightarrow> search \<Rightarrow> search option" where
  "Scenario_Start cfg x = do {
     safe_assert (x_status x = TEST_BEGIN \<or> x_status x = TEST_ENDED);
     m \<leftarrow> (if x_status x = TEST_BEGIN then Some (x_mgr x) else Restart cfg (x_mgr x));
     Some (x\<lparr>x_mgr := m, x_status := TEST_BEGIN, x_num_executions := x_num_executions x + 1,
        x_vars := (if x_status x = TEST_BEGIN then x_vars x else clear_thread (x_vars x) TID)\<rparr>) }"

text \<open>Of \<open>AuxState::Clear\<close>, which a restart calls, only the thread variable \<open>TID\<close> is in \<open>x_vars\<close>.\<close>

text \<open>\<open>RunOnce\<close> returns the exceptions collected in the end node.  A run that blocks is \<open>Blocked\<close>.\<close>

definition RunOnce ::
  "run_params \<Rightarrow> int \<Rightarrow> int list \<Rightarrow> test_case \<Rightarrow> search \<Rightarrow> (conc outcome \<times> search) option" where
  "RunOnce rp max_timeouts waits testcase x = do {
     x1 \<leftarrow> Scenario_Start (rp_cfg rp) x;
     (r, vs, m1) \<leftarrow> RunTestCase rp testcase (x_vars x1) (x_mgr x1);
     (case r of
        Returns u \<Rightarrow> do {
          (r2, m2) \<leftarrow> JoinAllThreads max_timeouts (rp_main rp) waits m1;
          (case r2 of
             Returns u2 \<Rightarrow> Some (Returns (end_exception m2),
               x1\<lparr>x_mgr := m2, x_vars := vs, x_status := TEST_ENDED\<rparr>)
           | Throws e \<Rightarrow> None
           | Blocked \<Rightarrow> Some (Blocked, x1\<lparr>x_mgr := m2, x_vars := vs, x_status := TEST_UNCONTROLLED\<rparr>)) }
      | Throws e \<Rightarrow> None
      | Blocked \<Rightarrow> Some (Blocked, x1\<lparr>x_mgr := m1, x_vars := vs, x_status := TEST_CONTROLLED\<rparr>)) }"

definition Backtrack :: "BacktrackReason \<Rightarrow> mgr \<Rightarrow> bool option" where
  "Backtrack reason m = do { c \<leftarrow> covered m ROOTNODE; Some (\<not> c) }"

section \<open>The search\<close>

datatype explore_result =
    ForallResult nat
  | ExistsResult
  | AssertionViolationResult exn
  | RuntimeExceptionResult
  | InternalThrown exn

text \<open>What \<open>Explore\<close> does with the outcome of one run: stop with a result, or run again.  The
  exception is the one collected from the run, or \<open>BacktrackException(SUCCESS)\<close> raised for a
  successful run of a FORALL search.\<close>

datatype explore_step = Stop explore_result | Again

definition handle_backtrack ::
  "run_params \<Rightarrow> ExploreType \<Rightarrow> BacktrackReason \<Rightarrow> search \<Rightarrow> (explore_step \<times> search) option" where
  "handle_backtrack rp ty reason x = do {
     safe_assert (reason \<noteq> UNKNOWN);
     (if x_exit_on_first x = 0 then Some (Stop (ForallResult (x_schedules x)), x)
      else (let x1 = x\<lparr>x_exit_on_first := x_exit_on_first x - 1\<rparr> in
        if x_exit_on_first x1 = 0 \<or> reason = SEARCH_ENDS
        then Some (Stop (ForallResult (x_schedules x)), x1)
        else if rp_uncontrolled rp then do { safe_assert (ty = FORALL); Some (Again, x1) }
        else do {
          more \<leftarrow> Backtrack reason (x_mgr x1);
          Some (if more then Again else Stop (ForallResult (x_schedules x)), x1) })) }"

definition handle_exceptions ::
  "run_params \<Rightarrow> ExploreType \<Rightarrow> conc \<Rightarrow> search \<Rightarrow> (explore_step \<times> search) option" where
  "handle_exceptions rp ty ce x =
     (case get_assertion_violation ce of
        Some ae \<Rightarrow> Some (Stop (AssertionViolationResult ae), x)
      | None \<Rightarrow> (case get_internal ce of
          Some ie \<Rightarrow> Some (Stop (InternalThrown ie), x)
        | None \<Rightarrow> (case get_backtrack ce of
            None \<Rightarrow> Some (Stop RuntimeExceptionResult, x)
          | Some be \<Rightarrow> do { r \<leftarrow> as_backtrack be; handle_backtrack rp ty r x })))"

definition handle_run ::
  "run_params \<Rightarrow> ExploreType \<Rightarrow> conc \<Rightarrow> search \<Rightarrow> (explore_step \<times> search) option" where
  "handle_run rp ty exc x =
     (if exc \<noteq> [] then handle_exceptions rp ty exc x
      else (let x1 = x\<lparr>x_num_success := x_num_success x + 1\<rparr> in
        if ty = EXISTS then Some (Stop ExistsResult, x1)
        else handle_backtrack rp ty SUCCESS (x1\<lparr>x_schedules := x_schedules x1 + 1\<rparr>)))"

text \<open>The search loop; \<open>None\<close> is a run that aborts, or a search that never ends.  \<open>Finish\<close> sets the
  last status.\<close>

partial_function (option) Explore_loop ::
  "run_params \<Rightarrow> ExploreType \<Rightarrow> int \<Rightarrow> int list \<Rightarrow> test_case \<Rightarrow> search \<Rightarrow> (explore_result outcome \<times> search) option" where
  [code]: "Explore_loop rp ty max_timeouts waits testcase x =
     Option.bind (RunOnce rp max_timeouts waits testcase x) (\<lambda>(r, x1).
       case r of
         Returns exc \<Rightarrow> Option.bind (handle_run rp ty exc x1) (\<lambda>(st, x2).
           case st of
             Stop res \<Rightarrow> Some (Returns res, x2)
           | Again \<Rightarrow> Explore_loop rp ty max_timeouts waits testcase x2)
       | Throws e \<Rightarrow> None
       | Blocked \<Rightarrow> Some (Blocked, x1))"

definition Scenario_Finish :: "bool \<Rightarrow> search \<Rightarrow> search option" where
  "Scenario_Finish is_signal x = do {
     safe_assert ((is_signal \<and> status_code (x_status x) < status_code TEST_TERMINATED)
                  \<or> x_status x = TEST_ENDED);
     Some (x\<lparr>x_status := TEST_TERMINATED\<rparr>) }"

definition Explore ::
  "run_params \<Rightarrow> ExploreType \<Rightarrow> int \<Rightarrow> int list \<Rightarrow> test_case \<Rightarrow> search \<Rightarrow> (explore_result outcome \<times> search) option" where
  "Explore rp ty max_timeouts waits testcase x = do {
     (r, x1) \<leftarrow> Explore_loop rp ty max_timeouts waits testcase x;
     (case r of
        Returns (InternalThrown ie) \<Rightarrow> Some (Throws ie, x1)
      | Returns res \<Rightarrow> do { x2 \<leftarrow> Scenario_Finish False x1; Some (Returns res, x2) }
      | other \<Rightarrow> Some (other, x1)) }"

definition OnSignal :: "search \<Rightarrow> search option" where
  "OnSignal x = (if BETWEEN (status_code TEST_SETUP) (status_code (x_status x)) (status_code TEST_TEARDOWN)
     then Scenario_Finish True x else Some x)"

end
