(* ===== verification/Search_Plan.thy ===== *)
theory Search_Plan
  imports Scenario_Run Tree_Rep
begin

text \<open>
  Test scripts made of choices and conditionals, and how much of a script an execution tree has
  explored.  A script ends in a leaf that increments a counter of its own name; the counter log
  then tells which leaves were run.
\<close>

section \<open>Scripts\<close>

datatype script = Done string | Choose nat script script | Cond nat bool script

fun run_script :: "(mgr \<Rightarrow> bool) \<Rightarrow> co \<Rightarrow> script \<Rightarrow> test_case" where
  "run_script rnd c (Done l) m = Some (Returns (), bump l 1 m)"
| "run_script rnd c (Choose s f t) m =
     and_then (DSLChoice rnd c [] s None m) (\<lambda>b m1. run_script rnd c (if b then t else f) m1)"
| "run_script rnd c (Cond s v k) m =
     and_then (DSLConditional c [] s v None m) (\<lambda>b m1. run_script rnd c k m1)"

fun leaves :: "script \<Rightarrow> string list" where
  "leaves (Done l) = [l]"
| "leaves (Choose s f t) = leaves f @ leaves t"
| "leaves (Cond s v k) = leaves k"

fun sites :: "script \<Rightarrow> nat set" where
  "sites (Done l) = {}"
| "sites (Choose s f t) = {s} \<union> sites f \<union> sites t"
| "sites (Cond s v k) = sites k"

text \<open>The counters that the library itself increments during a run.\<close>

definition lib_counters :: "string set" where
  "lib_counters = {''Num execution-tree nodes'', ''Search stack size''}"

definition script_log :: "mgr \<Rightarrow> string multiset" where
  "script_log m = mset (filter (\<lambda>n. n \<notin> lib_counters) (map fst (stat_log m)))"

section \<open>Plans\<close>

text \<open>The shape of the tree a script builds, under the root node.\<close>

datatype plan = PLeaf string | PNode nat node_kind "plan list"

fun plan_of :: "script \<Rightarrow> plan" where
  "plan_of (Done l) = PLeaf l"
| "plan_of (Choose s f t) = PNode s KChoice [plan_of f, plan_of t]"
| "plan_of (Cond s v k) = PNode s (KConditional v) [plan_of k]"

definition top_plan :: "script \<Rightarrow> plan" where
  "top_plan s = PNode 0 KRoot [plan_of s]"

primrec matches :: "plan \<Rightarrow> xt \<Rightarrow> bool" where
  "matches (PLeaf l) x = (case x of XN r s k c xs \<Rightarrow> False | _ \<Rightarrow> True)"
| "matches (PNode s k ps) x = (case x of
     XN r s' k' c xs \<Rightarrow> s' = s \<and> k' = k \<and> list_all2 (\<lambda>f y. f y) (map matches ps) xs
   | _ \<Rightarrow> True)"

primrec todo :: "plan \<Rightarrow> xt \<Rightarrow> string multiset" where
  "todo (PLeaf l) x = (case x of XU \<Rightarrow> {#l#} | _ \<Rightarrow> {#})"
| "todo (PNode s k ps) x = (case x of
     XU \<Rightarrow> sum_list (map (\<lambda>f. f XU) (map todo ps))
   | XE \<Rightarrow> {#}
   | XN r s' k' c xs \<Rightarrow> sum_list (map2 (\<lambda>f y. f y) (map todo ps) xs))"

fun follow :: "plan \<Rightarrow> nat list \<Rightarrow> plan" where
  "follow p [] = p"
| "follow (PNode s k ps) (i # is) = follow (ps ! i) is"
| "follow p (i # is) = p"

lemma matches_XU [simp]: "matches p XU"
  by (cases p) auto

lemma matches_XE [simp]: "matches p XE"
  by (cases p) auto

lemma matches_node [simp]:
  "matches (PNode s k ps) (XN r s' k' c xs) \<longleftrightarrow> s' = s \<and> k' = k \<and> list_all2 matches ps xs"
  by (simp add: list_all2_map1)

lemma todo_XE [simp]: "todo p XE = {#}"
  by (cases p) auto

lemma map2_map_apply: "map2 (\<lambda>f y. f y) (map g ps) xs = map2 g ps xs"
  by (induction ps arbitrary: xs) (auto simp: zip_Cons1 split: list.splits)

lemma todo_node [simp]:
  "todo (PNode s k ps) (XN r s' k' c xs) = sum_list (map2 todo ps xs)"
  by (simp add: map2_map_apply)

lemma todo_node_XU [simp]: "todo (PNode s k ps) XU = sum_list (map (\<lambda>p. todo p XU) ps)"
  by (simp add: comp_def)

declare matches.simps(2) [simp del] todo.simps(2) [simp del]

lemma todo_plan_leaves: "todo (plan_of s) XU = mset (leaves s)"
  by (induction s) auto

lemma todo_top_leaves: "todo (top_plan s) (XN r 0 KRoot c [XU]) = mset (leaves s)"
  by (simp add: top_plan_def todo_plan_leaves)

lemma matches_sub: "matches p x \<Longrightarrow> valid_path x d \<Longrightarrow> matches (follow p d) (sub x d)"
proof (induction x d arbitrary: p rule: valid_path.induct)
  case (2 r s k c xs i "is")
  then obtain ps where p: "p = PNode s k ps" "list_all2 matches ps xs" by (cases p) auto
  with 2 have "matches (ps ! i) (xs ! i)" by (simp add: list_all2_nthD2)
  with 2 p show ?case by simp
qed auto

lemma matches_put:
  "matches p x \<Longrightarrow> valid_path x d \<Longrightarrow> matches (follow p d) y \<Longrightarrow> matches p (put_sub x d y)"
proof (induction x d arbitrary: p rule: valid_path.induct)
  case (2 r s k c xs i "is")
  then obtain ps where p: "p = PNode s k ps" "list_all2 matches ps xs" by (cases p) auto
  with 2 have "matches (ps ! i) (put_sub (xs ! i) is y)" by (simp add: list_all2_nthD2)
  hence "list_all2 matches (ps[i := ps ! i]) (xs[i := put_sub (xs ! i) is y])"
    by (rule list_all2_update_cong [OF p(2)])
  with p show ?case by simp
qed auto

lemma sum_list_update_mset:
  "i < length ms \<Longrightarrow> sum_list (ms[i := m]) + ms ! i = sum_list ms + (m :: 'a multiset)"
  by (induction ms arbitrary: i) (auto split: nat.splits simp: ac_simps)

lemma exchange_mset:
  fixes A B a b u v :: "'a multiset"
  assumes "A + a = B + b" "b + u = a + v"
  shows "A + u = B + v"
proof -
  have "(A + u) + a = (A + a) + u" by (simp add: ac_simps)
  also have "\<dots> = B + (b + u)" by (simp add: assms(1) ac_simps)
  also have "\<dots> = (B + v) + a" by (simp add: assms(2) ac_simps)
  finally show ?thesis by simp
qed

lemma map2_update2:
  "i < length xs \<Longrightarrow> length ps = length xs \<Longrightarrow> map2 f ps (xs[i := y]) = (map2 f ps xs)[i := f (ps ! i) y]"
  by (rule nth_equalityI) (auto simp: nth_list_update)

lemma todo_put:
  "matches p x \<Longrightarrow> valid_path x d \<Longrightarrow>
   todo p (put_sub x d y) + todo (follow p d) (sub x d) = todo p x + todo (follow p d) y"
proof (induction x d arbitrary: p rule: valid_path.induct)
  case (2 r s k c xs i "is")
  then obtain ps where p: "p = PNode s k ps" "list_all2 matches ps xs" by (cases p) auto
  hence len: "length ps = length xs" by (simp add: list_all2_lengthD)
  have i: "i < length xs" using 2 by simp
  let ?y = "put_sub (xs ! i) is y"
  have IH: "todo (ps ! i) ?y + todo (follow (ps ! i) is) (sub (xs ! i) is)
      = todo (ps ! i) (xs ! i) + todo (follow (ps ! i) is) y"
    using 2 p i by (intro "2.IH") (auto simp: list_all2_nthD2)
  have up: "sum_list (map2 todo ps (xs[i := ?y])) + todo (ps ! i) (xs ! i)
      = sum_list (map2 todo ps xs) + todo (ps ! i) ?y"
    using sum_list_update_mset [of i "map2 todo ps xs" "todo (ps ! i) ?y"] i len
    by (simp add: map2_update2)
  let ?A = "sum_list (map2 todo ps (xs[i := ?y]))" and ?B = "sum_list (map2 todo ps xs)"
  let ?a = "todo (ps ! i) (xs ! i)" and ?b = "todo (ps ! i) ?y"
  let ?u = "todo (follow (ps ! i) is) (sub (xs ! i) is)" and ?v = "todo (follow (ps ! i) is) y"
  have "?A + ?u = ?B + ?v" using exchange_mset [OF up IH] .
  thus ?case using p by simp
qed auto

text \<open>Following a script's plan below the root stays inside the script.\<close>

lemma follow_plan:
  "valid_path x d \<Longrightarrow> matches (plan_of s) x \<Longrightarrow> \<exists>s'. follow (plan_of s) d = plan_of s' \<and> sites s' \<subseteq> sites s"
proof (induction x d arbitrary: s rule: valid_path.induct)
  case (2 r s0 k c xs i "is")
  have i: "i < length xs" "valid_path (xs ! i) is" using 2 by auto
  show ?case
  proof (cases s)
    case (Done l)
    with 2 show ?thesis by simp
  next
    case (Choose site f t)
    with 2 obtain a b where xs: "xs = [a, b]" "matches (plan_of f) a" "matches (plan_of t) b"
      by (auto simp: list_all2_Cons1)
    show ?thesis
    proof (cases i)
      case 0
      with xs i "2.IH" [of f] 2 Choose show ?thesis by fastforce
    next
      case (Suc n)
      with xs i have "n = 0" by simp
      with Suc xs i "2.IH" [of t] 2 Choose show ?thesis by fastforce
    qed
  next
    case (Cond site v k')
    with 2 obtain a where xs: "xs = [a]" "matches (plan_of k') a"
      by (auto simp: list_all2_Cons1)
    with i have "i = 0" by simp
    with xs i "2.IH" [of k'] 2 Cond show ?thesis by fastforce
  qed
qed auto

lemma follow_top:
  assumes "valid_path x (i # d)" "matches (top_plan s) x"
  shows "\<exists>s'. follow (top_plan s) (i # d) = plan_of s' \<and> sites s' \<subseteq> sites s"
proof -
  from assms obtain r s0 k c xs where x: "x = XN r s0 k c xs" by (cases x) auto
  with assms obtain a where xs: "xs = [a]" "matches (plan_of s) a"
    by (auto simp: top_plan_def list_all2_Cons1)
  with x assms have "i = 0" "valid_path a d" by auto
  with xs follow_plan [of a d s] show ?thesis by (simp add: top_plan_def)
qed

section \<open>Finished and unfinished trees\<close>

fun allcov :: "xt \<Rightarrow> bool" where
  "allcov XU = False"
| "allcov XE = True"
| "allcov (XN r s k c xs) = (c \<and> (\<forall>x \<in> set xs. allcov x))"

text \<open>Between runs every finished subtree has been cut off: a node of the tree is not covered.\<close>

fun normal :: "xt \<Rightarrow> bool" where
  "normal XU = True"
| "normal XE = True"
| "normal (XN r s k c xs) = (\<not> c \<and> (\<exists>x \<in> set xs. x \<noteq> XE) \<and> (\<forall>x \<in> set xs. normal x))"

text \<open>Along a path: the nodes are not covered, and what hangs off the path is normal.\<close>

fun spine :: "xt \<Rightarrow> nat list \<Rightarrow> bool" where
  "spine x [] = True"
| "spine (XN r s k c xs) (i # is) =
     (\<not> c \<and> (\<forall>l < length xs. l \<noteq> i \<longrightarrow> normal (xs ! l)) \<and> spine (xs ! i) is)"
| "spine x (i # is) = True"

lemma normal_covd: "normal x \<Longrightarrow> covd x \<longleftrightarrow> x = XE"
  by (cases x) auto

lemma allcov_covd: "allcov x \<Longrightarrow> covd x"
  by (cases x) auto

lemma allcov_todo: "allcov x \<Longrightarrow> matches p x \<Longrightarrow> todo p x = {#}"
proof (induction x arbitrary: p)
  case (XN r s k c xs)
  then obtain ps where p: "p = PNode s k ps" "list_all2 matches ps xs" by (cases p) auto
  have "todo (fst z) (snd z) = {#}" if "z \<in> set (zip ps xs)" for z
  proof -
    obtain a b where z: "z = (a, b)" by (cases z)
    with that p(2) have "matches a b" by (auto simp: list_all2_iff)
    moreover have "b \<in> set xs" using that z by (auto dest: set_zip_rightD)
    ultimately show ?thesis using XN z by auto
  qed
  hence "map2 todo ps xs = map (\<lambda>_. {#}) (zip ps xs)" by (auto simp: case_prod_beta)
  hence "sum_list (map2 todo ps xs) = {#}" by (simp only: sum_list_0)
  with p show ?case by simp
qed auto

lemma normal_sub: "normal x \<Longrightarrow> valid_path x d \<Longrightarrow> normal (sub x d)"
  by (induction x d rule: valid_path.induct) auto

lemma normal_spine: "normal x \<Longrightarrow> valid_path x d \<Longrightarrow> spine x d"
  by (induction x d rule: valid_path.induct) auto

lemma spine_put: "valid_path x d \<Longrightarrow> spine (put_sub x d y) d = spine x d"
  by (induction x d rule: valid_path.induct) auto

lemma spine_take: "spine x d \<Longrightarrow> spine x (take n d)"
  by (induction x d arbitrary: n rule: spine.induct) (auto simp: take_Cons split: nat.splits)

lemma spine_uncovered:
  "spine x d \<Longrightarrow> valid_path x d \<Longrightarrow> n < length d \<Longrightarrow> \<not> covd (sub x (take n d))"
proof (induction x d arbitrary: n rule: spine.induct)
  case (2 r s k c xs i "is")
  then show ?case by (cases n) auto
qed auto

lemma spine_node:
  "spine x d \<Longrightarrow> valid_path x d \<Longrightarrow> n < length d \<Longrightarrow> sub x (take n d) = XN r s k c xs \<Longrightarrow>
   \<not> c \<and> (\<forall>l < length xs. l \<noteq> d ! n \<longrightarrow> normal (xs ! l))"
proof (induction x d arbitrary: n rule: spine.induct)
  case (2 r s k c xs i "is")
  then show ?case by (cases n) auto
qed auto

lemma normal_put:
  assumes "normal x" "valid_path x d" "normal y" "y \<noteq> XE"
  shows "normal (put_sub x d y) \<and> put_sub x d y \<noteq> XE"
  using assms
proof (induction x d rule: valid_path.induct)
  case (2 r s k c xs i "is")
  hence y: "normal (put_sub (xs ! i) is y)" "put_sub (xs ! i) is y \<noteq> XE" by auto
  have "put_sub (xs ! i) is y \<in> set (xs[i := put_sub (xs ! i) is y])"
    using 2 by (simp add: set_update_memI)
  with y 2 show ?case
    by (auto dest: list_update_in_set)
qed auto

lemma spine_cut_normal:
  assumes "spine x (d @ [i])" "valid_path x (d @ [i])" "sub x d = XN r s k c xs"
    "l < length xs" "l \<noteq> i" "xs ! l \<noteq> XE"
  shows "normal (put_sub x (d @ [i]) XE) \<and> put_sub x (d @ [i]) XE \<noteq> XE"
  using assms
proof (induction d arbitrary: x)
  case Nil
  then have x: "x = XN r s k c xs" by simp
  have "\<forall>z \<in> set (xs[i := XE]). normal z"
    using Nil x by (auto simp: in_set_conv_nth nth_list_update split: if_splits)
  moreover have "xs ! l \<in> set (xs[i := XE])"
    using Nil x by (metis length_list_update nth_list_update_neq nth_mem)
  ultimately show ?case using Nil x by auto
next
  case (Cons j d)
  then obtain r0 s0 k0 c0 xs0 where x: "x = XN r0 s0 k0 c0 xs0" by (cases x) auto
  let ?y = "put_sub (xs0 ! j) (d @ [i]) XE"
  have y: "normal ?y" "?y \<noteq> XE" using Cons.IH [of "xs0 ! j"] Cons.prems x by auto
  have j: "j < length xs0" using Cons.prems x by simp
  have "normal z" if z: "z \<in> set (xs0[j := ?y])" for z
  proof -
    obtain l' where l': "l' < length xs0" "z = xs0[j := ?y] ! l'"
      using z by (auto simp: in_set_conv_nth)
    show ?thesis using l' y Cons.prems x by (cases "l' = j") auto
  qed
  moreover have "?y \<in> set (xs0[j := ?y])" using j by (rule set_update_memI)
  ultimately show ?case using Cons.prems x y by auto
qed

end
