(* ===== verification/Search_Heap.thy ===== *)
theory Search_Heap
  imports Search_Plan
begin

text \<open>
  The operations of the manager on a represented tree: what reading and writing a child location,
  extending the path and propagating coverage do to the abstract tree.
\<close>

section \<open>The represented state\<close>

definition end_node :: "noderef option \<Rightarrow> node" where
  "end_node p = \<lparr>n_info = 2, n_parent = p, n_children = [Some ENDNODE], n_covered = True, n_kind = KEnd\<rparr>"

definition heap_ok :: "(noderef \<Rightarrow> node option) \<Rightarrow> nat \<Rightarrow> xt \<Rightarrow> bool" where
  "heap_ok h nr x \<longleftrightarrow>
     rep h None x \<and> distinct (refs x) \<and>
     (\<forall>r \<in> set (refs x). r \<noteq> LOCKNODE \<and> r \<noteq> ENDNODE \<and> r < nr) \<and>
     (\<exists>p. h ENDNODE = Some (end_node p)) \<and> 3 \<le> nr \<and> no_end x"

definition tree_ok :: "mgr \<Rightarrow> xt \<Rightarrow> bool" where
  "tree_ok m x \<longleftrightarrow> heap_ok (heap m) (next_ref m) x"

lemma heap_ok_end: "heap_ok h nr x \<Longrightarrow> \<exists>p. h ENDNODE = Some (end_node p)"
  by (simp add: heap_ok_def)

lemma no_end_sub: "no_end x \<Longrightarrow> valid_path x d \<Longrightarrow> no_end (sub x d)"
  by (induction x d rule: valid_path.induct) auto

lemma heap_ok_node:
  assumes "heap_ok h nr x" "valid_path x d" "sub x d = XN r s k c xs"
  shows "\<exists>q. h r = Some (node_of q (XN r s k c xs))" "r \<noteq> ENDNODE" "r \<noteq> LOCKNODE" "r < nr" "k \<noteq> KEnd"
proof -
  have "rep h None x" using assms(1) by (simp add: heap_ok_def)
  from rep_sub [OF this assms(2,3)]
  show "\<exists>q. h r = Some (node_of q (XN r s k c xs))" by (elim exE conjE) (rule exI)
  have r: "r \<in> set (refs x)" using sub_refs [OF assms(2)] assms(3) by auto
  with assms(1) show "r \<noteq> ENDNODE" "r \<noteq> LOCKNODE" "r < nr" by (auto simp: heap_ok_def)
  from assms(1) have "no_end x" by (simp add: heap_ok_def)
  from no_end_sub [OF this assms(2)] assms(3) show "k \<noteq> KEnd" by simp
qed

lemma end_kind_simps [simp]:
  "n_kind (end_node p) = KEnd" "n_children (end_node p) = [Some ENDNODE]" "n_covered (end_node p) = True"
  "n_parent (end_node p) = p"
  by (simp_all add: end_node_def)

text \<open>The pointer to a subtree is an end node exactly for a finished branch.\<close>

lemma IS_ENDNODE_ptr:
  assumes "heap_ok (heap m) nr x" "valid_path x d"
  shows "IS_ENDNODE (m :: 'a tree_state_scheme) (ptr (sub x d)) = Some (sub x d = XE)"
proof (cases "sub x d")
  case (XN r s k c xs)
  obtain q where "heap m r = Some (node_of q (XN r s k c xs))"
    using heap_ok_node(1) [OF assms XN] by (elim exE)
  with XN heap_ok_node(2,5) [OF assms XN] show ?thesis
    by (simp add: IS_ENDNODE_def is_end_kind_def)
next
  case XE
  obtain p where "heap m ENDNODE = Some (end_node p)" using heap_ok_end [OF assms(1)] by (elim exE)
  with XE show ?thesis by (simp add: IS_ENDNODE_def is_end_kind_def)
qed (simp add: IS_ENDNODE_def)

lemma IS_ENDNODE_END:
  "heap_ok (heap m) nr x \<Longrightarrow> IS_ENDNODE (m :: 'a tree_state_scheme) (Some ENDNODE) = Some True"
  by (auto simp: IS_ENDNODE_def is_end_kind_def dest!: heap_ok_end)

lemma covered_ptr:
  assumes "heap_ok (heap m) nr x" "valid_path x d" "ptr (sub x d) = Some r"
  shows "covered (m :: 'a tree_state_scheme) r = Some (covd (sub x d))"
proof (cases "sub x d")
  case (XN r' s k c xs)
  with heap_ok_node(1) [OF assms(1,2) XN] assms(3) show ?thesis by (auto simp: covered_def)
next
  case XE
  with heap_ok_end [OF assms(1)] assms(3) show ?thesis by (auto simp: covered_def)
qed (use assms in simp)

section \<open>Locations on a path\<close>

lemma loc_nth:
  assumes "heap_ok (heap m) nr x" "valid_path x d" "n < length d"
  shows "loc_get (m :: 'a tree_state_scheme) (locs x d ! n) = Some (ptr (sub x (take (Suc n) d)))"
    and "\<not> loc_empty (locs x d ! n)"
    and "\<exists>r s k c xs. sub x (take n d) = XN r s k c xs \<and> cl_parent (locs x d ! n) = Some r
           \<and> cl_index (locs x d ! n) = int (d ! n) \<and> d ! n < length xs"
proof -
  obtain r s k c xs where n: "sub x (take n d) = XN r s k c xs" "d ! n < length xs"
    "sub x (take (Suc n) d) = xs ! (d ! n)" "locs x d ! n = Loc (Some r) (int (d ! n))"
    using sub_take_Suc [OF assms(2,3)] by blast
  show "\<exists>r s k c xs. sub x (take n d) = XN r s k c xs \<and> cl_parent (locs x d ! n) = Some r
           \<and> cl_index (locs x d ! n) = int (d ! n) \<and> d ! n < length xs"
    using n by (auto simp: Loc_def)
  show ne: "\<not> loc_empty (locs x d ! n)" using n by (simp add: loc_empty_def Loc_def)
  from heap_ok_node(1) [OF assms(1) valid_take [OF assms(2)] n(1)] obtain q
    where "heap m r = Some (node_of q (XN r s k c xs))" by blast
  with n ne show "loc_get m (locs x d ! n) = Some (ptr (sub x (take (Suc n) d)))"
    by (simp add: loc_get_def get_child_def check_index_def BETWEEN_def Loc_def)
qed

text \<open>The parent field of the node below a location points back.\<close>

lemma loc_check_nth:
  assumes "heap_ok (heap m) nr x" "valid_path x d" "n < length d"
    "sub x (take (Suc n) d) = XE \<Longrightarrow> heap m ENDNODE = Some (end_node (cl_parent (locs x d ! n)))"
  shows "loc_check (m :: 'a tree_state_scheme) (locs x d ! n) (ptr (sub x (take (Suc n) d))) = Some True"
proof -
  obtain r s k c xs where n: "sub x (take n d) = XN r s k c xs" "d ! n < length xs"
    "sub x (take (Suc n) d) = xs ! (d ! n)" "locs x d ! n = Loc (Some r) (int (d ! n))"
    using sub_take_Suc [OF assms(2,3)] by blast
  from assms(1) have rp: "rep (heap m) None x" by (simp add: heap_ok_def)
  from rep_sub [OF rp valid_take [OF assms(2)] n(1)] obtain q
    where h: "heap m r = Some (node_of q (XN r s k c xs))" "\<forall>y \<in> set xs. rep (heap m) (Some r) y" by blast
  have "rep (heap m) (Some r) (xs ! (d ! n))" using h(2) n(2) by simp
  thus ?thesis
    using h(1) n assms(4)
    by (cases "xs ! (d ! n)")
      (auto simp: loc_check_def get_child_def check_index_def BETWEEN_def Loc_def safe_notnull_def)
qed

lemma mset_refs_put:
  "valid_path x d \<Longrightarrow> mset (refs (put_sub x d y)) + mset (refs (sub x d)) = mset (refs x) + mset (refs y)"
proof (induction x d rule: valid_path.induct)
  case (2 r s k c xs i "is")
  hence i: "i < length xs" by simp
  let ?y = "put_sub (xs ! i) is y"
  have "sum_list (map (mset \<circ> refs) (xs[i := ?y])) + mset (refs (xs ! i))
     = sum_list (map (mset \<circ> refs) xs) + mset (refs ?y)"
    using sum_list_update_mset [of i "map (mset \<circ> refs) xs" "mset (refs ?y)"] i by (simp add: map_update)
  moreover have "mset (concat (map refs zs)) = sum_list (map (mset \<circ> refs) zs)" for zs
    by (induction zs) auto
  ultimately have "mset (concat (map refs (xs[i := ?y]))) + mset (refs (xs ! i))
     = mset (concat (map refs xs)) + mset (refs ?y)"
    by simp
  from exchange_mset [OF this "2.IH"] 2 show ?case by simp
qed auto

lemma distinct_put:
  assumes "valid_path x d" "distinct (refs x)" "distinct (refs y)"
    "set (refs y) \<inter> set (refs x) \<subseteq> set (refs (sub x d))"
  shows "distinct (refs (put_sub x d y))"
    and "set (refs (put_sub x d y)) = (set (refs x) - set (refs (sub x d))) \<union> set (refs y)"
proof -
  note m = mset_refs_put [OF assms(1), of y]
  have s: "set (refs (sub x d)) \<subseteq> set (refs x)" by (rule sub_refs [OF assms(1)])
  have ds: "distinct (refs (sub x d))" by (rule distinct_sub [OF assms(1,2)])
  have cnt: "count (mset (refs (put_sub x d y))) a + count (mset (refs (sub x d))) a
      = count (mset (refs x)) a + count (mset (refs y)) a" for a
    using m by (metis count_union)
  have c1: "count (mset l) a = (if a \<in> set l then 1 else 0)" if "distinct l" for a and l :: "nat list"
    using that distinct_count_atmost_1 [of l] by auto
  have val: "count (mset (refs (put_sub x d y))) a
     = (if a \<in> (set (refs x) - set (refs (sub x d))) \<union> set (refs y) then 1 else 0)" for a
    using cnt [of a] c1 [OF ds, of a] c1 [OF assms(2), of a] c1 [OF assms(3), of a] s assms(4)
    by (auto split: if_splits)
  show st: "set (refs (put_sub x d y)) = (set (refs x) - set (refs (sub x d))) \<union> set (refs y)"
    using val by (metis (no_types, lifting) count_greater_zero_iff less_numeral_extra(1)
        less_numeral_extra(3) set_mset_mset subsetI subset_antisym)
  show "distinct (refs (put_sub x d y))"
    unfolding distinct_count_atmost_1 using val st by auto
qed

section \<open>Writing a child\<close>

lemma no_end_put: "no_end x \<Longrightarrow> no_end y \<Longrightarrow> no_end (put_sub x d y)"
proof (induction x d y rule: put_sub.induct)
  case (2 r s k c xs i "is" y)
  have "no_end z" if z: "z \<in> set (xs[i := put_sub (xs ! i) is y])" for z
  proof (cases "i < length xs")
    case True
    with 2 have "no_end (put_sub (xs ! i) is y)" by simp
    with 2 z set_update_subset_insert [of xs i "put_sub (xs ! i) is y"] show ?thesis by auto
  next
    case False
    with 2 z show ?thesis by (simp add: list_update_beyond)
  qed
  with 2 show ?case by simp
qed auto

definition put_child_heap ::
  "(noderef \<Rightarrow> node option) \<Rightarrow> noderef \<Rightarrow> nat \<Rightarrow> noderef option \<Rightarrow> noderef \<Rightarrow> node option" where
  "put_child_heap h r i c = h(r := map_option (\<lambda>nd. nd\<lparr>n_children := (n_children nd)[i := c]\<rparr>) (h r))"

text \<open>The child array above position \<open>d @ [i]\<close> gets the pointer to \<open>y\<close>.\<close>

lemma heap_put:
  assumes "heap_ok h nr x" "valid_path x (d @ [i])" "sub x d = XN r s k c xs"
    "rep (put_child_heap h r i (ptr y)) (Some r) y" "distinct (refs y)" "no_end y"
    "set (refs y) \<inter> set (refs x) \<subseteq> set (refs (sub x (d @ [i])))"
    "\<forall>a \<in> set (refs y). a \<noteq> LOCKNODE \<and> a \<noteq> ENDNODE \<and> a < nr"
  shows "heap_ok (put_child_heap h r i (ptr y)) nr (put_sub x (d @ [i]) y)"
proof -
  have v: "valid_path x d" "i < length xs" using assms(2,3) by (auto simp: valid_append)
  have rp: "rep h None x" "distinct (refs x)" using assms(1) by (auto simp: heap_ok_def)
  obtain q where q: "h r = Some (node_of q (XN r s k c xs))"
    using heap_ok_node(1) [OF assms(1) v(1) assms(3)] by blast
  have put: "put_sub x (d @ [i]) y = put_sub x d (XN r s k c (xs[i := y]))"
    using v assms(3) by (simp add: put_append)
  have h': "put_child_heap h r i (ptr y)
      = h(r := Some \<lparr>n_info = s, n_parent = q, n_children = (map ptr xs)[i := ptr y], n_covered = c, n_kind = k\<rparr>)"
    using q by (simp add: put_child_heap_def)
  have "rep (put_child_heap h r i (ptr y)) None (put_sub x (d @ [i]) y)"
    unfolding put
    by (rule rep_put [OF rp(1) rp(2) v(1) assms(3) v(2) h' q assms(4)])
  moreover have "distinct (refs (put_sub x (d @ [i]) y))"
    by (rule distinct_put(1) [OF assms(2) rp(2) assms(5,7)])
  moreover have "set (refs (put_sub x (d @ [i]) y)) \<subseteq> set (refs x) \<union> set (refs y)"
    using distinct_put(2) [OF assms(2) rp(2) assms(5,7)] by auto
  moreover have "r \<noteq> ENDNODE" by (rule heap_ok_node(2) [OF assms(1) v(1) assms(3)])
  moreover have "no_end (put_sub x (d @ [i]) y)"
    using assms(1,6) by (simp add: no_end_put heap_ok_def)
  ultimately show ?thesis
    using assms(1,8) unfolding heap_ok_def by (auto simp: h')
qed

lemma set_child_heap:
  assumes "heap m r = Some nd" "i < length (n_children nd)"
  shows "set_child (m :: 'a tree_state_scheme) r c (int i) = Some (m\<lparr>heap := put_child_heap (heap m) r i c\<rparr>)"
  using assms by (simp add: set_child_def check_index_def BETWEEN_def upd_node_def put_child_heap_def)

lemma heap_ok_frame:
  assumes "heap_ok h nr x" "a \<notin> set (refs x)" "a \<noteq> ENDNODE"
  shows "heap_ok (h(a := v)) nr x"
  using assms unfolding heap_ok_def by (auto simp: rep_upd_other simp del: fun_upd_apply) (auto simp: fun_upd_apply)

lemma heap_ok_end_parent:
  assumes "heap_ok h nr x"
  shows "heap_ok (h(ENDNODE := Some (end_node p))) nr x"
proof -
  have "ENDNODE \<notin> set (refs x)" using assms by (auto simp: heap_ok_def)
  with assms show ?thesis
    unfolding heap_ok_def by (auto simp: rep_upd_other simp del: fun_upd_apply) (auto simp: fun_upd_apply)
qed

end
