(* ===== verification/Search_Path.thy ===== *)
theory Search_Path
  imports Search_Heap
begin

text \<open>
  Extending the current path: the stack operations on a represented tree, for a node that is
  already there (a replayed choice or a new branch of a known node), for a new node, and for the
  end node.
\<close>

definition on_path :: "mgr \<Rightarrow> xt \<Rightarrow> nat list \<Rightarrow> nat list \<Rightarrow> bool" where
  "on_path m x d rest \<longleftrightarrow> tree_ok m x \<and> d \<noteq> [] \<and> valid_path x (d @ rest)
     \<and> node_stack m = locs x (d @ rest) \<and> stack_index m = length d"

lemma on_path_len: "on_path m x d rest \<Longrightarrow> length (node_stack m) = length d + length rest"
  by (simp add: on_path_def)

lemma on_path_valid: "on_path m x d rest \<Longrightarrow> valid_path x d"
  by (simp add: on_path_def valid_append)

lemma on_path_heap: "on_path m x d rest \<Longrightarrow> heap_ok (heap m) (next_ref m) x"
  by (simp add: on_path_def tree_ok_def)

lemma on_path_bound: "on_path m x d rest \<Longrightarrow> length d - 1 < length (d @ rest)"
  by (cases d) (auto simp: on_path_def)

lemma on_path_full: "on_path m x d rest \<Longrightarrow> valid_path x (d @ rest)"
  by (simp add: on_path_def)

lemma GetLast_on_path:
  assumes "on_path m x d rest"
  shows "GetLastNodeInStack m = Some (locs x (d @ rest) ! (length d - 1))"
proof -
  from assms have d: "0 < length d" by (simp add: on_path_def)
  have "\<not> loc_empty (locs x (d @ rest) ! (length d - 1))"
    by (rule loc_nth(2) [OF on_path_heap [OF assms] on_path_full [OF assms] on_path_bound [OF assms]])
  with assms d show ?thesis
    by (simp add: GetLastNodeInStack_def on_path_def BETWEEN_def Let_def)
qed

lemma loc_last_get:
  assumes "on_path m x d rest"
  shows "loc_get m (locs x (d @ rest) ! (length d - 1)) = Some (ptr (sub x d))"
proof -
  from assms have d: "0 < length d" by (simp add: on_path_def)
  have "loc_get m (locs x (d @ rest) ! (length d - 1)) = Some (ptr (sub x (take (Suc (length d - 1)) (d @ rest))))"
    by (rule loc_nth(1) [OF on_path_heap [OF assms] on_path_full [OF assms] on_path_bound [OF assms]])
  with d show ?thesis by simp
qed

lemma GetNext_top:
  assumes "on_path m x d []"
  shows "GetNextNodeInStack m = Some (Loc (ptr (sub x d)) (-1))"
proof -
  have d: "d \<noteq> []" using assms by (simp add: on_path_def)
  have len: "length (locs x d) = length d" using on_path_valid [OF assms] by simp
  hence ne: "locs x d \<noteq> []" using d by auto
  have "last (node_stack m) = locs x d ! (length d - 1)"
    using assms d ne len by (simp add: on_path_def last_conv_nth)
  with loc_last_get [OF assms] have "loc_get m (last (node_stack m)) = Some (ptr (sub x d))" by simp
  with assms ne len show ?thesis by (simp add: GetNextNodeInStack_def on_path_def)
qed

lemma GetNext_replay:
  assumes "on_path m x d (i # rest)" "sub x d = XN r s k c xs"
  shows "GetNextNodeInStack m = Some (Loc (Some r) (int i))"
proof -
  have v: "valid_path x (d @ i # rest)" "valid_path x d"
    using assms(1) on_path_valid [OF assms(1)] by (auto simp: on_path_def)
  have "locs x (d @ i # rest) ! length d = Loc (Some r) (int i)"
    using v assms(2) by (simp add: locs_append nth_append)
  moreover have "length d < length (node_stack m)" using on_path_len [OF assms(1)] by simp
  ultimately show ?thesis
    using assms(1) by (simp add: GetNextNodeInStack_def on_path_def loc_empty_def Loc_def)
qed

section \<open>The location above the current position\<close>

lemma last_loc:
  assumes "on_path m x d rest"
  obtains d0 i0 q s k c xs p where "d = d0 @ [i0]" "sub x d0 = XN q s k c xs" "i0 < length xs"
    "sub x d = xs ! i0" "locs x (d @ rest) ! (length d - 1) = Loc (Some q) (int i0)"
    "heap m q = Some (node_of p (XN q s k c xs))" "q \<noteq> ENDNODE" "valid_path x d0" "q < next_ref m"
proof -
  from assms have "d \<noteq> []" by (simp add: on_path_def)
  then obtain d0 i0 where d: "d = d0 @ [i0]" by (metis append_butlast_last_id)
  have v: "valid_path x (d @ rest)" using assms by (simp add: on_path_def)
  have n: "length d0 < length (d @ rest)" using d by simp
  obtain q s k c xs where w: "sub x (take (length d0) (d @ rest)) = XN q s k c xs"
    "(d @ rest) ! length d0 < length xs"
    "sub x (take (Suc (length d0)) (d @ rest)) = xs ! ((d @ rest) ! length d0)"
    "locs x (d @ rest) ! length d0 = Loc (Some q) (int ((d @ rest) ! length d0))"
    using sub_take_Suc [OF v n] by blast
  have e: "take (length d0) (d @ rest) = d0" "(d @ rest) ! length d0 = i0"
    "take (Suc (length d0)) (d @ rest) = d" using d by auto
  have v0: "valid_path x d0" using v d by (simp add: valid_append)
  have s0: "sub x d0 = XN q s k c xs" using w e by simp
  from heap_ok_node(1) [OF on_path_heap [OF assms] v0 s0]
  obtain p where "heap m q = Some (node_of p (XN q s k c xs))" by (elim exE)
  with w e d v0 s0 heap_ok_node(2,4) [OF on_path_heap [OF assms] v0 s0] that show ?thesis by simp
qed

lemma heap_update_id [simp]: "m\<lparr>heap := heap m\<rparr> = m"
  by simp

lemma loc_check_ptr:
  assumes "on_path m x d rest" "sub x d \<noteq> XE"
  shows "loc_check m (locs x (d @ rest) ! (length d - 1)) (ptr (sub x d)) = Some True"
proof -
  from assms(1) have d: "0 < length d" by (simp add: on_path_def)
  hence e: "take (Suc (length d - 1)) (d @ rest) = d" by simp
  have "loc_check m (locs x (d @ rest) ! (length d - 1))
      (ptr (sub x (take (Suc (length d - 1)) (d @ rest)))) = Some True"
    by (rule loc_check_nth [OF on_path_heap [OF assms(1)] on_path_full [OF assms(1)] on_path_bound [OF assms(1)]])
      (simp only: e assms(2))
  thus ?thesis by (simp only: e)
qed

text \<open>Setting the child that is already there changes nothing.\<close>

lemma loc_set_same:
  assumes "on_path m x d rest" "sub x d = XN r s k c xs"
  shows "loc_set m (locs x (d @ rest) ! (length d - 1)) (Some r) = Some m"
proof -
  obtain d0 i0 q s' k' c' xs' p where l: "d = d0 @ [i0]" "sub x d0 = XN q s' k' c' xs'" "i0 < length xs'"
    "sub x d = xs' ! i0" "locs x (d @ rest) ! (length d - 1) = Loc (Some q) (int i0)"
    "heap m q = Some (node_of p (XN q s' k' c' xs'))" "q \<noteq> ENDNODE" "valid_path x d0" "q < next_ref m"
    using last_loc [OF assms(1)] by blast
  have rp: "rep (heap m) None x" using on_path_heap [OF assms(1)] by (simp add: heap_ok_def)
  from rep_sub [OF rp l(8,2)] have "rep (heap m) (Some q) (xs' ! i0)"
    using l(3) by (elim exE conjE) simp
  moreover have "xs' ! i0 = XN r s k c xs" using l(4) assms(2) by simp
  ultimately have hr: "heap m r = Some (node_of (Some q) (XN r s k c xs))" by simp
  have "(map ptr xs')[i0 := Some r] = map ptr xs'"
    using l(3,4) assms(2) by (metis list_update_id nth_map ptr.simps(3))
  hence "put_child_heap (heap m) q i0 (Some r) = heap m"
    using l(6) by (simp add: put_child_heap_def fun_upd_idem)
  hence sc: "set_child m q (Some r) (int i0) = Some m"
    using set_child_heap [of m q "node_of p (XN q s' k' c' xs')" i0 "Some r"] l by simp
  have "set_parent m r (Some q) = Some m"
    using hr by (simp add: set_parent_def upd_node_def fun_upd_idem)
  with sc l(5) show ?thesis by (simp add: loc_set_def loc_empty_def Loc_def)
qed

section \<open>Pushing on the stack\<close>

lemma AddToNodeStack_step:
  assumes "on_path m x d rest" "sub x d = XN r s k c xs" "i < length xs"
    "rest = [] \<and> rest' = [] \<or> rest = i # rest'"
  shows "AddToNodeStack (Loc (Some r) (int i)) m
     = Some (m\<lparr>node_stack := locs x (d @ i # rest'), stack_index := Suc (length d)\<rparr>)"
proof -
  have v: "valid_path x d" by (rule on_path_valid [OF assms(1)])
  have e: "IS_ENDNODE m (Some r) = Some False"
    using IS_ENDNODE_ptr [OF on_path_heap [OF assms(1)] v] assms(2) by simp
  show ?thesis
  proof (cases "rest = []")
    case True
    with assms(4) have r': "rest' = []" by simp
    have "locs x (d @ [i]) = locs x d @ [Loc (Some r) (int i)]"
      using v assms(2) by (simp add: locs_append)
    with assms True r' e v show ?thesis
      by (simp add: AddToNodeStack_def on_path_def loc_empty_def Loc_def)
  next
    case False
    with assms(4) have r': "rest = i # rest'" by simp
    have "locs x (d @ i # rest') ! length d = Loc (Some r) (int i)"
      using v assms(2) by (simp add: locs_append nth_append)
    moreover have "length d < length (node_stack m)" using on_path_len [OF assms(1)] r' by simp
    ultimately show ?thesis
      using assms(1) r' e by (simp add: AddToNodeStack_def on_path_def loc_empty_def Loc_def)
  qed
qed

lemma on_path_extend:
  assumes "on_path m x d rest" "sub x d = XN r s k c xs" "i < length xs"
    "rest = [] \<and> rest' = [] \<or> rest = i # rest'"
  shows "on_path (m\<lparr>node_stack := locs x (d @ i # rest'), stack_index := Suc (length d)\<rparr>) x (d @ [i]) rest'"
  using assms by (auto simp: on_path_def tree_ok_def valid_append)

lemma AddToPath_known:
  assumes "on_path m x d rest" "sub x d = XN r s k c xs" "i < length xs"
    "rest = [] \<and> rest' = [] \<or> rest = i # rest'"
  shows "AddToPath r (int i) m
     = Some (m\<lparr>node_stack := locs x (d @ i # rest'), stack_index := Suc (length d)\<rparr>)"
proof -
  let ?l = "locs x (d @ rest) ! (length d - 1)"
  have v: "valid_path x d" by (rule on_path_valid [OF assms(1)])
  have e: "IS_ENDNODE m (Some r) = Some False"
    using IS_ENDNODE_ptr [OF on_path_heap [OF assms(1)] v] assms(2) by simp
  have c1: "loc_check m ?l (Some r) = Some True"
    using loc_check_ptr [OF assms(1)] assms(2) by simp
  obtain b0 where c0: "loc_check m ?l None = Some b0"
    using c1 by (cases "loc_check m ?l None") (auto simp: loc_check_def bind_eq_Some_conv)
  show ?thesis
    using GetLast_on_path [OF assms(1)] e c0 c1 loc_set_same [OF assms(1,2)]
      AddToNodeStack_step [OF assms]
    by (cases b0) (simp_all add: AddToPath_def)
qed

section \<open>A new node\<close>

definition fresh_xt :: "noderef \<Rightarrow> nat \<Rightarrow> node_kind \<Rightarrow> xt" where
  "fresh_xt r s k = XN r s k False (replicate (num_children k) XU)"

lemma fresh_xt_refs [simp]: "refs (fresh_xt r s k) = [r]"
  by (simp add: fresh_xt_def)

lemma mk_node_of: "(mk_node s k)\<lparr>n_parent := p\<rparr> = node_of p (fresh_xt r s k)"
  by (simp add: mk_node_def fresh_xt_def)

lemma AddToPath_new:
  assumes "on_path m x d []" "sub x d = XU" "k \<noteq> KEnd" "new_node s k m = (r, m1)" "i < num_children k"
  shows "\<exists>h. AddToPath r (int i) m1
      = Some (m1\<lparr>heap := h, node_stack := locs (put_sub x d (fresh_xt r s k)) (d @ [i]), stack_index := Suc (length d)\<rparr>)
    \<and> on_path (m1\<lparr>heap := h, node_stack := locs (put_sub x d (fresh_xt r s k)) (d @ [i]), stack_index := Suc (length d)\<rparr>)
        (put_sub x d (fresh_xt r s k)) (d @ [i]) []"
proof -
  let ?y = "fresh_xt r s k"
  have r: "r = next_ref m" and m1: "m1 = bump ''Num execution-tree nodes'' 1
      (m\<lparr>heap := (heap m)(r \<mapsto> mk_node s k), next_ref := Suc r\<rparr>)"
    using assms(4) by (auto simp: new_node_def)
  have ok: "heap_ok (heap m) (next_ref m) x" by (rule on_path_heap [OF assms(1)])
  have rx: "r \<notin> set (refs x)" and r3: "r \<noteq> ENDNODE" "r \<noteq> LOCKNODE"
    using ok r by (auto simp: heap_ok_def ENDNODE_def LOCKNODE_def)
  have vd: "valid_path x d" by (rule on_path_valid [OF assms(1)])
  obtain d0 i0 q s' k' c' xs' p where l: "d = d0 @ [i0]" "sub x d0 = XN q s' k' c' xs'" "i0 < length xs'"
    "sub x d = xs' ! i0" "locs x (d @ []) ! (length d - 1) = Loc (Some q) (int i0)"
    "heap m q = Some (node_of p (XN q s' k' c' xs'))" "q \<noteq> ENDNODE" "valid_path x d0" "q < next_ref m"
    using last_loc [OF assms(1)] by blast
  have qr: "q \<noteq> r" using l(9) r by simp
  \<comment> \<open>the new node with its parent already set\<close>
  define h0 where "h0 = (heap m)(r := Some (node_of (Some q) ?y))"
  define h where "h = put_child_heap h0 q i0 (Some r)"
  have hr: "h r = Some (node_of (Some q) ?y)" using qr by (simp add: h_def put_child_heap_def h0_def)
  have ok0: "heap_ok h0 (Suc r) x"
  proof -
    have "heap_ok h0 (next_ref m) x" unfolding h0_def by (rule heap_ok_frame [OF ok rx r3(1)])
    thus ?thesis using r by (auto simp: heap_ok_def)
  qed
  have okh: "heap_ok h (Suc r) (put_sub x d ?y)"
  proof -
    have "ptr ?y = Some r" by (simp add: fresh_xt_def)
    moreover have "rep (put_child_heap h0 q i0 (Some r)) (Some q) ?y"
      using hr by (simp add: h_def fresh_xt_def)
    moreover have "no_end ?y" using assms(3) by (simp add: fresh_xt_def)
    moreover have "valid_path x (d0 @ [i0])" using vd l(1) by simp
    ultimately have "heap_ok (put_child_heap h0 q i0 (ptr ?y)) (Suc r) (put_sub x (d0 @ [i0]) ?y)"
      using rx r3 by (intro heap_put [OF ok0 _ l(2)]) simp_all
    thus ?thesis by (simp add: h_def l(1) fresh_xt_def)
  qed
  have mh: "heap m1 = (heap m)(r \<mapsto> mk_node s k)" and mn: "next_ref m1 = Suc r"
    and ms: "node_stack m1 = node_stack m" "stack_index m1 = stack_index m"
    by (simp_all add: m1 bump_def)
  have hq: "heap m1 q = Some (node_of p (XN q s' k' c' xs'))" using l(6) qr mh by simp
  \<comment> \<open>the run of AddToPath\<close>
  have st: "node_stack m1 = locs x d" "stack_index m1 = length d" "d \<noteq> []"
    using assms(1) ms by (auto simp: on_path_def)
  have gl: "GetLastNodeInStack m1 = Some (Loc (Some q) (int i0))"
    using GetLast_on_path [OF assms(1)] ms l(5) by (simp add: GetLastNodeInStack_def)
  have e: "IS_ENDNODE m1 (Some r) = Some False"
    using mh assms(3) by (simp add: IS_ENDNODE_def is_end_kind_def mk_node_def)
  have chk: "loc_check m1 (Loc (Some q) (int i0)) None = Some True"
    using hq l(3,4) assms(2)
    by (simp add: loc_check_def get_child_def check_index_def BETWEEN_def Loc_def safe_notnull_def)
  have sc: "set_child m1 q (Some r) (int i0) = Some (m1\<lparr>heap := put_child_heap (heap m1) q i0 (Some r)\<rparr>)"
    using set_child_heap [of m1 q _ i0 "Some r", OF hq] l(3) by simp
  have hh: "h = (put_child_heap (heap m1) q i0 (Some r))(r := Some (node_of (Some q) ?y))"
    using qr by (auto simp: h_def h0_def put_child_heap_def mh fun_eq_iff)
  have ls: "loc_set m1 (Loc (Some q) (int i0)) (Some r) = Some (m1\<lparr>heap := h\<rparr>)"
    using sc qr mh
    by (simp add: loc_set_def loc_empty_def Loc_def set_parent_def upd_node_def put_child_heap_def hh
        mk_node_of [of _ s k r] fresh_xt_def)
  let ?x = "put_sub x d ?y"
  have on: "on_path (m1\<lparr>heap := h\<rparr>) ?x d []"
    using okh st vd mn by (simp add: on_path_def tree_ok_def)
  have sb: "sub ?x d = XN r s k False (replicate (num_children k) XU)"
    using vd by (simp add: fresh_xt_def)
  have "AddToNodeStack (Loc (Some r) (int i)) (m1\<lparr>heap := h\<rparr>)
     = Some ((m1\<lparr>heap := h\<rparr>)\<lparr>node_stack := locs ?x (d @ [i]), stack_index := Suc (length d)\<rparr>)"
    using AddToNodeStack_step [OF on sb, of i "[]"] assms(5) by simp
  moreover have "on_path ((m1\<lparr>heap := h\<rparr>)\<lparr>node_stack := locs ?x (d @ [i]), stack_index := Suc (length d)\<rparr>) ?x (d @ [i]) []"
    using on_path_extend [OF on sb, of i "[]"] assms(5) by simp
  ultimately show ?thesis
    using gl e chk ls by (intro exI [of _ h]) (simp add: AddToPath_def)
qed

section \<open>The end node\<close>

lemma loc_set_end:
  assumes "heap_ok (heap m) (next_ref m) x" "valid_path x (d0 @ [i0])" "sub x d0 = XN q s k c xs"
  shows "\<exists>h. loc_set m (Loc (Some q) (int i0)) (Some ENDNODE) = Some (m\<lparr>heap := h\<rparr>)
    \<and> h = (put_child_heap (heap m) q i0 (Some ENDNODE))(ENDNODE := Some (end_node (Some q)))
    \<and> heap_ok h (next_ref m) (put_sub x (d0 @ [i0]) XE)"
proof -
  have v: "valid_path x d0" "i0 < length xs" using assms(2,3) by (auto simp: valid_append)
  obtain p where hq: "heap m q = Some (node_of p (XN q s k c xs))"
    using heap_ok_node(1) [OF assms(1) v(1) assms(3)] by (elim exE)
  have q: "q \<noteq> ENDNODE" by (rule heap_ok_node(2) [OF assms(1) v(1) assms(3)])
  obtain pe where he: "heap m ENDNODE = Some (end_node pe)" using heap_ok_end [OF assms(1)] by (elim exE)
  let ?h1 = "put_child_heap (heap m) q i0 (Some ENDNODE)"
  have ok1: "heap_ok ?h1 (next_ref m) (put_sub x (d0 @ [i0]) XE)"
    using heap_put [OF assms(1,2,3), of XE] by simp
  have he1: "?h1 ENDNODE = Some (end_node pe)" using he q by (simp add: put_child_heap_def)
  have sc: "set_child m q (Some ENDNODE) (int i0) = Some (m\<lparr>heap := ?h1\<rparr>)"
    using set_child_heap [of m q _ i0 "Some ENDNODE", OF hq] v(2) by simp
  have "loc_set m (Loc (Some q) (int i0)) (Some ENDNODE)
      = Some (m\<lparr>heap := ?h1(ENDNODE := Some (end_node (Some q)))\<rparr>)"
    using sc he1 by (simp add: loc_set_def loc_empty_def Loc_def set_parent_def upd_node_def end_node_def)
  moreover have "heap_ok (?h1(ENDNODE := Some (end_node (Some q)))) (next_ref m) (put_sub x (d0 @ [i0]) XE)"
    by (rule heap_ok_end_parent [OF ok1])
  ultimately show ?thesis by blast
qed

lemma AddToPath_end:
  assumes "on_path m x d []" "sub x d = XU"
  shows "\<exists>h q. AddToPath ENDNODE 0 m
      = Some (m\<lparr>heap := h, node_stack := locs x d @ [Loc (Some ENDNODE) 0], stack_index := Suc (length d)\<rparr>)
    \<and> heap_ok h (next_ref m) (put_sub x d XE)
    \<and> cl_parent (last (locs x d)) = Some q \<and> h ENDNODE = Some (end_node (Some q))"
proof -
  have ok: "heap_ok (heap m) (next_ref m) x" by (rule on_path_heap [OF assms(1)])
  have vd: "valid_path x d" by (rule on_path_valid [OF assms(1)])
  obtain d0 i0 q s' k' c' xs' p where l: "d = d0 @ [i0]" "sub x d0 = XN q s' k' c' xs'" "i0 < length xs'"
    "sub x d = xs' ! i0" "locs x (d @ []) ! (length d - 1) = Loc (Some q) (int i0)"
    "heap m q = Some (node_of p (XN q s' k' c' xs'))" "q \<noteq> ENDNODE" "valid_path x d0" "q < next_ref m"
    using last_loc [OF assms(1)] by blast
  obtain h where h: "loc_set m (Loc (Some q) (int i0)) (Some ENDNODE) = Some (m\<lparr>heap := h\<rparr>)"
    "h = (put_child_heap (heap m) q i0 (Some ENDNODE))(ENDNODE := Some (end_node (Some q)))"
    "heap_ok h (next_ref m) (put_sub x d XE)"
    using loc_set_end [OF ok _ l(2), of i0] vd l(1) by auto
  have st: "node_stack m = locs x d" "stack_index m = length d" "d \<noteq> []"
    using assms(1) by (auto simp: on_path_def)
  have gl: "GetLastNodeInStack m = Some (Loc (Some q) (int i0))"
    using GetLast_on_path [OF assms(1)] l(5) by simp
  have gg: "loc_get m (Loc (Some q) (int i0)) = Some None"
    using loc_last_get [OF assms(1)] l(5) assms(2) by simp
  have e: "IS_ENDNODE m (Some ENDNODE) = Some True" by (rule IS_ENDNODE_END [OF ok])
  have e2: "IS_ENDNODE (m\<lparr>heap := h\<rparr>) (Some ENDNODE) = Some True"
    using h(2) by (simp add: IS_ENDNODE_def is_end_kind_def)
  have len: "length (locs x d) = length d" using vd by simp
  have an: "AddToNodeStack (Loc (Some ENDNODE) 0) (m\<lparr>heap := h\<rparr>)
     = Some (m\<lparr>heap := h, node_stack := locs x d @ [Loc (Some ENDNODE) 0], stack_index := Suc (length d)\<rparr>)"
    using e2 st len by (simp add: AddToNodeStack_def loc_empty_def Loc_def)
  have "AddToPath ENDNODE 0 m
      = Some (m\<lparr>heap := h, node_stack := locs x d @ [Loc (Some ENDNODE) 0], stack_index := Suc (length d)\<rparr>)"
    using gl gg e h(1) an st len by (simp add: AddToPath_def)
  moreover have "cl_parent (last (locs x d)) = Some q"
  proof -
    have "locs x d \<noteq> []" using len st(3) by auto
    thus ?thesis using l(5) len by (simp add: last_conv_nth Loc_def)
  qed
  moreover have "h ENDNODE = Some (end_node (Some q))" using h(2) by simp
  ultimately show ?thesis using h(3) by blast
qed

end
