(* ===== verification/Search_Coverage.thy ===== *)
theory Search_Coverage
  imports Search_Path
begin

text \<open>
  Coverage on a represented tree: \<open>ComputeCoverage\<close> sets the flag of a node from the flags of its
  children, and the loop of \<open>DoBacktrack\<close> finds the highest covered node of the path.
\<close>

text \<open>The nodes of a script's tree, with static information that marks no branch as covered.\<close>

fun good :: "(nat \<Rightarrow> static_info) \<Rightarrow> xt \<Rightarrow> bool" where
  "good infos XU = True"
| "good infos XE = True"
| "good infos (XN r s k c xs) =
     ((k = KRoot \<and> length xs = 1 \<or> (\<exists>v. k = KConditional v) \<and> length xs = 1
       \<or> k = KChoice \<and> length xs = 2 \<and> (\<exists>nd. si_choice (infos s) = Some (nd, False, False)))
      \<and> (\<forall>x \<in> set xs. good infos x))"

lemma good_sub: "good infos x \<Longrightarrow> valid_path x d \<Longrightarrow> good infos (sub x d)"
  by (induction x d rule: valid_path.induct) auto

lemma good_put: "good infos x \<Longrightarrow> good infos y \<Longrightarrow> good infos (put_sub x d y)"
proof (induction x d y rule: put_sub.induct)
  case (2 r s k c xs i "is" y)
  have "good infos z" if z: "z \<in> set (xs[i := put_sub (xs ! i) is y])" for z
  proof (cases "i < length xs")
    case True
    with 2 have "good infos (put_sub (xs ! i) is y)" by simp
    with 2 z set_update_subset_insert [of xs i "put_sub (xs ! i) is y"] show ?thesis by auto
  next
    case False
    with 2 z show ?thesis by (simp add: list_update_beyond)
  qed
  with 2 show ?case by simp
qed auto

section \<open>One node\<close>

lemma heap_flag:
  assumes "heap_ok h nr x" "valid_path x d" "sub x d = XN r s k c xs" "xs \<noteq> []"
    "h r = Some (node_of q (XN r s k c xs))"
  shows "heap_ok (h(r := Some (node_of q (XN r s k c' xs)))) nr (put_sub x d (XN r s k c' xs))"
proof -
  let ?h = "h(r := Some (node_of q (XN r s k c' xs)))"
  have rp: "rep h None x" "distinct (refs x)" using assms(1) by (auto simp: heap_ok_def)
  from rep_sub [OF rp(1) assms(2,3)] have ch: "rep h (Some r) (xs ! 0)"
    using assms(4) by (elim exE conjE) simp
  have ds: "distinct (refs (XN r s k c xs))" using distinct_sub [OF assms(2) rp(2)] assms(3) by simp
  hence r0: "r \<notin> set (refs (xs ! 0))" using assms(4) by auto
  have "rep ?h (Some r) (xs ! 0)" using ch r0 by (simp only: rep_upd_other not_False_eq_True)
  moreover have "?h = h(r := Some \<lparr>n_info = s, n_parent = q, n_children = (map ptr xs)[0 := ptr (xs ! 0)],
      n_covered = c', n_kind = k\<rparr>)"
    using assms(4) by (cases xs) simp_all
  ultimately have "rep ?h None (put_sub x d (XN r s k c' (xs[0 := xs ! 0])))"
    using assms(4) by (intro rep_put [OF rp assms(2,3) _ _ assms(5)]) simp_all
  hence 1: "rep ?h None (put_sub x d (XN r s k c' xs))" by simp
  have sub: "set (refs (XN r s k c' xs)) \<inter> set (refs x) \<subseteq> set (refs (sub x d))"
    using assms(3) by simp
  have ds': "distinct (refs (XN r s k c' xs))" using ds by simp
  have 2: "distinct (refs (put_sub x d (XN r s k c' xs)))"
    by (rule distinct_put(1) [OF assms(2) rp(2) ds' sub])
  have st: "set (refs (XN r s k c' xs)) \<subseteq> set (refs x)"
    using sub_refs [OF assms(2)] assms(3) by simp
  hence 3: "set (refs (put_sub x d (XN r s k c' xs))) \<subseteq> set (refs x)"
    using distinct_put(2) [OF assms(2) rp(2) ds' sub] by auto
  have "no_end (sub x d)" using assms(1,2) no_end_sub by (auto simp: heap_ok_def)
  hence 4: "no_end (put_sub x d (XN r s k c' xs))"
    using assms(1,3) by (intro no_end_put) (auto simp: heap_ok_def)
  have "r \<noteq> ENDNODE" by (rule heap_ok_node(2) [OF assms(1-3)])
  with 1 2 3 4 assms(1) show ?thesis unfolding heap_ok_def by auto
qed

lemma covered_child:
  assumes "heap_ok (heap m) nr x" "valid_path x d" "sub x d = XN r s k c xs" "i < length xs"
  shows "(case ptr (xs ! i) of None \<Rightarrow> Some False | Some p \<Rightarrow> covered (m :: 'a tree_state_scheme) p)
    = Some (covd (xs ! i))"
proof -
  have v: "valid_path x (d @ [i])" "sub x (d @ [i]) = xs ! i"
    using assms by (auto simp: valid_append sub_append)
  show ?thesis
  proof (cases "ptr (xs ! i)")
    case None
    then show ?thesis by (cases "xs ! i") auto
  next
    case (Some p)
    with covered_ptr [OF assms(1) v(1), of p] v(2) show ?thesis by simp
  qed
qed

lemma all_covered_list:
  "(\<And>i. i < length xs \<Longrightarrow> (case ptr (xs ! i) of None \<Rightarrow> Some False | Some p \<Rightarrow> covered t p) = Some (covd (xs ! i)))
   \<Longrightarrow> all_children_covered (t :: 'a tree_state_scheme) (map ptr xs) = Some (\<forall>x \<in> set xs. covd x)"
proof (induction xs)
  case (Cons x xs)
  have IH: "all_children_covered t (map ptr xs) = Some (\<forall>x \<in> set xs. covd x)"
    using Cons.prems [of "Suc _"] by (intro Cons.IH) auto
  have "(case ptr x of None \<Rightarrow> Some False | Some p \<Rightarrow> covered t p) = Some (covd x)"
    using Cons.prems [of 0] by simp
  with IH show ?case by (cases "ptr x") auto
qed simp

lemma both_covered_rep:
  assumes "heap_ok (heap m) nr x" "valid_path x d" "sub x d = XN r s KChoice c [a, b]"
    "si_choice (sinfo m s) = Some (nd, False, False)"
  shows "both_covered (m :: 'a tree_state_scheme) r = Some (covd a \<and> covd b)"
    and "i \<in> {0, 1} \<Longrightarrow> child_covered m r (int i) = Some (covd ([a, b] ! i))"
proof -
  obtain q where h: "heap m r = Some (node_of q (XN r s KChoice c [a, b]))"
    using heap_ok_node(1) [OF assms(1-3)] by (elim exE)
  have c: "(case ptr a of None \<Rightarrow> Some False | Some p \<Rightarrow> covered m p) = Some (covd a)"
    "(case ptr b of None \<Rightarrow> Some False | Some p \<Rightarrow> covered m p) = Some (covd b)"
    using covered_child [OF assms(1-3), of 0] covered_child [OF assms(1-3), of 1] by simp_all
  have 0: "child_covered m r 0 = Some (covd a)" and 1: "child_covered m r 1 = Some (covd b)"
    using h c assms(4)
    by (auto simp: child_covered_def base_child_covered_def child_def check_index_def BETWEEN_def
        sc_is_covered_def safe_notnull_def)
  show "both_covered m r = Some (covd a \<and> covd b)" using 0 1 by (simp add: both_covered_def)
  show "i \<in> {0, 1} \<Longrightarrow> child_covered m r (int i) = Some (covd ([a, b] ! i))" using 0 1 by auto
qed

lemma set_covered_rep:
  assumes "heap m r = Some (node_of q (XN r s k c xs))"
  shows "set_covered (m :: 'a tree_state_scheme) r c'
    = Some (m\<lparr>heap := (heap m)(r := Some (node_of q (XN r s k c' xs)))\<rparr>)"
  using assms by (simp add: set_covered_def upd_node_def)

lemma ComputeCoverage_rep:
  assumes "heap_ok (heap m) nr x" "valid_path x d" "sub x d = XN r s k False xs" "good (sinfo m) x"
  shows "\<exists>h. ComputeCoverage nm (m :: 'a tree_state_scheme) r = Some (\<forall>y \<in> set xs. covd y, m\<lparr>heap := h\<rparr>)
    \<and> heap_ok h nr (put_sub x d (XN r s k (\<forall>y \<in> set xs. covd y) xs))
    \<and> h ENDNODE = heap m ENDNODE \<and> ((\<exists>y \<in> set xs. \<not> covd y) \<longrightarrow> h = heap m)"
proof -
  let ?cov = "\<forall>y \<in> set xs. covd y"
  obtain q where h: "heap m r = Some (node_of q (XN r s k False xs))"
    using heap_ok_node(1) [OF assms(1-3)] by (elim exE)
  have g: "good (sinfo m) (XN r s k False xs)" using good_sub [OF assms(4,2)] assms(3) by simp
  hence ne: "xs \<noteq> []" by auto
  have rE: "r \<noteq> ENDNODE" by (rule heap_ok_node(2) [OF assms(1-3)])
  let ?h = "(heap m)(r := Some (node_of q (XN r s k ?cov xs)))"
  let ?x = "put_sub x d (XN r s k ?cov xs)"
  have ok: "heap_ok ?h nr ?x" by (rule heap_flag [OF assms(1-3) ne h])
  have idem: "(\<exists>y \<in> set xs. \<not> covd y) \<longrightarrow> ?h = heap m" using h by (auto simp: fun_upd_idem)
  have sc: "set_covered m r ?cov = Some (m\<lparr>heap := ?h\<rparr>)" by (rule set_covered_rep [OF h])
  have "ComputeCoverage nm m r = Some (?cov, m\<lparr>heap := ?h\<rparr>)"
  proof (cases "k = KChoice")
    case False
    have "all_children_covered m (map ptr xs) = Some ?cov"
      by (rule all_covered_list) (rule covered_child [OF assms(1-3)])
    hence "base_coverage m r = Some (?cov, m\<lparr>heap := ?h\<rparr>)"
      using h sc by (simp add: base_coverage_def)
    with False g h show ?thesis by (auto simp: ComputeCoverage_def)
  next
    case True
    with g obtain nd where l2: "length xs = 2" and nd: "si_choice (sinfo m s) = Some (nd, False, False)" by auto
    then obtain a b where xs: "xs = [a, b]"
      by (metis (no_types, opaque_lifting) One_nat_def Suc_1 length_0_conv length_Suc_conv)
    have b1: "both_covered m r = Some ?cov"
      using both_covered_rep(1) [OF assms(1,2) assms(3) [unfolded True xs] nd] xs by simp
    have vx: "valid_path ?x d" "sub ?x d = XN r s KChoice ?cov [a, b]"
      using assms(2) True xs by simp_all
    have b2: "both_covered (m\<lparr>heap := ?h\<rparr>) r = Some ?cov"
      using both_covered_rep(1) [of "m\<lparr>heap := ?h\<rparr>" nr ?x d r s ?cov a b nd] ok vx nd xs by simp
    have "choice_coverage m r = Some (?cov, m\<lparr>heap := ?h\<rparr>)"
      using h b1 sc b2 by (auto simp add: choice_coverage_def)
    with True h show ?thesis by (simp add: ComputeCoverage_def)
  qed
  with ok idem rE show ?thesis by (intro exI [of _ ?h]) (auto simp: fun_upd_apply)
qed

section \<open>The loop\<close>

lemma put_prefix:
  "valid_path x d \<Longrightarrow> i \<le> n \<Longrightarrow> put_sub (put_sub x (take n d) y) (take i d) z = put_sub x (take i d) z"
proof -
  assume v: "valid_path x d" and i: "i \<le> n"
  have t: "take n d = take i d @ drop i (take n d)"
    using i by (metis append_take_drop_id min.absorb1 take_take)
  have "valid_path x (take i d)" by (rule valid_take [OF v])
  thus ?thesis by (subst t) (simp add: put_append)
qed

lemma valid_put_prefix:
  "valid_path x d \<Longrightarrow> sub x (take n d) = XN r s k c xs \<Longrightarrow>
   valid_path (put_sub x (take n d) (XN r s k c' xs)) d
   \<and> locs (put_sub x (take n d) (XN r s k c' xs)) d = locs x d
   \<and> sub (put_sub x (take n d) (XN r s k c' xs)) d = (if n < length d then sub x d else XN r s k c' xs)"
proof -
  assume v: "valid_path x d" and s: "sub x (take n d) = XN r s k c xs"
  have vt: "valid_path x (take n d)" by (rule valid_take [OF v])
  have d: "d = take n d @ drop n d" by simp
  let ?x = "put_sub x (take n d) (XN r s k c' xs)"
  have vd: "valid_path (XN r s k c xs) (drop n d)" using v s d vt by (metis valid_append)
  have "valid_path (XN r s k c' xs) (drop n d)" using vd by (cases "drop n d") auto
  hence 1: "valid_path ?x d" using vt by (metis d sub_put valid_append valid_put)
  have "locs (XN r s k c' xs) (drop n d) = locs (XN r s k c xs) (drop n d)" by (cases "drop n d") auto
  hence 2: "locs ?x d = locs x d"
    using vt s by (metis d locs_append locs_put sub_put valid_put)
  have "sub ?x d = sub (XN r s k c' xs) (drop n d)"
    using vt by (metis d sub_append sub_put valid_put)
  moreover have "sub x d = sub (XN r s k c xs) (drop n d)" using vt s by (metis d sub_append)
  ultimately have 3: "sub ?x d = (if n < length d then sub x d else XN r s k c' xs)"
    by (cases "drop n d") auto
  show ?thesis using 1 2 3 by simp
qed

fun fin :: "xt \<Rightarrow> bool" where
  "fin XU = False"
| "fin XE = True"
| "fin (XN r s k c xs) = (\<forall>x \<in> set xs. fin x)"

lemma fin_todo: "fin x \<Longrightarrow> matches p x \<Longrightarrow> todo p x = {#}"
proof (induction x arbitrary: p)
  case (XN r s k c xs)
  then obtain ps where p: "p = PNode s k ps" "list_all2 matches ps xs" by (cases p) auto
  have "todo (fst z) (snd z) = {#}" if "z \<in> set (zip ps xs)" for z
  proof -
    obtain a b where z: "z = (a, b)" by (cases z)
    with that p(2) have "matches a b" by (auto simp: list_all2_iff)
    moreover have "b \<in> set xs" using that z by (auto dest: set_zip_rightD)
    ultimately show ?thesis using XN z by auto
  qed
  hence "map2 todo ps xs = map (\<lambda>_. {#}) (zip ps xs)" by (auto simp: case_prod_beta)
  hence "sum_list (map2 todo ps xs) = {#}" by (simp only: sum_list_0)
  with p show ?case by simp
qed auto

lemma fin_put:
  "valid_path x d \<Longrightarrow> fin y = fin (sub x d) \<Longrightarrow> fin (put_sub x d y) = fin x"
proof (induction x d rule: valid_path.induct)
  case (2 r s k c xs i "is")
  hence i: "i < length xs" and e: "fin (put_sub (xs ! i) is y) = fin (xs ! i)" by auto
  have "fin (xs[i := put_sub (xs ! i) is y] ! j) = fin (xs ! j)" if "j < length xs" for j
    using e i that by (cases "j = i") auto
  hence "(\<forall>j < length xs. fin (xs[i := put_sub (xs ! i) is y] ! j)) = (\<forall>j < length xs. fin (xs ! j))" by auto
  thus ?case by (simp add: all_set_conv_all_nth)
qed auto

lemma sub_put_prefix:
  assumes "valid_path x d" "i \<le> n"
  shows "sub (put_sub x (take n d) y) (take i d) = put_sub (sub x (take i d)) (drop i (take n d)) y"
    and "valid_path (sub x (take i d)) (drop i (take n d))"
    and "sub (sub x (take i d)) (drop i (take n d)) = sub x (take n d)"
proof -
  have t: "take n d = take i d @ drop i (take n d)"
    using assms(2) by (metis append_take_drop_id min.absorb1 take_take)
  have v: "valid_path x (take i d)" "valid_path x (take n d)" by (rule valid_take [OF assms(1)])+
  show "sub (put_sub x (take n d) y) (take i d) = put_sub (sub x (take i d)) (drop i (take n d)) y"
    using v(1) by (subst t) (simp add: put_append)
  show "valid_path (sub x (take i d)) (drop i (take n d))" using v t valid_append by metis
  show "sub (sub x (take i d)) (drop i (take n d)) = sub x (take n d)" using v t sub_append by metis
qed

lemma path_node:
  assumes "valid_path x d" "n < length d"
  obtains r s k c xs where "sub x (take n d) = XN r s k c xs" "d ! n < length xs"
    "sub x (take (Suc n) d) = xs ! (d ! n)" "locs x d ! n = Loc (Some r) (int (d ! n))"
  using sub_take_Suc [OF assms] by blast

lemma stack_parent:
  assumes "valid_path x d" "n \<le> length d" "n = length d \<Longrightarrow> sub x d = XE"
  shows "cl_parent ((locs x d @ [Loc (Some ENDNODE) 0]) ! n) = ptr (sub x (take n d))"
proof (cases "n < length d")
  case True
  with path_node [OF assms(1) True] assms(1) show ?thesis
    by (metis child_loc.select_convs(1) Loc_def length_locs nth_append ptr.simps(3))
next
  case False
  with assms show ?thesis by (simp add: nth_append Loc_def)
qed

lemma last_locs_nth: "valid_path x d \<Longrightarrow> d \<noteq> [] \<Longrightarrow> last (locs x d) = locs x d ! (length d - 1)"
  by (metis last_conv_nth length_0_conv length_locs)

definition loop_result ::
  "mgr \<Rightarrow> nat \<Rightarrow> xt \<Rightarrow> nat list \<Rightarrow> nat \<Rightarrow> nat \<Rightarrow> (noderef \<Rightarrow> node option) \<Rightarrow> xt \<Rightarrow> bool" where
  "loop_result m nr x d i hc h x' \<longleftrightarrow> hc \<le> i \<and> heap_ok h nr x' \<and> valid_path x' d \<and> locs x' d = locs x d
     \<and> sub x' d = sub x d \<and> covd (sub x' (take hc d)) \<and> fin (sub x (take hc d))
     \<and> put_sub x' (take hc d) XE = put_sub x (take hc d) XE \<and> spine x' (take hc d)
     \<and> good (sinfo m) x' \<and> h ENDNODE = heap m ENDNODE
     \<and> (hc > 0 \<longrightarrow> (\<exists>r s k c xs l. sub x' (take (hc - 1) d) = XN r s k c xs \<and> l < length xs
           \<and> l \<noteq> d ! (hc - 1) \<and> \<not> covd (xs ! l)))"

lemma cov_loop_rep:
  assumes "heap_ok (heap m) nr x" "valid_path x d" "good (sinfo m) x" "i \<le> length d"
    "node_stack m = locs x d @ [Loc (Some ENDNODE) 0]" "covd (sub x (take i d))" "fin (sub x (take i d))"
    "spine x (take i d)" "sub x d = XE"
    "heap m ENDNODE = Some (end_node (cl_parent (last (locs x d))))" "d \<noteq> []"
  shows "\<exists>hc h x'. cov_loop nm i m = Some (hc, m\<lparr>heap := h\<rparr>) \<and> loop_result m nr x d i hc h x'"
  using assms
proof (induction i arbitrary: m x)
  case 0
  have "loop_result m nr x d 0 0 (heap m) x"
    unfolding loop_result_def using 0 by simp
  moreover have "cov_loop nm 0 m = Some (0, m\<lparr>heap := heap m\<rparr>)" by simp
  ultimately show ?case by blast
next
  case (Suc i)
  have il: "i < length d" using Suc.prems(4) by simp
  obtain r s k c xs where n: "sub x (take i d) = XN r s k c xs" "d ! i < length xs"
    "sub x (take (Suc i) d) = xs ! (d ! i)" "locs x d ! i = Loc (Some r) (int (d ! i))"
    using path_node [OF Suc.prems(2) il] by blast
  have vi: "valid_path x (take i d)" by (rule valid_take [OF Suc.prems(2)])
  have vS: "valid_path x (take (Suc i) d)" by (rule valid_take [OF Suc.prems(2)])
  have tk: "take i (take (Suc i) d) = take i d" "take (Suc i) d ! i = d ! i"
    using il by (simp_all add: min_def)
  have lS: "i < length (take (Suc i) d)" using il by simp
  have cF: "\<not> c" and off: "\<And>l. l < length xs \<Longrightarrow> l \<noteq> d ! i \<Longrightarrow> normal (xs ! l)"
    using spine_node [OF Suc.prems(8) vS lS, unfolded tk, OF n(1)] by auto
  have nF: "sub x (take i d) = XN r s k False xs" using n(1) cF by simp
  \<comment> \<open>the entry and its check\<close>
  have el: "node_stack m ! i = Loc (Some r) (int (d ! i))"
    using Suc.prems(5,2) n(4) il by (simp add: nth_append)
  have par: "cl_parent (node_stack m ! Suc i) = ptr (sub x (take (Suc i) d))"
    using stack_parent [OF Suc.prems(2), of "Suc i"] Suc.prems(4,5,9) by simp
  have chk: "loc_check m (node_stack m ! i) (cl_parent (node_stack m ! Suc i)) = Some True"
  proof -
    have "heap m ENDNODE = Some (end_node (cl_parent (locs x d ! i)))" if "sub x (take (Suc i) d) = XE"
    proof (cases "Suc i < length d")
      case True
      with path_node [OF Suc.prems(2) True] that show ?thesis by auto
    next
      case False
      hence "length d - 1 = i" using il by simp
      with Suc.prems(10) last_locs_nth [OF Suc.prems(2,11)] show ?thesis by simp
    qed
    from loc_check_nth [OF Suc.prems(1,2) il this] show ?thesis using el par n(4) by simp
  qed
  obtain h where cc: "ComputeCoverage nm m r = Some (\<forall>y \<in> set xs. covd y, m\<lparr>heap := h\<rparr>)"
    and okh: "heap_ok h nr (put_sub x (take i d) (XN r s k (\<forall>y \<in> set xs. covd y) xs))"
    and hE: "h ENDNODE = heap m ENDNODE" and idem: "(\<exists>y \<in> set xs. \<not> covd y) \<longrightarrow> h = heap m"
    using ComputeCoverage_rep [OF Suc.prems(1) vi nF Suc.prems(3)] by blast
  have step: "cov_loop nm (Suc i) m =
      (if \<forall>y \<in> set xs. covd y then cov_loop nm i (m\<lparr>heap := h\<rparr>) else Some (Suc i, m\<lparr>heap := h\<rparr>))"
    using el chk cc by (simp add: loc_empty_def Loc_def)
  show ?case
  proof (cases "\<forall>y \<in> set xs. covd y")
    case False
    then obtain l where l: "l < length xs" "\<not> covd (xs ! l)" by (auto simp: in_set_conv_nth)
    have ld: "l \<noteq> d ! i" using l(2) Suc.prems(6) n(3) by auto
    have hm: "h = heap m" using False idem by blast
    have "loop_result m nr x d (Suc i) (Suc i) h x"
      unfolding loop_result_def using Suc.prems hm nF l ld by auto
    moreover have "cov_loop nm (Suc i) m = Some (Suc i, m\<lparr>heap := h\<rparr>)" using step False by simp
    ultimately show ?thesis by blast
  next
    case True
    let ?x1 = "put_sub x (take i d) (XN r s k True xs)" and ?m1 = "m\<lparr>heap := h\<rparr>"
    have g1: "good (sinfo m) (XN r s k True xs)" using good_sub [OF Suc.prems(3) vi] nF by simp
    have vp: "valid_path ?x1 d" "locs ?x1 d = locs x d" "sub ?x1 d = sub x d"
      using valid_put_prefix [OF Suc.prems(2) nF, of True] il by auto
    have finx: "fin (xs ! l)" if "l < length xs" for l
    proof (cases "l = d ! i")
      case True
      with Suc.prems(7) n(3) show ?thesis by simp
    next
      case False
      have "covd (xs ! l)" using \<open>\<forall>y \<in> set xs. covd y\<close> that by simp
      with normal_covd [OF off [OF that False]] show ?thesis by simp
    qed
    have f1: "fin (sub ?x1 (take i d))" using vi finx by (auto simp: in_set_conv_nth)
    have IH: "\<exists>hc h' x'. cov_loop nm i ?m1 = Some (hc, ?m1\<lparr>heap := h'\<rparr>) \<and> loop_result ?m1 nr ?x1 d i hc h' x'"
    proof (rule Suc.IH)
      show "heap_ok (heap ?m1) nr ?x1" using okh True by simp
      show "valid_path ?x1 d" by (rule vp(1))
      show "good (sinfo ?m1) ?x1" using good_put [OF Suc.prems(3) g1] by simp
      show "i \<le> length d" using il by simp
      show "node_stack ?m1 = locs ?x1 d @ [Loc (Some ENDNODE) 0]" using Suc.prems(5) vp by simp
      show "covd (sub ?x1 (take i d))" using vi by simp
      show "fin (sub ?x1 (take i d))" by (rule f1)
      have "spine x (take i d)" using spine_take [OF Suc.prems(8), of i] tk by simp
      thus "spine ?x1 (take i d)" using vi by (simp add: spine_put)
      show "sub ?x1 d = XE" using vp Suc.prems(9) by simp
      show "heap ?m1 ENDNODE = Some (end_node (cl_parent (last (locs ?x1 d))))"
        using hE Suc.prems(10) vp by simp
      show "d \<noteq> []" by (rule Suc.prems(11))
    qed
    then obtain hc h' x' where r: "cov_loop nm i ?m1 = Some (hc, ?m1\<lparr>heap := h'\<rparr>)"
      "loop_result ?m1 nr ?x1 d i hc h' x'" by blast
    have hci: "hc \<le> i" using r(2) by (simp add: loop_result_def)
    have "fin (sub ?x1 (take hc d)) = fin (sub x (take hc d))"
    proof -
      have v': "valid_path (sub x (take hc d)) (drop hc (take i d))"
        and s': "sub (sub x (take hc d)) (drop hc (take i d)) = sub x (take i d)"
        by (rule sub_put_prefix(2,3) [OF Suc.prems(2) hci])+
      have "fin (XN r s k True xs) = fin (sub (sub x (take hc d)) (drop hc (take i d)))"
        using s' nF by simp
      from fin_put [OF v' this] show ?thesis
        using sub_put_prefix(1) [OF Suc.prems(2) hci] by simp
    qed
    moreover have "put_sub ?x1 (take hc d) XE = put_sub x (take hc d) XE"
      by (rule put_prefix [OF Suc.prems(2) hci])
    ultimately have "loop_result m nr x d (Suc i) hc h' x'"
      using r(2) vp hE unfolding loop_result_def by auto
    moreover have "cov_loop nm (Suc i) m = Some (hc, m\<lparr>heap := h'\<rparr>)" using step True r(1) by simp
    ultimately show ?thesis by blast
  qed
qed

end
