(* ===== verification/Search_Backtrack.thy ===== *)
theory Search_Backtrack
  imports Search_Coverage
begin

text \<open>
  \<open>DoBacktrack\<close> on a represented tree whose current path ends in the end node: the largest covered
  subtree is cut off and freed, and the stack is shortened to the path above it.
\<close>

section \<open>Cutting off the covered subtree\<close>

lemma rep_child:
  assumes "heap_ok h nr x" "valid_path x d" "sub x d = XN q s k c xs" "i < length xs"
  shows "rep h (Some q) (xs ! i)"
proof -
  have "rep h None x" using assms(1) by (simp add: heap_ok_def)
  from rep_sub [OF this assms(2,3)] assms(4) show ?thesis by auto
qed

text \<open>The references of a node are not those of the subtree below one of its children.\<close>

lemma parent_not_below:
  assumes "heap_ok h nr x" "valid_path x d" "sub x d = XN q s k c xs" "i < length xs"
  shows "q \<notin> set (refs (xs ! i))"
proof -
  have "distinct (refs x)" using assms(1) by (simp add: heap_ok_def)
  from distinct_sub [OF assms(2) this] assms(3,4) show ?thesis by (auto dest: nth_mem)
qed

text \<open>Clearing the last child of a detached subtree keeps it represented.\<close>

lemma rep_clear_last:
  assumes "rep h p y" "distinct (refs y)" "valid_path y (e @ [i])" "sub y e = XN r s k c xs"
  shows "rep (put_child_heap h r i None) p (put_sub y (e @ [i]) XU)"
    and "set (refs (put_sub y (e @ [i]) XU)) \<subseteq> set (refs y)"
    and "distinct (refs (put_sub y (e @ [i]) XU))"
proof -
  have v: "valid_path y e" "i < length xs" using assms(3,4) by (auto simp: valid_append)
  obtain q where q: "h r = Some (node_of q (XN r s k c xs))"
    using rep_sub [OF assms(1) v(1) assms(4)] by (elim exE conjE)
  have put: "put_sub y (e @ [i]) XU = put_sub y e (XN r s k c (xs[i := XU]))"
    using v assms(4) by (simp add: put_append)
  have h': "put_child_heap h r i None
      = h(r := Some \<lparr>n_info = s, n_parent = q, n_children = (map ptr xs)[i := ptr XU], n_covered = c, n_kind = k\<rparr>)"
    using q by (simp add: put_child_heap_def)
  show "rep (put_child_heap h r i None) p (put_sub y (e @ [i]) XU)"
    unfolding put by (rule rep_put [OF assms(1,2) v(1) assms(4) v(2) h' q]) simp
  show "set (refs (put_sub y (e @ [i]) XU)) \<subseteq> set (refs y)"
    using distinct_put(2) [OF assms(3,2), of XU] by auto
  show "distinct (refs (put_sub y (e @ [i]) XU))"
    by (rule distinct_put(1) [OF assms(3,2)]) auto
qed

lemma heap_ok_minus:
  assumes "heap_ok h nr x" "R \<inter> set (refs x) = {}" "ENDNODE \<notin> R"
  shows "heap_ok (heap_minus h R) nr x"
proof -
  have "rep (heap_minus h R) None x = rep h None x"
    by (rule rep_cong) (use assms(2) in \<open>auto simp: heap_minus_def\<close>)
  with assms show ?thesis by (auto simp: heap_ok_def heap_minus_def)
qed

lemma no_end_XU: "no_end y \<Longrightarrow> no_end (put_sub y e XU)"
  by (rule no_end_put) auto

lemma delete_covered_rep:
  assumes "heap_ok (heap m) (next_ref m) x" "valid_path x d" "sub x d = XE"
    "node_stack m = locs x d @ [Loc (Some ENDNODE) 0]" "Suc n < length d"
  shows "\<exists>h. delete_covered (Suc n) m = Some (m\<lparr>heap := h\<rparr>)
    \<and> heap_ok h (next_ref m) (put_sub x (take (Suc n) d) XE)"
proof -
  let ?b = "take (Suc n) d"
  have n: "n < length d" and l0: "length d - 1 < length d" using assms(5) by auto
  obtain q s k c xs where P: "sub x (take n d) = XN q s k c xs" "d ! n < length xs"
    "sub x ?b = xs ! (d ! n)" "locs x d ! n = Loc (Some q) (int (d ! n))"
    by (rule path_node [OF assms(2) n])
  obtain r s1 k1 c1 ys where R: "sub x ?b = XN r s1 k1 c1 ys" "d ! Suc n < length ys"
    "sub x (take (Suc (Suc n)) d) = ys ! (d ! Suc n)" "locs x d ! Suc n = Loc (Some r) (int (d ! Suc n))"
    by (rule path_node [OF assms(2,5)])
  obtain r' s2 k2 c2 zs where L: "sub x (take (length d - 1) d) = XN r' s2 k2 c2 zs"
    "d ! (length d - 1) < length zs" "sub x (take (Suc (length d - 1)) d) = zs ! (d ! (length d - 1))"
    "locs x d ! (length d - 1) = Loc (Some r') (int (d ! (length d - 1)))"
    by (rule path_node [OF assms(2) l0])
  define e where "e = drop (Suc n) (take (length d - 1) d)"
  define j where "j = d ! (length d - 1)"
  have vn: "valid_path x (take n d)" and vb: "valid_path x ?b" by (rule valid_take [OF assms(2)])+
  have de: "drop (Suc n) d = e @ [j]"
  proof -
    have "d = take (length d - 1) d @ [j]"
      using l0 unfolding j_def by (cases d rule: rev_cases) simp_all
    hence "drop (Suc n) d = drop (Suc n) (take (length d - 1) d @ [j])" by simp
    moreover have "length (take (length d - 1) d) \<ge> Suc n" using assms(5) by simp
    ultimately show ?thesis unfolding e_def by simp
  qed
  have bd: "d = ?b @ e @ [j]" using de by (metis append_take_drop_id)
  let ?Y = "XN r s1 k1 c1 ys"
  have vY: "valid_path ?Y (e @ [j])" using assms(2) bd R(1) vb by (metis valid_append)
  have te: "take (length d - 1) d = ?b @ e"
  proof -
    have "take (length d - 1) d = take (Suc n) (take (length d - 1) d) @ e"
      unfolding e_def by (rule append_take_drop_id [symmetric])
    moreover have "take (Suc n) (take (length d - 1) d) = ?b" using assms(5) by (auto simp: min_def)
    ultimately show ?thesis by (rule subst [where P = "\<lambda>z. _ = z @ e", rotated])
  qed
  have vYe: "valid_path ?Y e" "sub ?Y e = XN r' s2 k2 c2 zs"
    using vY L(1) te R(1) vb by (auto simp: valid_append sub_append)
  have repY: "rep (heap m) (Some q) ?Y" using rep_child [OF assms(1) vn P(1,2)] P(3) R(1) by simp
  have dx: "distinct (refs x)" using assms(1) by (simp add: heap_ok_def)
  have dY: "distinct (refs ?Y)" using distinct_sub [OF vb dx] R(1) by simp
  have subY: "set (refs ?Y) \<subseteq> set (refs x)" using sub_refs [OF vb] R(1) by simp
  have qY: "q \<notin> set (refs ?Y)" using parent_not_below [OF assms(1) vn P(1,2)] P(3) R(1) by simp
  have EY: "ENDNODE \<notin> set (refs ?Y)" using assms(1) subY by (auto simp: heap_ok_def)
  have r'Y: "r' \<in> set (refs ?Y)" using sub_refs [OF vYe(1)] vYe(2) by auto
  \<comment> \<open>linking the end node in place of the subtree\<close>
  have tb: "?b = take n d @ [d ! n]" using n by (rule take_Suc_conv_app_nth)
  obtain h1 where h1: "loc_set m (Loc (Some q) (int (d ! n))) (Some ENDNODE) = Some (m\<lparr>heap := h1\<rparr>)"
    "h1 = (put_child_heap (heap m) q (d ! n) (Some ENDNODE))(ENDNODE := Some (end_node (Some q)))"
    "heap_ok h1 (next_ref m) (put_sub x ?b XE)"
    using loc_set_end [OF assms(1) vb [unfolded tb] P(1)] tb by auto
  have same: "h1 a = heap m a" if "a \<in> set (refs ?Y)" for a
  proof -
    have "a \<noteq> q" "a \<noteq> ENDNODE" using that qY EY by auto
    thus ?thesis by (simp add: h1(2) put_child_heap_def)
  qed
  have rep1: "rep h1 (Some q) ?Y" using repY rep_cong [of ?Y h1 "heap m" "Some q"] same by blast
  \<comment> \<open>the last location of the path is cleared\<close>
  obtain q2 where q2: "h1 r' = Some (node_of q2 (XN r' s2 k2 c2 zs))"
    using rep_sub [OF rep1 vYe] by (elim exE conjE)
  have zj: "zs ! j = XE" using L(3) assms(3) l0 unfolding j_def by simp
  have jz: "j < length zs" using L(2) unfolding j_def .
  let ?m1 = "m\<lparr>heap := h1\<rparr>"
  have g1: "loc_get ?m1 (Loc (Some r') (int j)) = Some (Some ENDNODE)"
    using q2 jz zj by (simp add: loc_get_def loc_empty_def Loc_def get_child_def check_index_def BETWEEN_def)
  let ?h2 = "put_child_heap h1 r' j None"
  have s2: "loc_set ?m1 (Loc (Some r') (int j)) None = Some (m\<lparr>heap := ?h2\<rparr>)"
    using set_child_heap [of ?m1 r' "node_of q2 (XN r' s2 k2 c2 zs)" j None] q2 jz
    by (simp add: loc_set_def loc_empty_def Loc_def)
  let ?Y2 = "put_sub ?Y (e @ [j]) XU"
  note clr = rep_clear_last [OF rep1 dY vY vYe(2)]
  obtain ys2 where Y2: "?Y2 = XN r s1 k1 c1 ys2" by (cases "e @ [j]") auto
  have noY: "no_end ?Y2"
    using assms(1) no_end_sub [OF _ vb] R(1) by (intro no_end_XU) (auto simp: heap_ok_def)
  have hE: "?h2 ENDNODE = Some (end_node (Some q))"
  proof -
    have "r' \<noteq> ENDNODE" using r'Y EY by auto
    thus ?thesis by (simp add: h1(2) put_child_heap_def)
  qed
  have del: "delete_node r (m\<lparr>heap := ?h2\<rparr>)
      = Some (m\<lparr>heap := heap_minus ?h2 (set (refs ?Y2))\<rparr>)"
  proof -
    have E2: "ENDNODE \<notin> set (refs ?Y2)" using EY clr(2) by blast
    have "delete_node r (m\<lparr>heap := ?h2\<rparr>)
        = Some (m\<lparr>heap := ?h2, heap := heap_minus (heap (m\<lparr>heap := ?h2\<rparr>)) (set (refs ?Y2))\<rparr>)"
    proof (rule delete_node_represented)
      show "rep (heap (m\<lparr>heap := ?h2\<rparr>)) (Some q) ?Y2" using clr(1) by simp
      show "heap (m\<lparr>heap := ?h2\<rparr>) ENDNODE = Some (end_node (Some q))" using hE by simp
      show "n_kind (end_node (Some q)) = KEnd" by simp
    qed (rule Y2 clr(3) noY E2)+
    thus ?thesis by simp
  qed
  \<comment> \<open>the remaining tree is untouched\<close>
  have disj: "set (refs ?Y) \<inter> set (refs (put_sub x ?b XE)) = {}"
    using distinct_put(2) [OF vb dx, of XE] R(1) by auto
  have ok2: "heap_ok ?h2 (next_ref m) (put_sub x ?b XE)"
  proof -
    have "r' \<notin> set (refs (put_sub x ?b XE))" "r' \<noteq> ENDNODE" using disj r'Y EY by auto
    from heap_ok_frame [OF h1(3) this] show ?thesis unfolding put_child_heap_def .
  qed
  have "heap_ok (heap_minus ?h2 (set (refs ?Y2))) (next_ref m) (put_sub x ?b XE)"
    using ok2 disj clr(2) EY by (intro heap_ok_minus) auto
  moreover have "delete_covered (Suc n) m = Some (m\<lparr>heap := heap_minus ?h2 (set (refs ?Y2))\<rparr>)"
  proof -
    have ln: "length (locs x d) = length d" using assms(2) by simp
    have st: "node_stack m ! n = Loc (Some q) (int (d ! n))"
      "cl_parent (node_stack m ! Suc n) = Some r"
      "node_stack m ! (length d - 1) = Loc (Some r') (int j)" "length (node_stack m) - 2 = length d - 1"
      using assms(4,5) ln P(4) R(4) L(4) by (auto simp: nth_append Loc_def j_def)
    have g0: "loc_get m (Loc (Some q) (int (d ! n))) = Some (Some r)"
      using loc_nth(1) [OF assms(1,2) n] P(4) R(1) by simp
    have "r' \<noteq> ENDNODE" using r'Y EY by auto
    thus ?thesis using st g0 h1(1) g1 s2 del
      by (simp add: delete_covered_def) (simp add: Loc_def)
  qed
  ultimately show ?thesis by blast
qed

section \<open>The whole operation\<close>

text \<open>A complete path: the path \<open>d\<close> of the tree ends in the end node, which is also the last entry
  of the stack.\<close>

definition complete :: "mgr \<Rightarrow> xt \<Rightarrow> nat list \<Rightarrow> bool" where
  "complete m x d \<longleftrightarrow> heap_ok (heap m) (next_ref m) x \<and> valid_path x d \<and> sub x d = XE \<and> d \<noteq> []
     \<and> node_stack m = locs x d @ [Loc (Some ENDNODE) 0] \<and> spine x d \<and> good (sinfo m) x
     \<and> heap m ENDNODE = Some (end_node (cl_parent (last (locs x d)))) \<and> ptr x = Some ROOTNODE
     \<and> (\<exists>c y. x = XN ROOTNODE 0 KRoot c [y])"

lemma covered_stack:
  assumes "heap_ok (heap m) nr x" "valid_path x d" "sub x d = XE" "n \<le> length d"
    "node_stack m = locs x d @ [Loc (Some ENDNODE) 0]" "sub x (take n d) \<noteq> XU"
  shows "covered_at m n = Some (covd (sub x (take n d)))"
proof -
  have p: "cl_parent (node_stack m ! n) = ptr (sub x (take n d))"
    using stack_parent [OF assms(2,4)] assms(3,5) by simp
  obtain r where r: "ptr (sub x (take n d)) = Some r"
    using assms(6) by (cases "sub x (take n d)") auto
  from covered_ptr [OF assms(1) valid_take [OF assms(2)] r] p r show ?thesis
    by (simp add: covered_at_def)
qed

lemma sub_take_not_XU:
  assumes "valid_path x d" "sub x d = XE" "n \<le> length d"
  shows "sub x (take n d) \<noteq> XU"
proof (cases "n < length d")
  case True
  from path_node [OF assms(1) this] show ?thesis by (metis xt.distinct(3))
qed (use assms in simp)

lemma covered_root:
  assumes "heap_ok (heap m) nr x" "ptr x = Some ROOTNODE"
  shows "covered (m :: 'a tree_state_scheme) ROOTNODE = Some (covd x)"
  using covered_ptr [of m nr x "[]"] assms by simp

lemma CheckCompletePath_complete:
  assumes "complete m x d"
  shows "CheckCompletePath (node_stack m) m = Some True"
proof -
  from assms have ok: "heap_ok (heap m) (next_ref m) x" and v: "valid_path x d" and e: "sub x d = XE"
    and d: "0 < length d" and st: "node_stack m = locs x d @ [Loc (Some ENDNODE) 0]"
    by (auto simp: complete_def)
  have ln: "length (locs x d) = length d" using v by simp
  have l0: "length d - 1 < length d" using d by simp
  obtain r s k c xs where R: "sub x (take 0 d) = XN r s k c xs" "d ! 0 < length xs"
    "sub x (take (Suc 0) d) = xs ! (d ! 0)" "locs x d ! 0 = Loc (Some r) (int (d ! 0))"
    by (rule path_node [OF v d])
  have r0: "r = ROOTNODE" using R(1) assms by (auto simp: complete_def)
  have 0: "node_stack m ! 0 = Loc (Some ROOTNODE) (int (d ! 0))"
    using st R(4) ln d r0 by (simp add: nth_append)
  obtain q s' k' c' ys where L: "sub x (take (length d - 1) d) = XN q s' k' c' ys"
    "d ! (length d - 1) < length ys" "sub x (take (Suc (length d - 1)) d) = ys ! (d ! (length d - 1))"
    "locs x d ! (length d - 1) = Loc (Some q) (int (d ! (length d - 1)))"
    by (rule path_node [OF v l0])
  have 1: "node_stack m ! (length (node_stack m) - 2) = locs x d ! (length d - 1)"
    using st ln d by (simp add: nth_append)
  have g: "loc_get m (locs x d ! (length d - 1)) = Some (Some ENDNODE)"
    using loc_nth(1) [OF ok v l0] d e by simp
  have qE: "IS_ENDNODE m (Some q) = Some False"
    using IS_ENDNODE_ptr [OF ok valid_take [OF v], of "length d - 1"] L(1) by simp
  obtain pe where he: "heap m ENDNODE = Some (end_node pe)" using heap_ok_end [OF ok] by (elim exE)
  have ge: "loc_get m (Loc (Some ENDNODE) 0) = Some (Some ENDNODE)"
    using he by (simp add: loc_get_def loc_empty_def Loc_def get_child_def check_index_def BETWEEN_def)
  have eE: "IS_ENDNODE m (Some ENDNODE) = Some True" by (rule IS_ENDNODE_END [OF ok])
  have la: "last (node_stack m) = Loc (Some ENDNODE) 0" "length (node_stack m) \<ge> 2"
    using st ln d by (auto simp: Suc_le_eq)
  have p: "cl_parent (Loc a b) = a" for a b by (simp add: Loc_def)
  show ?thesis
    unfolding CheckCompletePath_def Let_def la(1) ge 1 g L(4) p 0 using la(2) eE qE g L(4)
    by simp
qed

lemma drop_prefix_fin:
  assumes "loop_result m nr x d i hc h x'" "i = length d" "sub x d = XE" "valid_path x d"
  shows "hc = length d \<Longrightarrow> x' = put_sub x (take hc d) XE"
proof -
  assume h: "hc = length d"
  from assms have 1: "valid_path x' d" "sub x' d = XE" "put_sub x' d XE = put_sub x d XE"
    using h by (auto simp: loop_result_def)
  have "x' = put_sub x' d (sub x' d)" using put_sub_id [OF 1(1)] by simp
  with 1 h show ?thesis by simp
qed

text \<open>The result: either the root is covered and everything below is finished, or the finished
  subtree has been replaced by an end node and the stack leads to its parent.\<close>

definition backtracked :: "mgr \<Rightarrow> xt \<Rightarrow> nat list \<Rightarrow> bool \<Rightarrow> mgr \<Rightarrow> bool" where
  "backtracked m x d b m' \<longleftrightarrow>
     (\<exists>h st. m' = m\<lparr>heap := h, node_stack := st, stack_index := length st\<rparr>
        \<and> (if b then (\<exists>n. n > 0 \<and> Suc n \<le> length d \<and> st = locs (put_sub x (take (Suc n) d) XE) (take n d)
              \<and> heap_ok h (next_ref m) (put_sub x (take (Suc n) d) XE)
              \<and> normal (put_sub x (take (Suc n) d) XE) \<and> fin (sub x (take (Suc n) d)))
           else (\<exists>x'. heap_ok h (next_ref m) x' \<and> covd x' \<and> fin x \<and> ptr x' = Some ROOTNODE \<and> st = [])))"

lemma DoBacktrack_rep:
  assumes "complete m x d" "DeleteCoveredSubtrees cfg"
    "reason \<noteq> SEARCH_ENDS" "reason \<noteq> EXCEPTION" "reason \<noteq> UNKNOWN"
  shows "\<exists>b m'. DoBacktrack cfg nm reason m = Some (b, m') \<and> backtracked m x d b m'"
proof -
  from assms(1) have ok: "heap_ok (heap m) (next_ref m) x" and v: "valid_path x d" and e: "sub x d = XE"
    and d: "d \<noteq> []" and st: "node_stack m = locs x d @ [Loc (Some ENDNODE) 0]"
    and sp: "spine x d" and g: "good (sinfo m) x"
    and he: "heap m ENDNODE = Some (end_node (cl_parent (last (locs x d))))"
    by (auto simp: complete_def)
  obtain c y where xr: "x = XN ROOTNODE 0 KRoot c [y]" using assms(1) by (auto simp: complete_def)
  have ln: "length (locs x d) = length d" using v by simp
  have "\<exists>hc h x'. cov_loop nm (length d) m = Some (hc, m\<lparr>heap := h\<rparr>)
      \<and> loop_result m (next_ref m) x d (length d) hc h x'"
    using sp e by (intro cov_loop_rep [OF ok v g _ st _ _ _ e he d]) auto
  then obtain hc h x' where cl: "cov_loop nm (length d) m = Some (hc, m\<lparr>heap := h\<rparr>)"
    and lr: "loop_result m (next_ref m) x d (length d) hc h x'" by blast
  from lr have hcl: "hc \<le> length d" and ok': "heap_ok h (next_ref m) x'" and v': "valid_path x' d"
    and ls: "locs x' d = locs x d" and e': "sub x' d = XE" and cv: "covd (sub x' (take hc d))"
    and fi: "fin (sub x (take hc d))" and ps: "put_sub x' (take hc d) XE = put_sub x (take hc d) XE"
    and sp': "spine x' (take hc d)" and g': "good (sinfo m) x'"
    and sib: "hc > 0 \<Longrightarrow> \<exists>r s k c xs l. sub x' (take (hc - 1) d) = XN r s k c xs \<and> l < length xs
           \<and> l \<noteq> d ! (hc - 1) \<and> \<not> covd (xs ! l)"
    using e by (auto simp: loop_result_def)
  let ?m1 = "m\<lparr>heap := h\<rparr>"
  have px: "ptr x' = Some ROOTNODE"
    using ls d v v' xr by (cases d; cases x') (auto simp: Loc_def)
  have h1: "hc \<noteq> 1"
  proof
    assume h1: "hc = 1"
    then obtain r s k c xs l where w: "x' = XN r s k c xs" "l < length xs" "l \<noteq> d ! 0"
      using sib by auto
    have t: "take 1 d = [d ! 0]" using d by (cases d) auto
    have "put_sub x' [d ! 0] XE = put_sub x [d ! 0] XE" using ps h1 t by simp
    hence "xs[d ! 0 := XE] = [y][d ! 0 := XE]" using w(1) xr by (simp del: list_update.simps)
    hence "length (xs[d ! 0 := XE]) = length ([y][d ! 0 := XE])" by (rule arg_cong)
    hence "length xs = 1" by (simp only: length_list_update) simp
    moreover have "d ! 0 < length xs" using v' w(1) d by (cases d) auto
    ultimately show False using w by simp
  qed
  have hcl1: "node_stack ?m1 = locs x' d @ [Loc (Some ENDNODE) 0]" using st ls by simp
  have c1: "covered_at ?m1 hc = Some True"
    using covered_stack [of ?m1 _ x' d hc] ok' v' e' hcl hcl1 sub_take_not_XU [OF v' e' hcl] cv by simp
  have c2: "(if hc = 0 then Some False else covered_at ?m1 (hc - 1)) = Some False"
  proof (cases hc)
    case (Suc n)
    hence n: "n \<le> length d" "n < length (take hc d)" using hcl by auto
    have "\<not> covd (sub x' (take n (take hc d)))"
      by (rule spine_uncovered [OF sp' valid_take [OF v'] n(2)])
    hence "\<not> covd (sub x' (take n d))" using Suc by (simp add: min_def split: if_splits)
    with Suc show ?thesis
      using covered_stack [of ?m1 _ x' d n] ok' v' e' n(1) hcl1 sub_take_not_XU [OF v' e' n(1)] by simp
  qed simp
  have la: "last (node_stack ?m1) = Loc (Some ENDNODE) 0" using st by simp
  have eE: "IS_ENDNODE ?m1 (Some ENDNODE) = Some True" using IS_ENDNODE_END [of ?m1] ok' by simp
  obtain pe where hE: "h ENDNODE = Some (end_node pe)" using heap_ok_end [OF ok'] by (elim exE)
  have ge: "loc_get ?m1 (Loc (Some ENDNODE) 0) = Some (Some ENDNODE)"
    using hE by (simp add: loc_get_def loc_empty_def Loc_def get_child_def check_index_def BETWEEN_def)
  have rc: "covered ?m1 ROOTNODE = Some (covd x')" using covered_root [of ?m1 _ x'] ok' px by simp
  have ccp: "CheckCompletePath (node_stack m) m = Some True" by (rule CheckCompletePath_complete [OF assms(1)])
  have p: "cl_parent (Loc a b) = a" for a b by (simp add: Loc_def)
  let ?del = "if 1 \<le> hc \<and> hc \<le> length d - 1 then delete_covered hc ?m1 else Some ?m1"
  have run: "DoBacktrack cfg nm reason m = do {
     m2 \<leftarrow> ?del;
     m3 \<leftarrow> TruncateNodeStack (if hc > 0 then hc - 1 else 0) m2;
     rc' \<leftarrow> covered m3 ROOTNODE;
     Some (\<not> rc', m3) }"
  proof -
    have "length (node_stack m) - 1 = length d" "length (node_stack m) - 2 = length d - 1"
      "length (node_stack m) > 1" using st ln d by auto
    moreover have "hc > 1 \<or> covd x'" using h1 cv by (cases hc) auto
    ultimately show ?thesis
      using assms(2-5) ccp cl hcl c1 c2 la eE ge rc p by (simp add: DoBacktrack_def)
  qed
  show ?thesis
  proof (cases "hc = 0")
    case True
    let ?m3 = "?m1\<lparr>node_stack := [], stack_index := 0\<rparr>"
    have "covd x'" using cv True by simp
    have c3: "covered ?m3 ROOTNODE = Some True"
      using covered_root [of ?m3 "next_ref m" x'] ok' px \<open>covd x'\<close> by simp
    hence "DoBacktrack cfg nm reason m = Some (False, ?m3)"
      using run True c3 by (simp add: TruncateNodeStack_def)
    moreover have "backtracked m x d False ?m3"
      unfolding backtracked_def using ok' px \<open>covd x'\<close> fi True
      by (intro exI [of _ h] exI [of _ "[]"]) auto
    ultimately show ?thesis by blast
  next
    case False
    then obtain n where hc: "hc = Suc n" "n > 0" using h1 by (cases hc) auto
    let ?x = "put_sub x (take (Suc n) d) XE"
    have "\<exists>h2. ?del = Some (m\<lparr>heap := h2\<rparr>) \<and> heap_ok h2 (next_ref m) ?x"
    proof (cases "Suc n < length d")
      case True
      have "\<exists>h2. delete_covered (Suc n) ?m1 = Some (?m1\<lparr>heap := h2\<rparr>)
          \<and> heap_ok h2 (next_ref ?m1) (put_sub x' (take (Suc n) d) XE)"
        by (rule delete_covered_rep [OF _ v' e' hcl1 True]) (use ok' in simp)
      thus ?thesis using True hc(1) ps by auto
    next
      case False
      hence "hc = length d" using hc hcl by simp
      moreover have "x' = ?x" using drop_prefix_fin [OF lr refl e v \<open>hc = length d\<close>] hc by simp
      ultimately show ?thesis using ok' d by auto
    qed
    then obtain h2 where h2: "?del = Some (m\<lparr>heap := h2\<rparr>)" "heap_ok h2 (next_ref m) ?x" by blast
    have nx: "normal ?x \<and> ?x \<noteq> XE"
    proof -
      have n: "n < length d" using hcl hc by simp
      have t: "take (Suc n) d = take n d @ [d ! n]" by (rule take_Suc_conv_app_nth [OF n])
      obtain r s k c xs l where w: "sub x' (take n d) = XN r s k c xs" "l < length xs" "l \<noteq> d ! n"
        "\<not> covd (xs ! l)" using sib hc by auto
      have "xs ! l \<noteq> XE" using w(4) by auto
      from spine_cut_normal [OF _ _ w(1-3) this] sp' valid_take [OF v', of "Suc n"] t ps hc
      show ?thesis by simp
    qed
    have p0: "ptr ?x = Some ROOTNODE" using xr d by (cases d) auto
    let ?st = "take n (node_stack m)"
    have vb: "valid_path x (take (Suc n) d)" by (rule valid_take [OF v])
    have tn: "take n (take (Suc n) d) = take n d" by simp
    have "locs ?x (take n d) = take n (locs ?x (take (Suc n) d))"
      using locs_take [of ?x "take (Suc n) d" n] vb tn by simp
    also have "\<dots> = take n (locs x (take (Suc n) d))" using vb by simp
    also have "\<dots> = take n (locs x d)" using locs_take [OF v, of "Suc n"] by (simp add: min_def)
    finally have st': "?st = locs ?x (take n d)" using st ln hcl hc by simp
    have nl: "n \<le> length (node_stack m)" "length ?st = n" using st ln hcl hc by auto
    let ?m3 = "m\<lparr>heap := h2, node_stack := ?st, stack_index := n\<rparr>"
    have "covered ?m3 ROOTNODE = Some (covd ?x)"
      by (rule covered_root [of _ "next_ref m"]) (use h2 p0 in auto)
    hence "covered ?m3 ROOTNODE = Some False" using nx normal_covd [of ?x] by simp
    hence "DoBacktrack cfg nm reason m = Some (True, ?m3)"
      unfolding run h2(1) using hc nl by (simp add: TruncateNodeStack_def)
    moreover have "backtracked m x d True ?m3"
      unfolding backtracked_def using nl st' h2(2) nx hc hcl fi
      by (intro exI [of _ h2] exI [of _ ?st]) (auto intro!: exI [of _ n])
    ultimately show ?thesis by blast
  qed
qed

end
