(* ===== verification/Search_Steps.thy ===== *)
theory Search_Steps
  imports Search_Backtrack
begin

text \<open>
  One run of a script of choices and conditionals: each operation extends the current path by one
  branch, either the branch that the stack records or the first branch that is not covered, and the
  amount of unexplored script in the tree stays the same until the run ends.
\<close>

section \<open>The state between two script operations\<close>

definition plain_sites :: "(nat \<Rightarrow> static_info) \<Rightarrow> script \<Rightarrow> bool" where
  "plain_sites infos s \<longleftrightarrow> (\<forall>k \<in> sites s. \<exists>nd. si_choice (infos k) = Some (nd, False, False))"

definition idle :: "mgr \<Rightarrow> bool" where
  "idle m \<longleftrightarrow> atomic_ref m = None \<and> lock_owner m = None \<and> end_exception m = []"

definition script_tree :: "script \<Rightarrow> (nat \<Rightarrow> static_info) \<Rightarrow> xt \<Rightarrow> bool" where
  "script_tree s infos x \<longleftrightarrow> matches (top_plan s) x \<and> normal x \<and> good infos x
     \<and> (\<exists>c y. x = XN ROOTNODE 0 KRoot c [y]) \<and> plain_sites infos s"

definition running :: "script \<Rightarrow> mgr \<Rightarrow> xt \<Rightarrow> nat list \<Rightarrow> nat list \<Rightarrow> bool" where
  "running s m x d rest \<longleftrightarrow> on_path m x d rest \<and> idle m \<and> script_tree s (sinfo m) x
     \<and> sub x (d @ rest) \<noteq> XE"

definition locked :: "co \<Rightarrow> mgr \<Rightarrow> mgr" where
  "locked c m = m\<lparr>atomic_ref := Some LOCKNODE, lock_owner := Some c\<rparr>"

lemma locked_simps [simp]:
  "heap (locked c m) = heap m" "next_ref (locked c m) = next_ref m" "sinfo (locked c m) = sinfo m"
  "node_stack (locked c m) = node_stack m" "stack_index (locked c m) = stack_index m"
  "atomic_ref (locked c m) = Some LOCKNODE" "lock_owner (locked c m) = Some c"
  "end_exception (locked c m) = end_exception m" "stat_log (locked c m) = stat_log m"
  by (simp_all add: locked_def)

lemma follow_append: "follow p (d @ e) = follow (follow p d) e"
proof (induction p d rule: follow.induct)
  case (3 l i "is")
  show ?case by (cases e) auto
qed auto

lemma on_path_cong:
  assumes "heap m' = heap m" "next_ref m' = next_ref m" "node_stack m' = node_stack m"
    "stack_index m' = stack_index m"
  shows "on_path m' x d rest = on_path m x d rest"
  using assms by (simp add: on_path_def tree_ok_def)

lemma script_log_bump: "n \<in> lib_counters \<Longrightarrow> script_log (bump n k m) = script_log m"
  by (simp add: script_log_def bump_def)

lemma script_log_leaf: "n \<notin> lib_counters \<Longrightarrow> script_log (bump n k m) = add_mset n (script_log m)"
  by (simp add: script_log_def bump_def)

lemma script_log_cong: "stat_log m' = stat_log m \<Longrightarrow> script_log m' = script_log m"
  by (simp add: script_log_def)

section \<open>Taking and releasing the reference without interference\<close>

lemma Acquire_idle:
  assumes "idle m" "IsMain c" "mode = EXIT_ON_EMPTY \<or> mode = EXIT_ON_LOCK"
  shows "AcquireRefEx mode c [] m = Some (Returns None, locked c m)"
proof -
  have e: "IS_ENDNODE m' None = Some False" for m' :: mgr by (simp add: IS_ENDNODE_def)
  have "AcquireRef_try mode c m = Some (Acquired None, locked c m)"
    using assms e by (auto simp: AcquireRef_try_def idle_def IS_LOCKNODE_def IS_EMPTY_def SetRef_def
        OnLock_def locked_def Let_def)
  hence "AcquireRef mode c True [] m = Some (Returns None, locked c m)"
    using assms(2) by (simp add: AcquireRef_def AcquireRef_loop.simps)
  thus ?thesis using assms(2) e by (simp add: AcquireRefEx_def and_then_def)
qed

lemma Release_step:
  assumes "atomic_ref m = Some LOCKNODE" "lock_owner m = Some c"
    "IS_ENDNODE (m\<lparr>lock_owner := None\<rparr>) (Some r) = Some False" "AddToPath r (int i) (m\<lparr>lock_owner := None\<rparr>) = Some m'"
  shows "ReleaseRef c (Some r) (int i) m = Some (m'\<lparr>atomic_ref := None, sem_ref := sem_ref m' + 1\<rparr>)"
  using assms by (simp add: ReleaseRef_def IS_LOCKNODE_def OnUnlock_def safe_notnull_def SetRef_def)

section \<open>Extending the path\<close>

lemma running_uncovered:
  assumes "running s m x d rest" "sub x d = XN r site k c xs"
  shows "\<not> c" "\<exists>y \<in> set xs. \<not> covd y" "\<And>i. i < length xs \<Longrightarrow> covd (xs ! i) \<longleftrightarrow> xs ! i = XE"
    "heap_ok (heap m) (next_ref m) x" "valid_path x d" "good (sinfo m) (XN r site k c xs)"
proof -
  from assms(1) have op: "on_path m x d rest" and n: "normal x" and g: "good (sinfo m) x"
    by (auto simp: running_def script_tree_def)
  show v: "valid_path x d" by (rule on_path_valid [OF op])
  show "heap_ok (heap m) (next_ref m) x" by (rule on_path_heap [OF op])
  have nn: "normal (XN r site k c xs)" using normal_sub [OF n v] assms(2) by simp
  thus "\<not> c" by simp
  show "\<exists>y \<in> set xs. \<not> covd y" using nn normal_covd by fastforce
  show "covd (xs ! i) \<longleftrightarrow> xs ! i = XE" if "i < length xs" for i
    using nn that normal_covd [of "xs ! i"] by auto
  show "good (sinfo m) (XN r site k c xs)" using good_sub [OF g v] assms(2) by simp
qed

lemma branch_known:
  assumes "running s m x d rest" "sub x d = XN r site k c xs" "i < length xs" "xs ! i \<noteq> XE"
    "rest = [] \<and> rest' = [] \<or> rest = i # rest'"
  shows "\<exists>m'. ReleaseRef t (Some r) (int i) (locked t m) = Some m' \<and> running s m' x (d @ [i]) rest'
    \<and> script_log m' = script_log m"
proof -
  from assms(1) have op: "on_path m x d rest" and id: "idle m" and tr: "script_tree s (sinfo m) x"
    and ne: "sub x (d @ rest) \<noteq> XE" by (auto simp: running_def)
  have v: "valid_path x d" by (rule on_path_valid [OF op])
  let ?m1 = "(locked t m)\<lparr>lock_owner := None\<rparr>"
  have op1: "on_path ?m1 x d rest" using op by (subst on_path_cong [of _ m]) simp_all
  let ?m2 = "?m1\<lparr>node_stack := locs x (d @ i # rest'), stack_index := Suc (length d)\<rparr>"
  have a: "AddToPath r (int i) ?m1 = Some ?m2" by (rule AddToPath_known [OF op1 assms(2,3,5)])
  have op2: "on_path ?m2 x (d @ [i]) rest'" by (rule on_path_extend [OF op1 assms(2,3,5)])
  have "IS_ENDNODE ?m1 (Some r) = Some False"
    using IS_ENDNODE_ptr [OF on_path_heap [OF op1] v] assms(2) by simp
  from Release_step [OF _ _ this a, of t]
  have "ReleaseRef t (Some r) (int i) (locked t m) = Some (?m2\<lparr>atomic_ref := None, sem_ref := sem_ref m + 1\<rparr>)"
    by (simp add: locked_def)
  moreover have "running s (?m2\<lparr>atomic_ref := None, sem_ref := sem_ref m + 1\<rparr>) x (d @ [i]) rest'"
  proof -
    have "on_path (?m2\<lparr>atomic_ref := None, sem_ref := sem_ref m + 1\<rparr>) x (d @ [i]) rest'"
      using op2 by (subst on_path_cong [of _ ?m2]) simp_all
    moreover have "sub x ((d @ [i]) @ rest') \<noteq> XE"
    proof (cases "rest = []")
      case True
      with assms(5) have "rest' = []" by simp
      with v assms(2,4) show ?thesis by (simp add: sub_append)
    next
      case False
      with assms(5) ne show ?thesis by auto
    qed
    ultimately show ?thesis using id tr by (simp add: running_def idle_def)
  qed
  moreover have "script_log (?m2\<lparr>atomic_ref := None, sem_ref := sem_ref m + 1\<rparr>) = script_log m"
    by (rule script_log_cong) simp
  ultimately show ?thesis by blast
qed

text \<open>A new node under an unexplored branch.\<close>

lemma new_node_owner:
  "new_node s k m = (r, m2) \<Longrightarrow> new_node s k (m\<lparr>lock_owner := q\<rparr>) = (r, m2\<lparr>lock_owner := q\<rparr>)"
  by (auto simp: new_node_def bump_def)

lemma new_node_facts:
  assumes "new_node s k (m :: mgr) = (r, m2)"
  shows "r = next_ref m" "heap m2 = (heap m)(r \<mapsto> mk_node s k)" "next_ref m2 = Suc r" "sinfo m2 = sinfo m"
    "node_stack m2 = node_stack m" "stack_index m2 = stack_index m" "atomic_ref m2 = atomic_ref m"
    "lock_owner m2 = lock_owner m" "end_exception m2 = end_exception m"
    "stat_log m2 = (''Num execution-tree nodes'', 1) # stat_log m"
  using assms by (auto simp: new_node_def bump_def)

lemma new_heap_ok:
  assumes "heap_ok (heap m) (next_ref m) x" "new_node s k (m :: mgr) = (r, m2)"
  shows "heap_ok (heap m2) (next_ref m2) x"
proof -
  note f = new_node_facts [OF assms(2)]
  have "r \<notin> set (refs x)" "r \<noteq> ENDNODE" using assms(1) f(1) by (auto simp: heap_ok_def ENDNODE_def)
  from heap_ok_frame [OF assms(1) this, of "Some (mk_node s k)"]
  have "heap_ok (heap m2) (next_ref m) x" using f(2) by simp
  thus ?thesis using f(1,3) by (auto simp: heap_ok_def)
qed

lemma new_on_path:
  assumes "on_path m x d rest" "new_node s k m = (r, m2)"
  shows "on_path m2 x d rest"
  using assms(1) new_heap_ok [OF on_path_heap [OF assms(1)] assms(2)] new_node_facts(5,6) [OF assms(2)]
  by (simp add: on_path_def tree_ok_def)

lemma lib_new_node: "''Num execution-tree nodes'' \<in> lib_counters"
  by (simp add: lib_counters_def)

definition script_kind :: "(nat \<Rightarrow> static_info) \<Rightarrow> nat \<Rightarrow> node_kind \<Rightarrow> bool" where
  "script_kind infos site k \<longleftrightarrow> (\<exists>v. k = KConditional v)
     \<or> k = KChoice \<and> (\<exists>nd. si_choice (infos site) = Some (nd, False, False))"

lemma branch_new:
  assumes "running s m x d []" "sub x d = XU" "follow (top_plan s) d = PNode site k ps"
    "script_kind (sinfo m) site k" "length ps = num_children k" "i < num_children k"
    "new_node site k (locked t m) = (r, m2)"
  shows "\<exists>m' x'. ReleaseRef t (Some r) (int i) m2 = Some m' \<and> running s m' x' (d @ [i]) []
    \<and> script_log m' = script_log m \<and> todo (top_plan s) x' = todo (top_plan s) x"
proof -
  from assms(1) have op: "on_path m x d []" and id: "idle m" and tr: "script_tree s (sinfo m) x"
    by (auto simp: running_def)
  note f = new_node_facts [OF assms(7)]
  have v: "valid_path x d" by (rule on_path_valid [OF op])
  let ?m1 = "(locked t m)\<lparr>lock_owner := None\<rparr>" and ?m2 = "m2\<lparr>lock_owner := None\<rparr>"
  let ?y = "fresh_xt r site k"
  let ?x = "put_sub x d ?y"
  have op1: "on_path ?m1 x d []" using op by (subst on_path_cong [of _ m]) simp_all
  have nn: "new_node site k ?m1 = (r, ?m2)" by (rule new_node_owner [OF assms(7)])
  have k: "k \<noteq> KEnd" using assms(4) by (auto simp: script_kind_def)
  obtain h where a: "AddToPath r (int i) ?m2
      = Some (?m2\<lparr>heap := h, node_stack := locs ?x (d @ [i]), stack_index := Suc (length d)\<rparr>)"
    and on: "on_path (?m2\<lparr>heap := h, node_stack := locs ?x (d @ [i]), stack_index := Suc (length d)\<rparr>) ?x (d @ [i]) []"
    using AddToPath_new [OF op1 assms(2) k nn assms(6)] by (elim exE conjE)
  let ?m3 = "?m2\<lparr>heap := h, node_stack := locs ?x (d @ [i]), stack_index := Suc (length d)\<rparr>"
  let ?m4 = "?m3\<lparr>atomic_ref := None, sem_ref := sem_ref m2 + 1\<rparr>"
  have "IS_ENDNODE ?m2 (Some r) = Some False"
    using f(2) k by (simp add: IS_ENDNODE_def mk_node_def is_end_kind_def)
  from Release_step [OF _ _ this a, of] have rel: "ReleaseRef t (Some r) (int i) m2 = Some ?m4"
    using f(7,8) by simp
  have sb: "sub ?x (d @ [i]) = XU" using v assms(6) by (simp add: sub_append fresh_xt_def)
  have fp: "follow (top_plan s) d = PNode site k ps" by (rule assms(3))
  have l2: "list_all2 matches ps (replicate (num_children k) XU)"
    using assms(5) by (simp add: list_all2_conv_all_nth)
  have my: "matches (follow (top_plan s) d) ?y" using fp l2 by (simp add: fresh_xt_def)
  have np: "0 < num_children k" using assms(6) by simp
  have ny: "normal ?y" using np by (auto simp: fresh_xt_def)
  have gy: "good (sinfo m) ?y" using assms(4) by (auto simp: fresh_xt_def script_kind_def)
  have tr': "script_tree s (sinfo m) ?x"
  proof -
    obtain c y where x: "x = XN ROOTNODE 0 KRoot c [y]" using tr by (auto simp: script_tree_def)
    have "d \<noteq> []" using op by (simp add: on_path_def)
    hence "\<exists>c y. ?x = XN ROOTNODE 0 KRoot c [y]" using x v by (cases d) auto
    thus ?thesis using tr matches_put [OF _ v my] normal_put [OF _ v ny] good_put [OF _ gy]
      by (simp add: script_tree_def fresh_xt_def)
  qed
  have "on_path ?m4 ?x (d @ [i]) []" using on by (subst on_path_cong [of _ ?m3]) simp_all
  hence run: "running s ?m4 ?x (d @ [i]) []"
    using tr' id f sb by (simp add: running_def idle_def)
  have "todo (follow (top_plan s) d) ?y = todo (follow (top_plan s) d) XU"
  proof -
    have "map2 todo ps (replicate (num_children k) XU) = map (\<lambda>p. todo p XU) ps"
      using assms(5) by (intro nth_equalityI) simp_all
    thus ?thesis using fp by (simp add: fresh_xt_def)
  qed
  moreover have "matches (top_plan s) x" using tr by (simp add: script_tree_def)
  ultimately have "todo (top_plan s) ?x = todo (top_plan s) x"
    using todo_put [of "top_plan s" x d ?y] v assms(2) by simp
  moreover have "script_log ?m4 = script_log m"
    using f(10) lib_new_node by (simp add: script_log_def)
  ultimately show ?thesis using rel run by blast
qed

section \<open>Choices\<close>

lemma DSLChoice_at_eval:
  assumes "heap m r = Some nd" "\<not> n_covered nd" "length (n_children nd) = 2"
    "GetNextNodeInStack m = Some (Loc p j)" "j = -1 \<and> p = None \<or> (-1 \<le> j \<and> j \<le> 1 \<and> p = Some r)"
    "choose_branch rnd r j m = Some (int i)" "i < 2" "child_covered m r (int i) = Some False"
    "ReleaseRef c (Some r) (int i) m = Some m'"
  shows "DSLChoice_at rnd c r m = Some (Returns (i = 1), m')"
proof -
  have "base_OnConsumed m r (int i) = Some ()"
    using assms(1,3,7) by (simp add: base_OnConsumed_def check_index_def BETWEEN_def)
  moreover have "covered m r = Some False" using assms(1,2) by (simp add: covered_def)
  moreover have "cl_index (Loc p j) = j" "cl_parent (Loc p j) = p" by (simp_all add: Loc_def)
  ultimately show ?thesis using assms(4-) by (auto simp: DSLChoice_at_def BETWEEN_def)
qed

lemma DSLChoice_locked:
  assumes "idle m" "IsMain c"
  shows "DSLChoice rnd c [] site None m = do {
       loc \<leftarrow> GetNextNodeInStack (locked c m);
       (case cl_parent loc of
          Some r \<Rightarrow> do {
            nd \<leftarrow> heap (locked c m) r;
            safe_assert (n_kind nd = KChoice);
            (cov, m2) \<leftarrow> ComputeCoverage 0 (locked c m) r;
            (if cov then do { m3 \<leftarrow> ReleaseRef c None (-1) m2; Some (throw_backtrack TREENODE_COVERED m3) }
             else DSLChoice_at rnd c r m2) }
        | None \<Rightarrow> (let (r, m2) = new_node site KChoice (locked c m) in DSLChoice_at rnd c r m2)) }"
  using Acquire_idle [OF assms, of EXIT_ON_EMPTY]
  by (simp add: DSLChoice_def set_message_def and_then_def)

text \<open>The branch that is taken at a known choice.\<close>

lemma choose_branch_known:
  assumes "child_covered m r 0 = Some ca" "child_covered m r 1 = Some cb" "\<not> (ca \<and> cb)"
    "heap m r = Some nd" "sc_nondet m (n_info nd) = Some n"
  shows "\<exists>i < 2. choose_branch rnd r (-1) m = Some (int i) \<and> child_covered m r (int i) = Some False"
  using assms by (cases ca; cases cb; cases n; cases "rnd m")
    (auto simp: choose_branch_def intro: exI [of _ "0::nat"] exI [of _ "1::nat"])

lemma ComputeCoverage_known:
  assumes "running s m x d rest" "sub x d = XN r site k cv xs"
  shows "ComputeCoverage n (locked c m) r = Some (False, locked c m)"
proof -
  note u = running_uncovered [OF assms]
  have g: "good (sinfo m) x" using assms(1) by (simp add: running_def script_tree_def)
  have "\<exists>h. ComputeCoverage n (locked c m) r = Some (\<forall>y \<in> set xs. covd y, (locked c m)\<lparr>heap := h\<rparr>)
    \<and> heap_ok h (next_ref m) (put_sub x d (XN r site k (\<forall>y \<in> set xs. covd y) xs))
    \<and> h ENDNODE = heap (locked c m) ENDNODE \<and> ((\<exists>y \<in> set xs. \<not> covd y) \<longrightarrow> h = heap (locked c m))"
    by (rule ComputeCoverage_rep) (use u g assms(2) in auto)
  then obtain h where "ComputeCoverage n (locked c m) r = Some (\<forall>y \<in> set xs. covd y, (locked c m)\<lparr>heap := h\<rparr>)"
    "h = heap (locked c m)" using u(2) by blast
  with u(2) show ?thesis by auto
qed

lemma running_locked: "running s m x d rest \<Longrightarrow> on_path (locked c m) x d rest"
  by (subst on_path_cong [of _ m]) (simp_all add: running_def)

lemma step_site:
  assumes "running s m x d rest" "follow (top_plan s) d = plan_of s'" "s' = Choose site f t"
  shows "\<exists>nd. si_choice (sinfo m site) = Some (nd, False, False)"
proof -
  from assms(1) have op: "on_path m x d rest" and tr: "script_tree s (sinfo m) x" by (auto simp: running_def)
  then obtain j d' where d: "d = j # d'" by (cases d) (auto simp: on_path_def)
  have "valid_path x d" by (rule on_path_valid [OF op])
  with follow_top [of x j d' s] d tr obtain s1 where s1: "follow (top_plan s) d = plan_of s1" "sites s1 \<subseteq> sites s"
    by (auto simp: script_tree_def)
  have "s1 = s'"
  proof -
    have inj: "plan_of a = plan_of b \<Longrightarrow> a = b" for a b
      by (induction a arbitrary: b) (case_tac b; auto)+
    thus ?thesis using s1(1) assms(2) by simp
  qed
  hence "site \<in> sites s" using s1(2) assms(3) by auto
  with tr show ?thesis by (auto simp: script_tree_def plain_sites_def)
qed

lemma Choice_known:
  assumes "running s m x d rest" "IsMain c" "sub x d = XN r site KChoice cv [a, b]"
  shows "\<exists>i < 2. \<exists>m' rest'. DSLChoice rnd c [] site' None m = Some (Returns (i = 1), m')
     \<and> running s m' x (d @ [i]) rest' \<and> script_log m' = script_log m"
proof -
  note u = running_uncovered [OF assms(1,3)]
  have op: "on_path (locked c m) x d rest" by (rule running_locked [OF assms(1)])
  have id: "idle m" using assms(1) by (simp add: running_def)
  obtain nd where ch: "si_choice (sinfo m site) = Some (nd, False, False)" using u(6) by auto
  obtain q where hr: "heap m r = Some (node_of q (XN r site KChoice cv [a, b]))"
    using heap_ok_node(1) [OF u(4,5) assms(3)] by (elim exE)
  have cc: "child_covered (locked c m) r (int i) = Some (covd ([a, b] ! i))" if "i < 2" for i
    using both_covered_rep(2) [of "locked c m" "next_ref m" x d r site cv a b nd i] u(4,5) assms(3) ch that
    by (auto simp: less_2_cases_iff)
  have run: "DSLChoice rnd c [] site' None m = DSLChoice_at rnd c r (locked c m)"
    if "GetNextNodeInStack (locked c m) = Some (Loc (Some r) j)" for j
    using DSLChoice_locked [OF id assms(2)] that hr ComputeCoverage_known [OF assms(1,3)]
    by (simp add: Loc_def)
  have rp: "rest = [] \<or> (\<exists>i rest'. rest = i # rest')" by (cases rest) auto
  have "\<exists>i < 2. \<exists>j rest'. GetNextNodeInStack (locked c m) = Some (Loc (Some r) j) \<and> -1 \<le> j \<and> j \<le> 1
      \<and> choose_branch rnd r j (locked c m) = Some (int i) \<and> child_covered (locked c m) r (int i) = Some False
      \<and> (rest = [] \<and> rest' = [] \<or> rest = i # rest')"
  proof (cases rest)
    case Nil
    have c01: "child_covered (locked c m) r 0 = Some (covd a)" "child_covered (locked c m) r 1 = Some (covd b)"
      using cc [of 0] cc [of 1] by simp_all
    have "\<exists>i < 2. choose_branch rnd r (-1) (locked c m) = Some (int i) \<and> child_covered (locked c m) r (int i) = Some False"
      using choose_branch_known [OF c01 _ , of "node_of q (XN r site KChoice cv [a, b])" nd rnd] u(2) hr ch
      by (auto simp: sc_nondet_def safe_notnull_def)
    moreover have "GetNextNodeInStack (locked c m) = Some (Loc (Some r) (-1))"
      using GetNext_top [of "locked c m" x d] op Nil assms(3) by simp
    ultimately show ?thesis using Nil by (metis (no_types, lifting) order_refl neg_le_0_iff_le zero_le_one order_trans)
  next
    case (Cons i rest')
    have g: "GetNextNodeInStack (locked c m) = Some (Loc (Some r) (int i))"
      using GetNext_replay [OF op [unfolded Cons] assms(3)] .
    have v: "valid_path x (d @ i # rest')" using op Cons by (simp add: on_path_def)
    hence i: "i < 2" using assms(3) by (simp add: valid_append)
    have "[a, b] ! i \<noteq> XE"
    proof
      assume e: "[a, b] ! i = XE"
      hence "valid_path XE rest'" using v assms(3) by (simp add: valid_append)
      hence "rest' = []" by (cases rest') auto
      moreover have "sub x (d @ i # rest') \<noteq> XE" using assms(1) Cons by (simp add: running_def)
      ultimately show False using e u(5) assms(3) by (simp add: sub_append)
    qed
    hence "child_covered (locked c m) r (int i) = Some False" using cc [OF i] u(3) [of i] i by simp
    moreover have "choose_branch rnd r (int i) (locked c m) = Some (int i)" by (simp add: choose_branch_def)
    ultimately show ?thesis using g i Cons
      by (intro exI [of _ i] exI [of _ "int i"] exI [of _ rest'] conjI) auto
  qed
  then obtain i j rest' where i: "i < 2" "GetNextNodeInStack (locked c m) = Some (Loc (Some r) j)" "-1 \<le> j" "j \<le> 1"
    "choose_branch rnd r j (locked c m) = Some (int i)" "child_covered (locked c m) r (int i) = Some False"
    "rest = [] \<and> rest' = [] \<or> rest = i # rest'" by blast
  have "[a, b] ! i \<noteq> XE" using cc [OF i(1)] i(6) by auto
  then obtain m' where m': "ReleaseRef c (Some r) (int i) (locked c m) = Some m'" "running s m' x (d @ [i]) rest'"
    "script_log m' = script_log m"
    using branch_known [OF assms(1,3) _ _ i(7), of c] i(1) by auto
  have "DSLChoice_at rnd c r (locked c m) = Some (Returns (i = 1), m')"
    by (rule DSLChoice_at_eval [OF _ _ _ i(2) _ i(5,1,6) m'(1)]) (use hr u(1) i in auto)
  with run [OF i(2)] m' i(1) show ?thesis by metis
qed

lemma Choice_new:
  assumes "running s m x d []" "IsMain c" "sub x d = XU" "follow (top_plan s) d = plan_of (Choose site f t)"
  shows "\<exists>i < 2. \<exists>m' x'. DSLChoice rnd c [] site None m = Some (Returns (i = 1), m')
     \<and> running s m' x' (d @ [i]) [] \<and> script_log m' = script_log m
     \<and> todo (top_plan s) x' = todo (top_plan s) x"
proof -
  obtain r m2 where nn: "new_node site KChoice (locked c m) = (r, m2)" by (metis surj_pair)
  note fx = new_node_facts [OF nn]
  have id: "idle m" using assms(1) by (simp add: running_def)
  have op: "on_path (locked c m) x d []" by (rule running_locked [OF assms(1)])
  have g0: "GetNextNodeInStack (locked c m) = Some (Loc None (-1))"
    using GetNext_top [OF op] assms(3) by simp
  have g2: "GetNextNodeInStack m2 = Some (Loc None (-1))"
    using GetNext_top [OF new_on_path [OF op nn]] assms(3) by simp
  obtain nd where ch: "si_choice (sinfo m site) = Some (nd, False, False)"
    using step_site [OF assms(1,4) refl] by (elim exE)
  have run: "DSLChoice rnd c [] site None m = DSLChoice_at rnd c r m2"
    using DSLChoice_locked [OF id assms(2)] g0 nn by (simp add: Loc_def)
  have hr: "heap m2 r = Some (mk_node site KChoice)" using fx(2) by simp
  have cc: "child_covered m2 r 0 = Some False" "child_covered m2 r 1 = Some False"
    using hr ch fx(4) by (auto simp: child_covered_def base_child_covered_def child_def check_index_def
        BETWEEN_def mk_node_def sc_is_covered_def safe_notnull_def)
  have "sc_nondet m2 (n_info (mk_node site KChoice)) = Some nd"
    using ch fx(4) by (simp add: sc_nondet_def mk_node_def safe_notnull_def)
  from choose_branch_known [OF cc _ hr this, of rnd]
  obtain i where i: "i < 2" "choose_branch rnd r (-1) m2 = Some (int i)" "child_covered m2 r (int i) = Some False"
    by auto
  have sk: "script_kind (sinfo m) site KChoice" using ch by (simp add: script_kind_def)
  obtain m' x' where m': "ReleaseRef c (Some r) (int i) m2 = Some m'" "running s m' x' (d @ [i]) []"
    "script_log m' = script_log m" "todo (top_plan s) x' = todo (top_plan s) x"
    using branch_new [OF assms(1,3) _ sk _ _ nn, of "[plan_of f, plan_of t]" i] assms(4) i(1) by auto
  have "DSLChoice_at rnd c r m2 = Some (Returns (i = 1), m')"
    by (rule DSLChoice_at_eval [OF hr _ _ g2 _ i(2,1,3) m'(1)]) (simp_all add: mk_node_def)
  with run m' i(1) show ?thesis by metis
qed

text \<open>What the tree holds at the current position is what the script prescribes there.\<close>

lemma running_at:
  assumes "running s m x d rest" "follow (top_plan s) d = PNode site k ps"
  shows "sub x d = XU \<and> rest = [] \<or> (\<exists>r c xs. sub x d = XN r site k c xs \<and> length xs = length ps)"
proof -
  have op: "on_path m x d rest" and mt: "matches (top_plan s) x" and ne: "sub x (d @ rest) \<noteq> XE"
    using assms(1) by (auto simp: running_def script_tree_def)
  have v: "valid_path x d" by (rule on_path_valid [OF op])
  have m: "matches (PNode site k ps) (sub x d)" using matches_sub [OF mt v] assms(2) by simp
  have vr: "valid_path (sub x d) rest" using op by (simp add: on_path_def valid_append)
  show ?thesis
  proof (cases "sub x d")
    case XU
    with vr show ?thesis by (cases rest) auto
  next
    case XE
    with vr have "rest = []" by (cases rest) auto
    with ne XE show ?thesis by simp
  next
    case (XN r s' k' c xs)
    with m show ?thesis by (auto dest: list_all2_lengthD)
  qed
qed

lemma Choice_step:
  assumes "running s m x d rest" "IsMain c" "follow (top_plan s) d = plan_of (Choose site f t)"
  shows "\<exists>i < 2. \<exists>m' x' rest'. DSLChoice rnd c [] site None m = Some (Returns (i = 1), m')
     \<and> running s m' x' (d @ [i]) rest' \<and> script_log m' = script_log m
     \<and> todo (top_plan s) x' = todo (top_plan s) x"
proof -
  have f: "follow (top_plan s) d = PNode site KChoice [plan_of f, plan_of t]" using assms(3) by simp
  from running_at [OF assms(1) f] show ?thesis
  proof
    assume "sub x d = XU \<and> rest = []"
    with Choice_new [OF _ assms(2) _ assms(3), of m x rnd] assms(1) show ?thesis by blast
  next
    assume "\<exists>r c xs. sub x d = XN r site KChoice c xs \<and> length xs = length [plan_of f, plan_of t]"
    then obtain r cv a b where "sub x d = XN r site KChoice cv [a, b]"
      by (auto simp: length_Suc_conv)
    from Choice_known [OF assms(1,2) this, of rnd site] show ?thesis by blast
  qed
qed

section \<open>Conditionals\<close>

lemma DSLConditional_at_eval:
  assumes "heap m r = Some nd" "\<not> n_covered nd" "length (n_children nd) = 1" "n_kind nd = KConditional v"
    "GetNextNodeInStack m = Some (Loc p j)" "j = -1 \<and> p = None \<or> (j = -1 \<or> j = 0) \<and> p = Some r"
    "child_covered m r 0 = Some False" "ReleaseRef c (Some r) 0 m = Some m'"
  shows "DSLConditional_at c r v m = Some (Returns v, m')"
proof -
  have "base_OnConsumed m r 0 = Some ()"
    using assms(1,3) by (cases "n_children nd") (simp_all add: base_OnConsumed_def check_index_def BETWEEN_def)
  moreover have "cl_index (Loc p j) = j" "cl_parent (Loc p j) = p" by (simp_all add: Loc_def)
  ultimately show ?thesis using assms by (auto simp: DSLConditional_at_def)
qed

lemma DSLConditional_locked:
  assumes "idle m" "IsMain c"
  shows "DSLConditional c [] site v None m = do {
       loc \<leftarrow> GetNextNodeInStack (locked c m);
       (case cl_parent loc of
          Some r \<Rightarrow> do {
            nd \<leftarrow> heap (locked c m) r;
            safe_assert (is_conditional (n_kind nd));
            (cov, m2) \<leftarrow> ComputeCoverage 0 (locked c m) r;
            (if cov then do { m3 \<leftarrow> ReleaseRef c None (-1) m2; Some (throw_backtrack TREENODE_COVERED m3) }
             else DSLConditional_at c r v m2) }
        | None \<Rightarrow> (let (r, m2) = new_node site (KConditional v) (locked c m) in DSLConditional_at c r v m2)) }"
  using Acquire_idle [OF assms, of EXIT_ON_EMPTY]
  by (simp add: DSLConditional_def set_message_def and_then_def)

lemma Cond_known:
  assumes "running s m x d rest" "IsMain c" "sub x d = XN r site (KConditional v) cv [a]"
  shows "\<exists>m' rest'. DSLConditional c [] site' v None m = Some (Returns v, m')
     \<and> running s m' x (d @ [0]) rest' \<and> script_log m' = script_log m"
proof -
  note u = running_uncovered [OF assms(1,3)]
  have op: "on_path (locked c m) x d rest" by (rule running_locked [OF assms(1)])
  have id: "idle m" using assms(1) by (simp add: running_def)
  obtain q where hr: "heap m r = Some (node_of q (XN r site (KConditional v) cv [a]))"
    using heap_ok_node(1) [OF u(4,5) assms(3)] by (elim exE)
  have a: "a \<noteq> XE" "\<not> covd a" using u(2) u(3) [of 0] by auto
  have "(case ptr a of None \<Rightarrow> Some False | Some p \<Rightarrow> covered (locked c m) p) = Some (covd a)"
    using covered_child [of "locked c m" "next_ref m" x d r site "KConditional v" cv "[a]" 0] u(4,5) assms(3)
    by simp
  hence cc: "child_covered (locked c m) r 0 = Some False"
    using hr a by (auto simp: child_covered_def base_child_covered_def child_def check_index_def BETWEEN_def)
  have "\<exists>j rest'. GetNextNodeInStack (locked c m) = Some (Loc (Some r) j) \<and> (j = -1 \<or> j = 0)
      \<and> (rest = [] \<and> rest' = [] \<or> rest = 0 # rest')"
  proof (cases rest)
    case Nil
    with GetNext_top [of "locked c m" x d] op assms(3) show ?thesis by auto
  next
    case (Cons i rest')
    have "valid_path x (d @ i # rest')" using op Cons by (simp add: on_path_def)
    hence "i = 0" using assms(3) by (simp add: valid_append)
    with GetNext_replay [OF op [unfolded Cons] assms(3)] Cons show ?thesis by auto
  qed
  then obtain j rest' where j: "GetNextNodeInStack (locked c m) = Some (Loc (Some r) j)" "j = -1 \<or> j = 0"
    "rest = [] \<and> rest' = [] \<or> rest = 0 # rest'" by blast
  obtain m' where m': "ReleaseRef c (Some r) (int 0) (locked c m) = Some m'" "running s m' x (d @ [0]) rest'"
    "script_log m' = script_log m"
    using branch_known [OF assms(1,3) _ _ j(3), of c] a by auto
  have "DSLConditional_at c r v (locked c m) = Some (Returns v, m')"
    by (rule DSLConditional_at_eval [OF _ _ _ _ j(1) _ cc]) (use hr u(1) j m' in auto)
  moreover have "DSLConditional c [] site' v None m = DSLConditional_at c r v (locked c m)"
    using DSLConditional_locked [OF id assms(2)] j(1) hr ComputeCoverage_known [OF assms(1,3)]
    by (simp add: Loc_def is_conditional_def)
  ultimately show ?thesis using m' by auto
qed

lemma Cond_new:
  assumes "running s m x d []" "IsMain c" "sub x d = XU" "follow (top_plan s) d = plan_of (Cond site v k)"
  shows "\<exists>m' x'. DSLConditional c [] site v None m = Some (Returns v, m')
     \<and> running s m' x' (d @ [0]) [] \<and> script_log m' = script_log m
     \<and> todo (top_plan s) x' = todo (top_plan s) x"
proof -
  obtain r m2 where nn: "new_node site (KConditional v) (locked c m) = (r, m2)" by (metis surj_pair)
  note fx = new_node_facts [OF nn]
  have id: "idle m" using assms(1) by (simp add: running_def)
  have op: "on_path (locked c m) x d []" by (rule running_locked [OF assms(1)])
  have g0: "GetNextNodeInStack (locked c m) = Some (Loc None (-1))"
    using GetNext_top [OF op] assms(3) by simp
  have g2: "GetNextNodeInStack m2 = Some (Loc None (-1))"
    using GetNext_top [OF new_on_path [OF op nn]] assms(3) by simp
  have hr: "heap m2 r = Some (mk_node site (KConditional v))" using fx(2) by simp
  have cc: "child_covered m2 r 0 = Some False"
    using hr by (auto simp: child_covered_def base_child_covered_def child_def check_index_def
        BETWEEN_def mk_node_def)
  have sk: "script_kind (sinfo m) site (KConditional v)" by (simp add: script_kind_def)
  obtain m' x' where m': "ReleaseRef c (Some r) (int 0) m2 = Some m'" "running s m' x' (d @ [0]) []"
    "script_log m' = script_log m" "todo (top_plan s) x' = todo (top_plan s) x"
    using branch_new [OF assms(1,3) _ sk _ _ nn, of "[plan_of k]" 0] assms(4) by auto
  have "DSLConditional_at c r v m2 = Some (Returns v, m')"
    by (rule DSLConditional_at_eval [OF hr _ _ _ g2 _ cc]) (use m' in \<open>simp_all add: mk_node_def\<close>)
  moreover have "DSLConditional c [] site v None m = DSLConditional_at c r v m2"
    using DSLConditional_locked [OF id assms(2)] g0 nn by (simp add: Loc_def)
  ultimately show ?thesis using m' by auto
qed

lemma Cond_step:
  assumes "running s m x d rest" "IsMain c" "follow (top_plan s) d = plan_of (Cond site v k)"
  shows "\<exists>m' x' rest'. DSLConditional c [] site v None m = Some (Returns v, m')
     \<and> running s m' x' (d @ [0]) rest' \<and> script_log m' = script_log m
     \<and> todo (top_plan s) x' = todo (top_plan s) x"
proof -
  have f: "follow (top_plan s) d = PNode site (KConditional v) [plan_of k]" using assms(3) by simp
  from running_at [OF assms(1) f] show ?thesis
  proof
    assume "sub x d = XU \<and> rest = []"
    with Cond_new [OF _ assms(2) _ assms(3), of m x] assms(1) show ?thesis by blast
  next
    assume "\<exists>r c xs. sub x d = XN r site (KConditional v) c xs \<and> length xs = length [plan_of k]"
    then obtain r cv a where "sub x d = XN r site (KConditional v) cv [a]"
      by (auto simp: length_Suc_conv)
    from Cond_known [OF assms(1,2) this, of site] show ?thesis by blast
  qed
qed

section \<open>A whole script\<close>

text \<open>Running a script from a position where the plan prescribes it ends at an unexplored leaf and
  logs that leaf.\<close>

lemma run_script_step:
  assumes "running s m x d rest" "IsMain c" "follow (top_plan s) d = plan_of s'"
    "set (leaves s') \<inter> lib_counters = {}"
  shows "\<exists>m' x' d' l. run_script rnd c s' m = Some (Returns (), m') \<and> running s m' x' d' []
     \<and> sub x' d' = XU \<and> follow (top_plan s) d' = PLeaf l \<and> script_log m' = add_mset l (script_log m)
     \<and> todo (top_plan s) x' = todo (top_plan s) x"
  using assms
proof (induction s' arbitrary: m x d rest)
  case (Done l)
  let ?m = "bump l 1 m"
  have op: "on_path m x d rest" and mt: "matches (top_plan s) x" and ne: "sub x (d @ rest) \<noteq> XE"
    using Done.prems(1) by (auto simp: running_def script_tree_def)
  have v: "valid_path x d" by (rule on_path_valid [OF op])
  have "matches (PLeaf l) (sub x d)" using matches_sub [OF mt v] Done.prems(3) by simp
  moreover have "valid_path (sub x d) rest" using op by (simp add: on_path_def valid_append)
  ultimately have r: "rest = []" by (cases "sub x d"; cases rest) auto
  with ne \<open>matches (PLeaf l) (sub x d)\<close> have xu: "sub x d = XU" by (cases "sub x d") auto
  have "on_path ?m x d rest" using op by (subst on_path_cong [of _ m]) (simp_all add: bump_def)
  hence "running s ?m x d []" using Done.prems(1) r by (simp add: running_def idle_def bump_def)
  moreover have "script_log ?m = add_mset l (script_log m)"
    using Done.prems(4) by (intro script_log_leaf) simp
  ultimately show ?case using xu Done.prems(3) by auto
next
  case (Choose site f t)
  from Choice_step [OF Choose.prems(1-3), of rnd]
  obtain i m1 x1 rest1 where st: "i < 2" "DSLChoice rnd c [] site None m = Some (Returns (i = 1), m1)"
    "running s m1 x1 (d @ [i]) rest1" "script_log m1 = script_log m"
    "todo (top_plan s) x1 = todo (top_plan s) x" by blast
  have fo: "follow (top_plan s) (d @ [i]) = plan_of (if i = 1 then t else f)"
    using Choose.prems(3) st(1) by (auto simp: follow_append less_2_cases_iff)
  have "\<exists>m' x' d' l. run_script rnd c (if i = 1 then t else f) m1 = Some (Returns (), m') \<and> running s m' x' d' []
     \<and> sub x' d' = XU \<and> follow (top_plan s) d' = PLeaf l \<and> script_log m' = add_mset l (script_log m1)
     \<and> todo (top_plan s) x' = todo (top_plan s) x1"
  proof (cases "i = 1")
    case True
    have "set (leaves t) \<inter> lib_counters = {}" using Choose.prems(4) by auto
    with True fo show ?thesis
      using Choose.IH(2) [OF st(3) Choose.prems(2)] by simp
  next
    case False
    have "set (leaves f) \<inter> lib_counters = {}" using Choose.prems(4) by auto
    with False fo show ?thesis
      using Choose.IH(1) [OF st(3) Choose.prems(2)] by simp
  qed
  with st show ?case by (simp add: and_then_def)
next
  case (Cond site v k)
  from Cond_step [OF Cond.prems(1-3)]
  obtain m1 x1 rest1 where st: "DSLConditional c [] site v None m = Some (Returns v, m1)"
    "running s m1 x1 (d @ [0]) rest1" "script_log m1 = script_log m"
    "todo (top_plan s) x1 = todo (top_plan s) x" by blast
  have "follow (top_plan s) (d @ [0]) = plan_of k" using Cond.prems(3) by (simp add: follow_append)
  from Cond.IH [OF st(2) Cond.prems(2) this] Cond.prems(4) st show ?case by (simp add: and_then_def)
qed

end
