(* ===== verification/Search_Correct.thy ===== *)
theory Search_Correct
  imports Search_Steps
begin

text \<open>
  The search over a script of choices and conditionals is exhaustive and runs nothing twice: when
  \<open>Explore\<close> returns, the leaves that were run are exactly the leaves of the script, each once.
\<close>

section \<open>The end of one run\<close>

text \<open>Between two runs: the stack leads to a node that still has an unexplored branch.\<close>

definition between_runs :: "script \<Rightarrow> mgr \<Rightarrow> xt \<Rightarrow> nat list \<Rightarrow> bool" where
  "between_runs s m x rest \<longleftrightarrow> heap_ok (heap m) (next_ref m) x \<and> valid_path x (0 # rest)
     \<and> node_stack m = locs x (0 # rest) \<and> lock_owner m = None \<and> script_tree s (sinfo m) x
     \<and> sub x (0 # rest) \<noteq> XE"

lemma Restart_between:
  assumes "between_runs s m x rest" "\<not> KeepExecutionTree cfg"
  shows "\<exists>m'. Restart cfg m = Some m' \<and> running s m' x [0] rest \<and> script_log m' = script_log m"
proof -
  from assms(1) have ok: "heap_ok (heap m) (next_ref m) x" and v: "valid_path x (0 # rest)"
    and st: "node_stack m = locs x (0 # rest)" and lo: "lock_owner m = None"
    and tr: "script_tree s (sinfo m) x" and ne: "sub x (0 # rest) \<noteq> XE"
    by (auto simp: between_runs_def)
  obtain c y where x: "x = XN ROOTNODE 0 KRoot c [y]" using tr by (auto simp: script_tree_def)
  let ?m0 = "m\<lparr>end_exception := [], sem_ref := 0, stack_index := 0\<rparr>"
  have e: "IS_ENDNODE ?m0 (Some ROOTNODE) = Some False"
    using IS_ENDNODE_ptr [of ?m0 "next_ref m" x "[]"] ok x by simp
  have "AddToNodeStack (Loc (Some ROOTNODE) 0) ?m0 = Some (?m0\<lparr>stack_index := 1\<rparr>)"
    using e st x by (simp add: AddToNodeStack_def loc_empty_def Loc_def safe_check_def)
  hence "Restart cfg m = Some (?m0\<lparr>stack_index := 1, atomic_ref := None\<rparr>)"
    using assms(2) by (simp add: Restart_def RestartChildIndexStack_def SetRef_def)
  moreover have "running s (?m0\<lparr>stack_index := 1, atomic_ref := None\<rparr>) x [0] rest"
    using ok v st lo tr ne by (simp add: running_def on_path_def tree_ok_def idle_def)
  moreover have "script_log (?m0\<lparr>stack_index := 1, atomic_ref := None\<rparr>) = script_log m"
    by (rule script_log_cong) simp
  ultimately show ?thesis by blast
qed

text \<open>What a finished run leaves behind: either everything is covered, or the rest of the search.\<close>

definition run_done :: "script \<Rightarrow> xt \<Rightarrow> string \<Rightarrow> mgr \<Rightarrow> bool" where
  "run_done s x l m' \<longleftrightarrow> end_exception m' = [] \<and>
     ((covered m' ROOTNODE = Some True \<and> todo (top_plan s) x = {#l#})
      \<or> (\<exists>x' rest. covered m' ROOTNODE = Some False \<and> between_runs s m' x' rest
           \<and> add_mset l (todo (top_plan s) x') = todo (top_plan s) x))"

lemma backtracked_done:
  assumes "backtracked m x' d b m'" "complete m x' d" "x' = put_sub x d XE" "valid_path x d"
    "matches (top_plan s) x" "sub x d = XU" "follow (top_plan s) d = PLeaf l"
    "plain_sites (sinfo m) s" "m2 = m'\<lparr>atomic_ref := a, sem_ref := n', lock_owner := None, stat_log := sl\<rparr>"
    "end_exception m = []"
  shows "run_done s x l m2"
proof -
  let ?p = "top_plan s"
  have fx: "good (sinfo m) x'" "\<exists>c y. x' = XN ROOTNODE 0 KRoot c [y]" "valid_path x' d" "d \<noteq> []"
    using assms(2) by (auto simp: complete_def)
  have mt: "matches ?p x'" using matches_put [OF assms(5,4), of XE] assms(3) by simp
  have td: "add_mset l (todo ?p x') = todo ?p x"
    using todo_put [OF assms(5,4), of XE] assms(3,6,7) by simp
  obtain h st where m': "m' = m\<lparr>heap := h, node_stack := st, stack_index := length st\<rparr>"
    and br: "if b then (\<exists>n. n > 0 \<and> Suc n \<le> length d \<and> st = locs (put_sub x' (take (Suc n) d) XE) (take n d)
              \<and> heap_ok h (next_ref m) (put_sub x' (take (Suc n) d) XE)
              \<and> normal (put_sub x' (take (Suc n) d) XE) \<and> fin (sub x' (take (Suc n) d)))
           else (\<exists>x2. heap_ok h (next_ref m) x2 \<and> covd x2 \<and> fin x' \<and> ptr x2 = Some ROOTNODE \<and> st = [])"
    using assms(1) unfolding backtracked_def by blast
  have ee: "end_exception m2 = []" using assms(9,10) m' by simp
  show ?thesis
  proof (cases b)
    case False
    then obtain x2 where x2: "heap_ok h (next_ref m) x2" "covd x2" "fin x'" "ptr x2 = Some ROOTNODE"
      using br by auto
    have "covered m2 ROOTNODE = Some True"
      using covered_root [of m2 "next_ref m" x2] x2 assms(9) m' by simp
    moreover have "todo ?p x' = {#}" by (rule fin_todo [OF x2(3) mt])
    ultimately show ?thesis using td ee by (simp add: run_done_def)
  next
    case True
    then obtain n where n: "n > 0" "Suc n \<le> length d" "st = locs (put_sub x' (take (Suc n) d) XE) (take n d)"
      "heap_ok h (next_ref m) (put_sub x' (take (Suc n) d) XE)"
      "normal (put_sub x' (take (Suc n) d) XE)" "fin (sub x' (take (Suc n) d))"
      using br by auto
    let ?b = "take (Suc n) d" and ?x = "put_sub x' (take (Suc n) d) XE"
    have vb: "valid_path x' ?b" by (rule valid_take [OF fx(3)])
    have vx: "valid_path ?x ?b" using vb by simp
    obtain c y where x'c: "x' = XN ROOTNODE 0 KRoot c [y]" using fx(2) by blast
    hence "d ! 0 = 0" using fx(3,4) by (cases d) auto
    then obtain d' where d: "d = 0 # d'" using fx(4) by (cases d) auto
    define rest where "rest = take (n - 1) d'"
    have tn: "take n d = 0 # rest" using n(1) d by (cases n) (auto simp: rest_def)
    have tt: "take n ?b = take n d" by (simp add: min_def)
    have v1: "valid_path ?x (0 # rest)" using valid_take [OF vx, of n] tt tn by simp
    have nlt: "n < length ?b" using n(2) by simp
    obtain q s' k' c' zs where nd: "sub ?x (take n ?b) = XN q s' k' c' zs"
      by (rule path_node [OF vx nlt])
    have "todo (follow ?p ?b) (sub x' ?b) = {#}"
      by (rule fin_todo [OF n(6) matches_sub [OF mt vb]])
    hence td2: "todo ?p ?x = todo ?p x'" using todo_put [OF mt vb, of XE] by simp
    have xc: "\<exists>c y. ?x = XN ROOTNODE 0 KRoot c [y]" using x'c d by simp
    have tr: "script_tree s (sinfo m) ?x"
      using matches_put [OF mt vb, of XE] n(5) good_put [OF fx(1), of XE ?b] xc assms(8)
      by (simp add: script_tree_def)
    have "between_runs s m2 ?x rest"
      using n(3,4) v1 tn nd tt tr assms(9) m' by (simp add: between_runs_def)
    moreover have "covered m2 ROOTNODE = Some False"
    proof -
      have "\<not> covd ?x" using n(5) xc by (auto dest: normal_covd)
      thus ?thesis using covered_root [of m2 "next_ref m" ?x] n(4) xc assms(9) m' by auto
    qed
    ultimately show ?thesis using td td2 ee unfolding run_done_def by metis
  qed
qed

lemma backtracked_shape:
  assumes "backtracked m x d b m'"
  shows "\<exists>h st. m' = m\<lparr>heap := h, node_stack := st, stack_index := length st\<rparr>
    \<and> (\<exists>pe. h ENDNODE = Some (end_node pe))"
proof -
  obtain h st where m': "m' = m\<lparr>heap := h, node_stack := st, stack_index := length st\<rparr>"
    and ok: "\<exists>x. heap_ok h (next_ref m) x"
    using assms unfolding backtracked_def by (cases b) (simp_all, blast+)
  from ok heap_ok_end have "\<exists>pe. h ENDNODE = Some (end_node pe)" by blast
  with m' show ?thesis by blast
qed

lemma running_complete:
  assumes "running s m x d []" "sub x d = XU"
  shows "\<exists>h. AddToPath ENDNODE 0 (locked c m)
      = Some ((locked c m)\<lparr>heap := h, node_stack := locs x d @ [Loc (Some ENDNODE) 0], stack_index := Suc (length d)\<rparr>)
    \<and> complete ((locked c m)\<lparr>heap := h, node_stack := locs x d @ [Loc (Some ENDNODE) 0], stack_index := Suc (length d)\<rparr>)
         (put_sub x d XE) d"
proof -
  from assms(1) have op: "on_path m x d []" and tr: "script_tree s (sinfo m) x" by (auto simp: running_def)
  have v: "valid_path x d" by (rule on_path_valid [OF op])
  have d: "d \<noteq> []" using op by (simp add: on_path_def)
  have op1: "on_path (locked c m) x d []" by (rule running_locked [OF assms(1)])
  obtain h q where h: "AddToPath ENDNODE 0 (locked c m)
      = Some ((locked c m)\<lparr>heap := h, node_stack := locs x d @ [Loc (Some ENDNODE) 0], stack_index := Suc (length d)\<rparr>)"
    "heap_ok h (next_ref m) (put_sub x d XE)" "cl_parent (last (locs x d)) = Some q"
    "h ENDNODE = Some (end_node (Some q))"
    using AddToPath_end [OF op1 assms(2)] by auto
  let ?m = "(locked c m)\<lparr>heap := h, node_stack := locs x d @ [Loc (Some ENDNODE) 0], stack_index := Suc (length d)\<rparr>"
  obtain cc y where x: "x = XN ROOTNODE 0 KRoot cc [y]" using tr by (auto simp: script_tree_def)
  have xr: "\<exists>cc y. put_sub x d XE = XN ROOTNODE 0 KRoot cc [y]"
    using x d v by (cases d) auto
  hence pr: "ptr (put_sub x d XE) = Some ROOTNODE" by auto
  have sp: "spine (put_sub x d XE) d"
    using spine_put [OF v, of XE] normal_spine [OF _ v] tr by (simp add: script_tree_def)
  have g: "good (sinfo m) (put_sub x d XE)" using good_put [of "sinfo m" x XE d] tr by (simp add: script_tree_def)
  have "complete ?m (put_sub x d XE) d"
    using h(2-4) v d sp g pr xr by (simp add: complete_def)
  with h(1) show ?thesis by blast
qed

definition plain_config :: "config \<Rightarrow> bool" where
  "plain_config cfg \<longleftrightarrow> DeleteCoveredSubtrees cfg \<and> \<not> KeepExecutionTree cfg \<and> \<not> MarkEndingBranchesCovered cfg"

lemma End_step:
  assumes "running s m x d []" "sub x d = XU" "follow (top_plan s) d = PLeaf l" "IsMain c" "plain_config cfg"
  shows "\<exists>m'. EndWithSuccess cfg nm c [] fresh vs SUCCESS m = Some (False, SUCCESS, vs, m')
    \<and> run_done s x l m' \<and> script_log m' = script_log m"
proof -
  from assms(1) have op: "on_path m x d []" and id: "idle m" and tr: "script_tree s (sinfo m) x"
    by (auto simp: running_def)
  have v: "valid_path x d" by (rule on_path_valid [OF op])
  have op1: "on_path (locked c m) x d []" by (rule running_locked [OF assms(1)])
  obtain d0 i0 q s' k' c' xs' p where lst: "d = d0 @ [i0]" "sub x d0 = XN q s' k' c' xs'" "i0 < length xs'"
    "sub x d = xs' ! i0" "locs x (d @ []) ! (length d - 1) = Loc (Some q) (int i0)"
    "heap (locked c m) q = Some (node_of p (XN q s' k' c' xs'))" "q \<noteq> ENDNODE" "valid_path x d0"
    "q < next_ref (locked c m)"
    by (rule last_loc [OF op1])
  obtain h where a: "AddToPath ENDNODE 0 (locked c m)
      = Some ((locked c m)\<lparr>heap := h, node_stack := locs x d @ [Loc (Some ENDNODE) 0], stack_index := Suc (length d)\<rparr>)"
    and cp: "complete ((locked c m)\<lparr>heap := h, node_stack := locs x d @ [Loc (Some ENDNODE) 0], stack_index := Suc (length d)\<rparr>)
         (put_sub x d XE) d"
    using running_complete [OF assms(1,2), of c] by (elim exE conjE)
  let ?m3 = "(locked c m)\<lparr>heap := h, node_stack := locs x d @ [Loc (Some ENDNODE) 0], stack_index := Suc (length d)\<rparr>"
  obtain b m4 where db: "DoBacktrack cfg nm SUCCESS ?m3 = Some (b, m4)"
    and bt: "backtracked ?m3 (put_sub x d XE) d b m4"
    using DoBacktrack_rep [OF cp, of cfg SUCCESS nm] assms(5) by (auto simp: plain_config_def)
  \<comment> \<open>the reference is taken\<close>
  have ea: "end_acquire c [] SUCCESS m = Some (None, locked c m)"
    using Acquire_idle [OF id assms(4), of EXIT_ON_LOCK]
    by (simp add: end_acquire_def IS_FULL_def IS_EMPTY_def IS_ENDNODE_def)
  have gl: "GetLastNodeInStack (locked c m) = Some (Loc (Some q) (int i0))"
    using GetLast_on_path [OF op1] lst(5) by simp
  have kd: "k' \<noteq> KEnd" "\<And>w cv. k' \<noteq> KExists w cv"
  proof -
    have "good (sinfo m) (XN q s' k' c' xs')"
      using good_sub [of "sinfo m" x d0] tr lst(2,8) by (simp add: script_tree_def)
    thus "k' \<noteq> KEnd" "\<And>w cv. k' \<noteq> KExists w cv" by auto
  qed
  have em: "end_marking cfg SUCCESS (Loc (Some q) (int i0)) (locked c m) = Some (locked c m)"
    using lst(6) assms(5) by (simp add: end_marking_def Loc_def plain_config_def)
  have eq: "IS_ENDNODE (locked c m) (Some q) = Some False"
    using lst(6,7) kd by (simp add: IS_ENDNODE_def is_end_kind_def)
  have hE: "\<exists>pe. h ENDNODE = Some (end_node pe)"
    using cp by (auto simp: complete_def)
  have st3: "GetLastNodeInStack ?m3 = Some (Loc (Some ENDNODE) 0)"
    using v by (simp add: GetLastNodeInStack_def BETWEEN_def loc_empty_def Loc_def nth_append)
  have g3: "loc_get ?m3 (Loc (Some ENDNODE) 0) = Some (Some ENDNODE)"
    using hE by (auto simp: loc_get_def loc_empty_def Loc_def get_child_def check_index_def BETWEEN_def)
  have e3: "IS_ENDNODE ?m3 (Some ENDNODE) = Some True"
    using hE by (auto simp: IS_ENDNODE_def is_end_kind_def)
  \<comment> \<open>the reference is released with the end node\<close>
  obtain h4 st4 where m4: "m4 = ?m3\<lparr>heap := h4, node_stack := st4, stack_index := length st4\<rparr>"
    and e4: "\<exists>pe. h4 ENDNODE = Some (end_node pe)"
    using backtracked_shape [OF bt] by metis
  have iE: "IS_ENDNODE (m4\<lparr>lock_owner := None\<rparr>) (Some ENDNODE) = Some True"
    using e4 m4 by (auto simp: IS_ENDNODE_def is_end_kind_def)
  let ?m5 = "m4\<lparr>atomic_ref := Some ENDNODE, sem_ref := sem_ref m4 + 1, lock_owner := None,
      stat_log := (''Search stack size'', int (length (node_stack m4))) # stat_log m4\<rparr>"
  have rel: "ReleaseRef c (Some ENDNODE) (-1) m4 = Some ?m5"
    using iE m4 by (simp add: ReleaseRef_def IS_LOCKNODE_def OnUnlock_def SetRef_def bump_def Let_def)
  have "EndWithSuccess cfg nm c [] fresh vs SUCCESS m = Some (False, SUCCESS, vs, ?m5)"
  proof -
    have lk: "IS_LOCKNODE (atomic_ref (locked c m))" by (simp add: IS_LOCKNODE_def)
    have p: "cl_parent (Loc (Some q) (int i0)) = Some q" by (simp add: Loc_def)
    have nk: "n_kind (node_of p (XN q s' k' c' xs')) = k'" by simp
    show ?thesis
      unfolding EndWithSuccess_def ea
      by (simp only: bind.bind_lunit option.case prod.case lk gl em p lst(6) nk
          eq a st3 g3 e3 db rel if_True if_False safe_assert_True) (use kd(2) in \<open>cases k'; simp\<close>)
  qed
  moreover have "run_done s x l ?m5"
  proof (rule backtracked_done [OF bt cp refl v _ assms(2,3) _ refl])
    show "matches (top_plan s) x" using tr by (simp add: script_tree_def)
    show "plain_sites (sinfo ?m3) s" using tr by (simp add: script_tree_def)
    show "end_exception ?m3 = []" using id by (simp add: idle_def)
  qed
  moreover have "script_log ?m5 = script_log m"
    using m4 by (simp add: script_log_def lib_counters_def)
  ultimately show ?thesis by blast
qed

section \<open>The search\<close>

text \<open>The parameters of a search that nothing interrupts: a controlled run by the main thread, no
  timeout, no other thread, no limit on the number of runs.\<close>

definition plain_params :: "run_params \<Rightarrow> bool" where
  "plain_params rp \<longleftrightarrow> plain_config (rp_cfg rp) \<and> IsMain (rp_main rp) \<and> \<not> rp_uncontrolled rp
     \<and> \<not> rp_start_timeout rp \<and> rp_es rp = []"

definition all_joined :: "int \<Rightarrow> int list \<Rightarrow> bool" where
  "all_joined max_timeouts waits \<longleftrightarrow> max_timeouts \<noteq> 0 \<and> waits \<noteq> [] \<and> hd waits \<le> 0"

definition search_ready :: "script \<Rightarrow> search \<Rightarrow> xt \<Rightarrow> bool" where
  "search_ready s X x \<longleftrightarrow> x_exit_on_first X < 0 \<and>
     (\<exists>rest. x_status X = TEST_BEGIN \<and> running s (x_mgr X) x [0] rest
           \<or> x_status X = TEST_ENDED \<and> between_runs s (x_mgr X) x rest)"

lemma Start_ready:
  assumes "search_ready s X x" "\<not> KeepExecutionTree cfg"
  shows "\<exists>m rest X1. Scenario_Start cfg X = Some X1 \<and> x_mgr X1 = m \<and> x_exit_on_first X1 = x_exit_on_first X
    \<and> x_schedules X1 = x_schedules X \<and> running s m x [0] rest \<and> script_log m = script_log (x_mgr X)"
proof -
  from assms(1) obtain rest where "x_status X = TEST_BEGIN \<and> running s (x_mgr X) x [0] rest
           \<or> x_status X = TEST_ENDED \<and> between_runs s (x_mgr X) x rest"
    by (auto simp: search_ready_def)
  thus ?thesis
  proof
    assume a: "x_status X = TEST_BEGIN \<and> running s (x_mgr X) x [0] rest"
    then show ?thesis by (auto simp: Scenario_Start_def)
  next
    assume a: "x_status X = TEST_ENDED \<and> between_runs s (x_mgr X) x rest"
    then obtain m where m: "Restart cfg (x_mgr X) = Some m" "running s m x [0] rest"
      "script_log m = script_log (x_mgr X)"
      using Restart_between [OF _ assms(2)] by blast
    with a show ?thesis by (auto simp: Scenario_Start_def)
  qed
qed

lemma RunTestCase_script:
  assumes "running s m x [0] rest" "plain_params rp" "set (leaves s) \<inter> lib_counters = {}"
  shows "\<exists>m' x' l. RunTestCase rp (run_script rnd (rp_main rp) s) vs m = Some (Returns (), vs, m')
    \<and> run_done s x' l m' \<and> todo (top_plan s) x' = todo (top_plan s) x
    \<and> script_log m' = add_mset l (script_log m)"
proof -
  have pp: "IsMain (rp_main rp)" "plain_config (rp_cfg rp)" "\<not> rp_uncontrolled rp" "\<not> rp_start_timeout rp"
    "rp_es rp = []" using assms(2) by (auto simp: plain_params_def)
  have "follow (top_plan s) [0] = plan_of s" by (simp add: top_plan_def)
  from run_script_step [OF assms(1) pp(1) this assms(3), of rnd]
  obtain m1 x1 d l where r: "run_script rnd (rp_main rp) s m = Some (Returns (), m1)" "running s m1 x1 d []"
    "sub x1 d = XU" "follow (top_plan s) d = PLeaf l" "script_log m1 = add_mset l (script_log m)"
    "todo (top_plan s) x1 = todo (top_plan s) x" by blast
  obtain m2 where e: "EndWithSuccess (rp_cfg rp) (rp_members rp) (rp_main rp) [] (rp_fresh rp) vs SUCCESS m1
      = Some (False, SUCCESS, vs, m2)" "run_done s x1 l m2" "script_log m2 = script_log m1"
    using End_step [OF r(2-4) pp(1,2)] by blast
  have "RunTestCase rp (run_script rnd (rp_main rp) s) vs m = Some (Returns (), vs, m2)"
    using r(1) e(1) pp(3-5) by (subst RunTestCase.simps) (simp add: WaitForTestStart_def finish_testcase_def)
  with e r(5,6) show ?thesis by auto
qed

lemma JoinAll_done:
  assumes "end_exception m = []" "all_joined mt waits"
  shows "JoinAllThreads mt c waits m = Some (Returns (), m)"
  using assms by (cases waits) (auto simp: JoinAllThreads_def JoinAllThreads_loop.simps all_joined_def
      get_non_backtrack_def)

lemma RunOnce_script:
  assumes "search_ready s X x" "plain_params rp" "all_joined mt waits" "set (leaves s) \<inter> lib_counters = {}"
  shows "\<exists>X' x' l. RunOnce rp mt waits (run_script rnd (rp_main rp) s) X = Some (Returns [], X')
    \<and> run_done s x' l (x_mgr X') \<and> todo (top_plan s) x' = todo (top_plan s) x
    \<and> script_log (x_mgr X') = add_mset l (script_log (x_mgr X)) \<and> x_status X' = TEST_ENDED
    \<and> x_exit_on_first X' = x_exit_on_first X \<and> x_schedules X' = x_schedules X"
proof -
  have kp: "\<not> KeepExecutionTree (rp_cfg rp)" using assms(2) by (simp add: plain_params_def plain_config_def)
  obtain m rest X1 where m: "Scenario_Start (rp_cfg rp) X = Some X1" "x_mgr X1 = m"
    "x_exit_on_first X1 = x_exit_on_first X" "x_schedules X1 = x_schedules X"
    "running s m x [0] rest" "script_log m = script_log (x_mgr X)"
    using Start_ready [OF assms(1) kp] by blast
  obtain m2 x2 l where r: "RunTestCase rp (run_script rnd (rp_main rp) s) (x_vars X1) m = Some (Returns (), x_vars X1, m2)"
    "run_done s x2 l m2" "todo (top_plan s) x2 = todo (top_plan s) x" "script_log m2 = add_mset l (script_log m)"
    using RunTestCase_script [OF m(5) assms(2,4), of rnd "x_vars X1"] by blast
  have ee: "end_exception m2 = []" using r(2) by (simp add: run_done_def)
  have "RunOnce rp mt waits (run_script rnd (rp_main rp) s) X
      = Some (Returns [], X1\<lparr>x_mgr := m2, x_vars := x_vars X1, x_status := TEST_ENDED\<rparr>)"
    using m(1,2) r(1) JoinAll_done [OF ee assms(3), of "rp_main rp"] ee by (simp add: RunOnce_def)
  with r m(3,4,6) show ?thesis by auto
qed

lemma handle_run_script:
  assumes "plain_params rp" "x_exit_on_first X < 0" "covered (x_mgr X) ROOTNODE = Some cv"
  shows "\<exists>X'. handle_run rp FORALL [] X
      = Some (if cv then Stop (ForallResult (Suc (x_schedules X))) else Again, X')
    \<and> x_mgr X' = x_mgr X \<and> x_status X' = x_status X \<and> x_exit_on_first X' < 0
    \<and> x_schedules X' = Suc (x_schedules X)"
  using assms by (auto simp: handle_run_def handle_backtrack_def Backtrack_def plain_params_def Let_def)

lemma Explore_loop_script:
  assumes "search_ready s X x" "plain_params rp" "all_joined mt waits" "set (leaves s) \<inter> lib_counters = {}"
  shows "\<exists>X'. Explore_loop rp FORALL mt waits (run_script rnd (rp_main rp) s) X
      = Some (Returns (ForallResult (x_schedules X + size (todo (top_plan s) x))), X')
    \<and> script_log (x_mgr X') = script_log (x_mgr X) + todo (top_plan s) x
    \<and> covered (x_mgr X') ROOTNODE = Some True \<and> x_status X' = TEST_ENDED"
  using assms
proof (induction "size (todo (top_plan s) x)" arbitrary: X x)
  case 0
  from RunOnce_script [OF "0.prems", of rnd] "0.hyps" show ?case
    by (auto simp: run_done_def)
next
  case (Suc n)
  let ?tc = "run_script rnd (rp_main rp) s"
  obtain X1 x1 l where r: "RunOnce rp mt waits ?tc X = Some (Returns [], X1)"
    "run_done s x1 l (x_mgr X1)" "todo (top_plan s) x1 = todo (top_plan s) x"
    "script_log (x_mgr X1) = add_mset l (script_log (x_mgr X))" "x_status X1 = TEST_ENDED"
    "x_exit_on_first X1 = x_exit_on_first X" "x_schedules X1 = x_schedules X"
    using RunOnce_script [OF Suc.prems, of rnd] by blast
  have ex: "x_exit_on_first X1 < 0" using Suc.prems(1) r(6) by (simp add: search_ready_def)
  consider (finished) "covered (x_mgr X1) ROOTNODE = Some True" "todo (top_plan s) x1 = {#l#}"
    | (more) x2 rest where "covered (x_mgr X1) ROOTNODE = Some False" "between_runs s (x_mgr X1) x2 rest"
        "add_mset l (todo (top_plan s) x2) = todo (top_plan s) x1"
    using r(2) unfolding run_done_def by blast
  thus ?case
  proof cases
    case finished
    obtain X2 where h: "handle_run rp FORALL [] X1 = Some (Stop (ForallResult (Suc (x_schedules X1))), X2)"
      "x_mgr X2 = x_mgr X1" "x_status X2 = x_status X1"
      using handle_run_script [OF Suc.prems(2) ex finished(1)] by auto
    have "Explore_loop rp FORALL mt waits ?tc X = Some (Returns (ForallResult (Suc (x_schedules X1))), X2)"
      using r(1) h(1) by (subst Explore_loop.simps) simp
    with finished r(3,4,5,7) h(2,3) show ?thesis by auto
  next
    case more
    obtain X2 where h: "handle_run rp FORALL [] X1 = Some (Again, X2)" "x_mgr X2 = x_mgr X1"
      "x_status X2 = x_status X1" "x_exit_on_first X2 < 0" "x_schedules X2 = Suc (x_schedules X1)"
      using handle_run_script [OF Suc.prems(2) ex more(1)] by auto
    have rd: "search_ready s X2 x2" using h r(5) more(2) by (auto simp: search_ready_def)
    have td: "todo (top_plan s) x = add_mset l (todo (top_plan s) x2)" using more(3) r(3) by simp
    hence "n = size (todo (top_plan s) x2)" using Suc.hyps(2) by simp
    from Suc.hyps(1) [OF this rd Suc.prems(2-4)]
    obtain X3 where X3: "Explore_loop rp FORALL mt waits ?tc X2
        = Some (Returns (ForallResult (x_schedules X2 + size (todo (top_plan s) x2))), X3)"
      "script_log (x_mgr X3) = script_log (x_mgr X2) + todo (top_plan s) x2"
      "covered (x_mgr X3) ROOTNODE = Some True" "x_status X3 = TEST_ENDED" by blast
    have "Explore_loop rp FORALL mt waits ?tc X = Explore_loop rp FORALL mt waits ?tc X2"
      using r(1) h(1) by (subst Explore_loop.simps) simp
    with X3 h(2,5) r(4,7) td show ?thesis by auto
  qed
qed

section \<open>The search from a new scenario\<close>

definition new_search :: "mgr \<Rightarrow> search" where
  "new_search m = \<lparr>x_mgr = m, x_status = TEST_BEGIN, x_vars = (\<lambda>v. new_thread_var None ''''),
     x_exit_on_first = -1, x_num_executions = 0, x_num_success = 0, x_schedules = 0\<rparr>"

lemma new_manager_total:
  assumes "\<not> KeepExecutionTree cfg"
  shows "\<exists>m. ExecutionTreeManager cfg infos = Some m"
  using assms by (simp add: ExecutionTreeManager_def Restart_def RestartChildIndexStack_def
      AddToNodeStack_def loc_empty_def Loc_def IS_ENDNODE_def is_end_kind_def fixed_heap_def mk_node_def
      ROOTNODE_def LOCKNODE_def ENDNODE_def safe_check_def)

lemma new_manager_running:
  assumes "plain_sites infos s" "ExecutionTreeManager cfg infos = Some m" "\<not> KeepExecutionTree cfg"
  shows "running s m (XN ROOTNODE 0 KRoot False [XU]) [0] []" "stat_log m = []"
proof -
  let ?m0 = "\<lparr>heap = fixed_heap, next_ref = 3, sinfo = infos, stat_log = [],
      node_stack = [Loc (Some ROOTNODE) 0], stack_index = 1, atomic_ref = None, sem_ref = 0,
      lock_owner = None, end_exception = []\<rparr>"
  have m: "m = ?m0"
    using assms(2,3) by (simp add: ExecutionTreeManager_def Restart_def RestartChildIndexStack_def
        AddToNodeStack_def loc_empty_def Loc_def IS_ENDNODE_def is_end_kind_def fixed_heap_def mk_node_def
        ROOTNODE_def LOCKNODE_def ENDNODE_def safe_check_def SetRef_def)
  have k: "heap_ok fixed_heap 3 (XN ROOTNODE 0 KRoot False [XU])"
    by (auto simp: heap_ok_def fixed_heap_def mk_node_def ROOTNODE_def LOCKNODE_def ENDNODE_def end_node_def)
  show "running s m (XN ROOTNODE 0 KRoot False [XU]) [0] []" unfolding m
    using k assms(1) by (auto simp: running_def on_path_def tree_ok_def idle_def script_tree_def top_plan_def)
  show "stat_log m = []" using m by simp
qed

text \<open>C1: The search is complete and without repetition. For every script of choices and
  conditionals whose sites are not marked as covered, under a configuration that deletes covered
  subtrees and does not mark ending branches, Explore returns (the whole search terminates without
  a failed assertion) with a ForallResult of one schedule per leaf of the script, the leaves that
  were run are exactly the leaves of the script, each once, and the root of the execution tree is
  covered.\<close>

theorem Explore_exhaustive:
  assumes "plain_sites infos s" "plain_params rp" "all_joined mt waits" "set (leaves s) \<inter> lib_counters = {}"
  shows "\<exists>X. do { m \<leftarrow> ExecutionTreeManager (rp_cfg rp) infos;
         Explore rp FORALL mt waits (run_script rnd (rp_main rp) s) (new_search m) }
      = Some (Returns (ForallResult (length (leaves s))), X)
    \<and> script_log (x_mgr X) = mset (leaves s) \<and> covered (x_mgr X) ROOTNODE = Some True"
proof -
  have kp: "\<not> KeepExecutionTree (rp_cfg rp)" using assms(2) by (simp add: plain_params_def plain_config_def)
  obtain m where m: "ExecutionTreeManager (rp_cfg rp) infos = Some m" using new_manager_total [OF kp] by blast
  let ?x = "XN ROOTNODE 0 KRoot False [XU]" and ?tc = "run_script rnd (rp_main rp) s"
  note new = new_manager_running [OF assms(1) m kp]
  have rd: "search_ready s (new_search m) ?x" using new(1) by (auto simp: search_ready_def new_search_def)
  have td: "todo (top_plan s) ?x = mset (leaves s)" by (rule todo_top_leaves)
  obtain X where X: "Explore_loop rp FORALL mt waits ?tc (new_search m)
      = Some (Returns (ForallResult (length (leaves s))), X)"
    "script_log (x_mgr X) = mset (leaves s)" "covered (x_mgr X) ROOTNODE = Some True" "x_status X = TEST_ENDED"
    using Explore_loop_script [OF rd assms(2-4), of rnd] td new(2)
    by (auto simp: new_search_def script_log_def)
  have "Explore rp FORALL mt waits ?tc (new_search m)
      = Some (Returns (ForallResult (length (leaves s))), X\<lparr>x_status := TEST_TERMINATED\<rparr>)"
    using X(1,4) by (simp add: Explore_def Scenario_Finish_def)
  with X m show ?thesis by simp
qed

section \<open>The default configuration\<close>

text \<open>Two choices in a row, reached on both branches of the first.\<close>

definition two_choices :: script where
  "two_choices = Choose 1 (Choose 2 (Done ''ff'') (Done ''ft'')) (Choose 2 (Done ''tf'') (Done ''tt''))"

definition fresh_choices :: "nat \<Rightarrow> static_info" where
  "fresh_choices = (\<lambda>n. \<lparr>si_message = '''', si_choice = Some (False, False, False)\<rparr>)"

definition main_co :: co where
  "main_co = Co 0 MAIN_TID"

definition sample_params :: "config \<Rightarrow> run_params" where
  "sample_params cfg = \<lparr>rp_cfg = cfg, rp_members = 0, rp_main = main_co, rp_all_ended = False,
     rp_start_timeout = False, rp_es = [], rp_es2 = [], rp_fresh = 0, rp_uncontrolled = False\<rparr>"

definition explore_sample :: "config \<Rightarrow> script \<Rightarrow> (explore_result outcome \<times> search) option" where
  "explore_sample cfg s = do {
     m \<leftarrow> ExecutionTreeManager cfg fresh_choices;
     Explore (sample_params cfg) FORALL 3 [0] (run_script (\<lambda>_. True) main_co s) (new_search m) }"

definition plain_cfg :: config where
  "plain_cfg = default_config\<lparr>MarkEndingBranchesCovered := False\<rparr>"

theorem Explore_exhaustive_witness:
  "\<exists>X. do { m \<leftarrow> ExecutionTreeManager (rp_cfg (sample_params plain_cfg)) fresh_choices;
         Explore (sample_params plain_cfg) FORALL 3 [0]
           (run_script (\<lambda>_. True) (rp_main (sample_params plain_cfg)) two_choices) (new_search m) }
      = Some (Returns (ForallResult (length (leaves two_choices))), X)
    \<and> script_log (x_mgr X) = mset (leaves two_choices) \<and> covered (x_mgr X) ROOTNODE = Some True"
  by (rule Explore_exhaustive)
    (auto simp add: plain_sites_def two_choices_def fresh_choices_def plain_params_def plain_config_def
      sample_params_def plain_cfg_def default_config_def all_joined_def IsMain_def main_co_def lib_counters_def)


end
