(* ===== verification/Suites.thy ===== *)
theory Suites
  imports Search_Correct "HOL-Library.List_Lexorder" "HOL-Library.Char_ord"
begin

text \<open>
  result.h/.cpp and suite.h/.cpp: the results of searches and their texts, and the suite that runs
  its scenarios and reports.  The statistics text of a scenario is a parameter.  A scenario of the
  suite carries what its Explore needs; the option ExitOnFirstExecution is global, so that its
  value passes from one scenario to the next.
\<close>

section \<open>Results\<close>

fun IsSuccess :: "explore_result \<Rightarrow> bool" where
  "IsSuccess (ForallResult n) = True"
| "IsSuccess ExistsResult = True"
| "IsSuccess (AssertionViolationResult e) = False"
| "IsSuccess RuntimeExceptionResult = False"
| "IsSuccess (InternalThrown e) = False"

text \<open>\<open>InternalThrown\<close> is not a result: Explore throws it.  The cause of a RuntimeExceptionResult
  is the NULL that Explore passes, so that its text cannot be printed.\<close>

definition line_end :: string where "line_end = [CHR 0x0A]"

definition SuccessResult_ToString :: string where "SuccessResult_ToString = ''SUCCESS.''"
definition FailureResult_ToString :: string where "FailureResult_ToString = ''FAILURE.''"

fun Result_ToString :: "string \<Rightarrow> explore_result \<Rightarrow> string option" where
  "Result_ToString stats (ForallResult n) = Some (SuccessResult_ToString @ line_end @ stats @ line_end)"
| "Result_ToString stats ExistsResult =
     Some (SuccessResult_ToString @ line_end @ ''Found successful execution.'' @ line_end @ stats @ line_end)"
| "Result_ToString stats (AssertionViolationResult e) =
     Some (FailureResult_ToString @ line_end @ ''Assertion Failure.'' @ line_end @ exn_what e @ line_end @ stats @ line_end)"
| "Result_ToString stats RuntimeExceptionResult = None"
| "Result_ToString stats (InternalThrown e) = None"

definition SignalResult_ToString :: "string \<Rightarrow> int \<Rightarrow> string option" where
  "SignalResult_ToString stats n = do {
     safe_assert (n > 0);
     Some (FailureResult_ToString @ line_end @ ''Signal received: '' @ to_string n @ line_end @ stats @ line_end) }"

definition NoFeasibleExecutionResult_ToString :: "string \<Rightarrow> string" where
  "NoFeasibleExecutionResult_ToString stats =
     FailureResult_ToString @ line_end @ ''No feasible execution found!'' @ line_end @ stats @ line_end"

section \<open>Suites\<close>

record scenario =
  sc_name :: string
  sc_params :: run_params
  sc_type :: ExploreType
  sc_max_timeouts :: int
  sc_waits :: "int list"
  sc_test :: test_case
  sc_search :: search
  sc_stats :: string

text \<open>The suite holds pointers to scenarios.\<close>

definition AddScenario :: "nat option \<Rightarrow> nat list \<Rightarrow> nat list option" where
  "AddScenario p suite = do { safe_assert (p \<noteq> None); x \<leftarrow> p; Some (suite @ [x]) }"

fun RemoveScenario :: "nat \<Rightarrow> nat list \<Rightarrow> nat list" where
  "RemoveScenario p [] = []"
| "RemoveScenario p (x # xs) = (if x = p then xs else x # RemoveScenario p xs)"

fun RemoveScenario_name :: "(nat \<Rightarrow> scenario) \<Rightarrow> string \<Rightarrow> nat list \<Rightarrow> nat list" where
  "RemoveScenario_name st name [] = []"
| "RemoveScenario_name st name (x # xs) =
     (if sc_name (st x) = name then xs else x # RemoveScenario_name st name xs)"

definition StaticSuiteAdder :: "nat \<Rightarrow> nat list \<Rightarrow> nat list option" where
  "StaticSuiteAdder p suite = AddScenario (Some p) suite"

definition StaticSuiteAdder_end :: "nat option \<Rightarrow> nat list \<Rightarrow> nat list option" where
  "StaticSuiteAdder_end p suite = do { safe_assert (p \<noteq> None); x \<leftarrow> p; Some (RemoveScenario x suite) }"

definition scenario_Explore :: "int \<Rightarrow> scenario \<Rightarrow> (explore_result outcome \<times> int) option" where
  "scenario_Explore exit_on_first sc = do {
     (r, x) \<leftarrow> Explore (sc_params sc) (sc_type sc) (sc_max_timeouts sc) (sc_waits sc) (sc_test sc)
       ((sc_search sc)\<lparr> x_exit_on_first := exit_on_first \<rparr>);
     Some (r, x_exit_on_first x) }"

type_synonym results = "(string \<times> explore_result \<times> string) list"

fun RunScenarios_loop :: "(nat \<Rightarrow> scenario) \<Rightarrow> int \<Rightarrow> nat list \<Rightarrow> results \<Rightarrow> results outcome option" where
  "RunScenarios_loop st flag [] results = Some (Returns results)"
| "RunScenarios_loop st flag (p # ps) results = do {
     (r, flag1) \<leftarrow> scenario_Explore flag (st p);
     (case r of
        Returns res \<Rightarrow> RunScenarios_loop st flag1 ps (mm_put results (sc_name (st p)) (res, sc_stats (st p)))
      | Throws e \<Rightarrow> Some (Throws e)
      | Blocked \<Rightarrow> Some Blocked) }"

definition RunScenarios :: "(nat \<Rightarrow> scenario) \<Rightarrow> int \<Rightarrow> nat list \<Rightarrow> results outcome option" where
  "RunScenarios st flag suite = RunScenarios_loop st flag suite []"

fun print_results :: "results \<Rightarrow> string option" where
  "print_results [] = Some ''''"
| "print_results ((name, res, stats) # rs) = do {
     t \<leftarrow> Result_ToString stats res;
     u \<leftarrow> print_results rs;
     Some (line_end @ ''Scenario: '' @ name @ line_end @ ''Result: '' @ t @ line_end @ u) }"

definition count_success :: "results \<Rightarrow> int" where
  "count_success rs = int (length (filter (\<lambda>(n, r, s). IsSuccess r) rs))"

text \<open>The report: the number of successes, of failures, and the text.  An exception of a scenario
  ends in \<open>safe_fail\<close>.\<close>

definition RunAll :: "(nat \<Rightarrow> scenario) \<Rightarrow> int \<Rightarrow> nat list \<Rightarrow> (int \<times> int \<times> string) outcome option" where
  "RunAll st flag suite = do {
     r \<leftarrow> RunScenarios st flag suite;
     (case r of
        Returns rs \<Rightarrow> do {
          t \<leftarrow> print_results rs;
          Some (Returns (count_success rs, int (length rs) - count_success rs, t)) }
      | Throws e \<Rightarrow> None
      | Blocked \<Rightarrow> Some Blocked) }"

section \<open>Adding and removing\<close>

lemma RemoveScenario_remove1: "RemoveScenario p suite = remove1 p suite"
  by (induction suite) auto

lemma static_adder_roundtrip:
  "p \<notin> set suite \<Longrightarrow> Option.bind (StaticSuiteAdder p suite) (StaticSuiteAdder_end (Some p)) = Some suite"
  by (simp add: StaticSuiteAdder_def StaticSuiteAdder_end_def AddScenario_def RemoveScenario_remove1 remove1_append)

section \<open>The report counts every scenario\<close>

text \<open>The results of the scenarios in the order they run.\<close>

fun explore_all :: "(nat \<Rightarrow> scenario) \<Rightarrow> int \<Rightarrow> nat list \<Rightarrow> explore_result list option" where
  "explore_all st flag [] = Some []"
| "explore_all st flag (p # ps) = do {
     (r, flag1) \<leftarrow> scenario_Explore flag (st p);
     (case r of Returns res \<Rightarrow> do { rs \<leftarrow> explore_all st flag1 ps; Some (res # rs) } | _ \<Rightarrow> None) }"

definition entry :: "(nat \<Rightarrow> scenario) \<Rightarrow> nat \<Rightarrow> explore_result \<Rightarrow> string \<times> explore_result \<times> string" where
  "entry st p r = (sc_name (st p), r, sc_stats (st p))"

lemma mm_put_fresh: "k \<notin> fst ` set m \<Longrightarrow> mset (mm_put m k w) = add_mset (k, w) (mset m)"
  by (induction m k w rule: mm_put.induct) auto

lemma explore_all_ConsE:
  assumes "explore_all st flag (p # ps) = Some rs"
  obtains res flag1 rs' where "scenario_Explore flag (st p) = Some (Returns res, flag1)"
    "explore_all st flag1 ps = Some rs'" "rs = res # rs'"
proof -
  from assms obtain r flag1 where x: "scenario_Explore flag (st p) = Some (r, flag1)"
    by (cases "scenario_Explore flag (st p)") auto
  then show ?thesis using assms that by (cases r) (auto simp: bind_Some_iff)
qed

lemma RunScenarios_loop_all:
  "explore_all st flag ps = Some rs \<Longrightarrow> distinct (map (\<lambda>p. sc_name (st p)) ps) \<Longrightarrow>
   (\<forall>p \<in> set ps. sc_name (st p) \<notin> fst ` set acc) \<Longrightarrow>
   \<exists>out. RunScenarios_loop st flag ps acc = Some (Returns out) \<and>
     mset out = mset acc + mset (map2 (entry st) ps rs)"
proof (induction ps arbitrary: flag acc rs)
  case (Cons p ps)
  from explore_all_ConsE [OF Cons.prems(1)] obtain res flag1 rs' where
    r: "scenario_Explore flag (st p) = Some (Returns res, flag1)" "explore_all st flag1 ps = Some rs'" "rs = res # rs'" .
  let ?acc = "mm_put acc (sc_name (st p)) (res, sc_stats (st p))"
  have "\<forall>q \<in> set ps. sc_name (st q) \<notin> fst ` set ?acc"
    using Cons.prems(2,3) by (auto simp: mm_put_keys simp del: image_iff) (metis (mono_tags, lifting) image_eqI)
  moreover have "distinct (map (\<lambda>p. sc_name (st p)) ps)" using Cons.prems(2) by simp
  ultimately obtain out where "RunScenarios_loop st flag1 ps ?acc = Some (Returns out)"
    "mset out = mset ?acc + mset (map2 (entry st) ps rs')" using Cons.IH r(2) by blast
  then show ?case using Cons.prems(3) r(1,3) by (auto simp: mm_put_fresh entry_def)
qed simp

lemma explore_all_length: "explore_all st flag ps = Some rs \<Longrightarrow> length rs = length ps"
  by (induction ps arbitrary: flag rs) (simp, metis explore_all_ConsE length_Cons)

lemma count_success_mset: "mset rs = mset ss \<Longrightarrow> count_success rs = count_success ss"
  by (simp add: count_success_def) (metis mset_filter size_mset)

lemma count_success_entries:
  "length ps = length rs \<Longrightarrow> count_success (map2 (entry st) ps rs) = int (length (filter IsSuccess rs))"
  by (induction ps rs rule: list_induct2) (auto simp: count_success_def entry_def)

lemma print_results_total:
  "(\<forall>(n, r, s) \<in> set rs. Result_ToString s r \<noteq> None) \<Longrightarrow> \<exists>t. print_results rs = Some t"
  by (induction rs) auto

text \<open>C38: When every scenario of a suite returns a printable result and their names differ,
  RunAll reports exactly the number of successes and of failures among them.\<close>

theorem RunAll_counts:
  assumes "explore_all st flag suite = Some rs" "distinct (map (\<lambda>p. sc_name (st p)) suite)"
    and "list_all (\<lambda>r. \<forall>s. Result_ToString s r \<noteq> None) rs"
  shows "\<exists>t. RunAll st flag suite = Some (Returns (int (length (filter IsSuccess rs)),
      int (length (filter (\<lambda>r. \<not> IsSuccess r) rs)), t))"
proof -
  obtain out where out: "RunScenarios st flag suite = Some (Returns out)" "mset out = mset (map2 (entry st) suite rs)"
    using RunScenarios_loop_all [OF assms(1,2), of "[]"] by (auto simp: RunScenarios_def)
  have len: "length suite = length rs" using explore_all_length [OF assms(1)] by simp
  have "set out = set (map2 (entry st) suite rs)" using out(2) by (rule mset_eq_setD)
  then have "\<forall>(n, r, s) \<in> set out. Result_ToString s r \<noteq> None"
    using assms(3) len by (auto simp: entry_def list_all_iff dest: set_zip_rightD)
  then obtain t where t: "print_results out = Some t" using print_results_total by blast
  have n: "length out = length rs" using arg_cong [OF out(2), of size] len by simp
  have c: "count_success out = int (length (filter IsSuccess rs))"
    using count_success_mset [OF out(2)] count_success_entries [OF len] by simp
  have "int (length rs) - int (length (filter IsSuccess rs)) = int (length (filter (\<lambda>r. \<not> IsSuccess r) rs))"
    using sum_length_filter_compl [of IsSuccess rs] by linarith
  then show ?thesis using out(1) t n c by (simp add: RunAll_def)
qed

definition sample_manager :: mgr where
  "sample_manager = the (ExecutionTreeManager plain_cfg fresh_choices)"

definition sample_scenario :: "string \<Rightarrow> ExploreType \<Rightarrow> test_case \<Rightarrow> scenario" where
  "sample_scenario name ty tc = \<lparr> sc_name = name, sc_params = sample_params plain_cfg, sc_type = ty,
     sc_max_timeouts = 3, sc_waits = [0], sc_test = tc, sc_search = new_search sample_manager, sc_stats = ''s'' \<rparr>"

definition give_up :: test_case where
  "give_up m = Some (throw_backtrack ASSUME_FAILS m)"

definition sample_store :: "nat \<Rightarrow> scenario" where
  "sample_store p = (if p = 0 then sample_scenario ''a'' FORALL (run_script (\<lambda>_. True) main_co two_choices)
     else sample_scenario ''b'' EXISTS give_up)"

lemma sample_results: "explore_all sample_store (-1) [0, 1] = Some [ForallResult 4, ForallResult 0]"
  by code_simp

theorem RunAll_counts_witness:
  "\<exists>t. RunAll sample_store (-1) [0, 1] = Some (Returns (2, 0, t))"
  using RunAll_counts [OF sample_results] by (simp add: sample_store_def sample_scenario_def)

text \<open>Results are kept by name: of two scenarios of one name the later result replaces the earlier one.\<close>

lemma same_name_lost:
  assumes "scenario_Explore flag (st p) = Some (Returns r1, flag1)"
    and "scenario_Explore flag1 (st q) = Some (Returns r2, flag2)" "sc_name (st p) = sc_name (st q)"
  shows "RunScenarios st flag [p, q] = Some (Returns [entry st q r2])"
  using assms by (simp add: RunScenarios_def entry_def)

text \<open>C37: A search for one execution (EXISTS) whose run ends in a backtrack with the tree
  covered returns a ForallResult, which is a success, although no execution succeeded: the result
  for a search without a feasible execution is never built.\<close>

theorem fruitless_search_succeeds:
  assumes "RunOnce rp mt waits tc x = Some (Returns exc, x1)" "get_assertion_violation exc = None"
    and "get_internal exc = None" "get_backtrack exc = Some be" "as_backtrack be = Some r" "r \<noteq> UNKNOWN"
    and "x_exit_on_first x1 < 0" "\<not> rp_uncontrolled rp" "covered (x_mgr x1) ROOTNODE = Some True"
    and "x_status x1 = TEST_ENDED"
  shows "\<exists>X. Explore rp EXISTS mt waits tc x = Some (Returns (ForallResult (x_schedules x1)), X)
    \<and> x_num_success X = x_num_success x1 \<and> IsSuccess (ForallResult (x_schedules x1))"
proof -
  have exc: "exc \<noteq> []" using assms(4) by (auto simp: get_backtrack_def)
  obtain X where X: "handle_run rp EXISTS exc x1 = Some (Stop (ForallResult (x_schedules x1)), X)"
    "x_status X = TEST_ENDED" "x_num_success X = x_num_success x1"
    using assms exc by (auto simp: handle_run_def handle_exceptions_def handle_backtrack_def Backtrack_def Let_def)
  have "Explore_loop rp EXISTS mt waits tc x = Some (Returns (ForallResult (x_schedules x1)), X)"
    using assms(1) X(1) by (subst Explore_loop.simps) simp
  then show ?thesis
    using X by (simp add: Explore_def Scenario_Finish_def)
qed

lemma fruitless_facts:
  "(case RunOnce (sample_params plain_cfg) 3 [0] give_up (new_search sample_manager) of
      Some (Returns e, x1) \<Rightarrow> e = [ConcLink ''<unknown>'' (Exn 3 (BacktrackE ASSUME_FAILS)) (Some main_co)] \<and>
        x_exit_on_first x1 = -1 \<and> covered (x_mgr x1) ROOTNODE = Some True \<and> x_status x1 = TEST_ENDED \<and>
        x_schedules x1 = 0 | _ \<Rightarrow> False)"
  by code_simp

theorem fruitless_search_succeeds_witness:
  "\<exists>X. Explore (sample_params plain_cfg) EXISTS 3 [0] give_up (new_search sample_manager)
      = Some (Returns (ForallResult 0), X) \<and> IsSuccess (ForallResult 0)"
proof -
  let ?e = "[ConcLink ''<unknown>'' (Exn 3 (BacktrackE ASSUME_FAILS)) (Some main_co)]"
  obtain x1 where x1: "RunOnce (sample_params plain_cfg) 3 [0] give_up (new_search sample_manager) = Some (Returns ?e, x1)"
    "x_exit_on_first x1 = -1" "covered (x_mgr x1) ROOTNODE = Some True" "x_status x1 = TEST_ENDED" "x_schedules x1 = 0"
    using fruitless_facts by (auto split: option.splits prod.splits outcome.splits)
  show ?thesis
    using fruitless_search_succeeds [OF x1(1), of "Exn 3 (BacktrackE ASSUME_FAILS)" ASSUME_FAILS] x1(2-5)
    by (auto simp: get_assertion_violation_def get_internal_def get_backtrack_def as_backtrack_def
        is_assertion_violation_def is_internal_def is_backtrack_def sample_params_def)
qed

end
