(* ===== verification/Ref_Protocol.thy ===== *)
theory Ref_Protocol
  imports Tree_Manager
begin

text \<open>
  AcquireRef and ReleaseRef with their threads interleaved.  The shared state is the atomic
  reference, the owner field of the lock node and the semaphore; a step of a thread is one access
  to them.  Tree_Manager runs an iteration of AcquireRef in one piece; here its accesses are apart,
  and the last section shows that the pieces give that iteration.
\<close>

section \<open>Steps\<close>

record ref_shared =
  rs_ref :: "noderef option"
  rs_owner :: "co option"
  rs_sem :: nat

text \<open>Where a thread is.  \<open>Try own md\<close> is before the exchange and \<open>Got own md v\<close> after it, with the
  old value; \<open>own\<close> tells that the thread called AcquireRef while it holds the lock.  \<open>Own\<close> is
  the use of the node between AcquireRef and ReleaseRef.\<close>

datatype ref_pc = RIdle | Try bool AcquireRefMode | Got bool AcquireRefMode "noderef option"
  | Sleep AcquireRefMode | Wake AcquireRefMode | Own
  | Rel_check "noderef option" | Rel_unlock "noderef option" | Rel_set "noderef option" | Rel_signal
  | RAbort

definition ref_exchange :: "ref_shared \<Rightarrow> noderef option \<times> ref_shared" where
  "ref_exchange s = (rs_ref s, s\<lparr> rs_ref := Some LOCKNODE \<rparr>)"

definition exits_on :: "AcquireRefMode \<Rightarrow> noderef option \<Rightarrow> bool" where
  "exits_on md v \<longleftrightarrow> md = EXIT_ON_LOCK \<or> (if IS_EMPTY v then md = EXIT_ON_EMPTY else md = EXIT_ON_FULL)"

fun ref_step :: "co \<Rightarrow> ref_pc \<Rightarrow> ref_shared \<Rightarrow> (ref_pc \<times> ref_shared) option" where
  "ref_step c RIdle s = None"
| "ref_step c (Try own md) s = (let (v, s1) = ref_exchange s in Some (Got own md v, s1))"
| "ref_step c (Got own md v) s = Some (
     if IS_LOCKNODE v then
       (if rs_owner s = Some c then (if md = EXIT_ON_LOCK then Own else RAbort) else Try own md, s)
     else if v = Some ENDNODE then (RIdle, s\<lparr> rs_ref := v \<rparr>)
     else if exits_on md v then (if rs_owner s = None then (Own, s\<lparr> rs_owner := Some c \<rparr>) else (RAbort, s))
     else (Sleep md, s\<lparr> rs_ref := v \<rparr>))"
| "ref_step c (Sleep md) s = (if rs_sem s > 0 then Some (Wake md, s\<lparr> rs_sem := rs_sem s - 1 \<rparr>) else None)"
| "ref_step c (Wake md) s = Some (Try False md, s\<lparr> rs_sem := rs_sem s + 1 \<rparr>)"
| "ref_step c Own s = None"
| "ref_step c (Rel_check n) s = Some (if IS_LOCKNODE (rs_ref s) then Rel_unlock n else RAbort, s)"
| "ref_step c (Rel_unlock n) s =
     Some (if rs_owner s = Some c then (Rel_set n, s\<lparr> rs_owner := None \<rparr>) else (RAbort, s))"
| "ref_step c (Rel_set n) s = Some (Rel_signal, s\<lparr> rs_ref := n \<rparr>)"
| "ref_step c Rel_signal s = Some (RIdle, s\<lparr> rs_sem := rs_sem s + 1 \<rparr>)"
| "ref_step c RAbort s = None"

text \<open>Calls and the steps of one thread among the others.  A thread that owns the lock may call
  AcquireRef only with EXIT_ON_LOCK, as EndWithException does, and a node other than the lock node
  is released.  A timed wait may end by its timeout, or the timer may have run out at the retry.\<close>

type_synonym ref_system = "ref_shared \<times> (co \<Rightarrow> ref_pc)"

inductive ref_trans :: "ref_system \<Rightarrow> ref_system \<Rightarrow> bool" where
  step: "ref_step c (pc c) s = Some (p, s') \<Longrightarrow> ref_trans (s, pc) (s', pc(c := p))"
| acquire: "pc c = RIdle \<Longrightarrow> ref_trans (s, pc) (s, pc(c := Try False md))"
| acquire_again: "pc c = Own \<Longrightarrow> ref_trans (s, pc) (s, pc(c := Try True EXIT_ON_LOCK))"
| release: "pc c = Own \<Longrightarrow> n \<noteq> Some LOCKNODE \<Longrightarrow> ref_trans (s, pc) (s, pc(c := Rel_check n))"
| timeout: "pc c = Sleep md \<or> pc c = Try False md \<Longrightarrow> ref_trans (s, pc) (s, pc(c := RIdle))"

inductive ref_reach :: "ref_system \<Rightarrow> bool" where
  start: "v \<noteq> Some LOCKNODE \<Longrightarrow> ref_reach (\<lparr> rs_ref = v, rs_owner = None, rs_sem = k \<rparr>, \<lambda>c. RIdle)"
| more: "ref_reach x \<Longrightarrow> ref_trans x y \<Longrightarrow> ref_reach y"

inductive_cases ref_transE: "ref_trans (s, pc) y"

section \<open>The invariant\<close>

fun holds :: "ref_pc \<Rightarrow> bool" where
  "holds Own = True"
| "holds (Try own md) = own"
| "holds (Got own md v) = own"
| "holds (Rel_check n) = True"
| "holds (Rel_unlock n) = True"
| "holds p = False"

fun critical :: "ref_pc \<Rightarrow> bool" where
  "critical (Got own md v) = (own \<or> v \<noteq> Some LOCKNODE)"
| "critical (Rel_set n) = True"
| "critical p = holds p"

fun pc_ok :: "ref_pc \<Rightarrow> bool" where
  "pc_ok (Try own md) = (own \<longrightarrow> md = EXIT_ON_LOCK)"
| "pc_ok (Got own md v) = (own \<longrightarrow> md = EXIT_ON_LOCK \<and> v = Some LOCKNODE)"
| "pc_ok (Rel_check n) = (n \<noteq> Some LOCKNODE)"
| "pc_ok (Rel_unlock n) = (n \<noteq> Some LOCKNODE)"
| "pc_ok (Rel_set n) = (n \<noteq> Some LOCKNODE)"
| "pc_ok RAbort = False"
| "pc_ok p = True"

text \<open>Exactly when the reference is the lock node there is a critical thread, and only one; the owner
  field names the thread that holds the lock.\<close>

definition ref_inv :: "ref_system \<Rightarrow> bool" where
  "ref_inv x \<longleftrightarrow> (\<forall>c. pc_ok (snd x c)) \<and> (\<forall>c. rs_owner (fst x) = Some c \<longleftrightarrow> holds (snd x c)) \<and>
     (rs_ref (fst x) = Some LOCKNODE \<longleftrightarrow> (\<exists>c. critical (snd x c))) \<and>
     (\<forall>c d. critical (snd x c) \<longrightarrow> critical (snd x d) \<longrightarrow> c = d)"

lemma holds_critical: "holds p \<Longrightarrow> critical p"
  by (cases p) simp_all

text \<open>The five ways in which a step changes the roles: none, entering and leaving the critical
  section, and taking and giving up the ownership inside it.\<close>

lemma ref_inv_stay:
  assumes "ref_inv (s, pc)" "pc_ok p" "holds p = holds (pc c)" "critical p = critical (pc c)"
    and "rs_owner s' = rs_owner s" "rs_ref s' = Some LOCKNODE \<longleftrightarrow> rs_ref s = Some LOCKNODE"
  shows "ref_inv (s', pc(c := p))"
  using assms by (auto simp: ref_inv_def)

lemma ref_inv_enter:
  assumes "ref_inv (s, pc)" "pc_ok p" "rs_ref s \<noteq> Some LOCKNODE" "critical p" "\<not> holds p"
    and "rs_owner s' = rs_owner s" "rs_ref s' = Some LOCKNODE"
  shows "ref_inv (s', pc(c := p))"
proof -
  have none: "\<not> critical (pc d)" "\<not> holds (pc d)" for d
    using assms(1,3) holds_critical by (auto simp: ref_inv_def)
  have "rs_owner s \<noteq> Some d" for d using assms(1) none by (simp add: ref_inv_def)
  then show ?thesis using assms(1,2,4-7) none by (auto simp: ref_inv_def)
qed

lemma ref_inv_take:
  assumes "ref_inv (s, pc)" "pc_ok p" "critical (pc c)" "rs_owner s = None" "holds p"
    and "rs_owner s' = Some c" "rs_ref s' = rs_ref s"
  shows "ref_inv (s', pc(c := p))"
proof -
  have "\<not> holds (pc d)" for d using assms(1,4) by (auto simp: ref_inv_def)
  then show ?thesis using assms holds_critical [OF assms(5)] by (auto simp: ref_inv_def)
qed

lemma ref_inv_give:
  assumes "ref_inv (s, pc)" "pc_ok p" "rs_owner s = Some c" "\<not> holds p" "critical p"
    and "rs_owner s' = None" "rs_ref s' = rs_ref s"
  shows "ref_inv (s', pc(c := p))"
proof -
  have c: "holds (pc c)" "critical (pc c)" using assms(1,3) holds_critical by (auto simp: ref_inv_def)
  have "\<not> holds (pc d)" if "d \<noteq> c" for d using assms(1,3) that by (auto simp: ref_inv_def)
  then show ?thesis using assms c by (auto simp: ref_inv_def)
qed

lemma ref_inv_leave:
  assumes "ref_inv (s, pc)" "pc_ok p" "critical (pc c)" "\<not> holds (pc c)" "\<not> critical p"
    and "rs_owner s' = rs_owner s" "rs_ref s' \<noteq> Some LOCKNODE"
  shows "ref_inv (s', pc(c := p))"
proof -
  have "\<not> critical (pc d)" if "d \<noteq> c" for d using assms(1,3) that by (auto simp: ref_inv_def)
  then show ?thesis using assms holds_critical [of p] by (auto simp: ref_inv_def)
qed

lemma ref_inv_facts:
  assumes "ref_inv (s, pc)"
  shows "pc_ok (pc c)" "rs_owner s = Some c \<longleftrightarrow> holds (pc c)" "critical (pc c) \<Longrightarrow> rs_ref s = Some LOCKNODE"
    and "critical (pc c) \<Longrightarrow> \<not> holds (pc c) \<Longrightarrow> rs_owner s = None"
proof -
  show "pc_ok (pc c)" "rs_owner s = Some c \<longleftrightarrow> holds (pc c)" "critical (pc c) \<Longrightarrow> rs_ref s = Some LOCKNODE"
    using assms by (auto simp: ref_inv_def)
  assume c: "critical (pc c)" "\<not> holds (pc c)"
  have "\<not> holds (pc d)" for d
    using assms c holds_critical [of "pc d"] by (cases "d = c") (auto simp: ref_inv_def)
  then show "rs_owner s = None" using assms by (cases "rs_owner s") (auto simp: ref_inv_def)
qed

lemma ref_inv_step:
  assumes inv: "ref_inv (s, pc)" and st: "ref_step c (pc c) s = Some (p, s')"
  shows "ref_inv (s', pc(c := p))"
proof (cases "pc c")
  case (Try own md)
  note f = ref_inv_facts [OF inv, of c, unfolded Try]
  have r: "p = Got own md (rs_ref s)" "s' = s\<lparr> rs_ref := Some LOCKNODE \<rparr>"
    using st by (simp_all add: Try ref_exchange_def)
  show ?thesis
  proof (cases "rs_ref s = Some LOCKNODE")
    case True
    show ?thesis by (rule ref_inv_stay [OF inv]) (use f True in \<open>auto simp: r Try\<close>)
  next
    case False
    show ?thesis by (rule ref_inv_enter [OF inv _ False]) (use f False in \<open>auto simp: r\<close>)
  qed
next
  case (Got own md v)
  note f = ref_inv_facts [OF inv, of c, unfolded Got]
  consider (lock) "v = Some LOCKNODE" | (fin) "v \<noteq> Some LOCKNODE" "v = Some ENDNODE"
    | (exit) "v \<noteq> Some LOCKNODE" "v \<noteq> Some ENDNODE" "exits_on md v"
    | (wait) "v \<noteq> Some LOCKNODE" "v \<noteq> Some ENDNODE" "\<not> exits_on md v" by blast
  then show ?thesis
  proof cases
    case lock
    then have "s' = s" "p = (if own then Own else Try own md)" using st f by (auto simp: Got IS_LOCKNODE_def)
    then show ?thesis using lock f by (intro ref_inv_stay [OF inv]) (auto simp: Got)
  next
    case fin
    then have "s' = s\<lparr> rs_ref := v \<rparr>" "p = RIdle" using st by (auto simp: Got IS_LOCKNODE_def)
    then show ?thesis using fin f by (intro ref_inv_leave [OF inv]) (auto simp: Got)
  next
    case exit
    then have "s' = s\<lparr> rs_owner := Some c \<rparr>" "p = Own" "rs_owner s = None" using st f by (auto simp: Got IS_LOCKNODE_def)
    then show ?thesis using exit f by (intro ref_inv_take [OF inv]) (auto simp: Got)
  next
    case wait
    then have "s' = s\<lparr> rs_ref := v \<rparr>" "p = Sleep md" using st by (auto simp: Got IS_LOCKNODE_def)
    then show ?thesis using wait f by (intro ref_inv_leave [OF inv]) (auto simp: Got)
  qed
next
  case (Rel_check n)
  note f = ref_inv_facts [OF inv, of c, unfolded Rel_check]
  then have "s' = s" "p = Rel_unlock n" using st by (auto simp: Rel_check IS_LOCKNODE_def)
  then show ?thesis using f by (intro ref_inv_stay [OF inv]) (auto simp: Rel_check)
next
  case (Rel_unlock n)
  note f = ref_inv_facts [OF inv, of c, unfolded Rel_unlock]
  then have "s' = s\<lparr> rs_owner := None \<rparr>" "p = Rel_set n" using st by (auto simp: Rel_unlock)
  then show ?thesis using f by (intro ref_inv_give [OF inv]) auto
next
  case (Rel_set n)
  note f = ref_inv_facts [OF inv, of c, unfolded Rel_set]
  have "s' = s\<lparr> rs_ref := n \<rparr>" "p = Rel_signal" using st by (auto simp: Rel_set)
  then show ?thesis using f by (intro ref_inv_leave [OF inv]) (auto simp: Rel_set)
next
  case (Sleep md)
  then have "s' = s\<lparr> rs_sem := rs_sem s - 1 \<rparr>" "p = Wake md" using st by (auto split: if_splits)
  then show ?thesis by (intro ref_inv_stay [OF inv]) (auto simp: Sleep)
next
  case (Wake md)
  then have "s' = s\<lparr> rs_sem := rs_sem s + 1 \<rparr>" "p = Try False md" using st by auto
  then show ?thesis by (intro ref_inv_stay [OF inv]) (auto simp: Wake)
next
  case Rel_signal
  then have "s' = s\<lparr> rs_sem := rs_sem s + 1 \<rparr>" "p = RIdle" using st by auto
  then show ?thesis by (intro ref_inv_stay [OF inv]) (auto simp: Rel_signal)
qed (use st in simp_all)

lemma ref_inv_trans: "ref_trans x y \<Longrightarrow> ref_inv x \<Longrightarrow> ref_inv y"
proof (induction rule: ref_trans.induct)
  case (step c pc s p s')
  then show ?case by (intro ref_inv_step) auto
next
  case (acquire pc c s md)
  then show ?case by (intro ref_inv_stay [OF acquire(2)]) auto
next
  case (acquire_again pc c s)
  then show ?case by (intro ref_inv_stay [OF acquire_again(2)]) auto
next
  case (release pc c n s)
  then show ?case by (intro ref_inv_stay [OF release(3)]) auto
next
  case (timeout pc c md s)
  then show ?case by (intro ref_inv_stay [OF timeout(2)]) auto
qed

lemma ref_reach_inv: "ref_reach x \<Longrightarrow> ref_inv x"
proof (induction rule: ref_reach.induct)
  case (start v k)
  then show ?case by (simp add: ref_inv_def)
next
  case (more x y)
  then show ?case using ref_inv_trans by blast
qed

text \<open>C5: For every interleaving of threads that call AcquireRef and ReleaseRef, no
  assertion of the protocol fails, at most one thread uses the tree between the two calls and it
  is the owner of the lock node, and whenever the reference is the lock node some thread uses the
  tree or can take a step, so that the lock is never lost.\<close>

theorem ref_mutual_exclusion:
  assumes "ref_reach (s, pc)"
  shows "{c. pc c = RAbort} = {} \<and> (\<exists>c. {d. pc d = Own} \<subseteq> {c}) \<and>
    {c. pc c = Own} \<subseteq> {c. rs_owner s = Some c \<and> rs_ref s = Some LOCKNODE} \<and>
    (rs_ref s = Some LOCKNODE \<longrightarrow> (\<exists>c. pc c = Own \<or> ref_step c (pc c) s \<noteq> None))"
proof -
  have inv: "ref_inv (s, pc)" using ref_reach_inv [OF assms] .
  note f = ref_inv_facts [OF inv]
  have one: "c = d" if "pc c = Own" "pc d = Own" for c d
  proof -
    have "critical (pc c)" "critical (pc d)" using that by simp_all
    then show ?thesis using inv by (auto simp: ref_inv_def)
  qed
  have "\<exists>c. {d. pc d = Own} \<subseteq> {c}" using one by (cases "\<exists>c. pc c = Own") auto
  moreover have "pc c \<noteq> RAbort" for c using f(1) [of c] by auto
  moreover have "rs_owner s = Some c \<and> rs_ref s = Some LOCKNODE" if "pc c = Own" for c
    using f(2,3) [of c] that by simp
  moreover have "\<exists>c. pc c = Own \<or> ref_step c (pc c) s \<noteq> None" if lock: "rs_ref s = Some LOCKNODE"
  proof -
    obtain c where c: "critical (pc c)" using inv lock by (auto simp: ref_inv_def)
    then show ?thesis by (intro exI [of _ c]) (cases "pc c", auto simp: Let_def split: prod.splits)
  qed
  ultimately show ?thesis by auto
qed


definition two_threads :: "co \<Rightarrow> ref_pc" where
  "two_threads = (\<lambda>c. RIdle)(Co 0 0 := Own)"

lemma two_threads_reach: "ref_reach (\<lparr> rs_ref = Some LOCKNODE, rs_owner = Some (Co 0 0), rs_sem = 0 \<rparr>, two_threads)"
proof -
  let ?c = "Co 0 0" and ?s = "\<lambda>r ow. \<lparr> rs_ref = r, rs_owner = ow, rs_sem = 0 \<rparr>"
  have 0: "ref_reach (?s None None, \<lambda>c. RIdle)" by (rule ref_reach.start) simp
  have 1: "ref_reach (?s None None, (\<lambda>c. RIdle)(?c := Try False EXIT_ON_EMPTY))"
    by (rule ref_reach.more [OF 0 ref_trans.acquire]) simp
  have 2: "ref_reach (?s (Some LOCKNODE) None, ((\<lambda>c. RIdle)(?c := Try False EXIT_ON_EMPTY))(?c := Got False EXIT_ON_EMPTY None))"
    by (rule ref_reach.more [OF 1 ref_trans.step]) (simp add: ref_exchange_def)
  have 3: "ref_reach (?s (Some LOCKNODE) (Some ?c), (((\<lambda>c. RIdle)(?c := Try False EXIT_ON_EMPTY))(?c := Got False EXIT_ON_EMPTY None))(?c := Own))"
    by (rule ref_reach.more [OF 2 ref_trans.step]) (simp add: IS_LOCKNODE_def exits_on_def IS_EMPTY_def)
  then show ?thesis by (simp add: two_threads_def)
qed

theorem ref_mutual_exclusion_witness:
  "{c. two_threads c = RAbort} = {} \<and> (\<exists>c. two_threads c = Own)"
  using ref_mutual_exclusion [OF two_threads_reach] by (auto simp: two_threads_def)

section \<open>The operations of the manager\<close>

definition ref_view :: "mgr \<Rightarrow> ref_shared" where
  "ref_view m = \<lparr> rs_ref = atomic_ref m, rs_owner = lock_owner m, rs_sem = sem_ref m \<rparr>"

definition put_view :: "ref_shared \<Rightarrow> mgr \<Rightarrow> mgr" where
  "put_view s m = m\<lparr> atomic_ref := rs_ref s, sem_ref := rs_sem s, lock_owner := rs_owner s \<rparr>"

fun try_result :: "noderef option \<Rightarrow> ref_pc \<Rightarrow> acquire_step option" where
  "try_result v RAbort = None"
| "try_result v (Try own md) = Some Spin"
| "try_result v (Sleep md) = Some Wait"
| "try_result v p = Some (Acquired v)"

text \<open>Without a step of another thread in between, the exchange and the step after it are one
  iteration of AcquireRef, and the steps of a release are ReleaseRef of a node that is not added to
  the path.\<close>

definition try_steps :: "co \<Rightarrow> bool \<Rightarrow> AcquireRefMode \<Rightarrow> ref_shared \<Rightarrow> (ref_pc \<times> ref_shared) option" where
  "try_steps c own md s = do { (p, s1) \<leftarrow> ref_step c (Try own md) s; ref_step c p s1 }"

definition release_steps :: "co \<Rightarrow> noderef option \<Rightarrow> ref_shared \<Rightarrow> (ref_pc \<times> ref_shared) option" where
  "release_steps c n s = do {
     (p, s1) \<leftarrow> ref_step c (Rel_check n) s;
     (p, s2) \<leftarrow> ref_step c p s1;
     (p, s3) \<leftarrow> ref_step c p s2;
     ref_step c p s3 }"

lemma put_view_upd [simp]:
  "put_view \<lparr> rs_ref = r, rs_owner = ow, rs_sem = sem_ref m \<rparr> m = m\<lparr> atomic_ref := r, lock_owner := ow \<rparr>"
  "m\<lparr> atomic_ref := r, lock_owner := lock_owner m \<rparr> = m\<lparr> atomic_ref := r \<rparr>"
  by (cases m; simp add: put_view_def)+



definition idle_mgr :: mgr where
  "idle_mgr = \<lparr> heap = Map.empty, next_ref = 3, sinfo = (\<lambda>i. \<lparr> si_message = '''', si_choice = None \<rparr>), stat_log = [],
     node_stack = [], stack_index = 0, atomic_ref = None, sem_ref = 0, lock_owner = None, end_exception = [] \<rparr>"


lemma ReleaseRef_refines:
  assumes "IS_ENDNODE m n = Some e"
  shows "map_option ref_view (ReleaseRef c n (-1) m) = map_option snd (release_steps c n (ref_view m))"
proof -
  have "IS_ENDNODE (m\<lparr> lock_owner := x \<rparr>) n = Some e" for x
    using assms by (simp add: IS_ENDNODE_def split: option.splits)
  then show ?thesis
    by (auto simp: ReleaseRef_def release_steps_def ref_view_def OnUnlock_def SetRef_def bump_def safe_assert_def
        IS_LOCKNODE_def Let_def)
qed

end
