(* ===== verification/Tree_Paths.thy ===== *)
theory Tree_Paths
  imports Search_Heap
begin

text \<open>
  Climbing from a location to the root (\<open>ComputePath\<close>) and freeing a subtree (\<open>delete\<close>) on a tree
  that the heap represents.
\<close>

lemma index_from_first:
  "n < length cs \<Longrightarrow> cs ! n = c \<Longrightarrow> (\<And>j. j < n \<Longrightarrow> cs ! j \<noteq> c) \<Longrightarrow> index_from cs c i = i + int n"
proof (induction cs arbitrary: n i)
  case (Cons b cs)
  show ?case
  proof (cases n)
    case 0
    then show ?thesis using Cons.prems by simp
  next
    case (Suc k)
    have "b \<noteq> c" using Cons.prems(3) [of 0] Suc by simp
    moreover have "index_from cs c (i + 1) = i + 1 + int k"
      using Cons.prems Suc by (intro Cons.IH) (simp, simp, use Cons.prems(3) in force)
    ultimately show ?thesis using Suc by simp
  qed
qed simp

lemma locs_snoc:
  assumes "valid_path x (d @ [i])"
  obtains r s k c xs where "sub x d = XN r s k c xs" "i < length xs" "locs x (d @ [i]) = locs x d @ [Loc (Some r) (int i)]"
    "valid_path x d" "sub x (d @ [i]) = xs ! i"
proof -
  have v: "valid_path x d" "valid_path (sub x d) [i]" using assms by (simp_all add: valid_append)
  then obtain r s k c xs where "sub x d = XN r s k c xs" "i < length xs" by (cases "sub x d") auto
  with v show ?thesis by (intro that) (simp_all add: locs_append sub_append)
qed

text \<open>The index of a child in the array of its parent is the one on the path.\<close>

lemma index_of_child:
  assumes "heap_ok (heap m) nr x" "valid_path x d" "sub x d = XN q s k c ys" "j < length ys" "ys ! j = XN r s' k' c' zs"
  shows "index_of m q (Some r) = Some (int j)"
proof -
  obtain p where hq: "heap m q = Some (node_of p (XN q s k c ys))"
    using heap_ok_node(1) [OF assms(1-3)] by blast
  have dist: "distinct (concat (map refs ys))"
    using distinct_sub [OF assms(2)] assms(1,3) by (auto simp: heap_ok_def)
  have "r \<noteq> ENDNODE"
    using heap_ok_node(2) [OF assms(1), of "d @ [j]" r] assms(2-5) by (simp add: valid_append sub_append)
  have "map ptr ys ! n \<noteq> Some r" if "n < j" for n
  proof (cases "ys ! n")
    case (XN r2 s2 k2 c2 zs2)
    have "r \<in> set (refs (ys ! j))" using assms(5) by simp
    from distinct_refs_other [OF dist assms(4) _ _ this, of n] that assms(4) have "r \<notin> set (refs (ys ! n))" by simp
    then show ?thesis using XN that assms(4) by auto
  qed (use that assms(4) \<open>r \<noteq> ENDNODE\<close> in auto)
  then have "index_from (map ptr ys) (Some r) 0 = 0 + int j"
    using assms(4,5) by (intro index_from_first) auto
  then show ?thesis using hq by (simp add: index_of_def)
qed

lemma ComputePath_loop_locs:
  assumes "heap_ok (heap m) nr x" "ptr x = Some ROOTNODE" "x \<noteq> XE"
  shows "valid_path x (d @ [i]) \<Longrightarrow> ComputePath_loop m (last (locs x (d @ [i]))) = Some (rev (locs x (d @ [i])))"
proof (induction d arbitrary: i rule: rev_induct)
  case Nil
  then obtain r s k c xs where
    x: "sub x [] = XN r s k c xs" "locs x ([] @ [i]) = [Loc (Some r) (int i)]" by (cases x) auto
  have "heap m r = Some (node_of None (XN r s k c xs))" "r = ROOTNODE"
    using assms x(1) by (auto simp: heap_ok_def)
  then show ?case using x(2) by (subst ComputePath_loop.simps) (simp add: Loc_def)
next
  case (snoc j d)
  from locs_snoc [OF snoc.prems] obtain r s k c xs where
    r: "sub x (d @ [j]) = XN r s k c xs" "locs x ((d @ [j]) @ [i]) = locs x (d @ [j]) @ [Loc (Some r) (int i)]"
    "valid_path x (d @ [j])" by metis
  from locs_snoc [OF r(3)] obtain q s' k' c' ys where
    q: "sub x d = XN q s' k' c' ys" "j < length ys" "locs x (d @ [j]) = locs x d @ [Loc (Some q) (int j)]"
    "valid_path x d" "sub x (d @ [j]) = ys ! j" by metis
  have "rep (heap m) None x" using assms(1) by (simp add: heap_ok_def)
  from rep_sub [OF this r(3) r(1)] have hr: "heap m r = Some (node_of (Some q) (XN r s k c xs))"
    using q(3) by (auto simp: Loc_def)
  have "index_of m q (Some r) = Some (int j)"
    using index_of_child [OF assms(1) q(4) q(1) q(2), of r s k c xs] q(5) r(1) by metis
  then have "ComputePath_loop m (Loc (Some r) (int i)) = Option.bind (ComputePath_loop m (Loc (Some q) (int j)))
      (\<lambda>rest. Some (Loc (Some r) (int i) # rest))"
    using hr by (subst ComputePath_loop.simps) (simp add: Loc_def)
  then show ?case using snoc.IH [OF r(3)] r(2) q(3) by simp
qed

text \<open>C7: On every tree that the heap represents, ComputePath from the location of a branch
  ends at the root and returns exactly the locations of the path to that branch, from the branch
  up.\<close>

theorem ComputePath_climbs:
  assumes "heap_ok (heap m) nr x" "ptr x = Some ROOTNODE" "x \<noteq> XE" "valid_path x d" "d \<noteq> []"
  shows "ComputePath m (last (locs x d)) = Some (rev (locs x d))"
proof -
  obtain d' i where d: "d = d' @ [i]" using assms(5) by (cases d rule: rev_cases) auto
  from locs_snoc [of x d' i] assms(4) d have "cl_parent (last (locs x d)) \<noteq> None" by (metis Loc_def child_loc.select_convs(1) last_snoc option.simps(3))
  then show ?thesis
    using ComputePath_loop_locs [OF assms(1-3), of d' i] assms(4) d by (simp add: ComputePath_def)
qed

text \<open>C8: The destructor of a node of a represented tree ends without a failed assertion and
  frees exactly the nodes of its subtree, each once; every other node of the heap, the end node
  included, stays as it was.\<close>

theorem delete_frees_subtree:
  assumes "heap_ok (heap t) nr x" "valid_path x d" "sub x d = XN r s k c xs"
  shows "delete_node r t = Some (t\<lparr> heap := heap_minus (heap t) (set (refs (sub x d))) \<rparr>)"
proof -
  have ok: "rep (heap t) None x" "distinct (refs x)" "no_end x" using assms(1) by (auto simp: heap_ok_def)
  obtain e where e: "heap t ENDNODE = Some (end_node e)" using heap_ok_end [OF assms(1)] by blast
  obtain p where "rep (heap t) p (sub x d)" using rep_sub [OF ok(1) assms(2,3)] assms(3) by auto
  moreover have "ENDNODE \<notin> set (refs (sub x d))" using sub_refs [OF assms(2)] assms(1) by (auto simp: heap_ok_def)
  ultimately show ?thesis
    using delete_node_represented [OF _ assms(3) distinct_sub [OF assms(2) ok(2)] no_end_sub [OF ok(3) assms(2)] e]
    by simp
qed


section \<open>A concrete tree\<close>

definition small_xt :: xt where
  "small_xt = XN ROOTNODE 0 KRoot False [XN 3 1 KChoice False [XE, XU]]"

definition small_mgr :: mgr where
  "small_mgr = \<lparr> heap = [ROOTNODE \<mapsto> node_of None small_xt, ENDNODE \<mapsto> end_node None,
       3 \<mapsto> node_of (Some ROOTNODE) (XN 3 1 KChoice False [XE, XU])], next_ref = 4,
     sinfo = (\<lambda>i. \<lparr> si_message = '''', si_choice = Some (False, False, False) \<rparr>), stat_log = [],
     node_stack = [], stack_index = 0, atomic_ref = None, sem_ref = 0, lock_owner = None, end_exception = [] \<rparr>"

lemma small_ok: "heap_ok (heap small_mgr) 4 small_xt"
  by (auto simp: heap_ok_def small_mgr_def small_xt_def ROOTNODE_def ENDNODE_def LOCKNODE_def)

theorem ComputePath_climbs_witness:
  "ComputePath small_mgr (Loc (Some 3) 1) = Some [Loc (Some 3) 1, Loc (Some ROOTNODE) 0]"
  using ComputePath_climbs [OF small_ok, of "[0, 1]"] by (simp add: small_xt_def)

theorem delete_frees_subtree_witness:
  "delete_node 3 small_mgr = Some (small_mgr\<lparr> heap := heap_minus (heap small_mgr) {3} \<rparr>)"
  using delete_frees_subtree [OF small_ok, of "[0]" 3 1 KChoice False "[XE, XU]"] by (simp add: small_xt_def)

end
