(* ===== verification/Pred_Types.thy ===== *)
theory Pred_Types
  imports Pin_Monitor
begin

text \<open>
  The types of auxiliary variables.  The C++ templates let an operand of a predicate be an auxiliary
  variable only when it has the value type and the undefined value of the variable it is compared with;
  here this is the predicate \<open>well_typed\<close>.  Evaluation and the callbacks keep the auxiliary state well
  formed: no variable holds its undefined value, and no keyed variable has the undefined key.
\<close>

section \<open>Typed predicates\<close>

fun op_typed :: "int \<Rightarrow> opnd \<Rightarrow> bool" where
  "op_typed u (OCell n) = True"
| "op_typed u (OVar v) = (undef0 v = u)"

fun well_typed :: "tpred \<Rightarrow> bool" where
  "well_typed (TPNot p) = well_typed p"
| "well_typed (TPAnd ps) = list_all well_typed ps"
| "well_typed (TPOr ps) = list_all well_typed ps"
| "well_typed (TPAll p) = well_typed p"
| "well_typed (TPFirst n p) = well_typed p"
| "well_typed (TPAux0 v a tvar) = (case a of None \<Rightarrow> True | Some x \<Rightarrow> op_typed (undef0 v) x)"
| "well_typed (TPAux1 v k x tvar) = (list_all (op_typed 0) (case k of None \<Rightarrow> [] | Some a \<Rightarrow> [a]) \<and>
     list_all (op_typed 0) (case x of None \<Rightarrow> [] | Some a \<Rightarrow> [a]))"
| "well_typed (TEPlus e r) = well_typed e"
| "well_typed (TEMinus e r) = well_typed e"
| "well_typed p = True"

lemma op_set_ok: "env_ok env \<Longrightarrow> op_typed u a \<Longrightarrow> env_ok (op_set u env a x d)"
  by (cases a) (auto simp: op_set_def env_ok_def aux0_set_ok)

lemma env_ok_parts [simp]: "env_ok (env\<lparr> fired := f \<rparr>) = env_ok env"
  by (simp add: env_ok_def)

lemma eval_aux0_ok:
  "eval_aux0 env t v a tvar = Some (b, env') \<Longrightarrow> env_ok env \<Longrightarrow> well_typed (TPAux0 v a tvar) \<Longrightarrow> env_ok env'"
  by (auto simp: eval_aux0_def Let_def abort_simps op_set_ok split: option.splits if_splits)

lemma eval_aux1_ok:
  "eval_aux1 env t v k x tvar = Some (b, env') \<Longrightarrow> env_ok env \<Longrightarrow> well_typed (TPAux1 v k x tvar) \<Longrightarrow> env_ok env'"
  by (auto simp: eval_aux1_def Let_def abort_simps op_set_ok split: option.splits if_splits)

lemma EvalState_ok:
  "EvalState env t p = Some (b, env') \<Longrightarrow> env_ok env \<Longrightarrow> well_typed p \<Longrightarrow> env_ok env'"
  "eval_all env t ps = Some (b, env') \<Longrightarrow> env_ok env \<Longrightarrow> list_all well_typed ps \<Longrightarrow> env_ok env'"
  "eval_any env t ps = Some (b, env') \<Longrightarrow> env_ok env \<Longrightarrow> list_all well_typed ps \<Longrightarrow> env_ok env'"
proof (induction env t p and env t ps and env t ps arbitrary: b env' and b env' and b env'
       rule: EvalState_eval_all_eval_any.induct)
  case (19 env t p ps)
  then show ?case by (fastforce simp: bind_eq_Some_conv split: if_splits)
next
  case (21 env t p ps)
  then show ?case by (fastforce simp: bind_eq_Some_conv split: if_splits)
qed (auto simp: bind_eq_Some_conv split: if_splits dest: eval_aux0_ok eval_aux1_ok eval_in_func_frame with_env_frame)

text \<open>The builders of api.h build typed predicates.\<close>

lemma builders_typed:
  "well_typed (fst (api_READS x t env))" "well_typed (fst (api_WRITES x t env))" "well_typed (fst (api_ACCESSES x t env))"
  "well_typed (fst (api_ENTERS f t env))" "well_typed (fst (api_RETURNS f t env))" "well_typed (fst (api_CALLS f t env))"
  "well_typed (fst (api_ENDS t env))"
  by (auto simp: api_READS_def api_WRITES_def api_ACCESSES_def api_ENTERS_def api_RETURNS_def api_CALLS_def api_ENDS_def
      aux1_TP0_def aux1_TP1_def aux1_TP3_def aux0_TP1_def new_const_def split: prod.splits)

section \<open>Callbacks\<close>

definition ctrl_state :: "'a ctrl \<Rightarrow> 'a" where
  "ctrl_state r = (case r of Resumes s \<Rightarrow> s | Unwinds e s \<Rightarrow> s | Stuck s \<Rightarrow> s)"

text \<open>Besides the auxiliary state, a property \<open>J\<close> of the rest of the state that no callback touches itself.\<close>

definition ok_with :: "('a pin_state_scheme \<Rightarrow> bool) \<Rightarrow> 'a pin_state_scheme \<Rightarrow> bool" where
  "ok_with J s \<longleftrightarrow> pin_ok s \<and> J s"

definition keeps_ok :: "('a pin_state_scheme \<Rightarrow> bool) \<Rightarrow> 'a pin_op \<Rightarrow> bool" where
  "keeps_ok J f \<longleftrightarrow> (\<forall>s r. ok_with J s \<longrightarrow> f s = Some r \<longrightarrow> ok_with J (ctrl_state r))"

lemma ctrl_state_simps [simp]: "ctrl_state (Resumes s) = s" "ctrl_state (Unwinds e s) = s" "ctrl_state (Stuck s) = s"
  by (simp_all add: ctrl_state_def)

locale outer_state =
  fixes J :: "'a pin_state_scheme \<Rightarrow> bool"
  assumes J_env: "J (s\<lparr> pm_env := e \<rparr>) = J s" and J_loc: "J (s\<lparr> pm_srcloc := l \<rparr>) = J s"
    and J_info: "J (s\<lparr> pm_info := i \<rparr>) = J s" and J_status: "J (s\<lparr> pm_status := st \<rparr>) = J s"
    and J_enabled: "J (s\<lparr> pm_enabled := b \<rparr>) = J s" and J_symbols: "J (s\<lparr> pm_symbols := m \<rparr>) = J s"
    and J_pintool: "J (s\<lparr> pm_pintool := fs \<rparr>) = J s" and J_start: "J (s\<lparr> pm_sem_test_start := n \<rparr>) = J s"
begin

lemmas J_simps [simp] = J_env J_loc J_info J_status J_enabled J_symbols J_pintool J_start

lemma ok_env: "ok_with J (s\<lparr> pm_env := e \<rparr>) \<longleftrightarrow> env_ok e \<and> J s" "ok_with J (s\<lparr> pm_srcloc := l \<rparr>) = ok_with J s"
  by (simp_all add: ok_with_def)

declare ok_env(2) [simp]

lemma keeps_okI: "(\<And>s r. ok_with J s \<Longrightarrow> f s = Some r \<Longrightarrow> ok_with J (ctrl_state r)) \<Longrightarrow> keeps_ok J f"
  by (simp add: keeps_ok_def)

lemma keeps_okD: "keeps_ok J f \<Longrightarrow> f s = Some r \<Longrightarrow> ok_with J s \<Longrightarrow> ok_with J (ctrl_state r)"
  by (simp add: keeps_ok_def)

lemma keeps_okD_loc: "keeps_ok J f \<Longrightarrow> f (s\<lparr> pm_srcloc := l \<rparr>) = Some r \<Longrightarrow> ok_with J s \<Longrightarrow> ok_with J (ctrl_state r)"
  by (rule keeps_okD [of f "s\<lparr> pm_srcloc := l \<rparr>"]) simp_all

lemma trace_info_ok: "trace_info c i s = Some s' \<Longrightarrow> ok_with J s \<Longrightarrow> ok_with J s'"
  by (auto simp: trace_info_def ok_with_def pin_ok_def bind_eq_Some_conv split: if_splits)

lemma set1_pin_ok: "set1_pin v k x t s = Some s' \<Longrightarrow> ok_with J s \<Longrightarrow> ok_with J s'"
  by (auto simp: set1_pin_def ok_with_def pin_ok_def bind_eq_Some_conv intro: set1_ok)

lemma ok_more [simp]: "ok_with J (s\<lparr> pm_info := i \<rparr>) = ok_with J s" "ok_with J (s\<lparr> pm_status := st \<rparr>) = ok_with J s"
    "ok_with J (s\<lparr> pm_enabled := b \<rparr>) = ok_with J s" "ok_with J (s\<lparr> pm_symbols := m \<rparr>) = ok_with J s" "ok_with J (notify_pin f s) = ok_with J s"
    "ok_with J (s\<lparr> pm_sem_test_start := n \<rparr>) = ok_with J s" "ok_with J (set_loc g h l s) = ok_with J s"
  by (simp_all add: ok_with_def pin_ok_def notify_pin_def set_loc_def)

lemmas ok_steps = trace_info_ok set1_pin_ok

lemma mem_ok: "keeps_ok J (PM_MemWrite c t a sz loc)" "keeps_ok J (PM_MemRead c t a sz loc)" "keeps_ok J PM_MemAccessAfter"
  by (auto simp: PM_MemWrite_def PM_MemRead_def PM_MemAccessAfter_def bind_eq_Some_conv intro!: keeps_okI dest!: ok_steps)

lemma before_ok: "keeps_ok J oct \<Longrightarrow> keeps_ok J (PM_MemAccessBefore oct loc)"
  by (auto simp: PM_MemAccessBefore_def intro!: keeps_okI elim: keeps_okD_loc)

lemma enter_ok: "keeps_ok J oct \<Longrightarrow> keeps_ok J (PM_FuncEnter c oct t a loc x0 x1)"
  by (auto simp: PM_FuncEnter_def bind_eq_Some_conv intro!: keeps_okI dest!: ok_steps elim: keeps_okD_loc)

lemma call_ok: "keeps_ok J oct \<Longrightarrow> keeps_ok J (PM_FuncCall c oct t src target direct loc1 loc2 x0 x1)"
  by (auto simp: PM_FuncCall_def bind_eq_Some_conv intro!: keeps_okI dest!: ok_steps elim: keeps_okD_loc)

lemma return_after_ok: "PM_FuncReturn_after t a s = Some s' \<Longrightarrow> ok_with J s \<Longrightarrow> ok_with J s'"
  by (auto simp: PM_FuncReturn_after_def bind_eq_Some_conv dest!: ok_steps split: if_splits)

lemma return_ok:
  assumes "keeps_ok J oct"
  shows "keeps_ok J (PM_FuncReturn c oct t a loc v)"
proof (rule keeps_okI)
  fix s r assume ok: "ok_with J s" and r: "PM_FuncReturn c oct t a loc v s = Some r"
  let ?k = "\<lambda>r1. case r1 of Unwinds e s4 \<Rightarrow> Some (Unwinds e s4) | Stuck s4 \<Rightarrow> Some (Stuck s4)
      | Resumes s4 \<Rightarrow> do { s5 \<leftarrow> PM_FuncReturn_after t a s4; Some (Resumes s5) }"
  obtain s1 s2 s3 r1 where "trace_info c (do { f \<leftarrow> funcname_of loc;
       Some (''FuncReturn by '' @ to_string t @ '' from '' @ f @ ''('' @ hex a @ '') with ret '' @ nat_to_string (unat v)) }) s = Some s1"
    and "set1_pin aux1name.Returns a 1 t s1 = Some s2" "set1_pin RetVal a (uint v) t s2 = Some s3"
    and r1: "oct (s3\<lparr> pm_srcloc := loc \<rparr>) = Some r1" "?k r1 = Some r"
    using r by (auto simp only: PM_FuncReturn_def bind_eq_Some_conv)
  then have "ok_with J s3" using ok ok_steps by blast
  then have "ok_with J (ctrl_state r1)" by (rule keeps_okD_loc [OF assms r1(1)])
  then show "ok_with J (ctrl_state r)"
    using r1(2) by (cases r1) (auto simp: bind_eq_Some_conv dest: return_after_ok)
qed

lemma thread_end_ok:
  assumes "keeps_ok J oct"
  shows "keeps_ok J (PM_ThreadEnd c oct t)"
proof (rule keeps_okI)
  fix s r assume ok: "ok_with J s" and r: "PM_ThreadEnd c oct t s = Some r"
  obtain s1 r1 where s1: "trace_info c (Some (''ThreadEnd by '' @ to_string t)) s = Some s1"
      "oct (s1\<lparr> pm_env := set0 Ends 1 t (pm_env s1) \<rparr>) = Some r1"
    and r1: "(case r1 of Unwinds e s2 \<Rightarrow> Some (Unwinds e s2) | Stuck s2 \<Rightarrow> Some (Stuck s2)
      | Resumes s2 \<Rightarrow> do { b2 \<leftarrow> aux0_isset 0 (aux0 (pm_env s2) Ends) t; safe_assert b2; Some (Resumes s2) }) = Some r"
    using r by (auto simp only: PM_ThreadEnd_def bind_eq_Some_conv)
  have "ok_with J (s1\<lparr> pm_env := set0 Ends 1 t (pm_env s1) \<rparr>)"
    using trace_info_ok [OF s1(1) ok] by (simp add: ok_with_def pin_ok_def set0_ok)
  then have "ok_with J (ctrl_state r1)" by (rule keeps_okD [OF assms s1(2)])
  then show "ok_with J (ctrl_state r)"
    using r1 by (cases r1) (auto simp: bind_eq_Some_conv)
qed

lemma at_pc_ok:
  assumes "keeps_ok J oct"
  shows "keeps_ok J (PM_AtPc c oct t pc loc)"
proof (rule keeps_okI)
  fix s r assume ok: "ok_with J s" and r: "PM_AtPc c oct t pc loc s = Some r"
  obtain s1 where s1: "trace_info c (Some (''AtPc by '' @ to_string t @ '' at '' @ to_string pc)) s = Some s1"
      "oct (s1\<lparr> pm_env := set0 AtPc 1 t (set0 Pc pc t (pm_env s1)), pm_srcloc := loc \<rparr>) = Some r"
    using r by (auto simp only: PM_AtPc_def bind_eq_Some_conv Let_def)
  have "ok_with J (s1\<lparr> pm_env := set0 AtPc 1 t (set0 Pc pc t (pm_env s1)), pm_srcloc := loc \<rparr>)"
    using trace_info_ok [OF s1(1) ok] by (simp add: ok_with_def pin_ok_def set0_ok)
  then show "ok_with J (ctrl_state r)" by (rule keeps_okD [OF assms s1(2)])
qed

lemma guarded_ok: "keeps_ok J f \<Longrightarrow> ok_with J s \<Longrightarrow> guarded b f s = Some r \<Longrightarrow> ok_with J (ctrl_state r)"
  by (auto simp: guarded_def elim: keeps_okD split: if_splits)

lemma with_current_ok:
  assumes "\<And>t. keeps_ok J (f t)"
  shows "keeps_ok J (with_current who f)"
proof (rule keeps_okI)
  fix s r assume "ok_with J s" "with_current who f s = Some r"
  then show "ok_with J (ctrl_state r)" using keeps_okD [OF assms] by (auto simp: with_current_def bind_eq_Some_conv)
qed

lemmas callback_ok = before_ok enter_ok call_ok return_ok thread_end_ok at_pc_ok

lemma finish_ok: "ok_with J s \<Longrightarrow> ok_with J (pin_FinishControlledTransition t s)"
  by (simp add: pin_FinishControlledTransition_def ok_with_def pin_ok_def AuxState_Reset_ok)

lemma enable_ok [simp]: "ok_with J (Pin_Enable c s) = ok_with J s" "ok_with J (Pin_Disable c s) = ok_with J s"
  by (simp_all add: Pin_Enable_def Pin_Disable_def)

lemma symbol_ok: "AddressOfSymbol_set nm a s = Some s' \<Longrightarrow> ok_with J s \<Longrightarrow> ok_with J s'"
  by (auto simp: AddressOfSymbol_set_def bind_eq_Some_conv)

lemma handle_call_ok:
  assumes "keeps_ok J oct" "keeps_ok J end_test"
  shows "keeps_ok J (handle_call c oct end_test who x)"
proof (rule keeps_okI)
  fix s r assume ok: "ok_with J s" and r: "handle_call c oct end_test who x s = Some r"
  have g: "ok_with J (ctrl_state r)" if "guarded b (with_current who f) s = Some r" "\<And>t. keeps_ok J (f t)" for b f
    using guarded_ok [OF with_current_ok ok] that by blast
  have e: "keeps_ok J (\<lambda>s. PM_ThreadEnd c oct t (set_loc f k l s))" for t f k l
    using thread_end_ok [OF assms(1), of c t] by (auto intro!: keeps_okI elim: keeps_okD)
  show "ok_with J (ctrl_state r)"
  proof (cases x)
    case IEndTest
    then show ?thesis using r ok keeps_okD [OF assms(2)] by (auto split: if_splits)
  next
    case (IStartInstrument f k l)
    then show ?thesis using r by (auto intro!: g keeps_okI)
  next
    case (IEndInstrument f k l)
    then show ?thesis using r by (auto intro!: g keeps_okI finish_ok)
  qed (use r ok in \<open>auto intro: g callback_ok [OF assms(1)] mem_ok e symbol_ok simp: bind_eq_Some_conv Let_def split: if_splits\<close>)
qed

end

end
