(* ===== verification/Controlled_Events.thy ===== *)
theory Controlled_Events
  imports Pin_Monitor Scenario_DSL
begin

text \<open>
  The controlled transition of a thread, \<open>Scenario::OnControlledTransition\<close> of scenario.cpp, as the
  operation in which the callbacks of Pin_Monitor end: the thread looks at the node that the script
  has put into the reference, evaluates it on the auxiliary state that the callback has recorded,
  consumes it or not, and goes on, or waits for the next node.
\<close>

section \<open>The state of a callback with the execution tree\<close>

record live = pin_state +
  lv_mgr :: mgr
  lv_next_tv :: tvref

definition live_world :: "live \<Rightarrow> world" where
  "live_world s = \<lparr> w_mgr = lv_mgr s, w_env = pm_env s, w_next_tv = lv_next_tv s \<rparr>"

definition put_world :: "world \<Rightarrow> live \<Rightarrow> live" where
  "put_world w s = s\<lparr> pm_env := w_env w, lv_mgr := w_mgr w, lv_next_tv := w_next_tv w \<rparr>"

text \<open>What the other threads do in one round of the loop: before the thread has the reference, while
  it waits for the reference, and whether its wait for the node to be consumed ends by the timeout.\<close>

record others =
  ot_before :: "world \<Rightarrow> world"
  ot_steps :: "(mgr \<Rightarrow> mgr) list"
  ot_timeout :: bool

section \<open>The loop\<close>

text \<open>\<open>prev\<close> is \<open>prev_unsat_node\<close>: a node that the thread has seen must not come again without the
  timeout in between.  When the list of rounds ends, the thread waits for ever.  \<open>viol\<close> is the text of
  the violated assertions.\<close>

fun oct_loop :: "tpred list \<Rightarrow> tpred list \<Rightarrow> string \<Rightarrow> co \<Rightarrow> noderef option \<Rightarrow> others list \<Rightarrow> live \<Rightarrow> live ctrl option" where
  "oct_loop assertions constraints viol c prev [] s = Some (Stuck s)"
| "oct_loop assertions constraints viol c prev (ot # ots) s =
     (let s0 = put_world (ot_before ot (live_world s)) s in
      case AcquireRef EXIT_ON_FULL c False (ot_steps ot) (lv_mgr s0) of
        None \<Rightarrow> None
      | Some (Throws e, m) \<Rightarrow> Some (Unwinds e (s0\<lparr> lv_mgr := m \<rparr>))
      | Some (Blocked, m) \<Rightarrow> Some (Stuck (s0\<lparr> lv_mgr := m \<rparr>))
      | Some (outcome.Returns n, m) \<Rightarrow> do {
          let s1 = s0\<lparr> lv_mgr := m \<rparr>;
          fin \<leftarrow> IS_ENDNODE m n;
          (if fin then Some (Resumes s1)
           else do {
             r \<leftarrow> safe_notnull n;
             safe_assert (\<not> IS_EMPTY n \<and> \<not> IS_LOCKNODE n);
             safe_assert (n \<noteq> prev);
             (res, w) \<leftarrow> controlled_round assertions constraints c r (live_world s1);
             let s2 = put_world w s1;
             (case res of
                Leave \<Rightarrow> Some (Resumes s2)
              | Violation \<Rightarrow> Some (Unwinds (TRIGGER_ASSERTION_VIOLATION 0 viol '''' '''' 0) s2)
              | NextNode \<Rightarrow> oct_loop assertions constraints viol c n ots s2
              | WaitConsumed \<Rightarrow>
                  oct_loop assertions constraints viol c (if ot_timeout ot then None else n) ots s2) }) })"

declare oct_loop.simps(2) [simp del]

definition OnControlledTransition ::
  "options \<Rightarrow> tpred list \<Rightarrow> tpred list \<Rightarrow> string \<Rightarrow> co \<Rightarrow> others list \<Rightarrow> live \<Rightarrow> live ctrl option" where
  "OnControlledTransition opts assertions constraints viol c ots s = do {
     safe_check (\<not> RunUncontrolled opts);
     (if pm_status s \<noteq> ENABLED then Some (Resumes s)
      else do {
        r \<leftarrow> oct_loop assertions constraints viol c None ots (s\<lparr> pm_status := BLOCKED \<rparr>);
        Some (case r of
            Resumes s1 \<Rightarrow> Resumes (pin_FinishControlledTransition (co_tid c) s1)
          | Unwinds e s1 \<Rightarrow> Unwinds e s1
          | Stuck s1 \<Rightarrow> Stuck s1) }) }"

section \<open>Offering and consuming a transition\<close>

definition quiet :: others where
  "quiet = \<lparr> ot_before = (\<lambda>w. w), ot_steps = [], ot_timeout = False \<rparr>"

text \<open>The script has released the new node \<open>r\<close>, and the path ends in an open branch.\<close>

definition offered :: "mgr \<Rightarrow> noderef \<Rightarrow> node_kind \<Rightarrow> bool" where
  "offered m r k \<longleftrightarrow> lock_owner m = None \<and> atomic_ref m = Some r \<and> r \<noteq> LOCKNODE \<and>
     (case heap m r of None \<Rightarrow> False | Some nd \<Rightarrow> n_kind nd = k \<and> length (n_children nd) = 1) \<and>
     node_stack m \<noteq> [] \<and> stack_index m = length (node_stack m) \<and>
     (case cl_parent (last (node_stack m)) of None \<Rightarrow> False | Some q \<Rightarrow>
       q \<noteq> r \<and> (case heap m q of None \<Rightarrow> False | Some qd \<Rightarrow>
         check_index qd (cl_index (last (node_stack m))) \<and>
         n_children qd ! nat (cl_index (last (node_stack m))) = None))"

lemma AcquireRef_full:
  assumes "offered m r k" "\<not> is_end_kind k"
  shows "AcquireRef EXIT_ON_FULL c False es m
    = Some (outcome.Returns (Some r), m\<lparr> atomic_ref := Some LOCKNODE, lock_owner := Some c \<rparr>)"
  using assms
  by (auto simp: offered_def AcquireRef_def AcquireRef_loop.simps [of _ _ _ False] AcquireRef_try_def SetRef_def
      OnLock_def IS_LOCKNODE_def IS_EMPTY_def IS_ENDNODE_def Let_def split: option.splits)

definition path_ext :: "mgr \<Rightarrow> noderef \<Rightarrow> mgr \<Rightarrow> bool" where
  "path_ext m r m' \<longleftrightarrow> node_stack m' = node_stack m @ [Loc (Some r) 0] \<and> stack_index m' = stack_index m + 1 \<and>
     atomic_ref m' = None \<and> lock_owner m' = None \<and> sem_ref m' = sem_ref m + 1 \<and>
     loc_get m' (last (node_stack m)) = Some (Some r) \<and>
     map_option n_kind (heap m' r) = map_option n_kind (heap m r) \<and>
     map_option n_children (heap m' r) = map_option n_children (heap m r) \<and>
     next_ref m' = next_ref m \<and> dom (heap m') = dom (heap m)"

lemma offeredE:
  assumes "offered m r k"
  obtains nd q i qd where "lock_owner m = None" "atomic_ref m = Some r" "r \<noteq> LOCKNODE" "heap m r = Some nd"
    "n_kind nd = k" "length (n_children nd) = 1" "node_stack m \<noteq> []" "stack_index m = length (node_stack m)"
    "last (node_stack m) = Loc (Some q) i" "q \<noteq> r" "heap m q = Some qd" "check_index qd i"
    "n_children qd ! nat i = None"
  using assms by (cases "last (node_stack m)") (auto simp: offered_def Loc_def split: option.splits)

lemma AddToPath_open:
  assumes "node_stack m \<noteq> []" "stack_index m = length (node_stack m)" "last (node_stack m) = Loc (Some q) i"
    and "q \<noteq> r" "heap m q = Some qd" "check_index qd i" "n_children qd ! nat i = None"
    and "heap m r = Some nd" "\<not> is_end_kind (n_kind nd)"
  shows "AddToPath r 0 m = Some (m\<lparr> heap := (heap m)(q \<mapsto> qd\<lparr> n_children := (n_children qd)[nat i := Some r] \<rparr>,
      r \<mapsto> nd\<lparr> n_parent := Some q \<rparr>), node_stack := node_stack m @ [Loc (Some r) 0],
      stack_index := stack_index m + 1 \<rparr>)"
proof -
  have "0 \<le> i" using assms(6) by (auto simp: check_index_def BETWEEN_def)
  have "GetLastNodeInStack m = Some (Loc (Some q) i)"
    using assms(1-3) \<open>0 \<le> i\<close>
    by (auto simp: GetLastNodeInStack_def BETWEEN_def last_conv_nth loc_empty_def Loc_def safe_assert_def Let_def Suc_leI)
  moreover have "loc_check m (Loc (Some q) i) None = Some True"
    using assms(5-7) by (simp add: loc_check_def Loc_def get_child_def safe_notnull_def)
  moreover have "loc_set m (Loc (Some q) i) (Some r) = Some (m\<lparr> heap := (heap m)(q \<mapsto> qd\<lparr> n_children := (n_children qd)[nat i := Some r] \<rparr>,
      r \<mapsto> nd\<lparr> n_parent := Some q \<rparr>) \<rparr>)"
    using assms(4-9) \<open>0 \<le> i\<close>
    by (simp add: loc_set_def Loc_def loc_empty_def set_child_def set_parent_def upd_node_def)
  moreover have "IS_ENDNODE m (Some r) = Some False" using assms(8,9) by (simp add: IS_ENDNODE_def)
  ultimately show ?thesis
    using assms(2,8,9)
    by (simp add: AddToPath_def AddToNodeStack_def loc_empty_def Loc_def IS_ENDNODE_def Let_def)
qed

lemma ReleaseRef_consumed:
  assumes "offered m r k" "\<not> is_end_kind k"
    and "m1 = m\<lparr> atomic_ref := Some LOCKNODE, lock_owner := Some c, stat_log := l \<rparr>"
  shows "\<exists>m'. ReleaseRef c (Some r) 0 m1 = Some m' \<and> path_ext m r m'"
proof -
  from assms(1) obtain nd q i qd where f: "lock_owner m = None" "atomic_ref m = Some r" "r \<noteq> LOCKNODE"
    "heap m r = Some nd" "n_kind nd = k" "length (n_children nd) = 1" "node_stack m \<noteq> []"
    "stack_index m = length (node_stack m)" "last (node_stack m) = Loc (Some q) i" "q \<noteq> r" "heap m q = Some qd"
    "check_index qd i" "n_children qd ! nat i = None" by (rule offeredE)
  let ?m = "m\<lparr> atomic_ref := Some LOCKNODE, stat_log := l, lock_owner := None \<rparr>"
  have "IS_ENDNODE ?m (Some r) = Some False" using f assms(2) by (simp add: IS_ENDNODE_def)
  moreover note AddToPath_open [of ?m q i r qd nd]
  moreover have "0 \<le> i" "nat i < length (n_children qd)"
    using f(12) by (auto simp: check_index_def BETWEEN_def)
  ultimately show ?thesis
    using f assms(2,3)
    by (auto simp: ReleaseRef_def OnUnlock_def SetRef_def IS_LOCKNODE_def safe_notnull_def path_ext_def loc_get_def
        loc_empty_def Loc_def get_child_def check_index_def dom_def Let_def)
qed

section \<open>A thread at an offered transition\<close>

definition tid_env :: "co \<Rightarrow> aux_env \<Rightarrow> aux_env" where
  "tid_env c env = env\<lparr> vars := set_thread (vars env) TID (Some c) \<rparr>"

definition bind_var :: "co \<Rightarrow> tvref option \<Rightarrow> aux_env \<Rightarrow> aux_env" where
  "bind_var c v env = (case v of None \<Rightarrow> env | Some x \<Rightarrow> env\<lparr> vars := set_thread (vars env) x (Some c) \<rparr>)"

lemma env_ok_vars [simp]: "env_ok (env\<lparr> vars := vs \<rparr>) = env_ok env"
  by (simp add: env_ok_def)

lemma tid_env_ok [simp]: "env_ok (tid_env c env) = env_ok env"
  by (simp add: tid_env_def)

lemma quiet_simps [simp]: "ot_before quiet = (\<lambda>w. w)" "ot_steps quiet = []" "\<not> ot_timeout quiet"
  by (simp_all add: quiet_def)

lemma live_world_mgr [simp]:
  "live_world (s\<lparr> lv_mgr := m \<rparr>) = \<lparr> w_mgr = m, w_env = pm_env s, w_next_tv = lv_next_tv s \<rparr>"
  by (simp add: live_world_def)

lemma put_world_simps [simp]: "lv_mgr (put_world w s) = w_mgr w" "pm_env (put_world w s) = w_env w"
    "pm_status (put_world w s) = pm_status s"
  by (simp_all add: put_world_def)

lemma put_world_same [simp]: "put_world (live_world s) s = s"
  by (simp add: put_world_def live_world_def)

definition locked :: "co \<Rightarrow> mgr \<Rightarrow> mgr" where
  "locked c m = m\<lparr> atomic_ref := Some LOCKNODE, lock_owner := Some c \<rparr>"

text \<open>The evaluation of a transition without assertions and constraints: what the thread decides.\<close>

definition decides :: "node_kind \<Rightarrow> bool \<Rightarrow> bool" where
  "decides k b \<longleftrightarrow> is_run_through k \<or> \<not> b"

lemma EvalTransition_settled:
  assumes "k = KRunThrough (Some p) v \<or> k = KRunUntil (Some p) v" "heap m r = Some nd" "n_kind nd = k"
    and "length (n_children nd) = 1" "env_ok env" "settled (tid_env c env) p"
  shows "EvalTransition [] [] c r \<lparr> w_mgr = m, w_env = env, w_next_tv = n \<rparr> =
    (let b = tp_sem (tid_env c env) c p; ci = (if b then 0 else -1) in
     Some (if decides k b then (EvalDone ci True, \<lparr> w_mgr = bump ''Num Events'' 1 m, w_env = bind_var c v (tid_env c env), w_next_tv = n \<rparr>)
       else (EvalDone ci False, \<lparr> w_mgr = m, w_env = tid_env c env, w_next_tv = n \<rparr>)))"
proof -
  have e: "EvalState (tid_env c env) (Some c) p = Some (tp_sem (tid_env c env) c p, tid_env c env)"
    using assms(5,6) by (intro eval_settled) simp_all
  then show ?thesis
    using assms(1-4)
    by (auto simp: EvalTransition_def tid_env_def [symmetric] OnTaken_def is_transition_def check_index_def BETWEEN_def
        node_var_def bind_var_def decides_def is_run_through_def Let_def split: option.splits)
qed

lemma set_thread_twice [simp]: "set_thread (set_thread vs x c) x c = set_thread vs x c"
  by (simp add: set_thread_def)

lemma bind_var_twice [simp]: "bind_var c v (bind_var c v env) = bind_var c v env"
  by (auto simp: bind_var_def set_thread_def split: option.splits)

lemma offered_upd [simp]: "offered (m\<lparr> stat_log := l \<rparr>) r k = offered m r k" "offered (m\<lparr> sem_ref := n \<rparr>) r k = offered m r k"
  by (simp_all add: offered_def cong: option.case_cong)

lemma ReleaseRef_back:
  assumes "offered m r k" "\<not> is_end_kind k"
    and "m1 = m\<lparr> atomic_ref := Some LOCKNODE, lock_owner := Some c, stat_log := l \<rparr>"
  shows "ReleaseRef c (Some r) (-1) m1 = Some (m\<lparr> stat_log := l, sem_ref := sem_ref m + 1 \<rparr>)"
proof -
  from assms(1) obtain nd where f: "lock_owner m = None" "atomic_ref m = Some r" "heap m r = Some nd" "n_kind nd = k"
    by (rule offeredE)
  have "IS_ENDNODE (m\<lparr> atomic_ref := Some LOCKNODE, stat_log := l, lock_owner := None \<rparr>) (Some r) = Some False"
    using f assms(2) by (simp add: IS_ENDNODE_def)
  then show ?thesis
    using f(1,2) assms(3) by (cases m) (simp add: ReleaseRef_def OnUnlock_def SetRef_def IS_LOCKNODE_def Let_def)
qed

lemma OnConsumed_transition:
  assumes "k = KRunThrough p v \<or> k = KRunUntil p v" "heap m r = Some nd" "n_kind nd = k" "length (n_children nd) = 1"
  shows "OnConsumed m (vars env) r c 0 = Some (vars (bind_var c v env))"
  using assms by (auto simp: OnConsumed_def base_OnConsumed_def check_index_def BETWEEN_def bind_var_def split: option.splits)

lemma round_offered:
  assumes k: "k = KRunThrough (Some p) v \<or> k = KRunUntil (Some p) v" and off: "offered m r k"
    and "env_ok env" "settled (tid_env c env) p"
  shows "\<exists>m'. controlled_round [] [] c r \<lparr> w_mgr = locked c m, w_env = env, w_next_tv = n \<rparr> =
      Some (if decides k (tp_sem (tid_env c env) c p) then Leave else NextNode,
        \<lparr> w_mgr = m', w_env = bind_var c v (tid_env c env), w_next_tv = n \<rparr>) \<and>
    (if tp_sem (tid_env c env) c p then path_ext m r m' else offered m' r k)"
proof -
  from off obtain nd where nd: "heap m r = Some nd" "n_kind nd = k" "length (n_children nd) = 1"
    by (rule offeredE)
  have kind: "\<not> is_end_kind k" "is_transition k" using k by (auto simp: is_end_kind_def is_transition_def)
  let ?b = "tp_sem (tid_env c env) c p"
  define m1 where "m1 = (if decides k ?b then bump ''Num Events'' 1 (locked c m) else locked c m)"
  define l where "l = (if decides k ?b then (''Num Events'', 1) # stat_log m else stat_log m)"
  have l: "m1 = m\<lparr> atomic_ref := Some LOCKNODE, lock_owner := Some c, stat_log := l \<rparr>"
    by (cases m) (simp add: m1_def locked_def bump_def l_def)
  have nd1: "heap m1 r = Some nd" by (simp add: l nd)
  note ev = EvalTransition_settled [OF k, of "locked c m" r nd env c n]
  show ?thesis
  proof (cases ?b)
    case True
    obtain m' where "ReleaseRef c (Some r) 0 m1 = Some m'" "path_ext m r m'"
      using ReleaseRef_consumed [OF off kind(1) l] by blast
    then show ?thesis
      using True nd ev assms(3,4) kind OnConsumed_transition [OF k nd1 nd(2,3)]
      by (intro exI [of _ m']) (auto simp: controlled_round_def locked_def m1_def Let_def bind_var_def decides_def
          split: if_splits option.splits)
  next
    case False
    then show ?thesis
      using nd ev assms(3,4) kind ReleaseRef_back [OF off kind(1) l] off
      by (intro exI [of _ "m\<lparr> stat_log := l, sem_ref := sem_ref m + 1 \<rparr>"])
        (auto simp: controlled_round_def locked_def m1_def Let_def decides_def)
  qed
qed

text \<open>One round of the loop at an offered transition.\<close>

lemma oct_offered:
  assumes k: "k = KRunThrough (Some p) v \<or> k = KRunUntil (Some p) v" and off: "offered (lv_mgr s) r k"
    and "env_ok (pm_env s)" "settled (tid_env c (pm_env s)) p" "prev \<noteq> Some r"
  shows "\<exists>s'. oct_loop [] [] viol c prev (quiet # ots) s =
      (if decides k (tp_sem (tid_env c (pm_env s)) c p) then Some (Resumes s') else oct_loop [] [] viol c (Some r) ots s') \<and>
    (if tp_sem (tid_env c (pm_env s)) c p then path_ext (lv_mgr s) r (lv_mgr s') else offered (lv_mgr s') r k) \<and>
    pm_env s' = bind_var c v (tid_env c (pm_env s)) \<and> pm_status s' = pm_status s"
proof -
  have kind: "\<not> is_end_kind k" using k by (auto simp: is_end_kind_def)
  from off obtain nd where nd: "r \<noteq> LOCKNODE" "heap (lv_mgr s) r = Some nd" "n_kind nd = k" by (rule offeredE)
  then have fin: "IS_ENDNODE (locked c (lv_mgr s)) (Some r) = Some False"
    using kind by (simp add: IS_ENDNODE_def locked_def)
  obtain m' where m': "controlled_round [] [] c r \<lparr> w_mgr = locked c (lv_mgr s), w_env = pm_env s, w_next_tv = lv_next_tv s \<rparr> =
      Some (if decides k (tp_sem (tid_env c (pm_env s)) c p) then Leave else NextNode,
        \<lparr> w_mgr = m', w_env = bind_var c v (tid_env c (pm_env s)), w_next_tv = lv_next_tv s \<rparr>)"
    "if tp_sem (tid_env c (pm_env s)) c p then path_ext (lv_mgr s) r m' else offered m' r k"
    using round_offered [OF k off assms(3,4)] by blast
  let ?s = "put_world \<lparr> w_mgr = m', w_env = bind_var c v (tid_env c (pm_env s)), w_next_tv = lv_next_tv s \<rparr>
      (s\<lparr> lv_mgr := locked c (lv_mgr s) \<rparr>)"
  show ?thesis
    using m' fin nd(1) assms(5) AcquireRef_full [OF off kind, of c "[]"]
    by (intro exI [of _ ?s]) (auto simp: oct_loop.simps(2) locked_def [symmetric] Let_def IS_EMPTY_def IS_LOCKNODE_def safe_notnull_def)
qed

lemma AuxState_Reset_frame: "vars (AuxState_Reset t env) = vars env"
  by (simp add: AuxState_Reset_def reset0_def reset1_def)

section \<open>The script and a thread\<close>

text \<open>The script between two operations on a path that it extends: the reference is free, the path ends
  in an open branch and the next node is new.\<close>

definition script_ready :: "mgr \<Rightarrow> bool" where
  "script_ready m \<longleftrightarrow> lock_owner m = None \<and> atomic_ref m = None \<and> next_ref m \<ge> 3 \<and> dom (heap m) \<subseteq> {..< next_ref m} \<and>
     node_stack m \<noteq> [] \<and> stack_index m = length (node_stack m) \<and> loc_get m (last (node_stack m)) = Some None"

lemma AcquireRefEx_empty:
  assumes "IsMain c" "lock_owner m = None" "atomic_ref m = None"
  shows "AcquireRefEx EXIT_ON_EMPTY c es m = Some (outcome.Returns None, locked c m)"
  using assms by (simp add: AcquireRefEx_def and_then_def AcquireRef_def AcquireRef_loop.simps [of _ _ _ False]
      AcquireRef_try_def SetRef_def OnLock_def IS_LOCKNODE_def IS_ENDNODE_def IS_EMPTY_def locked_def Let_def)

lemma AcquireRefEx_full_then:
  assumes "IsMain c" "offered m r k" "\<not> is_end_kind k"
    and "lock_owner (e m) = None" "atomic_ref (e m) = None" "sem_ref (e m) > 0"
  shows "AcquireRefEx EXIT_ON_EMPTY c [e] m = Some (outcome.Returns None, locked c (e m))"
proof -
  from assms(2) obtain nd where f: "atomic_ref m = Some r" "r \<noteq> LOCKNODE" "heap m r = Some nd" "n_kind nd = k" "lock_owner m = None"
    by (rule offeredE)
  have fin: "IS_ENDNODE (m\<lparr> atomic_ref := Some LOCKNODE \<rparr>) (Some r) = Some False"
    using f assms(3) by (simp add: IS_ENDNODE_def)
  have same: "m\<lparr> atomic_ref := Some r \<rparr> = m" using f(1) by (cases m) simp
  have "AcquireRef_try EXIT_ON_EMPTY c m = Some (Wait, m)"
    using f fin same by (simp add: AcquireRef_try_def SetRef_def IS_LOCKNODE_def IS_EMPTY_def Let_def)
  moreover have "AcquireRef_try EXIT_ON_EMPTY c (e m) = Some (Acquired None, locked c (e m))"
    using assms(4,5) by (simp add: AcquireRef_try_def SetRef_def OnLock_def IS_LOCKNODE_def IS_ENDNODE_def IS_EMPTY_def
        locked_def Let_def)
  ultimately show ?thesis
    using assms(1,6) by (simp add: AcquireRefEx_def and_then_def AcquireRef_def AcquireRef_loop.simps
        IS_ENDNODE_def)
qed

lemma ReleaseRef_free: "ReleaseRef c None (-1) (locked c m) = Some (m\<lparr> lock_owner := None, atomic_ref := None, sem_ref := sem_ref m + 1 \<rparr>)"
  by (cases m) (simp add: ReleaseRef_def OnUnlock_def SetRef_def IS_LOCKNODE_def IS_ENDNODE_def locked_def Let_def)

text \<open>The new node as the script releases it.\<close>

definition offer_node :: "nat \<Rightarrow> node_kind \<Rightarrow> mgr \<Rightarrow> mgr" where
  "offer_node i k m = (let m1 = snd (new_node i k m) in m1\<lparr> atomic_ref := Some (next_ref m), sem_ref := sem_ref m + 1 \<rparr>)"

lemma new_node_locked: "new_node i k (locked c m) = (next_ref m, locked c (snd (new_node i k m)))"
  by (simp add: new_node_def locked_def bump_def)

lemma script_offers:
  assumes "script_ready m" "num_children k = 1" "\<not> is_end_kind k"
  shows "ReleaseRef c (Some (next_ref m)) (-1) (locked c (snd (new_node i k m))) = Some (offer_node i k m)"
    "offered (offer_node i k m) (next_ref m) k" "heap (offer_node i k m) (next_ref m) = Some (mk_node i k)"
proof -
  have "IS_ENDNODE (snd (new_node i k m)\<lparr> atomic_ref := Some LOCKNODE, lock_owner := None \<rparr>) (Some (next_ref m)) = Some False"
    using assms(3) by (simp add: IS_ENDNODE_def new_node_def bump_def mk_node_def)
  then show "ReleaseRef c (Some (next_ref m)) (-1) (locked c (snd (new_node i k m))) = Some (offer_node i k m)"
    using assms(1) by (cases m) (simp add: ReleaseRef_def OnUnlock_def SetRef_def IS_LOCKNODE_def locked_def offer_node_def
        new_node_def bump_def script_ready_def Let_def)
  show "heap (offer_node i k m) (next_ref m) = Some (mk_node i k)"
    by (simp add: offer_node_def new_node_def bump_def Let_def)
  show "offered (offer_node i k m) (next_ref m) k"
    using assms
    by (auto simp: offered_def offer_node_def new_node_def bump_def mk_node_def script_ready_def loc_get_def get_child_def
        LOCKNODE_def Let_def bind_eq_Some_conv split: option.splits)
qed

section \<open>Properties\<close>

lemma RunThrough_event:
  assumes "\<not> RunUncontrolled opts" "pm_status s = ENABLED" "offered (lv_mgr s) r (KRunThrough (Some p) v)"
    and "env_ok (pm_env s)" "settled (tid_env c (pm_env s)) p"
  shows "\<exists>s'. OnControlledTransition opts [] [] viol c (quiet # ots) s = Some (Resumes s') \<and>
    (if tp_sem (tid_env c (pm_env s)) c p then path_ext (lv_mgr s) r (lv_mgr s')
     else offered (lv_mgr s') r (KRunThrough (Some p) v)) \<and>
    pm_env s' = AuxState_Reset (co_tid c) (bind_var c v (tid_env c (pm_env s))) \<and> pm_status s' = ENABLED"
proof -
  obtain s1 where s1: "oct_loop [] [] viol c None (quiet # ots) (s\<lparr> pm_status := BLOCKED \<rparr>) = Some (Resumes s1)"
    "if tp_sem (tid_env c (pm_env s)) c p then path_ext (lv_mgr s) r (lv_mgr s1)
     else offered (lv_mgr s1) r (KRunThrough (Some p) v)" "pm_env s1 = bind_var c v (tid_env c (pm_env s))"
    using oct_offered [of "KRunThrough (Some p) v" p v "s\<lparr> pm_status := BLOCKED \<rparr>" r c None viol ots] assms(3-5)
    by (cases "tp_sem (tid_env c (pm_env s)) c p") (auto simp: decides_def is_run_through_def)
  let ?s = "pin_FinishControlledTransition (co_tid c) s1"
  have "OnControlledTransition opts [] [] viol c (quiet # ots) s = Some (Resumes ?s)"
    using s1(1) assms(1,2) by (simp add: OnControlledTransition_def)
  then show ?thesis using s1(2,3) by (intro exI [of _ ?s]) (simp add: pin_FinishControlledTransition_def)
qed

text \<open>C10: At a RUN_UNTIL that the script has offered, a thread for which the predicate does
  not hold goes on, with its auxiliary state reset and the node still offered; a thread for which
  it holds consumes the node, which extends the path, and stays blocked at its event to look for
  the next node.\<close>

theorem RunUntil_event:
  assumes "\<not> RunUncontrolled opts" "pm_status s = ENABLED" "offered (lv_mgr s) r (KRunUntil (Some p) v)"
    and "env_ok (pm_env s)" "settled (tid_env c (pm_env s)) p"
  shows "\<exists>s'. OnControlledTransition opts [] [] viol c [quiet] s =
      Some (if tp_sem (tid_env c (pm_env s)) c p then Stuck s' else Resumes s') \<and>
    (if tp_sem (tid_env c (pm_env s)) c p
     then path_ext (lv_mgr s) r (lv_mgr s') \<and> pm_status s' = BLOCKED
       \<and> pm_env s' = bind_var c v (tid_env c (pm_env s))
     else offered (lv_mgr s') r (KRunUntil (Some p) v) \<and> pm_status s' = ENABLED
       \<and> pm_env s' = AuxState_Reset (co_tid c) (bind_var c v (tid_env c (pm_env s))))"
proof -
  let ?b = "tp_sem (tid_env c (pm_env s)) c p"
  obtain s1 where s1: "oct_loop [] [] viol c None [quiet] (s\<lparr> pm_status := BLOCKED \<rparr>)
      = Some (if ?b then Stuck s1 else Resumes s1)"
    "if ?b then path_ext (lv_mgr s) r (lv_mgr s1) else offered (lv_mgr s1) r (KRunUntil (Some p) v)"
    "pm_env s1 = bind_var c v (tid_env c (pm_env s))" "pm_status s1 = BLOCKED"
    using oct_offered [of "KRunUntil (Some p) v" p v "s\<lparr> pm_status := BLOCKED \<rparr>" r c None viol "[]"] assms(3-5)
    by (cases "tp_sem (tid_env c (pm_env s)) c p") (auto simp: decides_def is_run_through_def)
  let ?s = "if ?b then s1 else pin_FinishControlledTransition (co_tid c) s1"
  have "OnControlledTransition opts [] [] viol c [quiet] s = Some (if ?b then Stuck ?s else Resumes ?s)"
    using s1(1) assms(1,2) by (simp add: OnControlledTransition_def)
  then show ?thesis using s1(2-4) by (intro exI [of _ ?s]) (simp add: pin_FinishControlledTransition_def)
qed

text \<open>The meaning of ENTERS(f) for the current thread, on the constants that its builder made.\<close>

lemma ENTERS_sem:
  assumes "api_ENTERS f None env0 = (p, env1)" "f \<noteq> 0" "cells env = cells env1"
  shows "settled (tid_env c env) p" "tp_sem (tid_env c env) c p \<longleftrightarrow> lookup1 env Enters (co_tid c) f = Some 1"
proof -
  have f: "uint f \<noteq> 0" using assms(2) by (simp add: uint_0_iff)
  then show "settled (tid_env c env) p" "tp_sem (tid_env c env) c p \<longleftrightarrow> lookup1 env Enters (co_tid c) f = Some 1"
    using assms
    by (auto simp: api_ENTERS_def aux1_TP3_def new_const_def arg_tid_def tid_env_def set_cell_def bound_var_def
        cell_of_def sem_tid_def set_thread_def lookup1_def Let_def)
qed

lemma lookup1_get1:
  assumes "pin_ok s" "k \<noteq> 0" "get1_pin v k t s = Some x" "y \<noteq> 0"
  shows "lookup1 (pm_env s) v t k = Some y \<longleftrightarrow> x = y"
proof -
  have "aux1_ok 0 0 (aux1 (pm_env s) v)" using assms(1) by (simp add: pin_ok_def env_ok_def)
  then show ?thesis
    using assms(2-4) aux1_get_ok [of 0 0 "aux1 (pm_env s) v" k t]
    by (auto simp: get1_pin_def lookup1_def aux1_ok_def mm_ok_def split: option.splits)
qed

lemma recorded_more: "recorded s s' \<Longrightarrow> lv_mgr s' = lv_mgr s \<and> lv_next_tv s' = lv_next_tv s \<and> pm_status s' = pm_status s"
  for s s' :: live
  unfolding recorded_def by (metis live.ext_inject live.surjective pin_state.ext_inject pin_state.surjective
      pin_state.update_convs(4,5))


text \<open>The change of the manager by a thread that comes to its controlled transition.\<close>

definition thread_step :: "options \<Rightarrow> string \<Rightarrow> co \<Rightarrow> live \<Rightarrow> mgr \<Rightarrow> mgr" where
  "thread_step opts viol c s m =
     (case OnControlledTransition opts [] [] viol c [quiet] (s\<lparr> lv_mgr := m \<rparr>) of
        Some (Resumes s') \<Rightarrow> lv_mgr s' | _ \<Rightarrow> m)"

lemma thread_step_consumes:
  assumes "\<not> RunUncontrolled opts" "pm_status s = ENABLED" "env_ok (pm_env s)" "settled (tid_env c (pm_env s)) p"
    and "tp_sem (tid_env c (pm_env s)) c p" "offered m r (KRunThrough (Some p) v)"
  shows "path_ext m r (thread_step opts viol c s m)"
  using RunThrough_event [of opts "s\<lparr> lv_mgr := m \<rparr>" r p v c viol "[]"] assms
  by (auto simp: thread_step_def)

lemma script_ready_message: "script_ready (set_message i msg m) = script_ready m"
    "node_stack (set_message i msg m) = node_stack m" "next_ref (set_message i msg m) = next_ref m"
  by (cases msg; simp add: set_message_def script_ready_def loc_get_def get_child_def)+

lemma path_ext_ready:
  assumes "script_ready m" "path_ext (offer_node i k m) (next_ref m) m'" "num_children k = 1"
  shows "script_ready (m'\<lparr> lock_owner := None, atomic_ref := None, sem_ref := n \<rparr>)"
    "node_stack m' = node_stack m @ [Loc (Some (next_ref m)) 0]"
proof -
  have h: "heap (offer_node i k m) (next_ref m) = Some (mk_node i k)"
    "next_ref (offer_node i k m) = Suc (next_ref m)" "dom (heap (offer_node i k m)) = insert (next_ref m) (dom (heap m))"
    by (auto simp: offer_node_def new_node_def bump_def Let_def)
  show "node_stack m' = node_stack m @ [Loc (Some (next_ref m)) 0]"
    using assms(2) by (simp add: path_ext_def offer_node_def new_node_def bump_def Let_def)
  then show "script_ready (m'\<lparr> lock_owner := None, atomic_ref := None, sem_ref := n \<rparr>)"
    using assms h
    by (auto simp: script_ready_def path_ext_def offer_node_def new_node_def bump_def mk_node_def loc_get_def Loc_def loc_empty_def
        get_child_def check_index_def BETWEEN_def Let_def)
qed

text \<open>C2: A RUN_THROUGH of the script and the controlled transition of a program thread
  meet: when the script is ready to extend its path and the predicate holds of the thread, the
  call of the script returns, the path is longer by exactly the new node, and the script is ready
  for its next operation.\<close>

theorem RunThrough_handshake:
  assumes "IsMain main" "script_ready m" "\<not> RunUncontrolled opts" "pm_status s = ENABLED" "env_ok (pm_env s)"
    and "settled (tid_env c (pm_env s)) p" "tp_sem (tid_env c (pm_env s)) c p"
  shows "\<exists>m'. DSLRunThrough main False [] [thread_step opts viol c s] i (Some p) v msg m = Some (outcome.Returns (), m') \<and>
    node_stack m' = node_stack m @ [Loc (Some (next_ref m)) 0] \<and> script_ready m'"
proof -
  let ?k = "KRunThrough (Some p) v" and ?m = "set_message i msg m"
  let ?o = "offer_node i ?k ?m" and ?e = "thread_step opts viol c s"
  have ready: "script_ready ?m" "lock_owner ?m = None" "atomic_ref ?m = None"
    using assms(2) script_ready_message(1) by (metis script_ready_def)+
  have k: "num_children ?k = 1" "\<not> is_end_kind ?k" by (simp_all add: is_end_kind_def)
  note off = script_offers(1) [OF ready(1) k, of main i] script_offers(2) [OF ready(1) k, of i]
  have ext: "path_ext ?o (next_ref ?m) (?e ?o)"
    by (rule thread_step_consumes [OF assms(3-7) off(2)])
  have "loc_get (locked main ?m) (last (node_stack ?m)) = Some None" "node_stack ?m \<noteq> []"
    "stack_index ?m = length (node_stack ?m)"
    using ready(1) by (auto simp: script_ready_def locked_def loc_get_def get_child_def)
  then have nxt: "GetNextNodeInStack (locked main ?m) = Some (Loc None (-1))"
    by (simp add: GetNextNodeInStack_def locked_def)
  have cov: "covered (locked main (snd (new_node i ?k ?m))) (next_ref ?m) = Some False"
    by (simp add: covered_def locked_def new_node_def bump_def mk_node_def)
  let ?m' = "(?e ?o)\<lparr> lock_owner := None, atomic_ref := None, sem_ref := sem_ref (?e ?o) + 1 \<rparr>"
  have "AcquireRefEx EXIT_ON_EMPTY main [?e] ?o = Some (outcome.Returns None, locked main (?e ?o))"
    using AcquireRefEx_full_then [OF assms(1) off(2) k(2), of ?e] ext by (simp add: path_ext_def)
  then have "DSLRunThrough main False [] [?e] i (Some p) v msg m = Some (outcome.Returns (), ?m')"
    using nxt cov off(1) AcquireRefEx_empty [OF assms(1) ready(2,3), of "[]"]
    by (simp add: DSLRunThrough_def submit_transition_def and_then_def new_node_locked Loc_def ReleaseRef_free Let_def)
  then show ?thesis
    using path_ext_ready [OF ready(1) ext k(1)] by (intro exI [of _ ?m']) (simp add: script_ready_message)
qed

section \<open>A concrete script\<close>

text \<open>The script has offered \<open>k\<close> on the first node of a new path; the program thread 1 enters function 64.\<close>

definition script_mgr :: "node_kind \<Rightarrow> mgr" where
  "script_mgr k = \<lparr> heap = fixed_heap(3 \<mapsto> mk_node 5 k), next_ref = 4,
     sinfo = (\<lambda>i. \<lparr> si_message = '''', si_choice = None \<rparr>), stat_log = [], node_stack = [Loc (Some ROOTNODE) 0],
     stack_index = 1, atomic_ref = Some 3, sem_ref = 0, lock_owner = None, end_exception = [] \<rparr>"

definition script_live :: "node_kind \<Rightarrow> aux_env \<Rightarrow> live" where
  "script_live k env = \<lparr> pm_enabled = True, pm_down = False, pm_symbols = Map.empty, pm_env = env,
     pm_srcloc = None, pm_info = '''', pm_status = ENABLED, pm_sem_test_start = 0, pm_pintool = [],
     lv_mgr = script_mgr k, lv_next_tv = 1 \<rparr>"

lemma script_offered:
  "num_children k = 1 \<Longrightarrow> offered (lv_mgr (script_live k env)) 3 k"
  by (simp add: offered_def script_live_def script_mgr_def mk_node_def fixed_heap_def LOCKNODE_def ROOTNODE_def
      ENDNODE_def Loc_def check_index_def BETWEEN_def)

definition by_tid :: tpred where "by_tid = TEVar (Some TID)"

lemma by_tid_sem: "settled env by_tid" "tp_sem (tid_env c env) c by_tid"
  by (auto simp: by_tid_def sem_eq_def split: option.splits)

lemma RunThrough_event_example:
  "\<exists>s'. OnControlledTransition default_options [] [] '''' (Co 1 1) [quiet]
      (script_live (KRunThrough (Some by_tid) None) AuxState_Init) = Some (Resumes s') \<and>
    path_ext (script_mgr (KRunThrough (Some by_tid) None)) 3 (lv_mgr s')"
  using RunThrough_event [of default_options "script_live (KRunThrough (Some by_tid) None) AuxState_Init" 3 by_tid None
      "Co 1 1" "''''" "[]"] script_offered [of "KRunThrough (Some by_tid) None" AuxState_Init]
  by (auto simp: by_tid_sem default_options_def script_live_def AuxState_Init_ok)

theorem RunUntil_event_witness:
  "\<exists>s'. OnControlledTransition default_options [] [] '''' (Co 1 1) [quiet]
      (script_live (KRunUntil (Some by_tid) None) AuxState_Init) = Some (Stuck s') \<and>
    path_ext (script_mgr (KRunUntil (Some by_tid) None)) 3 (lv_mgr s')"
  using RunUntil_event [of default_options "script_live (KRunUntil (Some by_tid) None) AuxState_Init" 3 by_tid None
      "Co 1 1" "''''"] script_offered [of "KRunUntil (Some by_tid) None" AuxState_Init]
  by (auto simp: by_tid_sem default_options_def script_live_def AuxState_Init_ok)

lemma script_get1: "k \<noteq> 0 \<Longrightarrow> aux1 env = (\<lambda>_. Map.empty) \<Longrightarrow> get1_pin v k t (script_live nk env) = Some 0"
  by (simp add: get1_pin_def script_live_def aux1_get_def)


definition ready_mgr :: mgr where
  "ready_mgr = (script_mgr KRoot)\<lparr> heap := fixed_heap, next_ref := 3, atomic_ref := None \<rparr>"

theorem RunThrough_handshake_witness:
  "\<exists>m'. DSLRunThrough (Co 0 MAIN_TID) False []
      [thread_step default_options '''' (Co 1 1) (script_live KRoot AuxState_Init)] 5 (Some by_tid) None None ready_mgr
      = Some (outcome.Returns (), m') \<and> node_stack m' = [Loc (Some ROOTNODE) 0, Loc (Some 3) 0] \<and> script_ready m'"
  using RunThrough_handshake [of "Co 0 MAIN_TID" ready_mgr default_options "script_live KRoot AuxState_Init" "Co 1 1" by_tid
      "''''" 5 None None]
  by (auto simp: by_tid_sem IsMain_def default_options_def script_live_def AuxState_Init_ok ready_mgr_def script_mgr_def
      script_ready_def fixed_heap_def mk_node_def loc_get_def loc_empty_def get_child_def check_index_def BETWEEN_def
      Loc_def ROOTNODE_def LOCKNODE_def ENDNODE_def split: if_splits)

end
