(* ===== verification/Callback_Types.thy ===== *)
theory Callback_Types
  imports Pred_Types Controlled_Events
begin

text \<open>
  A callback together with the controlled transition in which it ends: when the predicates of the
  execution tree, the assertions and the constraints are typed, the auxiliary state stays well formed.
\<close>

section \<open>Typed trees\<close>

definition typed_pred :: "tpred option \<Rightarrow> bool" where
  "typed_pred p \<longleftrightarrow> (case p of None \<Rightarrow> True | Some q \<Rightarrow> well_typed q)"

fun typed_kind :: "node_kind \<Rightarrow> bool" where
  "typed_kind (KRunThrough p v) = typed_pred p"
| "typed_kind (KRunUntil p v) = typed_pred p"
| "typed_kind (KExists s cv) = typed_pred (st_pred s)"
| "typed_kind (KForall s mp l) = typed_pred (st_pred s)"
| "typed_kind k = True"

definition typed_tree :: "mgr \<Rightarrow> bool" where
  "typed_tree m \<longleftrightarrow> (\<forall>r nd. heap m r = Some nd \<longrightarrow> typed_kind (n_kind nd))"

lemma typed_tree_upd [simp]: "typed_tree (m\<lparr> atomic_ref := a \<rparr>) = typed_tree m" "typed_tree (m\<lparr> lock_owner := c \<rparr>) = typed_tree m"
    "typed_tree (m\<lparr> stat_log := l \<rparr>) = typed_tree m" "typed_tree (m\<lparr> sem_ref := n \<rparr>) = typed_tree m"
    "typed_tree (m\<lparr> node_stack := ns \<rparr>) = typed_tree m" "typed_tree (m\<lparr> stack_index := i \<rparr>) = typed_tree m"
    "typed_tree (bump nm k m) = typed_tree m" "typed_tree (SetRef a m) = typed_tree m"
  by (simp_all add: typed_tree_def bump_def SetRef_def)

lemma typed_tree_upd_node: "typed_tree m \<Longrightarrow> (\<And>nd. typed_kind (n_kind nd) \<Longrightarrow> typed_kind (n_kind (f nd))) \<Longrightarrow> typed_tree (upd_node r f m)"
  by (auto simp: typed_tree_def upd_node_def split: if_splits)

lemma loc_set_typed: "loc_set m l c = Some m' \<Longrightarrow> typed_tree m \<Longrightarrow> typed_tree m'"
  by (auto simp: loc_set_def set_child_def set_parent_def bind_eq_Some_conv intro!: typed_tree_upd_node split: option.splits)

lemma AddToPath_typed:
  assumes "AddToPath r i m = Some m'" "IS_ENDNODE m (Some r) = Some False" "typed_tree m"
  shows "typed_tree m'"
proof -
  obtain loc m3 where m3: "loc_set m loc (Some r) = Some m3" "AddToNodeStack (Loc (Some r) i) m3 = Some m'"
    using assms(1,2) by (auto simp: AddToPath_def bind_eq_Some_conv Let_def)
  then have "typed_tree m3" using loc_set_typed assms(3) by blast
  then show ?thesis using m3(2) by (auto simp: AddToNodeStack_def bind_eq_Some_conv Let_def split: if_splits)
qed

lemma IS_ENDNODE_upd [simp]: "IS_ENDNODE (m\<lparr> atomic_ref := a \<rparr>) n = IS_ENDNODE m n" "IS_ENDNODE (m\<lparr> lock_owner := c \<rparr>) n = IS_ENDNODE m n"
  by (auto simp: IS_ENDNODE_def split: option.splits)

lemma ReleaseRef_typed:
  assumes "ReleaseRef c (Some r) i m = Some m'" "heap m r = Some nd" "\<not> is_end_kind (n_kind nd)" "typed_tree m"
  shows "typed_tree m'"
proof -
  have e: "IS_ENDNODE m (Some r) = Some False" using assms(2,3) by (simp add: IS_ENDNODE_def)
  show ?thesis
    using assms(1,4) e AddToPath_typed [of r i "m\<lparr> lock_owner := None \<rparr>"]
    by (auto simp: ReleaseRef_def OnUnlock_def safe_notnull_def bind_eq_Some_conv Let_def split: if_splits)
qed

lemma AcquireRef_try_typed: "AcquireRef_try mode c m = Some (st, m') \<Longrightarrow> typed_tree m \<Longrightarrow> typed_tree m'"
  by (auto simp: AcquireRef_try_def OnLock_def bind_eq_Some_conv Let_def split: if_splits)

lemma AcquireRef_typed:
  assumes "AcquireRef EXIT_ON_FULL c False es m = Some (res, m')" "typed_tree m" "\<And>e m. e \<in> set es \<Longrightarrow> typed_tree m \<Longrightarrow> typed_tree (e m)"
  shows "typed_tree m'"
proof -
  have "AcquireRef_loop EXIT_ON_FULL c False w es m = Some (res, m') \<Longrightarrow> typed_tree m \<Longrightarrow> typed_tree m'" for w
    using assms(3)
  proof (induction es arbitrary: m w)
    case Nil
    then show ?case
      by (auto simp: AcquireRef_loop.simps AcquireRef_giveup_def dest: AcquireRef_try_typed split: if_splits option.splits acquire_step.splits)
  next
    case (Cons e es)
    show ?case
    proof (cases "w \<and> sem_ref m = 0")
      case True
      then show ?thesis using Cons.prems Cons.IH [of True "e m"] by (simp add: AcquireRef_loop.simps [of _ _ _ _ "_ # _"])
    next
      case False
      then obtain st m1 where m1: "AcquireRef_try EXIT_ON_FULL c m = Some (st, m1)"
        using Cons.prems(1) by (auto simp: AcquireRef_loop.simps [of _ _ _ _ "_ # _"] split: option.splits)
      then have "typed_tree m1" using AcquireRef_try_typed Cons.prems(2) by blast
      then show ?thesis
        using Cons.prems m1 False Cons.IH [of _ "e m1"]
        by (cases st) (auto simp: AcquireRef_loop.simps [of _ _ _ _ "_ # _"] simp del: de_Morgan_conj)
    qed
  qed
  then show ?thesis using assms(1,2) by (auto simp: AcquireRef_def bind_eq_Some_conv)
qed

section \<open>A round of the controlled transition\<close>

definition world_ok :: "world \<Rightarrow> bool" where
  "world_ok w \<longleftrightarrow> env_ok (w_env w) \<and> typed_tree (w_mgr w)"

lemma EvalTransition_ok:
  assumes "EvalTransition as cs c r w = Some (res, w')" "list_all well_typed as" "list_all well_typed cs" "world_ok w"
  shows "world_ok w' \<and> heap (w_mgr w') = heap (w_mgr w)"
proof -
  let ?e0 = "(w_env w)\<lparr> vars := set_thread (vars (w_env w)) TID (Some c) \<rparr>"
  have e0: "env_ok ?e0" and tree: "typed_tree (w_mgr w)" using assms(4) by (simp_all add: world_ok_def)
  obtain a e1 where e1: "EvalState ?e0 (Some c) (TPAnd as) = Some (a, e1)"
    using assms(1) by (auto simp: EvalTransition_def bind_eq_Some_conv)
  have ok1: "env_ok e1" using EvalState_ok(1) [OF e1 e0] assms(2) by simp
  show ?thesis
  proof (cases a)
    case False
    then show ?thesis using assms(1) e1 ok1 tree by (auto simp: EvalTransition_def world_ok_def)
  next
    case True
    obtain b e2 where e2: "EvalState e1 (Some c) (TPAnd cs) = Some (b, e2)"
      using assms(1) e1 True by (auto simp: EvalTransition_def bind_eq_Some_conv)
    have ok2: "env_ok e2" using EvalState_ok(1) [OF e2 ok1] assms(3) by simp
    show ?thesis
    proof (cases b)
      case False
      then show ?thesis using assms(1) e1 e2 True ok2 tree by (auto simp: EvalTransition_def world_ok_def)
    next
      case b: True
      obtain nd where nd: "heap (w_mgr w) r = Some nd"
        using assms(1) e1 e2 True b by (auto simp: EvalTransition_def bind_eq_Some_conv)
      have "typed_kind (n_kind nd)" using tree nd by (simp add: typed_tree_def)
      then show ?thesis
        using assms(1) e1 e2 True b ok2 tree nd
        by (auto simp: EvalTransition_def OnTaken_def bind_eq_Some_conv Let_def world_ok_def typed_pred_def bump_def
            split: node_kind.splits if_splits dest: EvalState_ok(1))
    qed
  qed
qed

lemma CanSelectThread_ok:
  assumes "CanSelectThread p c env = Some (b, env')" "typed_pred p" "env_ok env"
  shows "env_ok env'"
proof (cases p)
  case (Some q)
  have "CanSelectThread p c env = (if q = TPTrue then Some (True, env)
      else EvalState (env\<lparr> vars := set_thread (vars env) TID (Some c) \<rparr>) (Some c) q)"
    by (cases q) (simp_all add: CanSelectThread_def Some)
  then show ?thesis
    using assms EvalState_ok(1) [of "env\<lparr> vars := set_thread (vars env) TID (Some c) \<rparr>" "Some c" q b env'] Some
    by (auto simp: typed_pred_def split: if_splits)
qed (use assms in \<open>simp add: CanSelectThread_def\<close>)

lemma ExistsThread_Check_ok:
  assumes "ExistsThread_Check r s cv c idx w = Some (i, w')" "typed_pred (st_pred s)" "world_ok w"
  shows "world_ok w' \<and> heap (w_mgr w') = heap (w_mgr w)"
  using assms by (auto simp: ExistsThread_Check_def bind_eq_Some_conv Let_def world_ok_def split: if_splits dest: CanSelectThread_ok)

lemma child_index_forall:
  assumes "add_or_get_child_index r t m = Some (i, m')"
  obtains nd s mp l where "heap m r = Some nd" "n_kind nd = KForall s mp l"
proof -
  obtain nd where nd: "heap m r = Some nd" using assms by (auto simp: add_or_get_child_index_def bind_eq_Some_conv)
  then show ?thesis using assms that by (cases "n_kind nd") (simp_all add: add_or_get_child_index_def)
qed

lemma child_index_typed:
  assumes "add_or_get_child_index r t m = Some (i, m')" "typed_tree m"
  shows "typed_tree m' \<and> (\<exists>nd. heap m' r = Some nd \<and> \<not> is_end_kind (n_kind nd))"
proof -
  obtain nd s mp l where nd: "heap m r = Some nd" "n_kind nd = KForall s mp l"
    using assms(1) by (rule child_index_forall)
  have "typed_kind (KForall s mp l)" using assms(2) nd unfolding typed_tree_def by metis
  then have "typed_tree (upd_node r (\<lambda>nd. nd\<lparr> n_kind := KForall s mp' l', n_children := f nd \<rparr>) m)" for mp' l' f
    using assms(2) by (auto simp: typed_tree_def upd_node_def split: if_splits)
  then show ?thesis
    using assms nd
    by (cases "map_of mp t") (auto simp: add_or_get_child_index_def bind_eq_Some_conv Let_def upd_node_def is_end_kind_def)
qed

lemma ForallThread_Check_ok:
  assumes "ForallThread_Check r s c idx w = Some (i, w')" "typed_pred (st_pred s)" "world_ok w"
    and "heap (w_mgr w) r = Some nd" "\<not> is_end_kind (n_kind nd)"
  shows "world_ok w' \<and> (\<exists>nd. heap (w_mgr w') r = Some nd \<and> \<not> is_end_kind (n_kind nd))"
proof -
  define found where "found = (case st_scope s of
         Some (x # xs) \<Rightarrow> (case FindByThread (vars (w_env w)) (x # xs) (Some c) of
            None \<Rightarrow> None | Some t \<Rightarrow> Some (t, w))
       | _ \<Rightarrow> Some (w_next_tv w,
            w\<lparr>w_env := (w_env w)\<lparr>vars := (vars (w_env w))(w_next_tv w := create_thread_var c)\<rparr>,
              w_next_tv := Suc (w_next_tv w)\<rparr>))"
  have w1: "world_ok w1 \<and> w_mgr w1 = w_mgr w" if "found = Some (t, w1)" for t w1
    using that assms(3) by (auto simp: found_def world_ok_def split: option.splits list.splits)
  show ?thesis
  proof (cases found)
    case None
    then show ?thesis using assms by (auto simp: ForallThread_Check_def found_def [symmetric] bind_eq_Some_conv Let_def)
  next
    case (Some p)
    obtain t w1 where p: "p = (t, w1)" by (cases p)
    obtain ok env1 where e: "CanSelectThread (st_pred s) c (w_env w1) = Some (ok, env1)"
      using assms(1) Some p by (auto simp: ForallThread_Check_def found_def [symmetric] bind_eq_Some_conv Let_def)
    have ok1: "env_ok env1" "typed_tree (w_mgr w1)" "w_mgr w1 = w_mgr w"
      using w1 [of t w1] Some p CanSelectThread_ok [OF e assms(2)] by (auto simp: world_ok_def)
    show ?thesis
    proof (cases ok)
      case False
      then show ?thesis using assms Some p e ok1
        by (auto simp: ForallThread_Check_def found_def [symmetric] bind_eq_Some_conv Let_def world_ok_def)
    next
      case True
      obtain j m1 where m1: "add_or_get_child_index r t (w_mgr w1) = Some (j, m1)"
        using assms(1) Some p e True by (auto simp: ForallThread_Check_def found_def [symmetric] bind_eq_Some_conv Let_def)
      have "typed_tree m1" using child_index_typed [OF m1 ok1(2)] by simp
      then show ?thesis using assms(1) Some p e True m1 ok1 child_index_typed [OF m1 ok1(2)]
        by (auto simp: ForallThread_Check_def found_def [symmetric] bind_eq_Some_conv Let_def world_ok_def split: if_splits)
    qed
  qed
qed

lemma EvalSelectThread_ok:
  assumes "EvalSelectThread c r w = Some (i, w')" "world_ok w" "heap (w_mgr w) r = Some nd"
  shows "world_ok w' \<and> (\<exists>nd. heap (w_mgr w') r = Some nd \<and> \<not> is_end_kind (n_kind nd))"
proof -
  let ?w = "w\<lparr> w_env := (w_env w)\<lparr> vars := set_thread (vars (w_env w)) TID (Some c) \<rparr> \<rparr>"
  have w: "world_ok ?w" "heap (w_mgr ?w) r = Some nd" using assms(2,3) by (simp_all add: world_ok_def)
  have k: "typed_kind (n_kind nd)" using assms(2,3) by (simp add: world_ok_def typed_tree_def)
  obtain idx where i: "(case n_kind nd of KForall s mp l \<Rightarrow> ForallThread_Check r s c idx ?w
      | KExists s cv \<Rightarrow> ExistsThread_Check r s cv c idx ?w | _ \<Rightarrow> None) = Some (i, w')"
    using assms(1,3) by (auto simp: EvalSelectThread_def bind_eq_Some_conv Let_def)
  show ?thesis
  proof (cases "n_kind nd")
    case (KForall s mp l)
    then show ?thesis
      using ForallThread_Check_ok [of r s c idx ?w i w' nd] i k w by (simp add: is_end_kind_def)
  next
    case (KExists s cv)
    then have "world_ok w' \<and> heap (w_mgr w') = heap (w_mgr ?w)"
      using ExistsThread_Check_ok [of r s cv c idx ?w i w'] i k w by simp
    then show ?thesis using assms(3) KExists by (simp add: is_end_kind_def)
  qed (use i in simp_all)
qed

lemma controlled_round_ok:
  assumes go: "controlled_round as cs c r w = Some (res, w')" and as: "list_all well_typed as" "list_all well_typed cs"
    and w: "world_ok w"
  shows "world_ok w'"
proof -
  obtain nd where nd: "heap (w_mgr w) r = Some nd" using go by (auto simp: controlled_round_def bind_eq_Some_conv)
  show ?thesis
  proof (cases "is_end_kind (n_kind nd)")
    case True
    then show ?thesis using go nd w by (simp add: controlled_round_def)
  next
    case False
    then obtain ev w1 where ev: "(if is_transition (n_kind nd) then EvalTransition as cs c r w
           else if is_select_thread (n_kind nd) then do { (ci, w') \<leftarrow> EvalSelectThread c r w; Some (EvalDone ci False, w') }
           else None) = Some (ev, w1)"
      using go nd by (auto simp: controlled_round_def bind_eq_Some_conv)
    have ok1: "world_ok w1 \<and> (\<exists>nd. heap (w_mgr w1) r = Some nd \<and> \<not> is_end_kind (n_kind nd))"
    proof (cases "is_transition (n_kind nd)")
      case True
      then show ?thesis using ev EvalTransition_ok [OF _ as w] nd False by fastforce
    next
      case f: False
      then show ?thesis using ev EvalSelectThread_ok [OF _ w nd] by (auto simp: bind_eq_Some_conv split: if_splits)
    qed
    then obtain nd1 where nd1: "heap (w_mgr w1) r = Some nd1" "\<not> is_end_kind (n_kind nd1)" "env_ok (w_env w1)" "typed_tree (w_mgr w1)"
      by (auto simp: world_ok_def)
    show ?thesis
      using go nd False ev nd1 ok1 ReleaseRef_typed [OF _ nd1(1,2,4)]
      by (cases ev) (auto simp: controlled_round_def bind_eq_Some_conv world_ok_def split: if_splits)
  qed
qed

section \<open>The whole callback\<close>

text \<open>What the other threads do between the steps of the loop keeps the types as well.\<close>

definition others_ok :: "others \<Rightarrow> bool" where
  "others_ok ot \<longleftrightarrow> (\<forall>w. world_ok w \<longrightarrow> world_ok (ot_before ot w)) \<and>
     (\<forall>e \<in> set (ot_steps ot). \<forall>m. typed_tree m \<longrightarrow> typed_tree (e m))"

definition live_ok :: "live \<Rightarrow> bool" where
  "live_ok s \<longleftrightarrow> pin_ok s \<and> typed_tree (lv_mgr s)"

lemma live_ok_world: "live_ok s = world_ok (live_world s)" "live_ok (put_world w s) = world_ok w"
    "live_ok (s\<lparr> lv_mgr := m \<rparr>) \<longleftrightarrow> pin_ok s \<and> typed_tree m"
  by (simp_all add: live_ok_def world_ok_def live_world_def pin_ok_def)

lemma oct_loop_ok:
  assumes as: "list_all well_typed as" "list_all well_typed cs"
  shows "oct_loop as cs viol c prev ots s = Some r \<Longrightarrow> list_all others_ok ots \<Longrightarrow> live_ok s \<Longrightarrow> live_ok (ctrl_state r)"
proof (induction ots arbitrary: prev s)
  case (Cons ot ots)
  let ?s0 = "put_world (ot_before ot (live_world s)) s"
  have "world_ok (live_world s)" using Cons.prems(3) by (simp only: live_ok_world(1))
  then have ok0: "live_ok ?s0" using Cons.prems(2) by (simp add: live_ok_world(2) others_ok_def)
  obtain res m where acq: "AcquireRef EXIT_ON_FULL c False (ot_steps ot) (lv_mgr ?s0) = Some (res, m)"
    using Cons.prems(1) by (auto simp: oct_loop.simps(2) Let_def split: option.splits)
  have m: "typed_tree m"
    by (rule AcquireRef_typed [OF acq]) (use ok0 Cons.prems(2) in \<open>auto simp: live_ok_def others_ok_def\<close>)
  let ?s1 = "?s0\<lparr> lv_mgr := m \<rparr>"
  have ok1: "live_ok ?s1" using ok0 m by (simp add: live_ok_def pin_ok_def)
  show ?case
  proof (cases res)
    case (Returns n)
    show ?thesis
    proof (cases "IS_ENDNODE m n = Some True")
      case True
      then show ?thesis using Cons.prems(1) acq ok1 Returns by (auto simp: oct_loop.simps(2) Let_def)
    next
      case False
      then obtain k q w where k: "n = Some k" "controlled_round as cs c k (live_world ?s1) = Some (q, w)"
        and r: "(case q of Leave \<Rightarrow> Some (Resumes (put_world w ?s1))
              | Violation \<Rightarrow> Some (Unwinds (TRIGGER_ASSERTION_VIOLATION 0 viol '''' '''' 0) (put_world w ?s1))
              | NextNode \<Rightarrow> oct_loop as cs viol c n ots (put_world w ?s1)
              | WaitConsumed \<Rightarrow> oct_loop as cs viol c (if ot_timeout ot then None else n) ots (put_world w ?s1)) = Some r"
        using Cons.prems(1) acq Returns
        by (auto simp: oct_loop.simps(2) Let_def safe_notnull_def bind_eq_Some_conv split: if_splits option.splits)
      have "world_ok w" by (rule controlled_round_ok [OF k(2) as]) (use ok1 in \<open>simp only: live_ok_world(1)\<close>)
      then have "live_ok (put_world w ?s1)" by (simp only: live_ok_world(2))
      then show ?thesis using r Cons.IH Cons.prems(2) by (cases q) auto
    qed
  qed (use Cons.prems(1) acq ok1 in \<open>auto simp: oct_loop.simps(2) Let_def\<close>)
qed (auto simp: ctrl_state_def)

lemma OnControlledTransition_ok:
  assumes "list_all well_typed as" "list_all well_typed cs" "list_all others_ok ots"
  shows "keeps_ok (\<lambda>s. typed_tree (lv_mgr s)) (OnControlledTransition opts as cs viol c ots)"
proof -
  have "live_ok (ctrl_state r)" if ok: "live_ok s" and r: "OnControlledTransition opts as cs viol c ots s = Some r" for s r
  proof (cases "pm_status s = ENABLED")
    case False
    then show ?thesis using r ok by (auto simp: OnControlledTransition_def bind_eq_Some_conv)
  next
    case True
    then obtain r1 where r1: "oct_loop as cs viol c None ots (s\<lparr> pm_status := BLOCKED \<rparr>) = Some r1"
      "r = (case r1 of Resumes s1 \<Rightarrow> Resumes (pin_FinishControlledTransition (co_tid c) s1)
          | Unwinds e s1 \<Rightarrow> Unwinds e s1 | Stuck s1 \<Rightarrow> Stuck s1)"
      using r by (auto simp: OnControlledTransition_def bind_eq_Some_conv)
    have "live_ok (ctrl_state r1)"
      by (rule oct_loop_ok [OF assms(1,2) r1(1) assms(3)]) (use ok in \<open>simp add: live_ok_def pin_ok_def\<close>)
    then show ?thesis
      by (cases r1) (auto simp: r1(2) live_ok_def pin_FinishControlledTransition_def pin_ok_def AuxState_Reset_ok)
  qed
  then show ?thesis by (simp add: keeps_ok_def ok_with_def live_ok_def)
qed

interpretation tree: outer_state "\<lambda>s :: live. typed_tree (lv_mgr s)"
  by unfold_locales simp_all



end
