(* ===== verification/Remote_Client.thy ===== *)
theory Remote_Client
  imports Pin_Monitor Event_Pipe
begin

text \<open>
  remote/client.cpp and the dispatch of remote/server.cpp: the library that is loaded into a program
  under test which runs in a process of its own.  A call of the instrumentation becomes an event that
  is sent over the pipe, and the shadow thread of the server makes the same call there.
\<close>

section \<open>The client process\<close>

text \<open>Threads of the program are numbers; \<open>cl_tls\<close> is the thread-local pointer to the shadow thread.\<close>

record client =
  cl_test_started :: bool
  cl_next_threadid :: int
  cl_tls :: "nat \<Rightarrow> nat option"
  cl_pipe :: cpipe
  cl_shadows :: "nat \<Rightarrow> shadow"
  cl_new :: nat

definition construct_client :: client where
  "construct_client = \<lparr> cl_test_started = False, cl_next_threadid = 2, cl_tls = Map.empty,
     cl_pipe = \<lparr> cp_threads = [], cp_handler_send = None, cp_handler_recv = None \<rparr>,
     cl_shadows = (\<lambda>_. new_ShadowThread 0), cl_new = 0 \<rparr>"

definition set_tls :: "nat \<Rightarrow> nat option \<Rightarrow> client \<Rightarrow> client option" where
  "set_tls p v s = do {
     safe_assert (cl_tls s p = None);
     Some (s\<lparr> cl_tls := (cl_tls s)(p := v) \<rparr>) }"

definition shadow_tid :: "shadow \<Rightarrow> int" where
  "shadow_tid sh = sint (sh_tid sh)"

definition ClientShadow_OnStart :: "nat \<Rightarrow> nat \<Rightarrow> client \<Rightarrow> client option" where
  "ClientShadow_OnStart p r s =
     set_tls p (Some r) (s\<lparr> cl_pipe := RegisterShadowThread (shadow_tid (cl_shadows s r)) r (cl_pipe s) \<rparr>)"

text \<open>OnEnd after its event was answered.\<close>

definition ClientShadow_OnEnd_after :: "nat \<Rightarrow> nat \<Rightarrow> client \<Rightarrow> client option" where
  "ClientShadow_OnEnd_after p r s = do {
     s1 \<leftarrow> set_tls p None s;
     q \<leftarrow> UnregisterShadowThread (shadow_tid (cl_shadows s1 r)) (cl_pipe s1);
     Some (s1\<lparr> cl_pipe := q \<rparr>) }"

definition Client_GetShadowThread :: "nat \<Rightarrow> client \<Rightarrow> (nat \<times> client) option" where
  "Client_GetShadowThread p s = (case cl_tls s p of
     Some r \<Rightarrow> Some (r, s)
   | None \<Rightarrow> do {
       let t = cl_next_threadid s;
       let r = cl_new s;
       s1 \<leftarrow> ClientShadow_OnStart p r (s\<lparr> cl_next_threadid := t + 1, cl_new := r + 1,
         cl_shadows := (cl_shadows s)(r := new_ShadowThread (word_of_int t)) \<rparr>);
       Some (r, s1) })"

section \<open>Calls of the instrumentation\<close>

text \<open>A call returns at once, or sends an event through a shadow thread and waits for the continue
  (then the flag tells that OnEnd goes on after it), or sends one and reads the pipe itself.\<close>

datatype client_act = Skip | Exchange nat event bool | Direct event

definition exchange :: "nat \<Rightarrow> bool \<Rightarrow> event \<Rightarrow> client \<Rightarrow> (client_act \<times> client) option" where
  "exchange p fin e s = do {
     (r, s1) \<leftarrow> Client_GetShadowThread p s;
     Some (Exchange r e fin, s1) }"

definition if_started :: "client \<Rightarrow> (client_act \<times> client) option \<Rightarrow> (client_act \<times> client) option" where
  "if_started s x = (if cl_test_started s then x else Some (Skip, s))"

definition strncpy63 :: "string \<Rightarrow> byte list" where
  "strncpy63 nm = map (\<lambda>c. of_nat (of_char c)) (take 63 nm) @ replicate (64 - length (take 63 nm)) 0"

text \<open>The events of the calls that the client handler overrides; the other calls are those of
  InstrHandler, which do nothing.\<close>

fun call_event :: "instr_call \<Rightarrow> event option" where
  "call_event (IAddressOfSymbol nm a) = map_option (\<lambda>x. event_Clear\<lparr> e_type := AddressOfSymbol, e_addr := a, e_str := strncpy63 x \<rparr>) nm"
| "call_event (IAtPc pc f g l) = Some (event_Clear\<lparr> e_type := AtPc_event, e_pc := word_of_int pc \<rparr>)"
| "call_event (IFuncEnter a x y f g l) = Some (event_Clear\<lparr> e_type := FuncEnter, e_addr := a, e_arg0 := x, e_arg1 := y \<rparr>)"
| "call_event (IFuncReturn a v f g l) = Some (event_Clear\<lparr> e_type := FuncReturn, e_addr := a, e_retval := v \<rparr>)"
| "call_event (IThreadEnd f g l) = Some (event_Clear\<lparr> e_type := ThreadEnd \<rparr>)"
| "call_event c = None"

fun client_call :: "nat \<Rightarrow> instr_call \<Rightarrow> client \<Rightarrow> (client_act \<times> client) option" where
  "client_call p IStartTest s = Some (Direct (event_Clear\<lparr> e_type := TestStart, e_threadid := 0 \<rparr>), s)"
| "client_call p IEndTest s = Some (Direct (event_Clear\<lparr> e_type := TestEnd, e_threadid := 0 \<rparr>), s)"
| "client_call p (IAddressOfSymbol nm a) s = do {
     x \<leftarrow> nm;
     safe_check (length x < 64);
     e \<leftarrow> call_event (IAddressOfSymbol nm a);
     exchange p False e s }"
| "client_call p (IThreadStart f g l) s =
     if_started s (do { (r, s1) \<leftarrow> Client_GetShadowThread p s; Some (Skip, s1) })"
| "client_call p (IThreadEnd f g l) s =
     if_started s (do { e \<leftarrow> call_event (IThreadEnd f g l); exchange p True e s })"
| "client_call p c s = (case call_event c of
     None \<Rightarrow> Some (Skip, s)
   | Some e \<Rightarrow> if_started s (exchange p False e s))"

text \<open>ShadowThread::Send stamps the event with the thread id; the handler of the pipe is the one of
  the client, whose OnSend is the default.\<close>

definition stamp :: "shadow \<Rightarrow> event \<Rightarrow> event" where
  "stamp sh e = e\<lparr> e_threadid := sh_tid sh \<rparr>"

definition Client_OnRecv :: "event \<Rightarrow> client \<Rightarrow> (bool \<times> client) option" where
  "Client_OnRecv e s = (if e_type e = TestStart then do {
       safe_assert (e_threadid e = 0);
       safe_check (\<not> cl_test_started s);
       Some (False, s\<lparr> cl_test_started := True \<rparr>) }
     else if e_type e = TestEnd then do {
       safe_assert (e_threadid e = 0);
       safe_check (cl_test_started s);
       Some (False, s\<lparr> cl_test_started := False \<rparr>) }
     else Some (True, s))"

section \<open>The dispatch of the server\<close>

text \<open>The switch of ServerShadowThread::Run; \<open>f\<close> and \<open>g\<close> are the file and the function that the macros
  pass.  ThreadEndIntern leaves the loop and is not dispatched.\<close>

definition Server_dispatch :: "string option \<Rightarrow> string option \<Rightarrow> event \<Rightarrow> instr_call option" where
  "Server_dispatch f g e = (let k = e_type e in
     if k = MemAccessBefore then Some (IMemAccessBefore f g 88)
     else if k = MemAccessAfter then Some (IMemAccessAfter f g 92)
     else if k = MemWrite then Some (IMemWrite (e_addr e) (ucast (e_size e)) f g 96)
     else if k = MemRead then Some (IMemRead (e_addr e) (ucast (e_size e)) f g 100)
     else if k = FuncCall then Some (IFuncCall (e_addr e) (e_addr_target e) (e_arg0 e) (e_arg1 e) f g 104)
     else if k = FuncEnter then Some (IFuncEnter (e_addr e) (e_arg0 e) (e_arg1 e) f g 108)
     else if k = FuncReturn then Some (IFuncReturn (e_addr e) (e_retval e) f g 112)
     else if k = ThreadEnd then Some (IThreadEnd f g 116)
     else if k = AtPc_event then Some (IAtPc (sint (e_pc e)) f g 120)
     else if k = AddressOfSymbol then Some (IAddressOfSymbol (Some (event_symbol e)) (e_addr e))
     else None)"

text \<open>The same call, made from the server.\<close>

fun remote_call :: "string option \<Rightarrow> string option \<Rightarrow> instr_call \<Rightarrow> instr_call" where
  "remote_call f g (IAtPc pc f0 g0 l) = IAtPc (sint (word_of_int pc :: 32 word)) f g 120"
| "remote_call f g (IFuncEnter a x y f0 g0 l) = IFuncEnter a x y f g 108"
| "remote_call f g (IFuncReturn a v f0 g0 l) = IFuncReturn a v f g 112"
| "remote_call f g (IThreadEnd f0 g0 l) = IThreadEnd f g 116"
| "remote_call f g c = c"

lemma call_event_kind:
  "call_event c = Some e \<Longrightarrow> e_type e \<in> {AddressOfSymbol, AtPc_event, FuncEnter, FuncReturn, ThreadEnd}"
  by (cases c) auto

lemma call_event_str: "call_event c = Some e \<Longrightarrow> length (e_str e) = 64"
  by (cases c) (auto simp: event_Clear_def strncpy63_def)

lemma wire_threadid [simp]: "e_threadid (wire_image e) = e_threadid e" "e_type (wire_image e) = e_type e"
  by (simp_all add: wire_image_def event_assign_def Let_def)

lemma byte_char [simp]: "char_of (unat (of_nat (of_char c) :: byte)) = c"
proof -
  have "of_char c < (256 :: nat)" by simp
  then have "unat (of_nat (of_char c) :: byte) = of_char c" by (simp add: unat_of_nat)
  then show ?thesis by simp
qed

lemma byte_char_0:
  assumes "c \<noteq> char_of (0 :: nat)"
  shows "of_nat (of_char c) \<noteq> (0 :: byte)"
proof
  assume h: "of_nat (of_char c) = (0 :: byte)"
  have "char_of (unat (0 :: byte)) = c" using byte_char [of c] unfolding h .
  with assms show False by simp
qed

text \<open>A symbol of less than 64 characters without NUL arrives as it was.\<close>

lemma symbol_arrives:
  assumes "length nm < 64" "char_of (0 :: nat) \<notin> set nm"
  shows "map (\<lambda>b. char_of (unat b)) (takeWhile (\<lambda>b. b \<noteq> 0) (strncpy63 nm)) = nm"
proof -
  have "takeWhile (\<lambda>b. b \<noteq> 0) (map (\<lambda>c. of_nat (of_char c) :: byte) nm @ replicate (64 - length nm) 0) = map (\<lambda>c. of_nat (of_char c)) nm"
  proof (rule trans [OF takeWhile_append2])
    fix b :: byte
    assume "b \<in> set (map (\<lambda>c. of_nat (of_char c)) nm)"
    then obtain c where c: "c \<in> set nm" "b = of_nat (of_char c)" by auto
    then have "c \<noteq> char_of (0 :: nat)" using assms(2) by auto
    then show "b \<noteq> 0" using byte_char_0 c(2) by simp
  qed (use assms(1) in simp)
  then show ?thesis using assms(1) by (simp add: strncpy63_def comp_def)
qed

section \<open>Properties\<close>

definition plain_symbol :: "instr_call \<Rightarrow> bool" where
  "plain_symbol c \<longleftrightarrow> (case c of IAddressOfSymbol (Some nm) a \<Rightarrow> length nm < 64 \<and> char_of (0 :: nat) \<notin> set nm | _ \<Rightarrow> True)"

lemma dispatch_event:
  assumes "call_event c = Some e" "plain_symbol c"
  shows "Server_dispatch f g (wire_image (stamp sh e)) = Some (remote_call f g c)"
proof (cases c)
  case (IAddressOfSymbol nm a)
  then obtain x where x: "nm = Some x" "e = event_Clear\<lparr> e_type := AddressOfSymbol, e_addr := a, e_str := strncpy63 x \<rparr>"
    using assms(1) by auto
  have "event_symbol (wire_image (stamp sh e)) = x"
    using symbol_arrives [of x] assms(2)
    by (simp add: x(2) IAddressOfSymbol x(1) plain_symbol_def event_symbol_def wire_image_def event_assign_def stamp_def
        kind_defs Let_def)
  then show ?thesis
    by (simp add: x IAddressOfSymbol Server_dispatch_def wire_image_def event_assign_def stamp_def kind_defs Let_def)
qed (use assms(1) in \<open>auto simp: Server_dispatch_def wire_image_def event_assign_def stamp_def kind_defs Let_def\<close>)

text \<open>C12: A call of the instrumentation that the client sends over the pipe is the call
  that the server makes: the event that the bytes of the pipe decode to is dispatched to the same
  function with the same arguments, with the file, the function and the line replaced by those of
  the server.\<close>

theorem remote_call_transparent:
  assumes "call_event c = Some e" "plain_symbol c" "sh_tid sh \<noteq> INVALID_TID"
  shows "\<exists>e'. EventPipe_Recv (Send_bytes (stamp sh e) @ rest) = Some (Got e' rest) \<and> e_threadid e' = sh_tid sh \<and>
    Server_dispatch f g e' = Some (remote_call f g c)"
proof -
  have "event_Check (stamp sh e)"
    using call_event_kind [OF assms(1)] assms(3) by (auto simp: event_Check_def stamp_def kind_defs)
  moreover have "length (e_str (stamp sh e)) = 64" using call_event_str [OF assms(1)] by (simp add: stamp_def)
  ultimately show ?thesis
    using event_roundtrip [of "stamp sh e" rest] dispatch_event [OF assms(1,2), of f g sh]
    by (intro exI [of _ "wire_image (stamp sh e)"]) (simp add: stamp_def)
qed

theorem remote_call_transparent_witness:
  "\<exists>e'. EventPipe_Recv (Send_bytes (stamp (new_ShadowThread 2) (event_Clear\<lparr> e_type := FuncEnter, e_addr := 64,
      e_arg0 := 7, e_arg1 := 8 \<rparr>)) @ []) = Some (Got e' []) \<and> e_threadid e' = 2 \<and>
    Server_dispatch None None e' = Some (IFuncEnter 64 7 8 None None 108)"
  using remote_call_transparent [of "IFuncEnter 64 7 8 None None 1" _ "new_ShadowThread 2" "[]" None None]
  by (simp add: plain_symbol_def new_ShadowThread_def INVALID_TID_def INVALID_THREADID_def)

end
