(* ===== verification/Remote_Server.thy ===== *)
theory Remote_Server
  imports Remote_Client
begin

text \<open>
  remote/server.cpp and remote/testcontroller.cpp, and the remote mode as one system: the threads of the
  client process, the worker of its pipe, the workers of the two pipes of the server, the shadow threads
  of the server, its main function and the test controller.  \<open>remote_step\<close> makes the next step of one of
  them; a step is what lies between two points at which another one can come in.
\<close>

section \<open>The server\<close>

datatype pipe_id = ClientPipe | ControlPipe

text \<open>\<open>sv_mutex\<close> is the mutex of the event handler and \<open>sv_map\<close> the map mutexes of the pipes, with the worker
  that holds them over several steps.  \<open>sv_home\<close> is the pipe of a shadow thread and \<open>sv_event\<close> the event
  variable of its loop.\<close>

record server =
  sv_test_started :: bool
  sv_pipe :: "pipe_id \<Rightarrow> cpipe"
  sv_shadows :: "nat \<Rightarrow> shadow"
  sv_starts :: "nat \<Rightarrow> sem"
  sv_home :: "nat \<Rightarrow> pipe_id"
  sv_event :: "nat \<Rightarrow> event"
  sv_new :: nat
  sv_start_sem :: sem
  sv_end_sem :: sem
  sv_mutex :: "pipe_id option"
  sv_map :: "pipe_id \<Rightarrow> pipe_id option"

definition new_server :: server where
  "new_server = \<lparr> sv_test_started = False,
     sv_pipe = (\<lambda>_. \<lparr> cp_threads = [], cp_handler_send = None, cp_handler_recv = None \<rparr>),
     sv_shadows = (\<lambda>_. new_ShadowThread 0), sv_starts = (\<lambda>_. 0), sv_home = (\<lambda>_. ClientPipe),
     sv_event = (\<lambda>_. event_Clear), sv_new = 0, sv_start_sem = 0, sv_end_sem = 0, sv_mutex = None,
     sv_map = (\<lambda>_. None) \<rparr>"

text \<open>What OnRecv decides on an event: start or end the test, create a shadow thread (the flag tells that it
  answers instead of forwarding the event), forward the event, or answer it at once.\<close>

datatype recv_plan = PStart | PEnd | PCreate bool | PForward | PAnswer

definition Server_HandleEvent :: "pipe_id \<Rightarrow> event \<Rightarrow> server \<Rightarrow> recv_plan option" where
  "Server_HandleEvent q e s = (case GetShadowThread (sint (e_threadid e)) (sv_pipe s q) of
     Some r \<Rightarrow> Some PForward
   | None \<Rightarrow> do { safe_assert (sint (e_threadid e) \<ge> 2); Some (PCreate False) })"

definition Server_OnRecv :: "pipe_id \<Rightarrow> event \<Rightarrow> server \<Rightarrow> recv_plan option" where
  "Server_OnRecv q e s = do {
     safe_check (e_type e \<noteq> Continue);
     if e_type e = TestStart then do { safe_assert (e_threadid e = 0); Some PStart }
     else if e_type e = TestEnd then do { safe_assert (e_threadid e = 0); Some PEnd }
     else if e_type e = ThreadStart then
       (if \<not> sv_test_started s then Some PAnswer
        else do { safe_assert (sint (e_threadid e) \<ge> 2); Some (PCreate True) })
     else if e_type e = AddressOfSymbol then Server_HandleEvent q e s
     else if \<not> sv_test_started s then Some PAnswer
     else Server_HandleEvent q e s }"

definition CreateShadowThread :: "pipe_id \<Rightarrow> 32 word \<Rightarrow> server \<Rightarrow> server" where
  "CreateShadowThread q t s = s\<lparr> sv_new := sv_new s + 1,
     sv_shadows := (sv_shadows s)(sv_new s := new_ShadowThread t), sv_starts := (sv_starts s)(sv_new s := 0),
     sv_home := (sv_home s)(sv_new s := q), sv_event := (sv_event s)(sv_new s := event_Clear),
     sv_pipe := (sv_pipe s)(q := RegisterShadowThread (sint t) (sv_new s) (sv_pipe s q)) \<rparr>"

section \<open>The whole system\<close>

datatype client_pc = CIdle | CSend nat event bool | CRecv nat bool | CWait nat bool | CSendDirect event | CDirect

datatype client_worker = KIdle | KRoute event | KSignal nat event

datatype worker_pc = WIdle | WLock event | WStart nat event bool | WRoute event | WSignal nat event
  | WStartTest | WLockMap pipe_id | WBroadcast pipe_id "nat list" | WDrain pipe_id

datatype shadow_pc = SNew | SRecv | SWait | SHandle event | SContinue event | SEnding | SDone

datatype main_pc = MBegin | MWait | MCheck

record remote =
  rm_client :: client
  rm_cpc :: "nat \<Rightarrow> client_pc"
  rm_cworker :: client_worker
  rm_up :: "pipe_id \<Rightarrow> event list"
  rm_down :: "pipe_id \<Rightarrow> event list"
  rm_server :: server
  rm_spc :: "nat \<Rightarrow> shadow_pc"
  rm_worker :: "pipe_id \<Rightarrow> worker_pc"
  rm_main :: main_pc
  rm_ctl :: bool
  rm_calls :: "(int \<times> instr_call) list"
    \<comment> \<open>the calls made on the server, with the thread id, 0 for its own threads\<close>

definition remote_init :: remote where
  "remote_init = \<lparr> rm_client = construct_client, rm_cpc = (\<lambda>_. CIdle), rm_cworker = KIdle, rm_up = (\<lambda>_. []),
     rm_down = (\<lambda>_. []), rm_server = new_server, rm_spc = (\<lambda>_. SDone), rm_worker = (\<lambda>_. WIdle),
     rm_main = MBegin, rm_ctl = False, rm_calls = [] \<rparr>"

text \<open>A pipe carries the wire image of an event (event_stream_roundtrip).\<close>

definition wire :: "event \<Rightarrow> event option" where
  "wire e = do {
     safe_assert (e_type e \<noteq> InvalidEventKind);
     safe_assert (e_threadid e \<noteq> INVALID_TID);
     Some (wire_image e) }"

definition push_up :: "pipe_id \<Rightarrow> event \<Rightarrow> remote \<Rightarrow> remote option" where
  "push_up q e x = do { w \<leftarrow> wire e; Some (x\<lparr> rm_up := (rm_up x)(q := rm_up x q @ [w]) \<rparr>) }"

definition push_down :: "pipe_id \<Rightarrow> event \<Rightarrow> remote \<Rightarrow> remote option" where
  "push_down q e x = do { w \<leftarrow> wire e; Some (x\<lparr> rm_down := (rm_down x)(q := rm_down x q @ [w]) \<rparr>) }"

definition SendContinue :: "pipe_id \<Rightarrow> 32 word \<Rightarrow> remote \<Rightarrow> remote option" where
  "SendContinue q t x = push_down q (SendContinue_event t) x"

text \<open>SignalRecv and WaitRecv of a shadow thread; Event_Handoff shows that their parts in between do not matter.\<close>

definition SignalRecv :: "event \<Rightarrow> shadow \<Rightarrow> shadow call option" where
  "SignalRecv e s = do {
     s0 \<leftarrow> SignalRecv_begin e s;
     c \<leftarrow> SignalRecv_wait s0;
     (case c of Blocks \<Rightarrow> Some Blocks
      | call.Returns s1 \<Rightarrow> do {
          s2 \<leftarrow> SignalRecv_check (SignalRecv_copy e s1);
          s3 \<leftarrow> SignalRecv_signal s2;
          Some (call.Returns s3) }) }"

definition WaitRecv_begin :: "shadow \<Rightarrow> shadow option" where
  "WaitRecv_begin s = do { s1 \<leftarrow> WaitRecv_signal s; WaitRecv_check s1 }"

definition WaitRecv_end :: "event \<Rightarrow> shadow \<Rightarrow> (event \<times> shadow) call option" where
  "WaitRecv_end dst s = do {
     c \<leftarrow> WaitRecv_wait s;
     (case c of Blocks \<Rightarrow> Some Blocks
      | call.Returns s1 \<Rightarrow> do { e \<leftarrow> WaitRecv_copy dst s1; Some (call.Returns (e, s1)) }) }"

abbreviation go :: "'a \<Rightarrow> 'a call option" where
  "go x \<equiv> Some (call.Returns x)"

abbreviation stay :: "'a call option" where
  "stay \<equiv> Some Blocks"

section \<open>Steps of the client\<close>

definition set_cpc :: "nat \<Rightarrow> client_pc \<Rightarrow> remote \<Rightarrow> remote" where
  "set_cpc p c x = x\<lparr> rm_cpc := (rm_cpc x)(p := c) \<rparr>"

definition set_cshadow :: "nat \<Rightarrow> shadow \<Rightarrow> remote \<Rightarrow> remote" where
  "set_cshadow r sh x = x\<lparr> rm_client := (rm_client x)\<lparr> cl_shadows := (cl_shadows (rm_client x))(r := sh) \<rparr> \<rparr>"

definition call_step :: "nat \<Rightarrow> instr_call \<Rightarrow> remote \<Rightarrow> remote call option" where
  "call_step p c x = (if rm_cpc x p \<noteq> CIdle then stay
     else do {
       (act, s1) \<leftarrow> client_call p c (rm_client x);
       let x1 = x\<lparr> rm_client := s1 \<rparr>;
       (case act of
          Skip \<Rightarrow> go x1
        | Exchange r e fin \<Rightarrow> go (set_cpc p (CSend r e fin) x1)
        | Direct e \<Rightarrow> go (set_cpc p (CSendDirect e) x1)) })"

definition client_step :: "nat \<Rightarrow> remote \<Rightarrow> remote call option" where
  "client_step p x = (case rm_cpc x p of
     CIdle \<Rightarrow> stay
   | CSend r e fin \<Rightarrow> do {
       x1 \<leftarrow> push_up ClientPipe (stamp (cl_shadows (rm_client x) r) e) x;
       go (set_cpc p (CRecv r fin) x1) }
   | CRecv r fin \<Rightarrow> do {
       sh \<leftarrow> WaitRecv_begin (cl_shadows (rm_client x) r);
       go (set_cpc p (CWait r fin) (set_cshadow r sh x)) }
   | CWait r fin \<Rightarrow> do {
       c \<leftarrow> WaitRecv_end event_Clear (cl_shadows (rm_client x) r);
       (case c of Blocks \<Rightarrow> stay
        | call.Returns (e, sh) \<Rightarrow> do {
            SendRecvContinue_check e;
            let x1 = set_cpc p CIdle (set_cshadow r sh x);
            (if fin then do {
               s1 \<leftarrow> ClientShadow_OnEnd_after p r (rm_client x1);
               go (x1\<lparr> rm_client := s1 \<rparr>) }
             else go x1) }) }
   | CSendDirect e \<Rightarrow> do { x1 \<leftarrow> push_up ClientPipe e x; go (set_cpc p CDirect x1) }
   | CDirect \<Rightarrow> (case rm_down x ClientPipe of [] \<Rightarrow> stay
       | e # es \<Rightarrow> do {
           safe_assert (e_type e = Continue);
           go (set_cpc p CIdle (x\<lparr> rm_down := (rm_down x)(ClientPipe := es) \<rparr>)) }))"

text \<open>The worker of the client's pipe.\<close>

definition client_worker_step :: "remote \<Rightarrow> remote call option" where
  "client_worker_step x = (case rm_cworker x of
     KIdle \<Rightarrow> (case rm_down x ClientPipe of [] \<Rightarrow> stay
       | e # es \<Rightarrow> do {
           (fwd, s1) \<leftarrow> Client_OnRecv e (rm_client x);
           safe_assert (sint (e_threadid e) \<ge> 0);
           go (x\<lparr> rm_down := (rm_down x)(ClientPipe := es), rm_client := s1,
             rm_cworker := (if fwd then KRoute e else KIdle) \<rparr>) })
   | KRoute e \<Rightarrow> (case GetShadowThread (sint (e_threadid e)) (cl_pipe (rm_client x)) of
       None \<Rightarrow> do { safe_assert (e_type e \<noteq> Continue); go (x\<lparr> rm_cworker := KIdle \<rparr>) }
     | Some r \<Rightarrow> do {
         safe_assert (shadow_tid (cl_shadows (rm_client x) r) = sint (e_threadid e));
         go (x\<lparr> rm_cworker := KSignal r e \<rparr>) })
   | KSignal r e \<Rightarrow> do {
       c \<leftarrow> SignalRecv e (cl_shadows (rm_client x) r);
       (case c of Blocks \<Rightarrow> stay
        | call.Returns sh \<Rightarrow> go ((set_cshadow r sh x)\<lparr> rm_cworker := KIdle \<rparr>)) })"

section \<open>Steps of the server\<close>

definition set_worker :: "pipe_id \<Rightarrow> worker_pc \<Rightarrow> remote \<Rightarrow> remote" where
  "set_worker q w x = x\<lparr> rm_worker := (rm_worker x)(q := w) \<rparr>"

definition on_server :: "(server \<Rightarrow> server) \<Rightarrow> remote \<Rightarrow> remote" where
  "on_server f x = x\<lparr> rm_server := f (rm_server x) \<rparr>"

definition set_shadow :: "nat \<Rightarrow> shadow \<Rightarrow> remote \<Rightarrow> remote" where
  "set_shadow r sh = on_server (\<lambda>s. s\<lparr> sv_shadows := (sv_shadows s)(r := sh) \<rparr>)"

definition release_mutex :: "remote \<Rightarrow> remote" where
  "release_mutex = on_server (\<lambda>s. s\<lparr> sv_mutex := None \<rparr>)"

text \<open>The event handler: the mutex is taken, and it is released in the same step unless the handler has to
  wait in between.\<close>

definition OnRecv_step :: "pipe_id \<Rightarrow> event \<Rightarrow> remote \<Rightarrow> remote call option" where
  "OnRecv_step q e x = (let s = rm_server x; t = e_threadid e in
     if sv_mutex s \<noteq> None \<or> sv_map s q \<noteq> None then stay
     else do {
       plan \<leftarrow> Server_OnRecv q e s;
       (case plan of
          PForward \<Rightarrow> go (set_worker q (WRoute e) x)
        | PAnswer \<Rightarrow> do {
            x1 \<leftarrow> SendContinue q t x;
            safe_assert (sint t \<ge> 0);
            go (set_worker q WIdle x1) }
        | PCreate answer \<Rightarrow> go (set_worker q (WStart (sv_new s) e answer)
            (on_server (\<lambda>s. (CreateShadowThread q t s)\<lparr> sv_mutex := Some q \<rparr>)
              (x\<lparr> rm_spc := (rm_spc x)(sv_new s := SNew) \<rparr>)))
        | PStart \<Rightarrow> (if sv_test_started s
            then do { x1 \<leftarrow> SendContinue ControlPipe 0 x; go (set_worker q WIdle x1) }
            else go (set_worker q WStartTest (on_server (\<lambda>s. s\<lparr> sv_mutex := Some q \<rparr>) x)))
        | PEnd \<Rightarrow> (if \<not> sv_test_started s
            then do { x1 \<leftarrow> SendContinue ControlPipe 0 x; go (set_worker q WIdle x1) }
            else do {
              x1 \<leftarrow> push_down ClientPipe (event_Clear\<lparr> e_type := TestEnd, e_threadid := 0 \<rparr>) x;
              go (set_worker q (WLockMap ClientPipe)
                (on_server (\<lambda>s. s\<lparr> sv_mutex := Some q, sv_test_started := False \<rparr>) x1)) })) })"

text \<open>The steps of EndTest: Broadcast under the map mutex, waiting until no shadow thread is registered, the same
  for the other pipe, and the end.\<close>

definition broadcast_refs :: "cpipe \<Rightarrow> nat list" where
  "broadcast_refs p = map (\<lambda>t. the (map_of (cp_threads p) t)) (sort (map fst (cp_threads p)))"

definition intern_event :: "shadow \<Rightarrow> event" where
  "intern_event sh = event_Clear\<lparr> e_type := ThreadEndIntern, e_threadid := sh_tid sh \<rparr>"

definition drain_step :: "pipe_id \<Rightarrow> pipe_id \<Rightarrow> remote \<Rightarrow> remote call option" where
  "drain_step q q' x = (let s = rm_server x in
     if sv_map s q' \<noteq> None \<or> NumShadowThreads (sv_pipe s q') > 0 then stay
     else if q' = ClientPipe \<and> q \<noteq> ClientPipe then go (set_worker q (WLockMap q) x)
     else do {
       x1 \<leftarrow> SendContinue ControlPipe 0 x;
       v \<leftarrow> Sem_Signal (sv_end_sem s);
       go (set_worker q WIdle (on_server (\<lambda>s. s\<lparr> sv_end_sem := v, sv_mutex := None \<rparr>) x1)) })"

definition worker_step :: "pipe_id \<Rightarrow> remote \<Rightarrow> remote call option" where
  "worker_step q x = (let s = rm_server x in case rm_worker x q of
     WIdle \<Rightarrow> (case rm_up x q of [] \<Rightarrow> stay
       | e # es \<Rightarrow> go (set_worker q (WLock e) (x\<lparr> rm_up := (rm_up x)(q := es) \<rparr>)))
   | WLock e \<Rightarrow> OnRecv_step q e x
   | WStart r e answer \<Rightarrow> do {
       c \<leftarrow> Sem_Wait [] (sv_starts s r);
       (case c of Blocks \<Rightarrow> stay
        | call.Returns v \<Rightarrow> (let x1 = release_mutex (on_server (\<lambda>s. s\<lparr> sv_starts := (sv_starts s)(r := v) \<rparr>) x) in
            if answer then do { x2 \<leftarrow> SendContinue q (e_threadid e) x1; go (set_worker q WIdle x2) }
            else go (set_worker q (WRoute e) x1))) }
   | WRoute e \<Rightarrow> (if sv_map s q \<noteq> None then stay
       else do {
         safe_assert (sint (e_threadid e) \<ge> 0);
         (case GetShadowThread (sint (e_threadid e)) (sv_pipe s q) of
            None \<Rightarrow> do { safe_assert (e_type e \<noteq> Continue); go (set_worker q WIdle x) }
          | Some r \<Rightarrow> do {
              safe_assert (shadow_tid (sv_shadows s r) = sint (e_threadid e));
              go (set_worker q (WSignal r e) x) }) })
   | WSignal r e \<Rightarrow> do {
       c \<leftarrow> SignalRecv e (sv_shadows s r);
       (case c of Blocks \<Rightarrow> stay | call.Returns sh \<Rightarrow> go (set_worker q WIdle (set_shadow r sh x))) }
   | WStartTest \<Rightarrow> do {
       c \<leftarrow> Sem_Wait [] (sv_start_sem s);
       (case c of Blocks \<Rightarrow> stay
        | call.Returns v \<Rightarrow> do {
            x1 \<leftarrow> push_down ClientPipe (event_Clear\<lparr> e_type := TestStart, e_threadid := 0 \<rparr>) x;
            x2 \<leftarrow> SendContinue ControlPipe 0 x1;
            go (set_worker q WIdle (on_server (\<lambda>s. s\<lparr> sv_start_sem := v, sv_test_started := True, sv_mutex := None \<rparr>)
              (x2\<lparr> rm_calls := rm_calls x2 @ [(0, IStartTest)] \<rparr>))) }) }
   | WLockMap q' \<Rightarrow> (if sv_map s q' \<noteq> None then stay
       else go (set_worker q (WBroadcast q' (broadcast_refs (sv_pipe s q')))
         (on_server (\<lambda>s. s\<lparr> sv_map := (sv_map s)(q' := Some q) \<rparr>) x)))
   | WBroadcast q' rs \<Rightarrow> (case rs of
       [] \<Rightarrow> go (set_worker q (WDrain q') (on_server (\<lambda>s. s\<lparr> sv_map := (sv_map s)(q' := None) \<rparr>) x))
     | r # rs' \<Rightarrow> do {
         c \<leftarrow> SignalRecv (intern_event (sv_shadows s r)) (sv_shadows s r);
         (case c of Blocks \<Rightarrow> stay
          | call.Returns sh \<Rightarrow> go (set_worker q (WBroadcast q' rs') (set_shadow r sh x))) })
   | WDrain q' \<Rightarrow> drain_step q q' x)"

definition set_spc :: "nat \<Rightarrow> shadow_pc \<Rightarrow> remote \<Rightarrow> remote" where
  "set_spc r c x = x\<lparr> rm_spc := (rm_spc x)(r := c) \<rparr>"

text \<open>ServerShadowThread::Run.  The call that it makes ends in a controlled transition and returns at some
  time; here it is one step that records the call.\<close>

definition shadow_step :: "nat \<Rightarrow> remote \<Rightarrow> remote call option" where
  "shadow_step r x = (let s = rm_server x; sh = sv_shadows s r in case rm_spc x r of
     SNew \<Rightarrow> do {
       v \<leftarrow> Sem_Signal (sv_starts s r);
       go (set_spc r SRecv (on_server (\<lambda>s. s\<lparr> sv_starts := (sv_starts s)(r := v) \<rparr>) x)) }
   | SRecv \<Rightarrow> do { sh1 \<leftarrow> WaitRecv_begin sh; go (set_spc r SWait (set_shadow r sh1 x)) }
   | SWait \<Rightarrow> do {
       c \<leftarrow> WaitRecv_end (sv_event s r) sh;
       (case c of Blocks \<Rightarrow> stay
        | call.Returns (e, sh1) \<Rightarrow> do {
            safe_assert (e_threadid e = sh_tid sh);
            go (set_spc r (if e_type e = ThreadEndIntern then SEnding else SHandle e)
              (on_server (\<lambda>s. s\<lparr> sv_event := (sv_event s)(r := e) \<rparr>) (set_shadow r sh1 x))) }) }
   | SHandle e \<Rightarrow> do {
       c \<leftarrow> Server_dispatch (Some ''server.cpp'') (Some ''Run'') e;
       go (set_spc r (SContinue e) (x\<lparr> rm_calls := rm_calls x @ [(shadow_tid sh, c)] \<rparr>)) }
   | SContinue e \<Rightarrow> do {
       x1 \<leftarrow> SendContinue (sv_home s r) (sh_tid sh) x;
       go (set_spc r (if e_type e = ThreadEnd then SEnding else SRecv) x1) }
   | SEnding \<Rightarrow> (if sv_map s ClientPipe \<noteq> None then stay
       else do {
         p \<leftarrow> UnregisterShadowThread (shadow_tid sh) (sv_pipe s ClientPipe);
         go (set_spc r SDone (on_server (\<lambda>s. s\<lparr> sv_pipe := (sv_pipe s)(ClientPipe := p) \<rparr>) x)) })
   | SDone \<Rightarrow> stay)"

text \<open>main0, which is called for every execution of the search, and the test controller, which sends one
  event and waits for the answer.  That concurritEndTest ends the path by an exception, past the check, is
  the step to the beginning without it.\<close>

definition main_step :: "remote \<Rightarrow> remote call option" where
  "main_step x = (let s = rm_server x in case rm_main x of
     MBegin \<Rightarrow> do {
       safe_assert (Sem_Get (sv_end_sem s) = 0);
       safe_assert (Sem_Get (sv_start_sem s) = 0);
       v \<leftarrow> Sem_Signal (sv_start_sem s);
       go (on_server (\<lambda>s. s\<lparr> sv_start_sem := v \<rparr>) (x\<lparr> rm_main := MWait \<rparr>)) }
   | MWait \<Rightarrow> do {
       c \<leftarrow> Sem_Wait [] (sv_end_sem s);
       (case c of Blocks \<Rightarrow> stay
        | call.Returns v \<Rightarrow> go (on_server (\<lambda>s. s\<lparr> sv_end_sem := v \<rparr>) (x\<lparr> rm_main := MCheck \<rparr>))) }
   | MCheck \<Rightarrow> do { safe_check (\<not> sv_test_started s); go (x\<lparr> rm_main := MBegin, rm_calls := rm_calls x @ [(0, IEndTest)] \<rparr>) })"

definition control_step :: "bool \<Rightarrow> remote \<Rightarrow> remote call option" where
  "control_step cmd x = (if rm_ctl x then
       (case rm_down x ControlPipe of [] \<Rightarrow> stay
        | e # es \<Rightarrow> do {
            safe_assert (e_type e = Continue);
            go (x\<lparr> rm_ctl := False, rm_down := (rm_down x)(ControlPipe := es) \<rparr>) })
     else do {
       x1 \<leftarrow> push_up ControlPipe (event_Clear\<lparr> e_type := (if cmd then TestEnd else TestStart), e_threadid := 0 \<rparr>) x;
       go (x1\<lparr> rm_ctl := True \<rparr>) })"

datatype action = Call nat instr_call | Client nat | ClientWorker | Worker pipe_id | Shadow nat | Main | Control bool

fun remote_step :: "action \<Rightarrow> remote \<Rightarrow> remote call option" where
  "remote_step (Call p c) x = call_step p c x"
| "remote_step (Client p) x = client_step p x"
| "remote_step ClientWorker x = client_worker_step x"
| "remote_step (Worker q) x = worker_step q x"
| "remote_step (Shadow r) x = shadow_step r x"
| "remote_step Main x = main_step x"
| "remote_step (Control cmd) x = control_step cmd x"

end
