(* ===== verification/Remote_Protocol.thy ===== *)
theory Remote_Protocol
  imports Remote_Server
begin

text \<open>
  The invariant of the remote mode: the mailboxes of the shadow threads on both sides, the thread ids of the
  requests and answers on their way, the locks of the server, and the counts that tie the main function, the
  test controller and the end of the test together.  Every step but one keeps it and does not abort.
\<close>

section \<open>Runs\<close>

text \<open>The calls of a program under test that is instrumented without the start and the end of the test
  (these come from the test controller), with symbols of a valid length.\<close>

fun allowed :: "action \<Rightarrow> bool" where
  "allowed (Call p IStartTest) = False"
| "allowed (Call p IEndTest) = False"
| "allowed (Call p (IAddressOfSymbol nm a)) = (case nm of None \<Rightarrow> False | Some x \<Rightarrow> length x < 64)"
| "allowed a = True"

text \<open>Thread ids are 32-bit integers; a run has fewer client threads than that.\<close>

definition max_threads :: nat where
  "max_threads = 2 ^ 31 - 2"

inductive remote_reach :: "remote \<Rightarrow> bool" where
  init: "remote_reach remote_init"
| step: "remote_reach x \<Longrightarrow> allowed a \<Longrightarrow> remote_step a x = go y \<Longrightarrow> cl_new (rm_client y) \<le> max_threads
    \<Longrightarrow> remote_reach y"

section \<open>The invariant\<close>

definition request_kind :: "EventKind \<Rightarrow> bool" where
  "request_kind k \<longleftrightarrow> k \<in> {AddressOfSymbol, AtPc_event, FuncEnter, FuncReturn, ThreadEnd}"

definition served_kind :: "EventKind \<Rightarrow> bool" where
  "served_kind k \<longleftrightarrow> request_kind k \<or> k = ThreadEndIntern"

definition request :: "nat \<Rightarrow> event \<Rightarrow> bool" where
  "request n e \<longleftrightarrow> request_kind (e_type e) \<and> 2 \<le> sint (e_threadid e) \<and> sint (e_threadid e) < int n + 2"

definition answer :: "nat \<Rightarrow> event \<Rightarrow> bool" where
  "answer n e \<longleftrightarrow> e_type e = Continue \<and> 2 \<le> sint (e_threadid e) \<and> sint (e_threadid e) < int n + 2"

definition toggle :: "event \<Rightarrow> bool" where
  "toggle e \<longleftrightarrow> (e_type e = TestStart \<or> e_type e = TestEnd) \<and> e_threadid e = 0"

text \<open>A mailbox is open while its owner waits, and then exactly one of the two semaphores is up.\<close>

definition mailbox :: "bool \<Rightarrow> (EventKind \<Rightarrow> bool) \<Rightarrow> shadow \<Rightarrow> bool" where
  "mailbox waiting P sh \<longleftrightarrow> sh_sem2 sh + sh_sem sh = (if waiting then 1 else 0) \<and>
     (sh_sem sh = 1 \<longrightarrow> P (e_type (sh_event sh)) \<and> e_threadid (sh_event sh) = sh_tid sh)"

definition client_ids :: "client \<Rightarrow> bool" where
  "client_ids s \<longleftrightarrow> cl_next_threadid s = int (cl_new s) + 2 \<and> cl_new s \<le> max_threads \<and>
     (\<forall>r < cl_new s. shadow_tid (cl_shadows s r) = int r + 2) \<and>
     (\<forall>t r. GetShadowThread t (cl_pipe s) = Some r \<longleftrightarrow> r < cl_new s \<and> t = int r + 2) \<and>
     (\<forall>p r. cl_tls s p = Some r \<longrightarrow> r < cl_new s) \<and>
     (\<forall>p q r. cl_tls s p = Some r \<longrightarrow> cl_tls s q = Some r \<longrightarrow> p = q)"

fun pc_shadow :: "client_pc \<Rightarrow> nat option" where
  "pc_shadow (CSend r e fin) = Some r"
| "pc_shadow (CRecv r fin) = Some r"
| "pc_shadow (CWait r fin) = Some r"
| "pc_shadow c = None"

fun cpc_ok :: "client_pc \<Rightarrow> bool" where
  "cpc_ok (CSend r e fin) = request_kind (e_type e)"
| "cpc_ok (CSendDirect e) = False"
| "cpc_ok CDirect = False"
| "cpc_ok c = True"

definition waits :: "(nat \<Rightarrow> client_pc) \<Rightarrow> nat \<Rightarrow> bool" where
  "waits pcs r \<longleftrightarrow> (\<exists>p fin. pcs p = CWait r fin)"

definition client_ok :: "client \<Rightarrow> (nat \<Rightarrow> client_pc) \<Rightarrow> bool" where
  "client_ok s pcs \<longleftrightarrow> client_ids s \<and>
     (\<forall>p. cpc_ok (pcs p) \<and> (\<forall>r. pc_shadow (pcs p) = Some r \<longrightarrow> cl_tls s p = Some r)) \<and>
     (\<forall>r < cl_new s. mailbox (waits pcs r) (\<lambda>k. k = Continue) (cl_shadows s r))"

fun cworker_ok :: "nat \<Rightarrow> client_worker \<Rightarrow> bool" where
  "cworker_ok n KIdle = True"
| "cworker_ok n (KRoute e) = answer n e"
| "cworker_ok n (KSignal r e) = (answer n e \<and> sint (e_threadid e) = int r + 2)"

text \<open>The starts and ends of the test alternate on their way to the client.\<close>

fun alternate :: "bool \<Rightarrow> event list \<Rightarrow> bool \<Rightarrow> bool" where
  "alternate b [] c = (b = c)"
| "alternate b (e # es) c = (if e_type e = TestStart then \<not> b \<and> alternate True es c
     else if e_type e = TestEnd then b \<and> alternate False es c else alternate b es c)"

definition down_ok :: "nat \<Rightarrow> bool \<Rightarrow> bool \<Rightarrow> (pipe_id \<Rightarrow> event list) \<Rightarrow> bool" where
  "down_ok n b c down \<longleftrightarrow> list_all (\<lambda>e. answer n e \<or> toggle e) (down ClientPipe) \<and>
     list_all (\<lambda>e. e_type e = Continue) (down ControlPipe) \<and> alternate b (down ClientPipe) c"

definition up_ok :: "nat \<Rightarrow> (pipe_id \<Rightarrow> event list) \<Rightarrow> bool" where
  "up_ok n up \<longleftrightarrow> list_all (request n) (up ClientPipe) \<and> list_all toggle (up ControlPipe)"

fun ending :: "worker_pc \<Rightarrow> bool" where
  "ending (WLockMap q) = True"
| "ending (WBroadcast q rs) = True"
| "ending (WDrain q) = True"
| "ending w = False"

fun worker_ok :: "nat \<Rightarrow> server \<Rightarrow> worker_pc \<Rightarrow> bool" where
  "worker_ok n s WIdle = True"
| "worker_ok n s (WLock e) = request n e"
| "worker_ok n s (WStart r e a) = (request n e \<and> \<not> a)"
| "worker_ok n s (WRoute e) = request n e"
| "worker_ok n s (WSignal r e) = (request n e \<and> r < sv_new s \<and> sint (e_threadid e) = shadow_tid (sv_shadows s r))"
| "worker_ok n s w = False"

fun control_ok :: "server \<Rightarrow> worker_pc \<Rightarrow> bool" where
  "control_ok s WIdle = True"
| "control_ok s (WLock e) = toggle e"
| "control_ok s WStartTest = True"
| "control_ok s (WLockMap q) = True"
| "control_ok s (WBroadcast q rs) = list_all (\<lambda>r. r < sv_new s) rs"
| "control_ok s (WDrain q) = True"
| "control_ok s w = False"

fun starting :: "worker_pc \<Rightarrow> bool" where
  "starting (WStart r e a) = True"
| "starting w = False"

definition locks_ok :: "server \<Rightarrow> (pipe_id \<Rightarrow> worker_pc) \<Rightarrow> bool" where
  "locks_ok s w \<longleftrightarrow> (sv_mutex s = Some ClientPipe \<longleftrightarrow> starting (w ClientPipe)) \<and>
     (sv_mutex s = Some ControlPipe \<longleftrightarrow> w ControlPipe = WStartTest \<or> ending (w ControlPipe)) \<and>
     (\<forall>q. sv_map s q \<noteq> None \<longleftrightarrow> (\<exists>rs. w ControlPipe = WBroadcast q rs))"

fun spc_ok :: "sem \<Rightarrow> shadow_pc \<Rightarrow> bool" where
  "spc_ok v SNew = (v = 0)"
| "spc_ok v (SHandle e) = request_kind (e_type e)"
| "spc_ok v (SContinue e) = request_kind (e_type e)"
| "spc_ok v c = True"

definition shadows_ok :: "nat \<Rightarrow> server \<Rightarrow> (nat \<Rightarrow> shadow_pc) \<Rightarrow> bool" where
  "shadows_ok n s pcs \<longleftrightarrow> (\<forall>r. sv_new s \<le> r \<longrightarrow> pcs r = SDone) \<and>
     (\<forall>r < sv_new s. 2 \<le> shadow_tid (sv_shadows s r) \<and> shadow_tid (sv_shadows s r) < int n + 2 \<and>
       sv_home s r = ClientPipe \<and> spc_ok (sv_starts s r) (pcs r) \<and>
       mailbox (pcs r = SWait) served_kind (sv_shadows s r)) \<and>
     (\<forall>t r. GetShadowThread t (sv_pipe s ClientPipe) = Some r \<longleftrightarrow>
       r < sv_new s \<and> pcs r \<noteq> SDone \<and> shadow_tid (sv_shadows s r) = t) \<and>
     (\<forall>t. GetShadowThread t (sv_pipe s ControlPipe) = None)"

definition main_ok :: "server \<Rightarrow> worker_pc \<Rightarrow> main_pc \<Rightarrow> bool" where
  "main_ok s w m \<longleftrightarrow> sv_start_sem s + sv_end_sem s + (if sv_test_started s then 1 else 0) + (if ending w then 1 else 0)
     = (if m = MWait then 1 else 0)"

definition remote_inv :: "remote \<Rightarrow> bool" where
  "remote_inv x \<longleftrightarrow> (let cl = rm_client x; n = cl_new cl; s = rm_server x in
     client_ok cl (rm_cpc x) \<and> cworker_ok n (rm_cworker x) \<and>
     down_ok n (cl_test_started cl) (sv_test_started s) (rm_down x) \<and> up_ok n (rm_up x) \<and>
     worker_ok n s (rm_worker x ClientPipe) \<and> control_ok s (rm_worker x ControlPipe) \<and>
     locks_ok s (rm_worker x) \<and> shadows_ok n s (rm_spc x) \<and> main_ok s (rm_worker x ControlPipe) (rm_main x))"

section \<open>Mailboxes\<close>

lemma assign_kind [simp]: "e_type (event_assign e d) = e_type e" "e_threadid (event_assign e d) = e_threadid e"
  by (simp_all add: event_assign_def Let_def)

lemma mailbox_begin:
  assumes "mailbox False P sh"
  obtains sh' where "WaitRecv_begin sh = Some sh'" "mailbox True P sh'" "sh_tid sh' = sh_tid sh"
  using assms by (auto simp: mailbox_def WaitRecv_begin_def WaitRecv_signal_def WaitRecv_check_def Sem_Signal_def
      Sem_Get_def SEM_VALUE_MAX_def)

lemma mailbox_end:
  assumes "mailbox True P sh" "\<not> P InvalidEventKind" "sh_tid sh \<noteq> INVALID_TID"
  shows "WaitRecv_end dst sh = stay \<or> (\<exists>e sh'. WaitRecv_end dst sh = go (e, sh') \<and> mailbox False P sh' \<and>
    sh_tid sh' = sh_tid sh \<and> P (e_type e) \<and> e_threadid e = sh_tid sh)"
proof (cases "sh_sem sh")
  case 0
  then show ?thesis by (simp add: WaitRecv_end_def WaitRecv_wait_def)
next
  case (Suc n)
  then have "sh_sem sh = 1" "sh_sem2 sh = 0" using assms(1) by (auto simp: mailbox_def)
  then show ?thesis
    using assms by (auto simp: mailbox_def WaitRecv_end_def WaitRecv_wait_def WaitRecv_copy_def event_Check_def)
qed

lemma mailbox_signal:
  assumes "mailbox w P sh" "P (e_type e)" "e_threadid e = sh_tid sh"
  shows "SignalRecv e sh = stay \<or> (\<exists>sh'. SignalRecv e sh = go sh' \<and> mailbox w P sh' \<and> sh_tid sh' = sh_tid sh)"
  using assms by (auto simp: mailbox_def SignalRecv_def SignalRecv_begin_def SignalRecv_wait_def SignalRecv_copy_def
      SignalRecv_check_def SignalRecv_signal_def Sem_Signal_def Sem_Get_def SEM_VALUE_MAX_def split: if_splits)

lemma mailbox_new [simp]: "mailbox False P (new_ShadowThread t)" "sh_tid (new_ShadowThread t) = t"
  by (simp_all add: mailbox_def new_ShadowThread_def)

lemma tid_valid: "2 \<le> shadow_tid sh \<Longrightarrow> sh_tid sh \<noteq> INVALID_TID"
  by (auto simp: shadow_tid_def INVALID_TID_def INVALID_THREADID_def)

lemma shadow_tid_eq: "shadow_tid sh = sint t \<longleftrightarrow> sh_tid sh = t"
  unfolding shadow_tid_def by (metis word_eq_iff_signed)

lemma shadow_tid_cong: "sh_tid sh' = sh_tid sh \<Longrightarrow> shadow_tid sh' = shadow_tid sh"
  by (simp add: shadow_tid_def)

lemmas kind_neq = request_kind_def served_kind_def kind_defs

lemma kinds [simp]: "\<not> request_kind InvalidEventKind" "\<not> served_kind InvalidEventKind" "\<not> request_kind Continue"
    "\<not> request_kind TestStart" "\<not> request_kind TestEnd" "\<not> request_kind ThreadStart" "served_kind ThreadEndIntern"
    "\<not> request_kind ThreadEndIntern" "Continue \<noteq> InvalidEventKind" "InvalidEventKind \<noteq> Continue" "Continue \<noteq> TestStart" "Continue \<noteq> TestEnd"
    "TestStart \<noteq> TestEnd" "TestEnd \<noteq> TestStart" "TestStart \<noteq> Continue" "TestEnd \<noteq> Continue"
    "TestStart \<noteq> InvalidEventKind" "TestEnd \<noteq> InvalidEventKind"
    "InvalidEventKind \<noteq> TestStart" "InvalidEventKind \<noteq> TestEnd"
  by (simp_all add: kind_neq)

section \<open>The client keeps the invariant\<close>

lemma waits_upd: "waits (pcs(p := c)) r \<longleftrightarrow> (\<exists>fin. c = CWait r fin) \<or> (\<exists>q fin. q \<noteq> p \<and> pcs q = CWait r fin)"
  by (auto simp: waits_def)

text \<open>The owner of a shadow thread is the only one that can wait on it.\<close>

lemma waits_owner:
  assumes "client_ok s pcs" "cl_tls s p = Some r"
  shows "waits pcs r \<longleftrightarrow> (\<exists>fin. pcs p = CWait r fin)"
  using assms unfolding client_ok_def client_ids_def waits_def by (metis pc_shadow.simps(3))

lemma request_mono: "request n e \<Longrightarrow> n \<le> k \<Longrightarrow> request k e"
  by (auto simp: request_def)

lemma answer_mono: "answer n e \<Longrightarrow> n \<le> k \<Longrightarrow> answer k e"
  by (auto simp: answer_def)

lemma alternate_append:
  "alternate b (es @ [e]) c \<longleftrightarrow> (if e_type e = TestStart then alternate b es False \<and> c
     else if e_type e = TestEnd then alternate b es True \<and> \<not> c else alternate b es c)"
  by (induction es arbitrary: b) auto

text \<open>A new thread of the client.\<close>

lemma Client_GetShadowThread_ok:
  assumes "client_ok s pcs" "pcs p = CIdle" "cl_new s < max_threads"
  shows "\<exists>r s'. Client_GetShadowThread p s = Some (r, s') \<and> client_ok s' pcs \<and> cl_tls s' p = Some r \<and>
    cl_new s \<le> cl_new s' \<and> cl_test_started s' = cl_test_started s"
proof (cases "cl_tls s p")
  case None
  let ?r = "cl_new s" and ?t = "int (cl_new s) + 2"
  have t: "sint (word_of_int ?t :: 32 word) = ?t"
    using assms(3) signed_take_bit_int_eq_self [of 31 ?t] by (simp add: max_threads_def signed_of_int del: of_int_add)
  have reg: "GetShadowThread ?t (cl_pipe s) = None"
    using assms(1) by (cases "GetShadowThread ?t (cl_pipe s)") (auto simp: client_ok_def client_ids_def)
  have free: "\<not> waits pcs ?r" "pc_shadow (pcs q) \<noteq> Some ?r" for q
    using assms(1) unfolding client_ok_def client_ids_def waits_def by (metis less_irrefl pc_shadow.simps(3))+
  show ?thesis
    using None assms t reg free
    by (auto simp: Client_GetShadowThread_def ClientShadow_OnStart_def set_tls_def client_ok_def client_ids_def Let_def
        shadow_tid_def RegisterShadowThread_def GetShadowThread_def less_Suc_eq)
qed (use assms in \<open>simp add: Client_GetShadowThread_def\<close>)

lemma Client_GetShadowThread_total: "\<exists>r s'. Client_GetShadowThread p s = Some (r, s')"
  by (cases "cl_tls s p") (auto simp: Client_GetShadowThread_def ClientShadow_OnStart_def set_tls_def Let_def)

lemma client_call_cases:
  assumes "allowed (Call p c)" "Client_GetShadowThread p s = Some (r, s')"
  shows "client_call p c s = Some (Skip, s) \<or> client_call p c s = Some (Skip, s') \<or>
    (\<exists>e fin. call_event c = Some e \<and> client_call p c s = Some (Exchange r e fin, s'))"
  using assms by (cases c) (auto simp: if_started_def exchange_def split: option.splits)

lemma remote_inv_client:
  assumes "remote_inv x" "client_ok s' pcs'" "cl_new (rm_client x) \<le> cl_new s'"
    and "cl_test_started s' = cl_test_started (rm_client x)"
  shows "remote_inv (x\<lparr> rm_client := s', rm_cpc := pcs' \<rparr>)"
proof -
  let ?n = "cl_new (rm_client x)"
  have "cworker_ok (cl_new s') w" if "cworker_ok ?n w" for w
    using that assms(3) by (cases w) (auto intro: answer_mono)
  moreover have "worker_ok (cl_new s') s w" if "worker_ok ?n s w" for s w
    using that assms(3) by (cases w) (auto intro: request_mono)
  moreover have "up_ok (cl_new s') up" if "up_ok ?n up" for up
    using that assms(3) by (auto simp: up_ok_def list_all_iff intro: request_mono)
  moreover have "down_ok (cl_new s') b c dn" if "down_ok ?n b c dn" for b c dn
    using that assms(3) by (auto simp: down_ok_def list_all_iff intro: answer_mono)
  moreover have "shadows_ok (cl_new s') s pcs" if "shadows_ok ?n s pcs" for s pcs
    using that assms(3) by (auto simp: shadows_ok_def)
  ultimately show ?thesis using assms by (simp add: remote_inv_def Let_def)
qed

lemma client_ok_pc:
  assumes "client_ok s pcs" "pcs p = CIdle" "cpc_ok c" "pc_shadow c = Some r" "cl_tls s p = Some r" "\<And>fin. c \<noteq> CWait r fin"
  shows "client_ok s (pcs(p := c))"
proof -
  have c: "c \<noteq> CWait k fin" for k fin
    using assms(4) assms(6) [of fin] by auto
  have "\<And>q fin. pcs q = CWait k fin \<Longrightarrow> q \<noteq> p" for k using assms(2) by auto
  then have "waits (pcs(p := c)) k = waits pcs k" for k
    unfolding waits_upd using c unfolding waits_def by blast
  then show ?thesis using assms by (auto simp: client_ok_def)
qed

text \<open>What is shown of every step: it does not abort, and it keeps the invariant.\<close>

definition keeps :: "remote call option \<Rightarrow> bool" where
  "keeps c \<longleftrightarrow> (case c of None \<Rightarrow> False | Some Blocks \<Rightarrow> True
     | Some (call.Returns y) \<Rightarrow> cl_new (rm_client y) \<le> max_threads \<longrightarrow> remote_inv y)"

lemma keeps_simps [simp]: "\<not> keeps None" "keeps stay" "keeps (go y) \<longleftrightarrow> (cl_new (rm_client y) \<le> max_threads \<longrightarrow> remote_inv y)"
  by (simp_all add: keeps_def)

lemma remote_invD:
  assumes "remote_inv x"
  shows "client_ok (rm_client x) (rm_cpc x)" "cworker_ok (cl_new (rm_client x)) (rm_cworker x)"
    "down_ok (cl_new (rm_client x)) (cl_test_started (rm_client x)) (sv_test_started (rm_server x)) (rm_down x)"
    "up_ok (cl_new (rm_client x)) (rm_up x)" "worker_ok (cl_new (rm_client x)) (rm_server x) (rm_worker x ClientPipe)"
    "control_ok (rm_server x) (rm_worker x ControlPipe)" "locks_ok (rm_server x) (rm_worker x)"
    "shadows_ok (cl_new (rm_client x)) (rm_server x) (rm_spc x)" "main_ok (rm_server x) (rm_worker x ControlPipe) (rm_main x)"
  using assms by (simp_all add: remote_inv_def Let_def)

lemma call_step_keeps:
  assumes inv: "remote_inv x" and "allowed (Call p c)"
  shows "keeps (call_step p c x)"
proof (cases "rm_cpc x p = CIdle")
  case True
  note cl = remote_invD(1) [OF inv]
  obtain r s' where g: "Client_GetShadowThread p (rm_client x) = Some (r, s')"
    using Client_GetShadowThread_total by blast
  have less: "cl_new s' \<le> max_threads \<Longrightarrow> client_ok s' (rm_cpc x) \<and> cl_tls s' p = Some r \<and> cl_new (rm_client x) \<le> cl_new s' \<and>
      cl_test_started s' = cl_test_started (rm_client x)"
  proof (cases "cl_tls (rm_client x) p")
    case None
    assume "cl_new s' \<le> max_threads"
    moreover have "cl_new s' = cl_new (rm_client x) + 1"
      using g None by (auto simp: Client_GetShadowThread_def ClientShadow_OnStart_def set_tls_def Let_def)
    ultimately show ?thesis using Client_GetShadowThread_ok [OF cl True] g by auto
  qed (use g cl in \<open>auto simp: Client_GetShadowThread_def\<close>)
  consider "client_call p c (rm_client x) = Some (Skip, rm_client x)" | "client_call p c (rm_client x) = Some (Skip, s')"
    | e fin where "call_event c = Some e" "client_call p c (rm_client x) = Some (Exchange r e fin, s')"
    using client_call_cases [OF assms(2) g] by blast
  then show ?thesis
  proof cases
    case 1
    then show ?thesis using inv True by (simp add: call_step_def)
  next
    case 2
    then show ?thesis
      using remote_inv_client [OF inv, of s' "rm_cpc x"] less True by (simp add: call_step_def)
  next
    case 3
    have k: "request_kind (e_type e)" using call_event_kind [OF 3(1)] by (simp add: request_kind_def)
    have "client_ok s' ((rm_cpc x)(p := CSend r e fin))" if "cl_new s' \<le> max_threads"
      using less [OF that] True k by (intro client_ok_pc) auto
    then show ?thesis
      using remote_inv_client [OF inv, of s' "(rm_cpc x)(p := CSend r e fin)"] less 3(2) True
      by (simp add: call_step_def set_cpc_def)
  qed
qed (simp add: call_step_def)

lemma client_ok_shadow:
  assumes ok: "client_ok s pcs" and r: "pc_shadow (pcs p) = Some r"
    and c: "cpc_ok c" "pc_shadow c = None \<or> pc_shadow c = Some r"
    and m: "mailbox (\<exists>fin. c = CWait r fin) (\<lambda>k. k = Continue) sh" "sh_tid sh = sh_tid (cl_shadows s r)"
  shows "client_ok (s\<lparr> cl_shadows := (cl_shadows s)(r := sh) \<rparr>) (pcs(p := c))"
proof -
  have tls: "cl_tls s p = Some r" using ok r by (simp add: client_ok_def)
  have own: "q = p" if "pc_shadow (pcs q) = Some r" for q
    using ok that tls unfolding client_ok_def client_ids_def by metis
  have w: "waits (pcs(p := c)) r \<longleftrightarrow> (\<exists>fin. c = CWait r fin)"
    using own unfolding waits_upd by (metis pc_shadow.simps(3))
  have "waits (pcs(p := c)) k = waits pcs k" if "k \<noteq> r" for k
  proof -
    have "pcs p \<noteq> CWait k fin" "c \<noteq> CWait k fin" for fin using r c(2) that by auto
    then show ?thesis unfolding waits_upd unfolding waits_def by metis
  qed
  then show ?thesis
    using ok c m w tls by (auto simp: client_ok_def client_ids_def shadow_tid_def)
qed

lemma client_ok_facts:
  assumes "client_ok s pcs" "pc_shadow (pcs p) = Some r"
  shows "r < cl_new s" "shadow_tid (cl_shadows s r) = int r + 2" "sh_tid (cl_shadows s r) \<noteq> INVALID_TID"
    "mailbox (\<exists>fin. pcs p = CWait r fin) (\<lambda>k. k = Continue) (cl_shadows s r)" "cpc_ok (pcs p)"
proof -
  have tls: "cl_tls s p = Some r" using assms by (simp add: client_ok_def)
  then show r: "r < cl_new s" using assms(1) by (auto simp: client_ok_def client_ids_def)
  then show t: "shadow_tid (cl_shadows s r) = int r + 2" using assms(1) by (auto simp: client_ok_def client_ids_def)
  then show "sh_tid (cl_shadows s r) \<noteq> INVALID_TID" using tid_valid by simp
  show "mailbox (\<exists>fin. pcs p = CWait r fin) (\<lambda>k. k = Continue) (cl_shadows s r)"
    using assms(1) r unfolding waits_owner [OF assms(1) tls, symmetric] by (simp add: client_ok_def)
  show "cpc_ok (pcs p)" using assms(1) by (simp add: client_ok_def)
qed

lemma up_ok_push: "up_ok n up \<Longrightarrow> request n e \<Longrightarrow> up_ok n (up(ClientPipe := up ClientPipe @ [e]))"
  by (simp add: up_ok_def)

lemma client_step_keeps:
  assumes inv: "remote_inv x"
  shows "keeps (client_step p x) \<or> (\<exists>r. rm_cpc x p = CWait r True)"
proof -
  note cl = remote_invD(1) [OF inv]
  show ?thesis
  proof (cases "rm_cpc x p")
    case (CSend r e fin)
    note f = client_ok_facts [OF cl, of p r, unfolded CSend, simplified]
    let ?e = "wire_image (stamp (cl_shadows (rm_client x) r) e)" and ?pcs = "(rm_cpc x)(p := CRecv r fin)"
    have req: "request (cl_new (rm_client x)) ?e"
      using f by (simp add: request_def stamp_def shadow_tid_def)
    have "client_ok (rm_client x\<lparr> cl_shadows := (cl_shadows (rm_client x))(r := cl_shadows (rm_client x) r) \<rparr>) ?pcs"
      using f CSend by (intro client_ok_shadow [OF cl]) auto
    then have "client_ok (rm_client x) ?pcs" by simp
    then have "remote_inv (x\<lparr> rm_client := rm_client x, rm_cpc := ?pcs \<rparr>)" by (intro remote_inv_client [OF inv]) auto
    then have "remote_inv (x\<lparr> rm_up := (rm_up x)(ClientPipe := rm_up x ClientPipe @ [?e]), rm_cpc := ?pcs \<rparr>)"
      using up_ok_push [OF _ req] by (simp add: remote_inv_def Let_def)
    moreover have "wire (stamp (cl_shadows (rm_client x) r) e) = Some ?e"
      using f by (auto simp: wire_def stamp_def kind_neq)
    ultimately show ?thesis
      by (simp add: client_step_def CSend push_up_def set_cpc_def)
  next
    case (CRecv r fin)
    note f = client_ok_facts [OF cl, of p r, unfolded CRecv, simplified]
    obtain sh where sh: "WaitRecv_begin (cl_shadows (rm_client x) r) = Some sh" "mailbox True (\<lambda>k. k = Continue) sh"
      "sh_tid sh = sh_tid (cl_shadows (rm_client x) r)" using mailbox_begin [OF f(4)] by blast
    have "client_ok (rm_client x\<lparr> cl_shadows := (cl_shadows (rm_client x))(r := sh) \<rparr>) ((rm_cpc x)(p := CWait r fin))"
      using CRecv sh by (intro client_ok_shadow [OF cl]) auto
    then show ?thesis
      using remote_inv_client [OF inv] sh(1)
      by (simp add: client_step_def CRecv set_cpc_def set_cshadow_def)
  next
    case (CWait r fin)
    note f = client_ok_facts [OF cl, of p r, unfolded CWait, simplified]
    show ?thesis
    proof (cases fin)
      case False
      from mailbox_end [OF f(4) _ f(3), of event_Clear, simplified] show ?thesis
      proof (elim disjE exE conjE, goal_cases)
        case 1
        then show ?case using False by (simp add: client_step_def CWait)
      next
        case (2 e sh)
        then have "client_ok (rm_client x\<lparr> cl_shadows := (cl_shadows (rm_client x))(r := sh) \<rparr>) ((rm_cpc x)(p := CIdle))"
          using CWait by (intro client_ok_shadow [OF cl]) auto
        then show ?case
          using remote_inv_client [OF inv] 2 False
          by (simp add: client_step_def CWait set_cpc_def set_cshadow_def SendRecvContinue_check_def)
      qed
    qed (use CWait in auto)
  qed (use cl in \<open>auto simp: client_step_def client_ok_def dest: spec [of _ p]\<close>)
qed

lemma client_ok_started [simp]: "client_ok (s\<lparr> cl_test_started := b \<rparr>) pcs = client_ok s pcs"
  by (simp add: client_ok_def client_ids_def)

lemma client_ok_mail:
  assumes "client_ok s pcs" "mailbox (waits pcs r) (\<lambda>k. k = Continue) sh" "sh_tid sh = sh_tid (cl_shadows s r)"
  shows "client_ok (s\<lparr> cl_shadows := (cl_shadows s)(r := sh) \<rparr>) pcs"
  using assms by (auto simp: client_ok_def client_ids_def shadow_tid_def)

lemma Client_OnRecv_ok:
  assumes "answer n e \<or> toggle e" "alternate (cl_test_started s) (e # es) c"
  shows "\<exists>fwd b. Client_OnRecv e s = Some (fwd, s\<lparr> cl_test_started := b \<rparr>) \<and> alternate b es c \<and> sint (e_threadid e) \<ge> 0 \<and>
    (fwd \<longrightarrow> answer n e)"
proof -
  have "\<exists>b. s = s\<lparr> cl_test_started := b \<rparr> \<and> alternate b es c" if "alternate (cl_test_started s) es c"
    using that by (intro exI [of _ "cl_test_started s"]) simp
  then show ?thesis
    using assms by (auto simp: Client_OnRecv_def answer_def toggle_def split: if_splits)
qed

lemma client_worker_step_keeps:
  assumes inv: "remote_inv x"
  shows "keeps (client_worker_step x)"
proof -
  note cl = remote_invD(1) [OF inv]
  let ?s = "rm_client x"
  show ?thesis
  proof (cases "rm_cworker x")
    case KIdle
    show ?thesis
    proof (cases "rm_down x ClientPipe")
      case (Cons e es)
      have d: "answer (cl_new ?s) e \<or> toggle e" "alternate (cl_test_started ?s) (e # es) (sv_test_started (rm_server x))"
        using remote_invD(3) [OF inv] Cons by (simp_all add: down_ok_def)
      obtain fwd b where o: "Client_OnRecv e ?s = Some (fwd, ?s\<lparr> cl_test_started := b \<rparr>)" "alternate b es (sv_test_started (rm_server x))"
        "sint (e_threadid e) \<ge> 0" "fwd \<longrightarrow> answer (cl_new ?s) e"
        using Client_OnRecv_ok [OF d] by blast
      then show ?thesis
        using inv Cons by (auto simp: client_worker_step_def KIdle remote_inv_def down_ok_def Let_def)
    qed (simp add: client_worker_step_def KIdle)
  next
    case (KRoute e)
    let ?r = "nat (sint (e_threadid e) - 2)"
    have a: "answer (cl_new ?s) e" using remote_invD(2) [OF inv] KRoute by simp
    then have r: "?r < cl_new ?s" "sint (e_threadid e) = int ?r + 2" by (auto simp: answer_def)
    have "GetShadowThread (sint (e_threadid e)) (cl_pipe ?s) = Some ?r" "shadow_tid (cl_shadows ?s ?r) = sint (e_threadid e)"
      using cl r unfolding client_ok_def client_ids_def by simp_all
    then show ?thesis
      using inv a r(2) by (simp add: client_worker_step_def KRoute remote_inv_def Let_def)
  next
    case (KSignal r e)
    have a: "answer (cl_new ?s) e" "sint (e_threadid e) = int r + 2" using remote_invD(2) [OF inv] KSignal by simp_all
    then have r: "r < cl_new ?s" by (simp add: answer_def)
    have t: "e_threadid e = sh_tid (cl_shadows ?s r)" "mailbox (waits (rm_cpc x) r) (\<lambda>k. k = Continue) (cl_shadows ?s r)"
      using cl r a(2) shadow_tid_eq [of "cl_shadows ?s r" "e_threadid e"] by (simp_all add: client_ok_def client_ids_def)
    have "e_type e = Continue" using a by (simp add: answer_def)
    from mailbox_signal [OF t(2) this t(1)] show ?thesis
    proof (elim disjE exE conjE, goal_cases)
      case (2 sh)
      then have "client_ok (?s\<lparr> cl_shadows := (cl_shadows ?s)(r := sh) \<rparr>) (rm_cpc x)"
        by (intro client_ok_mail [OF cl]) simp_all
      then show ?case
        using inv 2 by (simp add: client_worker_step_def KSignal set_cshadow_def remote_inv_def Let_def)
    qed (simp_all add: client_worker_step_def KSignal)
  qed
qed

section \<open>The server keeps the invariant\<close>

lemma worker_ok_frame [simp]:
  "worker_ok n (s\<lparr> sv_start_sem := v \<rparr>) w = worker_ok n s w" "worker_ok n (s\<lparr> sv_end_sem := v \<rparr>) w = worker_ok n s w"
  "worker_ok n (s\<lparr> sv_test_started := b \<rparr>) w = worker_ok n s w" "worker_ok n (s\<lparr> sv_mutex := m \<rparr>) w = worker_ok n s w"
  "worker_ok n (s\<lparr> sv_map := f \<rparr>) w = worker_ok n s w" "worker_ok n (s\<lparr> sv_event := g \<rparr>) w = worker_ok n s w"
  "worker_ok n (s\<lparr> sv_starts := h \<rparr>) w = worker_ok n s w" "worker_ok n (s\<lparr> sv_pipe := q \<rparr>) w = worker_ok n s w"
  by (cases w; simp)+

lemma control_ok_frame [simp]:
  "control_ok (s\<lparr> sv_start_sem := v \<rparr>) w = control_ok s w" "control_ok (s\<lparr> sv_end_sem := v \<rparr>) w = control_ok s w"
  "control_ok (s\<lparr> sv_test_started := b \<rparr>) w = control_ok s w" "control_ok (s\<lparr> sv_mutex := m \<rparr>) w = control_ok s w"
  "control_ok (s\<lparr> sv_map := f \<rparr>) w = control_ok s w" "control_ok (s\<lparr> sv_event := g \<rparr>) w = control_ok s w"
  "control_ok (s\<lparr> sv_starts := h \<rparr>) w = control_ok s w" "control_ok (s\<lparr> sv_pipe := q \<rparr>) w = control_ok s w"
  "control_ok (s\<lparr> sv_shadows := k \<rparr>) w = control_ok s w"
  by (cases w; simp)+

lemma locks_ok_frame [simp]:
  "locks_ok (s\<lparr> sv_start_sem := v \<rparr>) w = locks_ok s w" "locks_ok (s\<lparr> sv_end_sem := v \<rparr>) w = locks_ok s w"
  "locks_ok (s\<lparr> sv_test_started := b \<rparr>) w = locks_ok s w" "locks_ok (s\<lparr> sv_event := g \<rparr>) w = locks_ok s w"
  "locks_ok (s\<lparr> sv_starts := h \<rparr>) w = locks_ok s w" "locks_ok (s\<lparr> sv_pipe := q \<rparr>) w = locks_ok s w"
  "locks_ok (s\<lparr> sv_shadows := k \<rparr>) w = locks_ok s w"
  by (simp_all add: locks_ok_def)

lemma shadows_ok_frame [simp]:
  "shadows_ok n (s\<lparr> sv_start_sem := v \<rparr>) pcs = shadows_ok n s pcs" "shadows_ok n (s\<lparr> sv_end_sem := v \<rparr>) pcs = shadows_ok n s pcs"
  "shadows_ok n (s\<lparr> sv_test_started := b \<rparr>) pcs = shadows_ok n s pcs" "shadows_ok n (s\<lparr> sv_mutex := m \<rparr>) pcs = shadows_ok n s pcs"
  "shadows_ok n (s\<lparr> sv_map := f \<rparr>) pcs = shadows_ok n s pcs" "shadows_ok n (s\<lparr> sv_event := g \<rparr>) pcs = shadows_ok n s pcs"
  by (simp_all add: shadows_ok_def)

lemma main_ok_frame [simp]:
  "main_ok (s\<lparr> sv_mutex := m \<rparr>) w k = main_ok s w k" "main_ok (s\<lparr> sv_map := f \<rparr>) w k = main_ok s w k"
  "main_ok (s\<lparr> sv_event := g \<rparr>) w k = main_ok s w k" "main_ok (s\<lparr> sv_starts := h \<rparr>) w k = main_ok s w k"
  "main_ok (s\<lparr> sv_pipe := q \<rparr>) w k = main_ok s w k" "main_ok (s\<lparr> sv_shadows := j \<rparr>) w k = main_ok s w k"
  by (simp_all add: main_ok_def)

lemma main_step_keeps:
  assumes inv: "remote_inv x"
  shows "keeps (main_step x)"
proof -
  let ?s = "rm_server x"
  note m = remote_invD(9) [OF inv]
  show ?thesis
  proof (cases "rm_main x")
    case MBegin
    then show ?thesis
      using inv m by (auto simp: main_step_def on_server_def main_ok_def remote_inv_def Sem_Get_def Sem_Signal_def
          SEM_VALUE_MAX_def Let_def)
  next
    case MWait
    show ?thesis
    proof (cases "sv_end_sem ?s")
      case 0
      then show ?thesis by (simp add: main_step_def MWait)
    next
      case (Suc k)
      then have "main_ok (?s\<lparr> sv_end_sem := k \<rparr>) (rm_worker x ControlPipe) MCheck"
        using m MWait by (auto simp: main_ok_def split: if_splits)
      moreover have "down_ok n b c d" if "down_ok n b c d" for n b c d using that .
      ultimately show ?thesis
        using inv Suc by (simp add: main_step_def MWait on_server_def remote_inv_def Let_def)
    qed
  next
    case MCheck
    then show ?thesis
      using inv m by (auto simp: main_step_def main_ok_def remote_inv_def Let_def split: if_splits)
  qed
qed

lemma wire_ok: "e_type e \<noteq> InvalidEventKind \<Longrightarrow> e_threadid e \<noteq> INVALID_TID \<Longrightarrow> wire e = Some (wire_image e)"
  by (simp add: wire_def)

lemma tid_0 [simp]: "0 \<noteq> INVALID_TID" "sint (0 :: 32 word) = 0"
  by (simp_all add: INVALID_TID_def INVALID_THREADID_def)

lemma control_step_keeps:
  assumes inv: "remote_inv x"
  shows "keeps (control_step cmd x)"
proof (cases "rm_ctl x")
  case True
  then show ?thesis
    using inv by (auto simp: control_step_def remote_inv_def down_ok_def Let_def split: list.splits)
next
  case False
  let ?e = "event_Clear\<lparr> e_type := (if cmd then TestEnd else TestStart), e_threadid := 0 \<rparr>"
  have "wire ?e = Some (wire_image ?e)" by (rule wire_ok) simp_all
  moreover have "toggle (wire_image ?e)" by (simp add: toggle_def)
  ultimately show ?thesis
    using inv False by (simp add: control_step_def push_up_def remote_inv_def up_ok_def Let_def)
qed

lemma worker_ok_shadow:
  "sh_tid sh = sh_tid (sv_shadows s r) \<Longrightarrow> worker_ok n (s\<lparr> sv_shadows := (sv_shadows s)(r := sh) \<rparr>) w = worker_ok n s w"
  by (cases w) (auto simp: shadow_tid_def)

lemma shadows_ok_upd:
  assumes ok: "shadows_ok n s pcs" and r: "r < sv_new s" "pcs r \<noteq> SDone" "c \<noteq> SDone"
    and new: "spc_ok v c" "mailbox (c = SWait) served_kind sh" "sh_tid sh = sh_tid (sv_shadows s r)"
    and s': "sv_new s' = sv_new s" "sv_home s' = sv_home s" "sv_pipe s' = sv_pipe s"
      "sv_shadows s' = (sv_shadows s)(r := sh)" "sv_starts s' = (sv_starts s)(r := v)"
  shows "shadows_ok n s' (pcs(r := c))"
proof -
  have "shadow_tid (sv_shadows s' k) = shadow_tid (sv_shadows s k)" for k
    using new(3) by (simp add: s' shadow_tid_def)
  then show ?thesis using ok r new by (auto simp: shadows_ok_def s')
qed

lemma shadows_ok_facts:
  assumes "shadows_ok n s pcs" "pcs r \<noteq> SDone"
  shows "r < sv_new s" "2 \<le> shadow_tid (sv_shadows s r)" "shadow_tid (sv_shadows s r) < int n + 2" "sv_home s r = ClientPipe"
    "spc_ok (sv_starts s r) (pcs r)" "mailbox (pcs r = SWait) served_kind (sv_shadows s r)"
    "sh_tid (sv_shadows s r) \<noteq> INVALID_TID"
    "GetShadowThread (shadow_tid (sv_shadows s r)) (sv_pipe s ClientPipe) = Some r"
proof -
  show r: "r < sv_new s" using assms by (auto simp: shadows_ok_def not_le [symmetric])
  then show "2 \<le> shadow_tid (sv_shadows s r)" "shadow_tid (sv_shadows s r) < int n + 2" "sv_home s r = ClientPipe"
    "spc_ok (sv_starts s r) (pcs r)" "mailbox (pcs r = SWait) served_kind (sv_shadows s r)"
    using assms by (simp_all add: shadows_ok_def)
  then show "sh_tid (sv_shadows s r) \<noteq> INVALID_TID" by (intro tid_valid)
  show "GetShadowThread (shadow_tid (sv_shadows s r)) (sv_pipe s ClientPipe) = Some r"
    using assms r by (simp add: shadows_ok_def)
qed

text \<open>A step of a shadow thread that changes its counter, its shadow and its start semaphore.\<close>

lemma remote_inv_shadow:
  assumes inv: "remote_inv x" and old: "rm_spc x r \<noteq> SDone" and c: "c \<noteq> SDone" "spc_ok v c"
    and sh: "mailbox (c = SWait) served_kind sh" "sh_tid sh = sh_tid (sv_shadows (rm_server x) r)"
  shows "remote_inv (x\<lparr> rm_server := (rm_server x)\<lparr> sv_shadows := (sv_shadows (rm_server x))(r := sh),
      sv_starts := (sv_starts (rm_server x))(r := v) \<rparr>, rm_spc := (rm_spc x)(r := c) \<rparr>)"
proof -
  let ?s = "rm_server x"
  note f = shadows_ok_facts [OF remote_invD(8) [OF inv] old]
  have "shadows_ok (cl_new (rm_client x)) (?s\<lparr> sv_shadows := (sv_shadows ?s)(r := sh), sv_starts := (sv_starts ?s)(r := v) \<rparr>)
      ((rm_spc x)(r := c))"
    by (rule shadows_ok_upd [OF remote_invD(8) [OF inv] f(1) old c(1) c(2) sh]) simp_all
  then show ?thesis using inv worker_ok_shadow [OF sh(2)] by (simp add: remote_inv_def Let_def)
qed

lemma remote_inv_push_down:
  "remote_inv x \<Longrightarrow> answer (cl_new (rm_client x)) e \<Longrightarrow>
    remote_inv (x\<lparr> rm_down := (rm_down x)(ClientPipe := rm_down x ClientPipe @ [e]) \<rparr>)"
  by (auto simp: remote_inv_def down_ok_def alternate_append answer_def Let_def)

lemma SendContinue_client:
  assumes "remote_inv x" "2 \<le> sint t" "sint t < int (cl_new (rm_client x)) + 2"
  obtains x' where "SendContinue ClientPipe t x = Some x'" "remote_inv x'"
    "x' = x\<lparr> rm_down := (rm_down x)(ClientPipe := rm_down x ClientPipe @ [wire_image (SendContinue_event t)]) \<rparr>"
proof -
  have "t \<noteq> INVALID_TID" using assms(2) by (auto simp: INVALID_TID_def INVALID_THREADID_def)
  then have "wire (SendContinue_event t) = Some (wire_image (SendContinue_event t))"
    by (intro wire_ok) (simp_all add: SendContinue_event_def)
  moreover have "answer (cl_new (rm_client x)) (wire_image (SendContinue_event t))"
    using assms by (simp add: answer_def SendContinue_event_def)
  ultimately show thesis using that remote_inv_push_down [OF assms(1)] by (simp add: SendContinue_def push_down_def)
qed

lemma dispatch_request: "request_kind (e_type e) \<Longrightarrow> \<exists>c. Server_dispatch f g e = Some c"
  by (auto simp: Server_dispatch_def request_kind_def Let_def)

lemma remote_inv_event:
  "remote_inv (x\<lparr> rm_server := s\<lparr> sv_event := g \<rparr>, rm_spc := pcs \<rparr>) = remote_inv (x\<lparr> rm_server := s, rm_spc := pcs \<rparr>)"
  "remote_inv (x\<lparr> rm_calls := l \<rparr>) = remote_inv x"
  by (simp_all add: remote_inv_def Let_def)

lemma Unregister_removes:
  "GetShadowThread t p \<noteq> None \<Longrightarrow> \<exists>p'. UnregisterShadowThread t p = Some p' \<and>
    (\<forall>u. GetShadowThread u p' = (if u = t then None else GetShadowThread u p))"
proof -
  assume "GetShadowThread t p \<noteq> None"
  moreover have "map_of (filter (\<lambda>x. fst x \<noteq> t) l) u = (if u = t then None else map_of l u)"
    for u and l :: "(int \<times> nat) list" by (induction l) auto
  ultimately show ?thesis by (simp add: UnregisterShadowThread_def GetShadowThread_def safe_check_def)
qed

lemma shadow_ends:
  assumes inv: "remote_inv x" and pc: "rm_spc x r = SEnding"
  shows "keeps (shadow_step r x)"
proof (cases "sv_map (rm_server x) ClientPipe")
  case None
  let ?s = "rm_server x"
  let ?t = "shadow_tid (sv_shadows ?s r)"
  note ok = remote_invD(8) [OF inv]
  note f = shadows_ok_facts [OF ok, of r, unfolded pc, simplified]
  obtain p where p: "UnregisterShadowThread ?t (sv_pipe ?s ClientPipe) = Some p"
    "\<And>u. GetShadowThread u p = (if u = ?t then None else GetShadowThread u (sv_pipe ?s ClientPipe))"
    using Unregister_removes [of ?t "sv_pipe ?s ClientPipe"] f(8) by auto
  have uniq: "k = r" if "k < sv_new ?s" "rm_spc x k \<noteq> SDone" "shadow_tid (sv_shadows ?s k) = ?t" for k
    using that f(8) shadows_ok_facts(8) [OF ok, of k] by simp
  have "shadows_ok (cl_new (rm_client x)) (?s\<lparr> sv_pipe := (sv_pipe ?s)(ClientPipe := p) \<rparr>) ((rm_spc x)(r := SDone))"
    using ok f uniq pc by (auto simp: shadows_ok_def p(2))
  then show ?thesis
    using inv p(1) None by (simp add: shadow_step_def pc set_spc_def on_server_def remote_inv_def Let_def)
qed (simp add: shadow_step_def pc)

lemma shadow_step_keeps:
  assumes inv: "remote_inv x"
  shows "keeps (shadow_step r x)"
proof -
  let ?s = "rm_server x" let ?sh = "sv_shadows ?s r"
  note facts = shadows_ok_facts [OF remote_invD(8) [OF inv], of r]
  show ?thesis
  proof (cases "rm_spc x r")
    case SNew
    note f = facts [unfolded SNew, simplified]
    show ?thesis
      using f remote_inv_shadow [OF inv, of r SRecv 1 ?sh] SNew
      by (simp add: Let_def shadow_step_def Sem_Signal_def SEM_VALUE_MAX_def set_spc_def on_server_def)
  next
    case SRecv
    note f = facts [unfolded SRecv, simplified]
    obtain sh where "WaitRecv_begin ?sh = Some sh" "mailbox True served_kind sh" "sh_tid sh = sh_tid ?sh"
      using mailbox_begin [OF f(6)] by blast
    then show ?thesis
      using remote_inv_shadow [OF inv, of r SWait "sv_starts ?s r" sh] SRecv
      by (simp add: Let_def shadow_step_def set_spc_def set_shadow_def on_server_def)
  next
    case SWait
    note f = facts [unfolded SWait, simplified]
    from mailbox_end [OF f(6) _ f(7), of "sv_event ?s r", simplified] show ?thesis
    proof (elim disjE exE conjE, goal_cases)
      case 1
      then show ?case by (simp add: shadow_step_def SWait Let_def)
    next
      case (2 e sh)
      let ?c = "if e_type e = ThreadEndIntern then SEnding else SHandle e"
      have "spc_ok (sv_starts ?s r) ?c" using 2(4) by (auto simp: served_kind_def)
      then show ?case
        using remote_inv_shadow [OF inv, of r ?c "sv_starts ?s r" sh] SWait 2
        by (simp add: Let_def shadow_step_def set_spc_def set_shadow_def on_server_def remote_inv_event split: if_splits)
    qed
  next
    case (SHandle e)
    note f = facts [unfolded SHandle, simplified]
    obtain c where "Server_dispatch (Some ''server.cpp'') (Some ''Run'') e = Some c" using dispatch_request f(5) by blast
    then show ?thesis
      using remote_inv_shadow [OF inv, of r "SContinue e" "sv_starts ?s r" ?sh] SHandle f
      by (simp add: Let_def shadow_step_def set_spc_def remote_inv_def Let_def)
  next
    case (SContinue e)
    note f = facts [unfolded SContinue, simplified]
    let ?c = "if e_type e = ThreadEnd then SEnding else SRecv"
    obtain x1 where x1: "SendContinue ClientPipe (sh_tid ?sh) x = Some x1" "remote_inv x1"
      "x1 = x\<lparr> rm_down := (rm_down x)(ClientPipe := rm_down x ClientPipe @ [wire_image (SendContinue_event (sh_tid ?sh))]) \<rparr>"
      using SendContinue_client [OF inv, of "sh_tid ?sh"] f(2,3) unfolding shadow_tid_def by blast
    have "remote_inv (x1\<lparr> rm_spc := (rm_spc x)(r := ?c) \<rparr>)"
      using remote_inv_shadow [OF x1(2), of r ?c "sv_starts ?s r" ?sh] SContinue f(6) unfolding x1(3)
      by (simp split: if_splits)
    then show ?thesis
      using SContinue f(4) x1(1) by (auto simp: shadow_step_def set_spc_def x1(3) Let_def)
  next
    case SEnding
    then show ?thesis using shadow_ends [OF inv] by blast
  qed (simp add: shadow_step_def)
qed

section \<open>The worker of the client's pipe on the server\<close>

lemma set_worker_client:
  assumes "remote_inv x" "worker_ok (cl_new (rm_client x)) (rm_server x) c"
    and "starting c \<longleftrightarrow> sv_mutex (rm_server x) = Some ClientPipe"
  shows "remote_inv (set_worker ClientPipe c x)"
  using assms by (simp add: remote_inv_def set_worker_def locks_ok_def Let_def)

lemma not_starting: "remote_inv x \<Longrightarrow> \<not> starting (rm_worker x ClientPipe) \<Longrightarrow> sv_mutex (rm_server x) \<noteq> Some ClientPipe"
  by (simp add: remote_inv_def locks_ok_def Let_def)

lemma OnRecv_request:
  assumes "request n e"
  shows "Server_OnRecv q e s = Some PAnswer \<or> Server_OnRecv q e s = Some PForward \<or>
    (Server_OnRecv q e s = Some (PCreate False) \<and> GetShadowThread (sint (e_threadid e)) (sv_pipe s q) = None)"
  using assms by (auto simp: Server_OnRecv_def Server_HandleEvent_def request_def request_kind_def kind_defs
      split: option.splits)

lemma control_ok_new: "control_ok s w \<Longrightarrow> sv_new s \<le> sv_new s' \<Longrightarrow> control_ok s' w"
  by (cases w) (auto simp: list_all_iff)

lemma CreateShadowThread_ok:
  assumes ok: "shadows_ok n s pcs" and t: "2 \<le> sint t" "sint t < int n + 2"
    and none: "GetShadowThread (sint t) (sv_pipe s ClientPipe) = None"
  shows "shadows_ok n (CreateShadowThread ClientPipe t s) (pcs(sv_new s := SNew))"
proof -
  have reg: "GetShadowThread u (RegisterShadowThread (sint t) r p) = (if u = sint t then Some r else GetShadowThread u p)"
    if "GetShadowThread (sint t) p = None" for u r p
    using that by (auto simp: GetShadowThread_def RegisterShadowThread_def)
  have free: "pcs r = SDone \<or> shadow_tid (sv_shadows s r) \<noteq> sint t" for r
    using shadows_ok_facts(8) [OF ok, of r] none by auto
  let ?s = "CreateShadowThread ClientPipe t s" and ?pcs = "pcs(sv_new s := SNew)"
  have simps: "sv_new ?s = Suc (sv_new s)" "sv_shadows ?s = (sv_shadows s)(sv_new s := new_ShadowThread t)"
    "sv_home ?s = (sv_home s)(sv_new s := ClientPipe)" "sv_starts ?s = (sv_starts s)(sv_new s := 0)"
    "sv_pipe ?s ControlPipe = sv_pipe s ControlPipe"
    "sv_pipe ?s ClientPipe = RegisterShadowThread (sint t) (sv_new s) (sv_pipe s ClientPipe)"
    by (simp_all add: CreateShadowThread_def)
  have new: "shadow_tid (new_ShadowThread t) = sint t" by (simp add: shadow_tid_def)
  have old: "GetShadowThread u (sv_pipe s ClientPipe) = Some r \<longleftrightarrow> r < sv_new s \<and> pcs r \<noteq> SDone \<and> shadow_tid (sv_shadows s r) = u"
    for u r using ok by (simp add: shadows_ok_def)
  have "GetShadowThread u (sv_pipe ?s ClientPipe) = Some r \<longleftrightarrow>
      r < sv_new ?s \<and> ?pcs r \<noteq> SDone \<and> shadow_tid (sv_shadows ?s r) = u" for u r
    unfolding simps reg [OF none] using free [of r] old [of u r] new by (auto simp: less_Suc_eq)
  then show ?thesis
    using ok t new unfolding shadows_ok_def simps by (simp add: less_Suc_eq all_conj_distrib)
qed

lemma shadows_ok_mail:
  assumes ok: "shadows_ok n s pcs" and "mailbox (pcs r = SWait) served_kind sh" "sh_tid sh = sh_tid (sv_shadows s r)"
  shows "shadows_ok n (s\<lparr> sv_shadows := (sv_shadows s)(r := sh) \<rparr>) pcs"
proof -
  have "shadow_tid (((sv_shadows s)(r := sh)) k) = shadow_tid (sv_shadows s k)" for k
    using assms(3) by (simp add: shadow_tid_def)
  then show ?thesis using assms by (auto simp: shadows_ok_def)
qed

text \<open>A signal to a shadow thread keeps the invariant.\<close>

lemma signal_keeps:
  assumes inv: "remote_inv x" and r: "r < sv_new (rm_server x)" and e: "served_kind (e_type e)" "e_threadid e = sh_tid (sv_shadows (rm_server x) r)"
  shows "SignalRecv e (sv_shadows (rm_server x) r) = stay \<or>
    (\<exists>sh. SignalRecv e (sv_shadows (rm_server x) r) = go sh \<and> remote_inv (set_shadow r sh x))"
proof -
  let ?s = "rm_server x"
  have m: "mailbox (rm_spc x r = SWait) served_kind (sv_shadows ?s r)"
    using remote_invD(8) [OF inv] r by (simp add: shadows_ok_def)
  from mailbox_signal [OF m e] show ?thesis
  proof (elim disjE exE conjE, goal_cases)
    case (2 sh)
    have "shadows_ok (cl_new (rm_client x)) (?s\<lparr> sv_shadows := (sv_shadows ?s)(r := sh) \<rparr>) (rm_spc x)"
      by (rule shadows_ok_mail [OF remote_invD(8) [OF inv] 2(2,3)])
    then have "remote_inv (set_shadow r sh x)"
      using inv worker_ok_shadow [OF 2(3)] by (simp add: remote_inv_def set_shadow_def on_server_def Let_def)
    then show ?case using 2(1) by simp
  qed simp
qed

lemma OnRecv_client_keeps:
  assumes inv: "remote_inv x" and pc: "rm_worker x ClientPipe = WLock e"
  shows "keeps (OnRecv_step ClientPipe e x)"
proof (cases "sv_mutex (rm_server x) \<noteq> None \<or> sv_map (rm_server x) ClientPipe \<noteq> None")
  case True
  then show ?thesis unfolding OnRecv_step_def Let_def by simp
next
  case False
  let ?s = "rm_server x" and ?n = "cl_new (rm_client x)"
  have req: "request ?n e" using remote_invD(5) [OF inv] pc by simp
  then have t: "2 \<le> sint (e_threadid e)" "sint (e_threadid e) < int ?n + 2" by (simp_all add: request_def)
  have free: "sv_mutex ?s = None" "sv_map ?s ClientPipe = None" using False by auto
  from OnRecv_request [OF req, of ClientPipe ?s] show ?thesis
  proof (elim disjE conjE, goal_cases)
    case 1
    from SendContinue_client [OF inv t] obtain x1 where x1: "SendContinue ClientPipe (e_threadid e) x = Some x1"
      "remote_inv x1" "x1 = x\<lparr> rm_down := (rm_down x)(ClientPipe := rm_down x ClientPipe @ [wire_image (SendContinue_event (e_threadid e))]) \<rparr>" .
    have "remote_inv (set_worker ClientPipe WIdle x1)"
      using free by (intro set_worker_client [OF x1(2)]) (simp_all add: x1(3))
    then show ?case
      using 1 free t x1(1) by (simp add: OnRecv_step_def Let_def)
  next
    case 2
    then show ?case
      using free req set_worker_client [OF inv, of "WRoute e"] by (simp add: OnRecv_step_def Let_def)
  next
    case 3
    let ?s' = "(CreateShadowThread ClientPipe (e_threadid e) ?s)\<lparr> sv_mutex := Some ClientPipe \<rparr>"
    have "shadows_ok ?n (CreateShadowThread ClientPipe (e_threadid e) ?s) ((rm_spc x)(sv_new ?s := SNew))"
      by (rule CreateShadowThread_ok [OF remote_invD(8) [OF inv] t 3(2)])
    moreover have "control_ok ?s' (rm_worker x ControlPipe)"
      using remote_invD(6) [OF inv] by (rule control_ok_new) (simp add: CreateShadowThread_def)
    moreover have "locks_ok ?s' ((rm_worker x)(ClientPipe := WStart (sv_new ?s) e False))"
      using remote_invD(7) [OF inv] free by (simp add: locks_ok_def CreateShadowThread_def)
    moreover have "main_ok ?s' w m = main_ok ?s w m" "sv_test_started ?s' = sv_test_started ?s" for w m
      by (simp_all add: main_ok_def CreateShadowThread_def)
    ultimately show ?case
      using inv 3(1) free req by (simp add: OnRecv_step_def remote_inv_def set_worker_def on_server_def Let_def)
  qed
qed

lemma worker_client_keeps:
  assumes inv: "remote_inv x"
  shows "keeps (worker_step ClientPipe x)"
proof -
  let ?s = "rm_server x" and ?n = "cl_new (rm_client x)"
  note w = remote_invD(5) [OF inv]
  show ?thesis
  proof (cases "rm_worker x ClientPipe")
    case WIdle
    show ?thesis
    proof (cases "rm_up x ClientPipe")
      case (Cons e es)
      have req: "request ?n e" "up_ok ?n ((rm_up x)(ClientPipe := es))"
        using remote_invD(4) [OF inv] Cons by (simp_all add: up_ok_def)
      have "remote_inv (x\<lparr> rm_up := (rm_up x)(ClientPipe := es) \<rparr>)" using inv req(2) by (simp add: remote_inv_def Let_def)
      then have "remote_inv (set_worker ClientPipe (WLock e) (x\<lparr> rm_up := (rm_up x)(ClientPipe := es) \<rparr>))"
        using req(1) not_starting [OF inv] WIdle by (intro set_worker_client) simp_all
      then show ?thesis by (simp add: worker_step_def WIdle Cons)
    qed (simp add: worker_step_def WIdle)
  next
    case (WLock e)
    then show ?thesis using OnRecv_client_keeps [OF inv WLock] by (simp add: worker_step_def)
  next
    case (WStart r e a)
    then have req: "request ?n e" "\<not> a" using w by simp_all
    show ?thesis
    proof (cases "sv_starts ?s r")
      case 0
      then show ?thesis by (simp add: worker_step_def WStart Let_def)
    next
      case (Suc v)
      let ?s' = "?s\<lparr> sv_starts := (sv_starts ?s)(r := v), sv_mutex := None \<rparr>"
      have "spc_ok v (rm_spc x r)" if "r < sv_new ?s"
        using shadows_ok_facts(5) [OF remote_invD(8) [OF inv], of r] Suc by (cases "rm_spc x r") auto
      then have "shadows_ok ?n ?s' (rm_spc x)"
        using remote_invD(8) [OF inv] by (auto simp: shadows_ok_def)
      moreover have "locks_ok ?s' ((rm_worker x)(ClientPipe := WRoute e))"
        using remote_invD(7) [OF inv] WStart by (auto simp: locks_ok_def)
      ultimately show ?thesis
        using inv Suc req by (simp add: worker_step_def WStart release_mutex_def on_server_def set_worker_def remote_inv_def Let_def)
    qed
  next
    case (WRoute e)
    then have req: "request ?n e" using w by simp
    have m: "sv_mutex ?s \<noteq> Some ClientPipe" using not_starting [OF inv] WRoute by simp
    have ne: "e_type e \<noteq> Continue" using req kinds(3) by (metis request_def)
    have "remote_inv (set_worker ClientPipe WIdle x)" using m by (intro set_worker_client [OF inv]) simp_all
    moreover have "remote_inv (set_worker ClientPipe (WSignal r e) x) \<and> shadow_tid (sv_shadows ?s r) = sint (e_threadid e)"
      if "GetShadowThread (sint (e_threadid e)) (sv_pipe ?s ClientPipe) = Some r" for r
      using that remote_invD(8) [OF inv] req m by (intro conjI set_worker_client [OF inv]) (auto simp: shadows_ok_def)
    ultimately show ?thesis
      using req ne by (auto simp: worker_step_def WRoute request_def Let_def split: option.splits)
  next
    case (WSignal r e)
    then have f: "request ?n e" "r < sv_new ?s" "e_threadid e = sh_tid (sv_shadows ?s r)"
      using w shadow_tid_eq [of "sv_shadows ?s r" "e_threadid e"] by simp_all
    then have "served_kind (e_type e)" by (simp add: request_def served_kind_def)
    from signal_keeps [OF inv f(2) this f(3)] show ?thesis
    proof (elim disjE exE conjE, goal_cases)
      case (2 sh)
      have "sv_mutex (rm_server (set_shadow r sh x)) \<noteq> Some ClientPipe"
        using not_starting [OF inv] WSignal by (simp add: set_shadow_def on_server_def)
      then have "remote_inv (set_worker ClientPipe WIdle (set_shadow r sh x))"
        by (intro set_worker_client [OF 2(2)]) simp_all
      then show ?case using 2(1) by (simp add: worker_step_def WSignal Let_def)
    qed (simp add: worker_step_def WSignal Let_def)
  qed (use w in simp_all)
qed

section \<open>The worker of the control pipe\<close>

text \<open>A step of this worker changes its counter, the locks, and the counts of the main function together.\<close>

lemma control_move:
  assumes inv: "remote_inv x" and c: "control_ok s c" "locks_ok s ((rm_worker x)(ControlPipe := c))" "main_ok s c (rm_main x)"
    and s: "sv_new s = sv_new (rm_server x)" "sv_shadows s = sv_shadows (rm_server x)" "sv_home s = sv_home (rm_server x)"
      "sv_starts s = sv_starts (rm_server x)" "sv_pipe s = sv_pipe (rm_server x)"
    and d: "down_ok (cl_new (rm_client x)) (cl_test_started (rm_client x)) (sv_test_started s) dn"
  shows "remote_inv (x\<lparr> rm_down := dn, rm_server := s, rm_worker := (rm_worker x)(ControlPipe := c) \<rparr>)"
proof -
  have "worker_ok n s w = worker_ok n (rm_server x) w" for n w by (cases w) (simp_all add: s)
  moreover have "shadows_ok n s pcs = shadows_ok n (rm_server x) pcs" for n pcs by (simp add: shadows_ok_def s)
  ultimately show ?thesis using inv c d by (simp add: remote_inv_def Let_def)
qed

lemma reply_control:
  "SendContinue ControlPipe 0 x = Some (x\<lparr> rm_down := (rm_down x)(ControlPipe := rm_down x ControlPipe @ [wire_image (SendContinue_event 0)]) \<rparr>)"
proof -
  have "wire (SendContinue_event 0) = Some (wire_image (SendContinue_event 0))"
    by (rule wire_ok) (simp_all add: SendContinue_event_def)
  then show ?thesis by (simp add: SendContinue_def push_down_def)
qed

lemma down_ok_reply:
  "down_ok n b c dn \<Longrightarrow> down_ok n b c (dn(ControlPipe := dn ControlPipe @ [wire_image (SendContinue_event 0)]))"
  by (simp add: down_ok_def SendContinue_event_def)

lemma down_ok_toggle:
  "down_ok n b c dn \<Longrightarrow> c \<noteq> (k = TestStart) \<Longrightarrow> k = TestStart \<or> k = TestEnd \<Longrightarrow>
    down_ok n b (\<not> c) (dn(ClientPipe := dn ClientPipe @ [wire_image (event_Clear\<lparr> e_type := k, e_threadid := 0 \<rparr>)]))"
  by (auto simp: down_ok_def toggle_def alternate_append)

lemma push_toggle:
  "k = TestStart \<or> k = TestEnd \<Longrightarrow> push_down ClientPipe (event_Clear\<lparr> e_type := k, e_threadid := 0 \<rparr>) x =
    Some (x\<lparr> rm_down := (rm_down x)(ClientPipe := rm_down x ClientPipe @ [wire_image (event_Clear\<lparr> e_type := k, e_threadid := 0 \<rparr>)]) \<rparr>)"
  by (subst push_down_def, subst wire_ok) auto

lemma control_move_same:
  assumes "remote_inv x" "control_ok (rm_server x) c" "\<not> ending c" "c \<noteq> WStartTest"
    and "\<not> ending (rm_worker x ControlPipe)" "rm_worker x ControlPipe \<noteq> WStartTest"
    and "down_ok (cl_new (rm_client x)) (cl_test_started (rm_client x)) (sv_test_started (rm_server x)) dn"
  shows "remote_inv (x\<lparr> rm_down := dn, rm_worker := (rm_worker x)(ControlPipe := c) \<rparr>)"
proof -
  have "remote_inv (x\<lparr> rm_down := dn, rm_server := rm_server x, rm_worker := (rm_worker x)(ControlPipe := c) \<rparr>)"
    by (rule control_move [OF assms(1,2)])
      (use assms remote_invD(7,9) [OF assms(1)] in \<open>auto simp: locks_ok_def main_ok_def\<close>)
  then show ?thesis by simp
qed

lemma OnRecv_control_keeps:
  assumes inv: "remote_inv x" and pc: "rm_worker x ControlPipe = WLock e"
  shows "keeps (OnRecv_step ControlPipe e x)"
proof (cases "sv_mutex (rm_server x) \<noteq> None \<or> sv_map (rm_server x) ControlPipe \<noteq> None")
  case True
  then show ?thesis unfolding OnRecv_step_def Let_def by simp
next
  case False
  let ?s = "rm_server x" and ?b = "sv_test_started (rm_server x)"
  have free: "sv_mutex ?s = None" "sv_map ?s ControlPipe = None" using False by auto
  have e: "toggle e" using remote_invD(6) [OF inv] pc by simp
  note dn = remote_invD(3) [OF inv] and lk = remote_invD(7) [OF inv] and m = remote_invD(9) [OF inv]
  have reply: "remote_inv (x\<lparr> rm_down := (rm_down x)(ControlPipe := rm_down x ControlPipe @ [wire_image (SendContinue_event 0)]),
      rm_worker := (rm_worker x)(ControlPipe := WIdle) \<rparr>)"
    by (rule control_move_same [OF inv]) (use pc down_ok_reply [OF dn] in simp_all)
  show ?thesis
  proof (cases "e_type e = TestStart")
    case True
    have "locks_ok (?s\<lparr> sv_mutex := Some ControlPipe \<rparr>) ((rm_worker x)(ControlPipe := WStartTest))"
      using lk free pc by (auto simp: locks_ok_def)
    moreover have "main_ok (?s\<lparr> sv_mutex := Some ControlPipe \<rparr>) WStartTest (rm_main x)"
      using m pc by (simp add: main_ok_def)
    ultimately have "remote_inv (x\<lparr> rm_down := rm_down x, rm_server := ?s\<lparr> sv_mutex := Some ControlPipe \<rparr>,
        rm_worker := (rm_worker x)(ControlPipe := WStartTest) \<rparr>)"
      by (intro control_move [OF inv]) (use dn in simp_all)
    then show ?thesis
      using True e free reply by (simp add: OnRecv_step_def Server_OnRecv_def toggle_def reply_control set_worker_def on_server_def)
  next
    case False
    then have te: "e_type e = TestEnd" "e_threadid e = 0" using e by (simp_all add: toggle_def)
    let ?dn = "(rm_down x)(ClientPipe := rm_down x ClientPipe @ [wire_image (event_Clear\<lparr> e_type := TestEnd, e_threadid := 0 \<rparr>)])"
    let ?s' = "?s\<lparr> sv_mutex := Some ControlPipe, sv_test_started := False \<rparr>"
    have "remote_inv (x\<lparr> rm_down := ?dn, rm_server := ?s', rm_worker := (rm_worker x)(ControlPipe := WLockMap ClientPipe) \<rparr>)" if "?b"
    proof (rule control_move [OF inv])
      show "locks_ok ?s' ((rm_worker x)(ControlPipe := WLockMap ClientPipe))"
        using lk free pc by (auto simp: locks_ok_def)
      show "main_ok ?s' (WLockMap ClientPipe) (rm_main x)" using m pc that by (auto simp: main_ok_def)
      show "down_ok (cl_new (rm_client x)) (cl_test_started (rm_client x)) (sv_test_started ?s') ?dn"
        using down_ok_toggle [OF dn, of TestEnd] that by simp
    qed simp_all
    then show ?thesis
      using te free reply push_toggle [of TestEnd x] False
      by (simp add: OnRecv_step_def Server_OnRecv_def reply_control set_worker_def on_server_def kind_neq)
  qed
qed

lemma no_control_threads: "shadows_ok n s pcs \<Longrightarrow> cp_threads (sv_pipe s ControlPipe) = []"
  unfolding shadows_ok_def GetShadowThread_def by (cases "cp_threads (sv_pipe s ControlPipe)") (auto split: prod.splits if_splits)

lemma broadcast_known:
  assumes "shadows_ok n s pcs"
  shows "list_all (\<lambda>r. r < sv_new s) (broadcast_refs (sv_pipe s q))"
proof (cases q)
  case ClientPipe
  have "the (map_of (cp_threads (sv_pipe s ClientPipe)) t) < sv_new s" if t: "t \<in> fst ` set (cp_threads (sv_pipe s ClientPipe))" for t
  proof -
    obtain r where r: "map_of (cp_threads (sv_pipe s ClientPipe)) t = Some r"
      using t by (cases "map_of (cp_threads (sv_pipe s ClientPipe)) t") (auto simp: map_of_eq_None_iff)
    then have "r < sv_new s" using assms unfolding shadows_ok_def GetShadowThread_def by blast
    then show ?thesis using r by simp
  qed
  then show ?thesis by (auto simp: ClientPipe broadcast_refs_def list_all_iff)
qed (use no_control_threads [OF assms] in \<open>simp add: broadcast_refs_def\<close>)

lemma WStartTest_keeps:
  assumes inv: "remote_inv x" and pc: "rm_worker x ControlPipe = WStartTest"
  shows "keeps (worker_step ControlPipe x)"
proof (cases "sv_start_sem (rm_server x)")
  case 0
  then show ?thesis by (simp add: worker_step_def pc Let_def)
next
  case (Suc v)
  let ?s = "rm_server x"
  let ?s' = "?s\<lparr> sv_start_sem := v, sv_test_started := True, sv_mutex := None \<rparr>"
  let ?d = "(rm_down x)(ClientPipe := rm_down x ClientPipe @ [wire_image (event_Clear\<lparr> e_type := TestStart, e_threadid := 0 \<rparr>)])"
  let ?dn = "?d(ControlPipe := ?d ControlPipe @ [wire_image (SendContinue_event 0)])"
  have m: "\<not> sv_test_started ?s" "sv_end_sem ?s = 0" "v = 0" "rm_main x = MWait"
    using remote_invD(9) [OF inv] Suc by (auto simp: main_ok_def split: if_splits)
  have "remote_inv (x\<lparr> rm_down := ?dn, rm_server := ?s', rm_worker := (rm_worker x)(ControlPipe := WIdle) \<rparr>)"
  proof (rule control_move [OF inv])
    show "locks_ok ?s' ((rm_worker x)(ControlPipe := WIdle))" using remote_invD(7) [OF inv] pc by (auto simp: locks_ok_def)
    show "main_ok ?s' WIdle (rm_main x)" using m by (simp add: main_ok_def)
    show "down_ok (cl_new (rm_client x)) (cl_test_started (rm_client x)) (sv_test_started ?s') ?dn"
      using down_ok_reply [OF down_ok_toggle [OF remote_invD(3) [OF inv], of TestStart]] m(1) by simp
  qed simp_all
  then show ?thesis
    using Suc push_toggle [of TestStart x]
    by (simp add: worker_step_def pc reply_control set_worker_def on_server_def remote_inv_def Let_def)
qed

lemma drain_keeps:
  assumes inv: "remote_inv x" and pc: "rm_worker x ControlPipe = WDrain q"
  shows "keeps (drain_step ControlPipe q x)"
proof -
  let ?s = "rm_server x"
  note lk = remote_invD(7) [OF inv]
  have m: "\<not> sv_test_started ?s" "sv_end_sem ?s = 0" "sv_start_sem ?s = 0" "rm_main x = MWait"
    using remote_invD(9) [OF inv] pc by (auto simp: main_ok_def split: if_splits)
  let ?dn = "(rm_down x)(ControlPipe := rm_down x ControlPipe @ [wire_image (SendContinue_event 0)])"
  let ?s' = "?s\<lparr> sv_end_sem := 1, sv_mutex := None \<rparr>"
  have 1: "remote_inv (x\<lparr> rm_down := ?dn, rm_server := ?s', rm_worker := (rm_worker x)(ControlPipe := WIdle) \<rparr>)"
  proof (rule control_move [OF inv])
    show "locks_ok ?s' ((rm_worker x)(ControlPipe := WIdle))" using lk pc by (auto simp: locks_ok_def)
    show "main_ok ?s' WIdle (rm_main x)" using m by (simp add: main_ok_def)
    show "down_ok (cl_new (rm_client x)) (cl_test_started (rm_client x)) (sv_test_started ?s') ?dn"
      using down_ok_reply [OF remote_invD(3) [OF inv]] by simp
  qed simp_all
  have 2: "remote_inv (x\<lparr> rm_down := rm_down x, rm_server := ?s, rm_worker := (rm_worker x)(ControlPipe := WLockMap ControlPipe) \<rparr>)"
    by (rule control_move [OF inv]) (use lk pc m remote_invD(3) [OF inv] in \<open>auto simp: locks_ok_def main_ok_def\<close>)
  show ?thesis
    using 1 2 m by (simp add: drain_step_def reply_control set_worker_def on_server_def Sem_Signal_def SEM_VALUE_MAX_def Let_def)
qed

lemma broadcast_keeps:
  assumes inv: "remote_inv x" and pc: "rm_worker x ControlPipe = WBroadcast q rs"
  shows "keeps (worker_step ControlPipe x)"
proof -
  note lk = remote_invD(7) [OF inv] and m = remote_invD(9) [OF inv] and dn = remote_invD(3) [OF inv]
  have ok: "list_all (\<lambda>r. r < sv_new (rm_server x)) rs" using remote_invD(6) [OF inv] pc by simp
  show ?thesis
  proof (cases rs)
    case Nil
    let ?s' = "(rm_server x)\<lparr> sv_map := (sv_map (rm_server x))(q := None) \<rparr>"
    have "remote_inv (x\<lparr> rm_down := rm_down x, rm_server := ?s', rm_worker := (rm_worker x)(ControlPipe := WDrain q) \<rparr>)"
      by (rule control_move [OF inv]) (use lk m dn pc in \<open>auto simp: locks_ok_def main_ok_def\<close>)
    then show ?thesis using pc Nil by (simp add: worker_step_def set_worker_def on_server_def)
  next
    case (Cons r rs')
    let ?e = "intern_event (sv_shadows (rm_server x) r)"
    have e: "served_kind (e_type ?e)" "e_threadid ?e = sh_tid (sv_shadows (rm_server x) r)"
      by (simp_all add: intern_event_def served_kind_def)
    have r: "r < sv_new (rm_server x)" using ok Cons by simp
    show ?thesis
      using signal_keeps [OF inv r e]
    proof (elim disjE exE conjE, goal_cases)
      case 1
      then show ?case using pc Cons by (simp add: worker_step_def Let_def)
    next
      case (2 sh)
      let ?x = "set_shadow r sh x"
      have w: "rm_worker ?x = rm_worker x" "rm_down ?x = rm_down x" "rm_server ?x = (rm_server x)\<lparr> sv_shadows := (sv_shadows (rm_server x))(r := sh) \<rparr>"
        "rm_main ?x = rm_main x" "rm_client ?x = rm_client x"
        by (simp_all add: set_shadow_def on_server_def)
      have "remote_inv (?x\<lparr> rm_down := rm_down ?x, rm_server := rm_server ?x, rm_worker := (rm_worker ?x)(ControlPipe := WBroadcast q rs') \<rparr>)"
        by (rule control_move [OF 2(2)]) (use lk m dn pc ok Cons in \<open>auto simp: w locks_ok_def main_ok_def\<close>)
      then show ?case using pc 2(1) Cons by (simp add: worker_step_def set_worker_def Let_def)
    qed
  qed
qed

lemma worker_control_keeps:
  assumes inv: "remote_inv x"
  shows "keeps (worker_step ControlPipe x)"
proof -
  let ?s = "rm_server x"
  note c = remote_invD(6) [OF inv] and lk = remote_invD(7) [OF inv] and m = remote_invD(9) [OF inv] and dn = remote_invD(3) [OF inv]
  show ?thesis
  proof (cases "rm_worker x ControlPipe")
    case WIdle
    show ?thesis
    proof (cases "rm_up x ControlPipe")
      case (Cons e es)
      have t: "toggle e" "up_ok (cl_new (rm_client x)) ((rm_up x)(ControlPipe := es))"
        using remote_invD(4) [OF inv] Cons by (simp_all add: up_ok_def)
      have "remote_inv (x\<lparr> rm_up := (rm_up x)(ControlPipe := es) \<rparr>)" using inv t(2) by (simp add: remote_inv_def Let_def)
      from control_move_same [OF this, of "WLock e" "rm_down x"] show ?thesis
        using t(1) WIdle dn by (simp add: worker_step_def Cons set_worker_def)
    qed (simp add: worker_step_def WIdle)
  next
    case (WLock e)
    then show ?thesis using OnRecv_control_keeps [OF inv WLock] by (simp add: worker_step_def)
  next
    case WStartTest
    then show ?thesis by (rule WStartTest_keeps [OF inv])
  next
    case (WLockMap q)
    let ?s' = "?s\<lparr> sv_map := (sv_map ?s)(q := Some ControlPipe) \<rparr>" and ?b = "WBroadcast q (broadcast_refs (sv_pipe ?s q))"
    have "remote_inv (x\<lparr> rm_down := rm_down x, rm_server := ?s', rm_worker := (rm_worker x)(ControlPipe := ?b) \<rparr>)"
    proof (rule control_move [OF inv])
      show "control_ok ?s' ?b" using broadcast_known [OF remote_invD(8) [OF inv]] by simp
      show "locks_ok ?s' ((rm_worker x)(ControlPipe := ?b))" using lk WLockMap by (auto simp: locks_ok_def)
      show "main_ok ?s' ?b (rm_main x)" using m WLockMap by (simp add: main_ok_def)
    qed (use dn in simp_all)
    then show ?thesis by (simp add: worker_step_def WLockMap set_worker_def on_server_def Let_def)
  next
    case (WBroadcast q rs)
    then show ?thesis by (rule broadcast_keeps [OF inv])
  next
    case (WDrain q)
    then show ?thesis using drain_keeps [OF inv WDrain] by (simp add: worker_step_def)
  qed (use c in simp_all)
qed

section \<open>Every run\<close>

lemma remote_step_keeps:
  assumes "remote_inv x" "allowed a"
  shows "keeps (remote_step a x) \<or> (\<exists>p r. a = Client p \<and> rm_cpc x p = CWait r True)"
proof (cases a)
  case (Worker q)
  then show ?thesis using worker_client_keeps [OF assms(1)] worker_control_keeps [OF assms(1)] by (cases q) simp_all
qed (use assms call_step_keeps client_step_keeps client_worker_step_keeps shadow_step_keeps main_step_keeps control_step_keeps
    in auto)

lemma remote_inv_init: "remote_inv remote_init"
  by (simp add: remote_inv_def remote_init_def construct_client_def new_server_def client_ok_def client_ids_def
      down_ok_def up_ok_def locks_ok_def shadows_ok_def main_ok_def GetShadowThread_def max_threads_def)

text \<open>The end of a thread: OnEnd stores NULL in the slot of its own shadow thread with set_tls, which checks
  that the slot is NULL.\<close>

lemma thread_end_step:
  assumes inv: "remote_inv x" and pc: "rm_cpc x p = CWait r True"
  shows "client_step p x = (if sh_sem (cl_shadows (rm_client x) r) = 0 then stay else None)"
proof -
  let ?sh = "cl_shadows (rm_client x) r"
  note cl = remote_invD(1) [OF inv]
  have f: "mailbox True (\<lambda>k. k = Continue) ?sh" "sh_tid ?sh \<noteq> INVALID_TID"
    using client_ok_facts [OF cl, of p r] pc ex_bool_eq [of "\<lambda>b. b"] by simp_all
  have tls: "cl_tls (rm_client x) p = Some r" using cl pc by (auto simp: client_ok_def dest: spec [of _ p])
  from mailbox_end [OF f(1) _ f(2), of event_Clear, simplified] show ?thesis
  proof (elim disjE exE conjE, goal_cases)
    case 1
    then have "sh_sem ?sh = 0" using f by (auto simp: WaitRecv_end_def WaitRecv_wait_def mailbox_def bind_eq_Some_conv split: option.splits call.splits if_splits)
    then show ?case using 1 by (simp add: client_step_def pc)
  next
    case (2 e sh)
    then have "sh_sem ?sh \<noteq> 0" by (auto simp: WaitRecv_end_def WaitRecv_wait_def split: if_splits)
    then show ?case
      using 2 tls by (simp add: client_step_def pc set_cpc_def set_cshadow_def SendRecvContinue_check_def ClientShadow_OnEnd_after_def set_tls_def safe_assert_def)
  qed
qed

lemma remote_reach_inv: "remote_reach x \<Longrightarrow> remote_inv x"
proof (induction rule: remote_reach.induct)
  case (step x a y)
  have "keeps (remote_step a x)"
  proof (rule ccontr)
    assume "\<not> keeps (remote_step a x)"
    then obtain p r where "a = Client p" "rm_cpc x p = CWait r True"
      using remote_step_keeps step by blast
    then show False using thread_end_step step by (simp split: if_splits)
  qed
  then show ?case using step by simp
qed (rule remote_inv_init)

end
