(* ===== verification/Remote_Runs.thy ===== *)
theory Remote_Runs
  imports Remote_Protocol
begin

text \<open>
  Runs of the remote mode: the one assertion that fails in them, and two ways in which the end of a test
  goes wrong.
\<close>

section \<open>Runs as lists of steps\<close>

fun remote_run :: "action list \<Rightarrow> remote \<Rightarrow> remote option" where
  "remote_run [] x = Some x"
| "remote_run (a # as) x = (if \<not> allowed a then None else case remote_step a x of
     Some (call.Returns y) \<Rightarrow> if cl_new (rm_client y) \<le> max_threads then remote_run as y else None
   | c \<Rightarrow> None)"

lemma remote_run_reach: "remote_run as x = Some y \<Longrightarrow> remote_reach x \<Longrightarrow> remote_reach y"
proof (induction as arbitrary: x)
  case (Cons a as)
  then show ?case by (auto split: if_splits option.splits call.splits intro: remote_reach.step)
qed simp

lemma remote_run_append: "remote_run (as @ bs) x = Option.bind (remote_run as x) (remote_run bs)"
  by (induction as arbitrary: x) (auto split: option.splits call.splits)

section \<open>Concrete runs\<close>

text \<open>The start of a test; a thread of the client whose end the server has handled and answered.\<close>

definition start_run :: "action list" where
  "start_run = [Main, Control False, Worker ControlPipe, Worker ControlPipe, Worker ControlPipe, ClientWorker, Control False]"

definition thread_end_run :: "action list" where
  "thread_end_run = start_run @ [Call 0 (IThreadEnd None None 0), Client 0, Client 0, Worker ClientPipe, Worker ClientPipe,
     Shadow 0, Worker ClientPipe, Worker ClientPipe, Shadow 0, Worker ClientPipe, Shadow 0, Shadow 0, Shadow 0]"

lemmas server_eval = main_step_def control_step_def worker_step_def shadow_step_def OnRecv_step_def Server_OnRecv_def
  Server_HandleEvent_def CreateShadowThread_def broadcast_refs_def intern_event_def drain_step_def release_mutex_def
  on_server_def set_worker_def set_shadow_def set_spc_def Server_dispatch_def

lemmas client_eval = call_step_def client_step_def client_worker_step_def set_cpc_def set_cshadow_def exchange_def if_started_def
  Client_GetShadowThread_def ClientShadow_OnStart_def ClientShadow_OnEnd_after_def set_tls_def stamp_def shadow_tid_def
  Client_OnRecv_def SendRecvContinue_check_def

lemmas pipe_eval = push_up_def push_down_def SendContinue_def SendContinue_event_def wire_def wire_image_def event_assign_def
  event_Clear_def kind_defs INVALID_TID_def INVALID_THREADID_def GetShadowThread_def RegisterShadowThread_def
  UnregisterShadowThread_def NumShadowThreads_def

lemmas shadow_eval = SignalRecv_def SignalRecv_begin_def SignalRecv_wait_def SignalRecv_copy_def SignalRecv_check_def
  SignalRecv_signal_def WaitRecv_begin_def WaitRecv_signal_def WaitRecv_check_def WaitRecv_end_def WaitRecv_wait_def
  WaitRecv_copy_def safe_assert_def Sem_Signal_def Sem_Get_def SEM_VALUE_MAX_def new_ShadowThread_def event_Check_def

lemmas init_eval = remote_init_def construct_client_def new_server_def max_threads_def

lemmas remote_eval = server_eval client_eval pipe_eval shadow_eval init_eval

lemma run_obtains:
  assumes "map_option f (remote_run as remote_init) = Some v"
  obtains x where "remote_run as remote_init = Some x" "remote_reach x" "f x = v"
  using assms remote_run_reach [OF _ remote_reach.init] by blast

lemma run_to_thread_end:
  "map_option (\<lambda>y. (rm_cpc y 0, sh_sem (cl_shadows (rm_client y) 0)))
     (remote_run (thread_end_run @ [ClientWorker, ClientWorker, ClientWorker]) remote_init) = Some (CWait 0 True, 1)"
  by (simp add: start_run_def thread_end_run_def remote_eval)

section \<open>Assertions\<close>

text \<open>C3: In the remote mode no step of a process fails an assertion, in whatever order the
  steps come: the semaphores of the mailboxes are never signalled twice, no mailbox gets an event
  of another thread or of a kind that its owner does not expect, no pipe carries an invalid event,
  the starts and ends of the test alternate at the client, and the counts of main0 are zero when
  it is called. The one exception is the call ThreadEnd of a client thread: when its answer has
  come, OnEnd clears the slot of the thread with set_tls, which asserts that the slot is already
  clear, and this fails every time. The calls are those of an instrumented program that leaves the
  start and the end of the test to the test controller.\<close>

theorem remote_no_abort:
  assumes "remote_reach x" "allowed a"
  shows "remote_step a x = None \<longleftrightarrow>
    (\<exists>p r. a = Client p \<and> rm_cpc x p = CWait r True \<and> sh_sem (cl_shadows (rm_client x) r) \<noteq> 0)"
proof (cases "\<exists>p r. a = Client p \<and> rm_cpc x p = CWait r True")
  case True
  then show ?thesis using thread_end_step remote_reach_inv [OF assms(1)] by (auto split: if_splits)
next
  case False
  then have "keeps (remote_step a x)" using remote_step_keeps [OF remote_reach_inv] assms by blast
  then have "remote_step a x \<noteq> None" by (cases "remote_step a x") simp_all
  then show ?thesis using False by blast
qed

theorem remote_no_abort_witness:
  "\<exists>x. remote_reach x \<and> rm_cpc x 0 = CWait 0 True \<and> remote_step (Client 0) x = None \<and> remote_step ClientWorker x \<noteq> None"
proof -
  obtain x where x: "remote_reach x" "rm_cpc x 0 = CWait 0 True" "sh_sem (cl_shadows (rm_client x) 0) = 1"
    using run_obtains [OF run_to_thread_end] by auto
  then show ?thesis using remote_no_abort [OF x(1), of "Client 0"] remote_no_abort [OF x(1), of ClientWorker] by auto
qed

section \<open>The end of a test that never ends\<close>

text \<open>Broadcast holds the mutex of the thread map while it waits for the mailbox of each thread, and a shadow
  thread that leaves its loop needs this mutex to unregister.\<close>

definition end_blocked :: "nat \<Rightarrow> nat list \<Rightarrow> remote \<Rightarrow> bool" where
  "end_blocked r rs x \<longleftrightarrow> rm_worker x ControlPipe = WBroadcast ClientPipe (r # rs) \<and> rm_spc x r = SEnding \<and> rm_main x = MWait"

lemma end_blocked_control:
  assumes "remote_inv x" "end_blocked r rs x"
  shows "worker_step ControlPipe x = stay" "shadow_step r x = stay" "main_step x = stay" "r < sv_new (rm_server x)"
    "sv_mutex (rm_server x) = Some ControlPipe"
proof -
  let ?s = "rm_server x"
  have b: "rm_worker x ControlPipe = WBroadcast ClientPipe (r # rs)" "rm_spc x r = SEnding" "rm_main x = MWait"
    using assms(2) by (simp_all add: end_blocked_def)
  note lk = remote_invD(7) [OF assms(1)] and sh = remote_invD(8) [OF assms(1)]
  show r: "r < sv_new ?s" using remote_invD(6) [OF assms(1)] b by simp
  have "sv_map ?s ClientPipe \<noteq> None" using lk b by (auto simp: locks_ok_def)
  then show "shadow_step r x = stay" by (simp add: shadow_step_def b)
  have "mailbox False served_kind (sv_shadows ?s r)" using sh r b by (auto simp: shadows_ok_def)
  then have "sh_sem2 (sv_shadows ?s r) = 0" by (simp add: mailbox_def)
  then show "worker_step ControlPipe x = stay"
    by (simp add: worker_step_def b SignalRecv_def SignalRecv_begin_def SignalRecv_wait_def intern_event_def)
  show "main_step x = stay" using remote_invD(9) [OF assms(1)] b by (simp add: main_step_def main_ok_def)
  show "sv_mutex ?s = Some ControlPipe" using lk b by (auto simp: locks_ok_def)
qed

text \<open>What the steps of the other processes leave alone.\<close>

definition same_server_pcs :: "remote \<Rightarrow> remote \<Rightarrow> bool" where
  "same_server_pcs x y \<longleftrightarrow> rm_worker y = rm_worker x \<and> rm_spc y = rm_spc x \<and> rm_main y = rm_main x"

lemma not_Blocks: "c \<noteq> Blocks \<longleftrightarrow> (\<exists>v. c = call.Returns v)"
  by (cases c) auto

lemma push_frame:
  "push_up q e x = Some y \<Longrightarrow> same_server_pcs x y" "push_down q e x = Some y \<Longrightarrow> same_server_pcs x y"
  "SendContinue q t x = Some y \<Longrightarrow> same_server_pcs x y"
  by (auto simp: same_server_pcs_def push_up_def push_down_def SendContinue_def bind_eq_Some_conv)

lemma client_step_frame: "client_step p x = go y \<Longrightarrow> same_server_pcs x y"
proof (cases "rm_cpc x p")
  case (CWait r fin)
  assume "client_step p x = go y"
  then show ?thesis
    by (cases fin) (auto simp: CWait same_server_pcs_def client_step_def set_cpc_def set_cshadow_def bind_eq_Some_conv not_Blocks
      split: call.splits prod.splits)
qed (auto simp: same_server_pcs_def client_step_def set_cpc_def set_cshadow_def bind_eq_Some_conv dest!: push_frame split: list.splits)

lemma call_step_frame:
  assumes "call_step p c x = go y"
  shows "same_server_pcs x y"
proof -
  obtain act s1 where "client_call p c (rm_client x) = Some (act, s1)"
    using assms by (auto simp: call_step_def bind_eq_Some_conv split: if_splits)
  then show ?thesis using assms by (cases act) (auto simp: call_step_def same_server_pcs_def set_cpc_def split: if_splits)
qed

lemma client_frame:
  "client_worker_step x = go y \<Longrightarrow> same_server_pcs x y" "control_step cmd x = go y \<Longrightarrow> same_server_pcs x y"
  by (auto simp: same_server_pcs_def client_worker_step_def control_step_def set_cshadow_def
      bind_eq_Some_conv not_Blocks Let_def dest!: push_frame split: if_splits client_worker.splits list.splits
      option.splits call.splits prod.splits)

lemma shadow_frame: "shadow_step r' x = go y \<Longrightarrow> rm_worker y = rm_worker x \<and> rm_main y = rm_main x \<and> (r \<noteq> r' \<longrightarrow> rm_spc y r = rm_spc x r)"
  by (auto simp: same_server_pcs_def shadow_step_def set_spc_def set_shadow_def on_server_def bind_eq_Some_conv not_Blocks Let_def
      dest!: push_frame split: if_splits shadow_pc.splits call.splits)

lemma worker_frame:
  assumes "worker_step ClientPipe x = go y" "sv_mutex (rm_server x) \<noteq> None"
  shows "rm_worker y ControlPipe = rm_worker x ControlPipe \<and> rm_main y = rm_main x \<and> rm_spc y = rm_spc x"
  using assms
  by (auto simp: same_server_pcs_def worker_step_def OnRecv_step_def drain_step_def set_worker_def set_shadow_def on_server_def release_mutex_def
      bind_eq_Some_conv not_Blocks Let_def dest!: push_frame split: if_splits worker_pc.splits list.splits option.splits call.splits)

lemma end_blocked_step:
  assumes "remote_inv x" "end_blocked r rs x" "remote_step a x = go y"
  shows "end_blocked r rs y"
proof -
  note b = end_blocked_control [OF assms(1,2)]
  have "rm_worker y ControlPipe = rm_worker x ControlPipe \<and> rm_main y = rm_main x \<and> rm_spc y r = rm_spc x r"
  proof (cases a)
    case (Worker q)
    then show ?thesis using assms(3) b worker_frame [of x y] by (cases q) auto
  next
    case (Shadow r')
    then show ?thesis using assms(3) b shadow_frame [of r' x y r] by (cases "r' = r") auto
  qed (use assms(3) b call_step_frame client_step_frame client_frame in \<open>auto simp: same_server_pcs_def\<close>)
  then show ?thesis using assms(2) by (simp add: end_blocked_def)
qed

lemma end_blocked_run:
  "remote_run as x = Some y \<Longrightarrow> remote_reach x \<Longrightarrow> end_blocked r rs x \<Longrightarrow> end_blocked r rs y"
proof (induction as arbitrary: x)
  case (Cons a as)
  obtain z where z: "remote_step a x = go z" "remote_run as z = Some y" "remote_reach z"
    using Cons.prems(1,2) by (auto split: if_splits option.splits call.splits intro: remote_reach.step)
  then show ?case using Cons.IH [OF z(2,3)] end_blocked_step [OF remote_reach_inv] Cons.prems(2,3) by blast
qed simp

lemma run_to_blocked:
  "map_option (end_blocked 0 []) (remote_run (thread_end_run @ [Control True, Worker ControlPipe, Worker ControlPipe, Worker ControlPipe])
     remote_init) = Some True"
  by (simp add: start_run_def thread_end_run_def end_blocked_def remote_eval)

text \<open>C13: The end of a test can block for ever: in a run where the server has answered the
  ThreadEnd of a thread and its shadow thread is about to unregister, the end of the test takes
  the mutex of the thread map and waits in Broadcast for the mailbox of this shadow thread, which
  waits for the mutex. Whatever steps the processes make from there, Broadcast and the shadow
  thread stay where they are, and main0 waits for the end of the test.\<close>

theorem test_end_deadlock:
  "\<exists>x. remote_reach x \<and> {y. \<exists>as. remote_run as x = Some y}
     \<subseteq> {y. rm_worker y ControlPipe = WBroadcast ClientPipe [0] \<and> rm_spc y 0 = SEnding \<and> rm_main y = MWait}"
proof -
  obtain x where x: "remote_reach x" "end_blocked 0 [] x"
    using run_obtains [OF run_to_blocked] by auto
  then have "end_blocked 0 [] y" if "remote_run as x = Some y" for as y
    using end_blocked_run that by blast
  then show ?thesis using x(1) by (auto simp: end_blocked_def intro!: exI [of _ x])
qed

section \<open>A request that is lost\<close>

text \<open>The worker of the client's pipe has looked at the request of a thread and goes on to deliver it; before
  it does, the end of the test makes the shadow thread of this thread unregister.\<close>

definition lost_run :: "action list" where
  "lost_run = start_run @ [Call 0 (IFuncEnter 0 0 0 None None 0), Client 0, Client 0, Worker ClientPipe, Worker ClientPipe,
     Shadow 0, Worker ClientPipe, Shadow 0,
     Control True, Worker ControlPipe, Worker ControlPipe, Worker ControlPipe, Worker ControlPipe, Worker ControlPipe,
     Shadow 0, Shadow 0, Worker ClientPipe,
     Worker ControlPipe, Worker ControlPipe, Worker ControlPipe, Worker ControlPipe, ClientWorker, Control True, Main, Main]"

definition at_rest :: "remote \<Rightarrow> bool" where
  "at_rest x \<longleftrightarrow> (\<forall>q. rm_up x q = [] \<and> rm_down x q = [] \<and> rm_worker x q = WIdle) \<and> rm_cworker x = KIdle \<and>
     (\<forall>r. rm_spc x r = SDone) \<and> rm_main x = MBegin \<and> \<not> rm_ctl x"

lemma run_to_lost:
  "map_option (\<lambda>x. at_rest x \<and> rm_cpc x 0 = CWait 0 False \<and> sh_sem (cl_shadows (rm_client x) 0) = 0 \<and>
      rm_calls x = [(0, IStartTest), (0, IEndTest)])
     (remote_run lost_run remote_init) = Some True"
  by (simp add: start_run_def lost_run_def at_rest_def remote_eval)

text \<open>No event of the thread \<open>t\<close> is on its way, and no shadow thread of it runs.\<close>

fun worker_event :: "worker_pc \<Rightarrow> event option" where
  "worker_event (WLock e) = Some e"
| "worker_event (WStart r e a) = Some e"
| "worker_event (WRoute e) = Some e"
| "worker_event (WSignal r e) = Some e"
| "worker_event w = None"

fun client_worker_event :: "client_worker \<Rightarrow> event option" where
  "client_worker_event KIdle = None"
| "client_worker_event (KRoute e) = Some e"
| "client_worker_event (KSignal r e) = Some e"

definition without :: "int \<Rightarrow> event list \<Rightarrow> bool" where
  "without t es \<longleftrightarrow> list_all (\<lambda>e. sint (e_threadid e) \<noteq> t) es"

definition forgotten :: "int \<Rightarrow> remote \<Rightarrow> bool" where
  "forgotten t x \<longleftrightarrow> without t (rm_up x ClientPipe) \<and> without t (rm_down x ClientPipe) \<and>
     (\<forall>e. worker_event (rm_worker x ClientPipe) = Some e \<longrightarrow> sint (e_threadid e) \<noteq> t) \<and>
     (\<forall>e. client_worker_event (rm_cworker x) = Some e \<longrightarrow> sint (e_threadid e) \<noteq> t) \<and>
     (\<forall>k < sv_new (rm_server x). shadow_tid (sv_shadows (rm_server x) k) = t \<longrightarrow> rm_spc x k = SDone)"

definition lost :: "nat \<Rightarrow> nat \<Rightarrow> remote \<Rightarrow> bool" where
  "lost p r x \<longleftrightarrow> rm_cpc x p = CWait r False \<and> sh_sem (cl_shadows (rm_client x) r) = 0 \<and> forgotten (int r + 2) x"

lemma without_simps [simp]: "without t []" "without t (e # es) \<longleftrightarrow> sint (e_threadid e) \<noteq> t \<and> without t es"
    "without t (es @ [e]) \<longleftrightarrow> without t es \<and> sint (e_threadid e) \<noteq> t"
  by (auto simp: without_def)

lemma push_up_lost:
  assumes "push_up q e x = Some y" "forgotten t x" "sint (e_threadid e) \<noteq> t"
  shows "forgotten t y" "rm_client y = rm_client x" "rm_cpc y = rm_cpc x"
  using assms by (auto simp: push_up_def wire_def forgotten_def bind_eq_Some_conv)

lemma push_down_lost:
  assumes "push_down q e x = Some y" "forgotten t x" "sint (e_threadid e) \<noteq> t"
  shows "forgotten t y" "rm_client y = rm_client x" "rm_cpc y = rm_cpc x"
  using assms by (auto simp: push_down_def wire_def forgotten_def bind_eq_Some_conv)

lemma SendContinue_lost:
  assumes "SendContinue q w x = Some y" "forgotten t x" "sint w \<noteq> t"
  shows "forgotten t y" "rm_client y = rm_client x" "rm_cpc y = rm_cpc x"
  using push_down_lost [of q "SendContinue_event w" x y t] assms by (auto simp: SendContinue_def SendContinue_event_def)

lemma client_call_shadow:
  assumes "client_call p c s = Some (act, s1)" "r < cl_new s"
  shows "cl_shadows s1 r = cl_shadows s r"
proof -
  have "cl_shadows s2 r = cl_shadows s r" if "Client_GetShadowThread p s = Some (k, s2)" for k s2
    using that assms(2) by (auto simp: Client_GetShadowThread_def ClientShadow_OnStart_def set_tls_def Let_def bind_eq_Some_conv
        split: option.splits)
  then show ?thesis
    using assms(1) by (cases c) (auto simp: exchange_def if_started_def bind_eq_Some_conv split: option.splits if_splits)
qed

lemma call_step_lost:
  assumes "remote_inv x" "lost p r x" "call_step p' c x = go y"
  shows "lost p r y"
proof -
  obtain act s1 where a: "client_call p' c (rm_client x) = Some (act, s1)"
    using assms(3) by (auto simp: call_step_def bind_eq_Some_conv split: if_splits)
  have "r < cl_new (rm_client x)"
    using client_ok_facts(1) [OF remote_invD(1) [OF assms(1)], of p r] assms(2) by (simp add: lost_def)
  then have "cl_shadows s1 r = cl_shadows (rm_client x) r" by (rule client_call_shadow [OF a])
  then show ?thesis using assms(2,3) a
    by (cases act) (auto simp: call_step_def lost_def forgotten_def set_cpc_def split: if_splits)
qed

lemma client_step_lost:
  assumes inv: "remote_inv x" and l: "lost p r x" and go: "client_step p' x = go y"
  shows "lost p r y"
proof -
  note cl = remote_invD(1) [OF inv]
  have pc: "rm_cpc x p = CWait r False" "sh_sem (cl_shadows (rm_client x) r) = 0" "forgotten (int r + 2) x"
    using l by (simp_all add: lost_def)
  have ne: "p' \<noteq> p" using go pc by (auto simp: client_step_def WaitRecv_end_def WaitRecv_wait_def)
  have k: "k \<noteq> r" if "pc_shadow (rm_cpc x p') = Some k" for k
  proof
    assume "k = r"
    then have "cl_tls (rm_client x) p' = Some r" "cl_tls (rm_client x) p = Some r"
      using cl that pc(1) by (auto simp: client_ok_def)
    then show False using cl ne unfolding client_ok_def client_ids_def by blast
  qed
  show ?thesis
  proof (cases "rm_cpc x p'")
    case (CSend k e fin)
    then have "sint (sh_tid (cl_shadows (rm_client x) k)) \<noteq> int r + 2"
      using k [of k] client_ok_facts(2) [OF cl, of p' k] by (simp add: shadow_tid_def)
    then have t: "sint (e_threadid (stamp (cl_shadows (rm_client x) k) e)) \<noteq> int r + 2" by (simp add: stamp_def)
    obtain x1 where x1: "push_up ClientPipe (stamp (cl_shadows (rm_client x) k) e) x = Some x1" "y = set_cpc p' (CRecv k fin) x1"
      using go by (auto simp: client_step_def CSend bind_eq_Some_conv)
    show ?thesis
      using pc ne push_up_lost [OF x1(1) pc(3) t] by (simp add: lost_def x1(2) set_cpc_def forgotten_def)
  next
    case (CRecv k fin)
    then show ?thesis using go pc ne k [of k]
      by (auto simp: client_step_def lost_def set_cpc_def set_cshadow_def bind_eq_Some_conv forgotten_def)
  next
    case (CWait k fin)
    then have fin: "\<not> fin" using go thread_end_step [OF inv, of p' k] by (cases fin) (auto split: if_splits)
    have "k \<noteq> r" using k [of k] CWait by simp
    then show ?thesis using go pc ne fin CWait
      by (auto simp: client_step_def lost_def set_cpc_def set_cshadow_def bind_eq_Some_conv forgotten_def not_Blocks
        split: call.splits prod.splits)
  qed (use go cl in \<open>auto simp: client_step_def client_ok_def dest: spec [of _ p']\<close>)
qed

lemma client_worker_step_lost:
  assumes inv: "remote_inv x" and l: "lost p r x" and go: "client_worker_step x = go y"
  shows "lost p r y"
proof (cases "rm_cworker x")
  case KIdle
  then obtain e es where e: "rm_down x ClientPipe = e # es"
    using go by (cases "rm_down x ClientPipe") (auto simp: client_worker_step_def)
  have "cl_shadows s1 = cl_shadows (rm_client x)" if "Client_OnRecv e (rm_client x) = Some (b, s1)" for b s1
    using that by (auto simp: Client_OnRecv_def bind_eq_Some_conv split: if_splits)
  then show ?thesis using l go KIdle e
    by (auto simp: client_worker_step_def lost_def forgotten_def bind_eq_Some_conv split: if_splits)
next
  case (KRoute e)
  then show ?thesis using l go
    by (auto simp: client_worker_step_def lost_def forgotten_def bind_eq_Some_conv split: option.splits)
next
  case (KSignal k e)
  then have "sint (e_threadid e) = int k + 2" using remote_invD(2) [OF inv] by simp
  then have "k \<noteq> r" using l KSignal by (auto simp: lost_def forgotten_def)
  then show ?thesis using l go KSignal
    by (auto simp: client_worker_step_def lost_def forgotten_def set_cshadow_def bind_eq_Some_conv not_Blocks split: call.splits)
qed

lemma control_main_lost:
  "lost p r x \<Longrightarrow> control_step cmd x = go y \<Longrightarrow> lost p r y" "lost p r x \<Longrightarrow> main_step x = go y \<Longrightarrow> lost p r y"
  by (auto simp: control_step_def main_step_def lost_def forgotten_def push_up_def wire_def on_server_def bind_eq_Some_conv Let_def
      not_Blocks split: if_splits list.splits main_pc.splits call.splits)

text \<open>The server: an event is handled with the thread id it came with, a shadow thread answers with its own.\<close>

lemma SignalRecv_tid: "SignalRecv e s = go s' \<Longrightarrow> sh_tid s' = sh_tid s"
  by (auto simp: SignalRecv_def SignalRecv_begin_def SignalRecv_wait_def SignalRecv_copy_def SignalRecv_check_def SignalRecv_signal_def
      bind_eq_Some_conv Let_def split: if_splits call.splits)

lemma WaitRecv_tid:
  "WaitRecv_begin s = Some s' \<Longrightarrow> sh_tid s' = sh_tid s" "WaitRecv_end d s = go (e, s') \<Longrightarrow> sh_tid s' = sh_tid s"
  by (auto simp: WaitRecv_begin_def WaitRecv_signal_def WaitRecv_check_def WaitRecv_end_def WaitRecv_wait_def
      bind_eq_Some_conv not_Blocks Let_def split: if_splits call.splits)

lemma forgotten_frame:
  assumes "forgotten t x" "rm_up y ClientPipe = rm_up x ClientPipe" "rm_down y ClientPipe = rm_down x ClientPipe"
    and "rm_cworker y = rm_cworker x" "sv_new (rm_server y) = sv_new (rm_server x)"
    and "\<And>k. sh_tid (sv_shadows (rm_server y) k) = sh_tid (sv_shadows (rm_server x) k)"
    and "\<And>k. rm_spc x k = SDone \<Longrightarrow> rm_spc y k = SDone"
    and "\<And>e. worker_event (rm_worker y ClientPipe) = Some e \<Longrightarrow> sint (e_threadid e) \<noteq> t"
  shows "forgotten t y"
  using assms unfolding forgotten_def shadow_tid_def by auto

lemma OnRecv_client_lost:
  assumes l: "forgotten t x" and pc: "rm_worker x ClientPipe = WLock e" and go: "OnRecv_step ClientPipe e x = go y"
    and e: "request_kind (e_type e)"
  shows "forgotten t y" "rm_client y = rm_client x" "rm_cpc y = rm_cpc x"
proof -
  have t: "sint (e_threadid e) \<noteq> t" using l pc by (simp add: forgotten_def)
  have free: "sv_mutex (rm_server x) = None" "sv_map (rm_server x) ClientPipe = None"
    using go by (auto simp: OnRecv_step_def Let_def split: if_splits)
  obtain plan where plan: "Server_OnRecv ClientPipe e (rm_server x) = Some plan"
    using go free by (auto simp: OnRecv_step_def Let_def bind_eq_Some_conv)
  have k: "plan \<noteq> PStart" "plan \<noteq> PEnd"
    using plan e by (auto simp: Server_OnRecv_def Server_HandleEvent_def bind_eq_Some_conv kind_neq split: if_splits option.splits)
  have "forgotten t y \<and> rm_client y = rm_client x \<and> rm_cpc y = rm_cpc x"
  proof (cases plan)
    case PAnswer
    then obtain x1 where x1: "SendContinue ClientPipe (e_threadid e) x = Some x1" "y = set_worker ClientPipe WIdle x1"
      using go free plan by (auto simp: OnRecv_step_def Let_def bind_eq_Some_conv)
    show ?thesis using SendContinue_lost [OF x1(1) l t] by (simp add: x1(2) set_worker_def forgotten_def)
  next
    case (PCreate a)
    then show ?thesis using go free plan l t
      by (auto simp: OnRecv_step_def Let_def CreateShadowThread_def set_worker_def on_server_def forgotten_def shadow_tid_def less_Suc_eq
          new_ShadowThread_def)
  next
    case PForward
    then show ?thesis using go free plan l t by (auto simp: OnRecv_step_def Let_def set_worker_def forgotten_def)
  qed (use k in simp_all)
  then show "forgotten t y" "rm_client y = rm_client x" "rm_cpc y = rm_cpc x" by simp_all
qed

lemma shadow_step_lost:
  assumes l: "forgotten t x" and go: "shadow_step k x = go y" and k: "k < sv_new (rm_server x)"
  shows "forgotten t y" "rm_client y = rm_client x" "rm_cpc y = rm_cpc x"
proof -
  have t: "shadow_tid (sv_shadows (rm_server x) k) \<noteq> t" if "rm_spc x k \<noteq> SDone"
    using l k that by (auto simp: forgotten_def)
  have "forgotten t y \<and> rm_client y = rm_client x \<and> rm_cpc y = rm_cpc x"
  proof (cases "rm_spc x k")
    case (SContinue e)
    then obtain x1 where x1: "SendContinue (sv_home (rm_server x) k) (sh_tid (sv_shadows (rm_server x) k)) x = Some x1"
        "y = set_spc k (if e_type e = ThreadEnd then SEnding else SRecv) x1"
      using go by (auto simp: shadow_step_def Let_def bind_eq_Some_conv)
    have "rm_server x1 = rm_server x" using x1(1) by (auto simp: SendContinue_def push_down_def bind_eq_Some_conv)
    then show ?thesis
      using SendContinue_lost [OF x1(1) l] t SContinue by (simp add: x1(2) set_spc_def forgotten_def shadow_tid_def)
  next
    case SRecv
    then show ?thesis using go t
      by (auto simp: shadow_step_def Let_def bind_eq_Some_conv set_spc_def set_shadow_def on_server_def WaitRecv_tid
          intro!: forgotten_frame [OF l] split: if_splits) (use l in \<open>auto simp: forgotten_def\<close>)
  next
    case SWait
    obtain e sh1 where w: "WaitRecv_end (sv_event (rm_server x) k) (sv_shadows (rm_server x) k) = go (e, sh1)"
      using go by (auto simp: shadow_step_def SWait Let_def bind_eq_Some_conv not_Blocks split: call.splits)
    have "y = set_spc k (if e_type e = ThreadEndIntern then SEnding else SHandle e)
        (on_server (\<lambda>s. s\<lparr> sv_event := (sv_event s)(k := e) \<rparr>) (set_shadow k sh1 x))"
      using go by (simp add: shadow_step_def SWait w bind_eq_Some_conv Let_def)
    then show ?thesis
      using t SWait l by (auto simp: set_spc_def set_shadow_def on_server_def WaitRecv_tid(2) [OF w] forgotten_def shadow_tid_def)
  qed (use go l in \<open>auto simp: shadow_step_def Let_def bind_eq_Some_conv set_spc_def on_server_def forgotten_def split: if_splits\<close>)
  then show "forgotten t y" "rm_client y = rm_client x" "rm_cpc y = rm_cpc x" by simp_all
qed

lemma worker_client_lost:
  assumes inv: "remote_inv x" and l: "forgotten t x" and go: "worker_step ClientPipe x = go y"
  shows "forgotten t y \<and> rm_client y = rm_client x \<and> rm_cpc y = rm_cpc x"
proof -
  note w = remote_invD(5) [OF inv]
  show ?thesis
  proof (cases "rm_worker x ClientPipe")
    case WIdle
    then show ?thesis using go l
      by (cases "rm_up x ClientPipe") (auto simp: worker_step_def set_worker_def forgotten_def)
  next
    case (WLock e)
    have "OnRecv_step ClientPipe e x = go y" "request_kind (e_type e)"
      using go w WLock by (simp_all add: worker_step_def request_def)
    from OnRecv_client_lost [OF l WLock this] show ?thesis by (intro conjI)
  next
    case (WStart r e a)
    then have "\<not> a" using w by simp
    then show ?thesis using go l WStart
      by (auto simp: worker_step_def set_worker_def release_mutex_def on_server_def forgotten_def bind_eq_Some_conv Let_def not_Blocks
          split: call.splits)
  next
    case (WRoute e)
    then show ?thesis using go l
      by (auto simp: worker_step_def set_worker_def forgotten_def bind_eq_Some_conv Let_def split: if_splits option.splits)
  next
    case (WSignal r e)
    then obtain sh where sh: "SignalRecv e (sv_shadows (rm_server x) r) = go sh" "y = set_worker ClientPipe WIdle (set_shadow r sh x)"
      using go by (auto simp: worker_step_def bind_eq_Some_conv Let_def not_Blocks split: call.splits)
    then show ?thesis using l SignalRecv_tid [OF sh(1)]
      by (auto simp: set_worker_def set_shadow_def on_server_def forgotten_def shadow_tid_def)
  qed (use w in simp_all)
qed

lemma toggle_lost:
  assumes "push_down ClientPipe (event_Clear\<lparr> e_type := k, e_threadid := 0 \<rparr>) x = Some y" "forgotten t x" "2 \<le> t"
  shows "forgotten t y" "rm_client y = rm_client x" "rm_cpc y = rm_cpc x" "rm_server y = rm_server x" "rm_worker y = rm_worker x"
  using push_down_lost [OF assms(1,2)] assms(1,3) by (auto simp: push_down_def bind_eq_Some_conv)

lemma worker_control_lost:
  assumes inv: "remote_inv x" and l: "forgotten t x" and t: "2 \<le> t" and go: "worker_step ControlPipe x = go y"
  shows "forgotten t y \<and> rm_client y = rm_client x \<and> rm_cpc y = rm_cpc x"
proof -
  note c = remote_invD(6) [OF inv]
  show ?thesis
  proof (cases "rm_worker x ControlPipe")
    case WIdle
    then show ?thesis using go l
      by (cases "rm_up x ControlPipe") (auto simp: worker_step_def set_worker_def forgotten_def)
  next
    case (WLock e)
    let ?s = "rm_server x"
    have e: "e_type e = TestStart \<or> e_type e = TestEnd" "e_threadid e = 0" using c WLock by (auto simp: toggle_def)
    have free: "sv_mutex ?s = None" "sv_map ?s ControlPipe = None"
      using go WLock by (auto simp: worker_step_def OnRecv_step_def Let_def split: if_splits)
    show ?thesis
    proof (cases "e_type e = TestEnd \<and> sv_test_started ?s")
      case True
      then obtain x1 where x1: "push_down ClientPipe (event_Clear\<lparr> e_type := TestEnd, e_threadid := 0 \<rparr>) x = Some x1"
          "y = set_worker ControlPipe (WLockMap ClientPipe)
            (on_server (\<lambda>s. s\<lparr> sv_mutex := Some ControlPipe, sv_test_started := False \<rparr>) x1)"
        using go WLock free e
        by (auto simp: worker_step_def OnRecv_step_def Server_OnRecv_def Let_def bind_eq_Some_conv split: if_splits)
      then show ?thesis using toggle_lost [OF x1(1) l t] by (simp add: set_worker_def on_server_def forgotten_def)
    next
      case False
      then show ?thesis using go WLock free e l
        by (auto simp: worker_step_def OnRecv_step_def Server_OnRecv_def Let_def reply_control set_worker_def on_server_def forgotten_def
            bind_eq_Some_conv split: if_splits)
    qed
  next
    case WStartTest
    then show ?thesis using go l t
      by (auto simp: worker_step_def Let_def push_toggle reply_control set_worker_def on_server_def forgotten_def
          bind_eq_Some_conv not_Blocks split: call.splits)
  next
    case (WLockMap q)
    then show ?thesis using go l
      by (auto simp: worker_step_def Let_def set_worker_def on_server_def forgotten_def split: if_splits)
  next
    case (WBroadcast q rs)
    show ?thesis
    proof (cases rs)
      case Nil
      then show ?thesis using go l WBroadcast
        by (auto simp: worker_step_def Let_def set_worker_def on_server_def forgotten_def)
    next
      case (Cons r rs')
      then obtain sh where sh: "SignalRecv (intern_event (sv_shadows (rm_server x) r)) (sv_shadows (rm_server x) r) = go sh"
          "y = set_worker ControlPipe (WBroadcast q rs') (set_shadow r sh x)"
        using go WBroadcast by (auto simp: worker_step_def bind_eq_Some_conv Let_def not_Blocks split: call.splits)
      then show ?thesis using l SignalRecv_tid [OF sh(1)]
        by (auto simp: set_worker_def set_shadow_def on_server_def forgotten_def shadow_tid_def)
    qed
  next
    case (WDrain q)
    then show ?thesis using go l
      by (auto simp: worker_step_def drain_step_def Let_def reply_control set_worker_def on_server_def forgotten_def
          bind_eq_Some_conv split: if_splits)
  qed (use c in simp_all)
qed

lemma lost_step:
  assumes inv: "remote_inv x" and l: "lost p r x" and go: "remote_step a x = go y"
  shows "lost p r y"
proof -
  have f: "forgotten (int r + 2) x" using l by (simp add: lost_def)
  have keep: "lost p r y" if "forgotten (int r + 2) y \<and> rm_client y = rm_client x \<and> rm_cpc y = rm_cpc x"
    using l that by (simp add: lost_def)
  show ?thesis
  proof (cases a)
    case (Worker q)
    have "forgotten (int r + 2) y \<and> rm_client y = rm_client x \<and> rm_cpc y = rm_cpc x"
      using worker_client_lost [OF inv f, of y] worker_control_lost [OF inv f _, of y] go Worker by (cases q) auto
    then show ?thesis by (rule keep)
  next
    case (Shadow k)
    have "k < sv_new (rm_server x)"
    proof (rule ccontr)
      assume "\<not> k < sv_new (rm_server x)"
      then have "rm_spc x k = SDone" using remote_invD(8) [OF inv] by (simp add: shadows_ok_def)
      then show False using go Shadow by (simp add: shadow_step_def Let_def)
    qed
    then have "forgotten (int r + 2) y \<and> rm_client y = rm_client x \<and> rm_cpc y = rm_cpc x"
      using shadow_step_lost [OF f, of k y] go Shadow by (intro conjI) simp_all
    then show ?thesis by (rule keep)
  next
    case (Call p' c)
    then show ?thesis using go call_step_lost [OF inv l, of p' c y] by simp
  next
    case (Client p')
    then show ?thesis using go client_step_lost [OF inv l, of p' y] by simp
  next
    case ClientWorker
    then show ?thesis using go client_worker_step_lost [OF inv l, of y] by simp
  next
    case Main
    then show ?thesis using go control_main_lost(2) [OF l, of y] by simp
  next
    case (Control cmd)
    then show ?thesis using go control_main_lost(1) [OF l, of cmd y] by simp
  qed
qed

lemma lost_run_forever:
  "remote_run as x = Some y \<Longrightarrow> remote_reach x \<Longrightarrow> lost p r x \<Longrightarrow> lost p r y"
proof (induction as arbitrary: x)
  case (Cons a as)
  obtain z where z: "remote_step a x = go z" "remote_run as z = Some y" "remote_reach z"
    using Cons.prems(1,2) by (auto split: if_splits option.splits call.splits intro: remote_reach.step)
  then show ?case using Cons.IH [OF z(2,3)] lost_step [OF remote_reach_inv] Cons.prems(2,3) by blast
qed simp

lemma at_rest_forgotten: "at_rest x \<Longrightarrow> forgotten t x"
  by (simp add: at_rest_def forgotten_def)

text \<open>C14: A request of the program under test can be lost at the end of a test: there is a
  run after which the test has ended and started from the beginning, every pipe is empty, every
  worker is idle, every shadow thread of the server has ended, and a thread of the program still
  waits for the answer to a function entry for which the server has made no call. Whatever
  follows, further tests included, this thread waits for ever.\<close>

theorem request_lost:
  "\<exists>x. remote_reach x \<and> at_rest x \<and> rm_calls x = [(0, IStartTest), (0, IEndTest)] \<and>
     {y. \<exists>as. remote_run as x = Some y} \<subseteq> {y. rm_cpc y 0 = CWait 0 False}"
proof -
  obtain x where x: "remote_reach x" "at_rest x" "rm_calls x = [(0, IStartTest), (0, IEndTest)]" "rm_cpc x 0 = CWait 0 False"
      "sh_sem (cl_shadows (rm_client x) 0) = 0"
    using run_obtains [OF run_to_lost] by auto
  then have "lost 0 0 y" if "remote_run as x = Some y" for as y
    using lost_run_forever [OF that x(1), of 0 0] at_rest_forgotten by (simp add: lost_def)
  then show ?thesis using x(1-3) by (auto simp: lost_def)
qed

end
