(* ===== verification/Program_Threads.thy ===== *)
theory Program_Threads
  imports Thread_Groups
begin

text \<open>
  The threads of a program under test: Scenario::CreateThread, CreatePThread and JoinPThread of
  scenario.cpp, and interpos.cpp, which puts them behind pthread_create, pthread_join and pthread_exit.
  A call of the program takes the lock \<open>concurrit_pthread_lock\<close> of interpos.cpp, goes to the current handler,
  and gives the lock back when the handler returns or throws.  The threads interleave at these points.
\<close>

section \<open>State\<close>

datatype pthread_call = PthreadCreate nat ptr | PthreadJoin pthread | PthreadExit ptr | PthreadCancel pthread

datatype pthread_fn = Fn_create | Fn_join | Fn_exit | Fn_cancel

fun call_fn :: "pthread_call \<Rightarrow> pthread_fn" where
  "call_fn (PthreadCreate f a) = Fn_create"
| "call_fn (PthreadJoin p) = Fn_join"
| "call_fn (PthreadExit v) = Fn_exit"
| "call_fn (PthreadCancel p) = Fn_cancel"

text \<open>Where a thread of the program is: it waits for the transfer of Start, runs the program's function, has
  called an interposed function, waits in pthread_join for a coroutine, or is about to end with a value.\<close>

datatype thread_pc = PWait | PBody | PCall pthread_call | PJoin nat | PEnding ptr | PDead

datatype thread_event = ECreate nat nat ptr | EEnd nat ptr | EJoin nat nat ptr

text \<open>Coroutine objects are those of the group's store; \<open>pr_new\<close> is the next free one.  Entry functions are
  named by numbers.  The original pthread_create gives a new thread id each time: \<open>pr_next_pthread\<close>.
  \<open>pr_log\<close> records the creations, the ends and the results of joins.  \<open>originals\<close> is the class PthreadOriginals, with
  the addresses that it has looked up.\<close>

record originals =
  og_initialized :: bool
  og_fn :: "pthread_fn \<Rightarrow> ptr option"

record program =
  pr_originals :: originals
  pr_group :: group
  pr_entry :: "nat \<Rightarrow> nat \<times> ptr"
  pr_ret :: "nat \<Rightarrow> ptr"
  pr_new :: nat
  pr_next_pthread :: pthread
  pr_lock :: "nat option"
  pr_pc :: "nat \<Rightarrow> thread_pc"
  pr_count :: nat
  pr_log :: "thread_event list"

definition status :: "program \<Rightarrow> nat \<Rightarrow> StatusType" where
  "status s c = g_status (g_cos (pr_group s) c)"

definition upd_member :: "nat \<Rightarrow> (co_obj \<Rightarrow> co_obj) \<Rightarrow> program \<Rightarrow> program" where
  "upd_member c f s = s\<lparr> pr_group := upd_co c f (pr_group s) \<rparr>"

definition set_pc :: "nat \<Rightarrow> thread_pc \<Rightarrow> program \<Rightarrow> program" where
  "set_pc c p s = s\<lparr> pr_pc := (pr_pc s)(c := p) \<rparr>"

definition log :: "thread_event \<Rightarrow> program \<Rightarrow> program" where
  "log e s = s\<lparr> pr_log := pr_log s @ [e] \<rparr>"

section \<open>Creating and joining\<close>

definition alloc_coroutine :: "tid \<Rightarrow> program \<Rightarrow> nat \<times> program" where
  "alloc_coroutine t s = (pr_new s, upd_member (pr_new s)
     (\<lambda>_. \<lparr> g_tid = t, g_status = PASSIVE, g_group = None, g_pthread = PTH_INVALID_THREAD \<rparr>) (s\<lparr> pr_new := pr_new s + 1 \<rparr>))"

text \<open>Coroutine::Start as a whole: the handshake with the thread of the coroutine ends (Start_returns), and
  leaves it waiting for the transfer that Start has sent.\<close>

definition Coroutine_Start :: "nat \<Rightarrow> program \<Rightarrow> program option" where
  "Coroutine_Start c s = (let st = status s c; s1 = s\<lparr> pr_ret := (pr_ret s)(c := 0) \<rparr> in do {
     safe_assert (PASSIVE \<le> st \<and> st \<le> TERMINATED);
     s2 \<leftarrow> (if st = PASSIVE \<or> st = TERMINATED
        then Some (upd_member c (\<lambda>m. m\<lparr> g_pthread := pr_next_pthread s \<rparr>) (s1\<lparr> pr_next_pthread := pr_next_pthread s + 1 \<rparr>))
        else if st = WAITING \<or> st = ENDED then Some s1
        else None);
     Some (set_pc c PWait (upd_member c (\<lambda>m. m\<lparr> g_status := WAITING \<rparr>) s2)) })"

text \<open>The part that CreateThread and CreatePThread share, on the member that the group expects next.\<close>

definition create_in_group :: "tid \<Rightarrow> nat \<Rightarrow> ptr \<Rightarrow> program \<Rightarrow> (nat \<times> program) option" where
  "create_in_group t f a s = do {
     (m, g) \<leftarrow> GetNextCreatedMember (pr_group s);
     let s1 = s\<lparr> pr_group := g \<rparr>;
     (c, s2) \<leftarrow> (case m of
         None \<Rightarrow> do {
           let (c, s2) = alloc_coroutine t s1;
           g2 \<leftarrow> AddMember c (pr_group s2);
           Some (c, s2\<lparr> pr_group := g2 \<rparr>) }
       | Some c \<Rightarrow> do { safe_assert (status s1 c > PASSIVE); Some (c, s1) });
     let s3 = s2\<lparr> pr_entry := (pr_entry s2)(c := (f, a)) \<rparr>;
     safe_assert (g_tid (g_cos (pr_group s3) c) > MAIN_TID);
     s4 \<leftarrow> Coroutine_Start c s3;
     Some (c, log (ECreate c f a) s4) }"

definition CreateThread :: "tid \<Rightarrow> nat \<Rightarrow> ptr \<Rightarrow> program \<Rightarrow> (nat \<times> program) option" where
  "CreateThread t f a s = do { safe_check (t < 0 \<or> t > MAIN_TID); create_in_group t f a s }"

definition CreatePThread :: "nat \<Rightarrow> ptr \<Rightarrow> program \<Rightarrow> (nat \<times> program) option" where
  "CreatePThread f a s = create_in_group (-1) f a s"

text \<open>JoinPThread up to the wait of WaitForEnd, and after it.\<close>

definition JoinPThread_begin :: "nat option \<Rightarrow> program \<Rightarrow> nat option" where
  "JoinPThread_begin m s = do {
     c \<leftarrow> safe_notnull m;
     safe_assert (ENABLED \<le> status s c \<and> status s c \<le> ENDED);
     Some c }"

definition JoinPThread_end :: "nat \<Rightarrow> program \<Rightarrow> ptr option" where
  "JoinPThread_end c s = do {
     safe_assert (co_is_ended (status s c));
     Some (pr_ret s c) }"

section \<open>The handlers\<close>

text \<open>PthreadOriginals looks the four functions up with dlsym, in the libraries after this one and else
  everywhere.\<close>

datatype rtld = RTLD_NEXT | RTLD_DEFAULT

definition init_original :: "(rtld \<Rightarrow> pthread_fn \<Rightarrow> ptr option) \<Rightarrow> pthread_fn \<Rightarrow> originals \<Rightarrow> originals option" where
  "init_original dlsym f og = (let p = (case dlsym RTLD_NEXT f of None \<Rightarrow> dlsym RTLD_DEFAULT f | Some q \<Rightarrow> Some q) in do {
     safe_check (p \<noteq> None);
     Some (og\<lparr> og_fn := (og_fn og)(f := p) \<rparr>) })"

definition originals_initialize :: "(rtld \<Rightarrow> pthread_fn \<Rightarrow> ptr option) \<Rightarrow> originals \<Rightarrow> originals option" where
  "originals_initialize dlsym og = do {
     safe_assert (\<not> og_initialized og);
     og1 \<leftarrow> init_original dlsym Fn_create og;
     og2 \<leftarrow> init_original dlsym Fn_join og1;
     og3 \<leftarrow> init_original dlsym Fn_exit og2;
     og4 \<leftarrow> init_original dlsym Fn_cancel og3;
     Some (og4\<lparr> og_initialized := True \<rparr>) }"

definition original :: "pthread_fn \<Rightarrow> originals \<Rightarrow> ptr option" where
  "original f og = do { safe_assert (og_initialized og \<and> og_fn og f \<noteq> None); og_fn og f }"

text \<open>What a handler does with a call: the original function, a new thread, a wait for the end of a
  coroutine, or the exception that ends the thread.\<close>

datatype handler_result = Original ptr pthread_call | Created pthread | Joins nat | Exits ptr

definition PthreadHandler :: "pthread_call \<Rightarrow> program \<Rightarrow> (handler_result \<times> program) option" where
  "PthreadHandler call s = do { p \<leftarrow> original (call_fn call) (pr_originals s); Some (Original p call, s) }"

definition ConcurritPthreadHandler :: "bool \<Rightarrow> nat \<Rightarrow> pthread_call \<Rightarrow> program \<Rightarrow> (handler_result \<times> program) option" where
  "ConcurritPthreadHandler initialized self call s = (if \<not> initialized then PthreadHandler call s
     else case call of
       PthreadCreate f a \<Rightarrow> do {
         (c, s1) \<leftarrow> CreatePThread f a s;
         let s2 = s1\<lparr> pr_count := pr_count s1 + 1 \<rparr>;
         safe_assert (g_pthread (g_cos (pr_group s2) c) \<noteq> PTH_INVALID_THREAD);
         Some (Created (g_pthread (g_cos (pr_group s2) c)), s2) }
     | PthreadJoin p \<Rightarrow> do { c \<leftarrow> JoinPThread_begin (GetMember_pid (pr_group s) p) s; Some (Joins c, s) }
     | PthreadExit v \<Rightarrow> Some (Exits v, s\<lparr> pr_ret := (pr_ret s)(self := v) \<rparr>)
     | PthreadCancel p \<Rightarrow> None)"

section \<open>Steps\<close>

datatype program_action = Driver nat ptr | Transfer nat | Invoke nat pthread_call | Locked nat | Joined nat
  | Return nat ptr | End nat | NextExecution

text \<open>The interposed call of thread \<open>c\<close> once it has the lock.\<close>

definition locked_step :: "nat \<Rightarrow> pthread_call \<Rightarrow> program \<Rightarrow> program call option" where
  "locked_step c call s = (if pr_lock s \<noteq> None then Some Blocks
     else do {
       (r, s1) \<leftarrow> ConcurritPthreadHandler True c call s;
       Some (call.Returns (case r of
           Original p x \<Rightarrow> set_pc c PBody s1
         | Created p \<Rightarrow> set_pc c PBody s1
         | Joins d \<Rightarrow> set_pc c (PJoin d) (s1\<lparr> pr_lock := Some c \<rparr>)
         | Exits v \<Rightarrow> set_pc c (PEnding v) s1)) })"

text \<open>SetEnded and the end of Run; Restart of the group for the next execution, when every thread has ended.\<close>

fun program_step :: "program_action \<Rightarrow> program \<Rightarrow> program call option" where
  "program_step (Driver f a) s = (if g_next_idx (pr_group s) \<noteq> 0 then Some Blocks
     else do { (c, s1) \<leftarrow> CreateThread (-1) f a s; Some (call.Returns s1) })"
| "program_step (Transfer c) s = (if pr_pc s c \<noteq> PWait then Some Blocks
     else Some (call.Returns (set_pc c PBody (upd_member c (\<lambda>m. m\<lparr> g_status := ENABLED \<rparr>) s))))"
| "program_step (Invoke c x) s = (if pr_pc s c \<noteq> PBody then Some Blocks else Some (call.Returns (set_pc c (PCall x) s)))"
| "program_step (Locked c) s = (case pr_pc s c of PCall x \<Rightarrow> locked_step c x s | _ \<Rightarrow> Some Blocks)"
| "program_step (Joined c) s = (case pr_pc s c of
     PJoin d \<Rightarrow> (if status s d \<noteq> ENDED then Some Blocks
       else do {
         v \<leftarrow> JoinPThread_end d s;
         Some (call.Returns (set_pc c PBody (log (EJoin c d v) (s\<lparr> pr_lock := None \<rparr>)))) })
   | _ \<Rightarrow> Some Blocks)"
| "program_step (Return c v) s = (if pr_pc s c \<noteq> PBody then Some Blocks
     else Some (call.Returns (set_pc c (PEnding v) (s\<lparr> pr_ret := (pr_ret s)(c := v) \<rparr>))))"
| "program_step (End c) s = (case pr_pc s c of
     PEnding v \<Rightarrow> Some (call.Returns (set_pc c PDead (log (EEnd c v) (upd_member c (\<lambda>m. m\<lparr> g_status := ENDED \<rparr>) s))))
   | _ \<Rightarrow> Some Blocks)"
| "program_step NextExecution s = (if \<not> IsAllEnded (pr_group s) then Some Blocks
     else do { g \<leftarrow> Group_Restart (pr_group s); Some (call.Returns (s\<lparr> pr_group := g \<rparr>)) })"

text \<open>Before the first thread; the object 0 is main.  The addresses of the original functions are not NULL, which is
  all that matters of them.\<close>

definition no_threads :: program where
  "no_threads = \<lparr> pr_originals = \<lparr> og_initialized = True, og_fn = (\<lambda>_. Some 1) \<rparr>, pr_group = CoroutineGroup 1 (\<lambda>_. \<lparr> g_tid = MAIN_TID, g_status = ENABLED, g_group = None,
       g_pthread = PTH_INVALID_THREAD \<rparr>) (Some 0),
     pr_entry = (\<lambda>_. (0, 0)), pr_ret = (\<lambda>_. 0), pr_new = 1, pr_next_pthread = 1, pr_lock = None,
     pr_pc = (\<lambda>_. PDead), pr_count = 0, pr_log = [] \<rparr>"

inductive program_reach :: "program \<Rightarrow> bool" where
  start: "program_reach no_threads"
| step: "program_reach s \<Longrightarrow> program_step a s = Some (call.Returns s') \<Longrightarrow> program_reach s'"

section \<open>The invariant\<close>

text \<open>The members are the objects 1 to \<open>n\<close>, which have their number as thread id and as pthread.\<close>

definition group_shape :: "nat \<Rightarrow> group \<Rightarrow> bool" where
  "group_shape n g \<longleftrightarrow> g_this g = 1 \<and> g_main g = Some 0 \<and> g_members g = map (\<lambda>k. (int k, k)) [1..<Suc n] \<and>
     g_tidseq g = map int [1..<Suc n] \<and> g_next_tid g = int n + 1 \<and> g_next_idx g \<le> n \<and> g_tid (g_cos g 0) = 0 \<and>
     (\<forall>k. 1 \<le> k \<longrightarrow> k \<le> n \<longrightarrow> g_tid (g_cos g k) = int k \<and> g_group (g_cos g k) = Some 1 \<and> g_pthread (g_cos g k) = k)"

fun agrees :: "thread_pc \<Rightarrow> StatusType \<Rightarrow> bool" where
  "agrees PWait st = (st = WAITING)"
| "agrees PDead st = (st = ENDED)"
| "agrees p st = (st = ENABLED)"

text \<open>The value with which a thread has ended since it was last created, in a log read backwards; every
  join in the log has this value.\<close>

fun end_value :: "nat \<Rightarrow> thread_event list \<Rightarrow> ptr option" where
  "end_value k [] = None"
| "end_value k (ECreate c f a # es) = (if c = k then None else end_value k es)"
| "end_value k (EEnd c v # es) = (if c = k then Some v else end_value k es)"
| "end_value k (EJoin c d v # es) = end_value k es"

fun joins_ok :: "thread_event list \<Rightarrow> bool" where
  "joins_ok [] = True"
| "joins_ok (EJoin c d v # es) = (end_value d es = Some v \<and> joins_ok es)"
| "joins_ok (e # es) = joins_ok es"

definition threads_ok :: "nat \<Rightarrow> nat \<Rightarrow> (nat \<Rightarrow> StatusType) \<Rightarrow> (nat \<Rightarrow> thread_pc) \<Rightarrow> (nat \<Rightarrow> ptr) \<Rightarrow> thread_event list \<Rightarrow> bool" where
  "threads_ok n i st pcs ret es \<longleftrightarrow> (\<forall>k. k = 0 \<or> i < k \<longrightarrow> pcs k = PDead) \<and>
     (\<forall>k. 1 \<le> k \<longrightarrow> k \<le> n \<longrightarrow> agrees (pcs k) (st k) \<and> (st k = ENDED \<longrightarrow> end_value k (rev es) = Some (ret k))) \<and>
     (\<forall>k v. pcs k = PEnding v \<longrightarrow> ret k = v) \<and> (\<forall>k d. pcs k = PJoin d \<longrightarrow> 1 \<le> d \<and> d \<le> n) \<and> joins_ok (rev es)"

definition lock_ok :: "nat option \<Rightarrow> (nat \<Rightarrow> thread_pc) \<Rightarrow> bool" where
  "lock_ok l pcs \<longleftrightarrow> (\<forall>c. l = Some c \<longleftrightarrow> (\<exists>d. pcs c = PJoin d))"

definition program_inv :: "program \<Rightarrow> bool" where
  "program_inv s \<longleftrightarrow> (\<exists>n. pr_new s = Suc n \<and> pr_next_pthread s = Suc n \<and> group_shape n (pr_group s) \<and>
     threads_ok n (g_next_idx (pr_group s)) (status s) (pr_pc s) (pr_ret s) (pr_log s) \<and> lock_ok (pr_lock s) (pr_pc s))"

text \<open>After its initialisation PthreadOriginals has every function, when dlsym finds each in one of the two ways.\<close>

lemma originals_initialize_ok:
  assumes "\<not> og_initialized og" "\<And>f. dlsym RTLD_NEXT f \<noteq> None \<or> dlsym RTLD_DEFAULT f \<noteq> None"
  shows "\<exists>og'. originals_initialize dlsym og = Some og' \<and> (\<forall>f. original f og' = (case dlsym RTLD_NEXT f of None \<Rightarrow> dlsym RTLD_DEFAULT f | Some q \<Rightarrow> Some q))"
proof -
  let ?p = "\<lambda>f. case dlsym RTLD_NEXT f of None \<Rightarrow> dlsym RTLD_DEFAULT f | Some q \<Rightarrow> Some q"
  have "\<exists>q. ?p f = Some q" for f using assms(2) [of f] by (cases "dlsym RTLD_NEXT f") simp_all
  then obtain q where q: "?p f = Some (q f)" for f by metis
  have init: "init_original dlsym f g = Some (g\<lparr> og_fn := (og_fn g)(f := Some (q f)) \<rparr>)" for f g
    using q [of f] by (simp add: init_original_def Let_def)
  have "original f (og\<lparr> og_fn := (og_fn og)(Fn_create := Some (q Fn_create), Fn_join := Some (q Fn_join), Fn_exit := Some (q Fn_exit),
      Fn_cancel := Some (q Fn_cancel)), og_initialized := True \<rparr>) = Some (q f)" for f
    by (cases f) (simp_all add: original_def safe_assert_bind)
  then show ?thesis using assms(1) by (simp add: originals_initialize_def init safe_assert_bind q)
qed

lemma shape_lookup:
  assumes "group_shape n g"
  shows "map_of (g_members g) t = (if 1 \<le> t \<and> t \<le> int n then Some (nat t) else None)"
proof -
  have d: "distinct (map fst (g_members g))" using assms by (simp add: group_shape_def distinct_map inj_on_def)
  show ?thesis
  proof (cases "1 \<le> t \<and> t \<le> int n")
    case True
    then have "(t, nat t) \<in> set (g_members g)" using assms by (auto simp: group_shape_def image_iff intro!: bexI [of _ "nat t"])
    then show ?thesis using True d by simp
  next
    case False
    then have "t \<notin> fst ` set (g_members g)" using assms by (auto simp: group_shape_def)
    then show ?thesis using False by (auto simp: map_of_eq_None_iff)
  qed
qed

lemma shape_GetMember:
  "group_shape n g \<Longrightarrow> 1 \<le> k \<Longrightarrow> k \<le> n \<Longrightarrow> GetMember g (int k) = Some (Some k)"
  by (simp add: GetMember_def MAIN_TID_def shape_lookup) (simp add: group_shape_def)

lemma shape_next:
  assumes "group_shape n g" "g_next_idx g < n" "g_status (g_cos g (Suc (g_next_idx g))) > PASSIVE"
  shows "GetNextCreatedMember g = Some (Some (Suc (g_next_idx g)), g\<lparr> g_next_idx := Suc (g_next_idx g) \<rparr>)"
proof -
  let ?i = "g_next_idx g"
  have len: "length (g_tidseq g) = n" "g_tidseq g ! ?i = int (Suc ?i)"
    using assms(1,2) by (simp_all add: group_shape_def del: upt_Suc)
  have m: "GetMember g (int (Suc ?i)) = Some (Some (Suc ?i))" using shape_GetMember [OF assms(1), of "Suc ?i"] assms(2) by (simp del: of_nat_Suc)
  have t: "g_tid (g_cos g (Suc ?i)) = int (Suc ?i)" using assms(1,2) by (simp add: group_shape_def)
  have "GetNthCreatedMember ?i (-1) g = Some (Some (Suc ?i))"
    using assms(2,3) len m t by (simp add: GetNthCreatedMember_def Let_def del: of_nat_Suc)
  then show ?thesis
    using assms(2) len t by (simp add: GetNextCreatedMember_def not_main_def IsMain_def MAIN_TID_def)
qed

lemma shape_next_none:
  assumes "group_shape n g" "g_next_idx g = n"
  shows "GetNextCreatedMember g = Some (None, g)"
proof -
  have "length (g_tidseq g) = n" using assms(1) by (simp add: group_shape_def del: upt_Suc)
  then show ?thesis using assms(2) by (simp add: GetNextCreatedMember_def)
qed

lemma shape_add:
  assumes "group_shape n g" "g_next_idx g = n" "g_tid (g_cos g (Suc n)) = -1"
  shows "\<exists>g1. AddMember (Suc n) g = Some g1 \<and> g_next_idx g1 = Suc n \<and>
    group_shape (Suc n) (g1\<lparr> g_cos := (g_cos g1)(Suc n := (g_cos g1 (Suc n))\<lparr> g_pthread := Suc n \<rparr>) \<rparr>) \<and>
    g_cos g1 = (g_cos g)(Suc n := (g_cos g (Suc n))\<lparr> g_tid := int (Suc n), g_group := Some 1 \<rparr>)"
proof -
  have m: "GetMember g (-1) = Some None" using shape_lookup [OF assms(1), of "-1"] by (simp add: GetMember_def MAIN_TID_def)
  have set: "map_set (int n + 1) (Suc n) (g_members g) = g_members g @ [(int n + 1, Suc n)]"
    by (rule map_set_last) (use assms(1) in \<open>auto simp: group_shape_def\<close>)
  have len: "length (g_tidseq g) = n" using assms(1) by (simp add: group_shape_def del: upt_Suc)
  show ?thesis
    using assms m set len
    by (auto simp: AddMember_def not_main_def IsMain_def MAIN_TID_def HasMember_def upd_co_def group_shape_def Let_def le_Suc_eq)
qed

lemma find_eq: "find (\<lambda>c. c = p) xs = (if p \<in> set xs then Some p else None)"
  by (induction xs) auto

lemma shape_pid:
  assumes "group_shape n g"
  shows "GetMember_pid g p = (if 1 \<le> p \<and> p \<le> n then Some p else None)"
proof -
  have m: "map snd (g_members g) = [1..<Suc n]" using assms by (simp add: group_shape_def comp_def)
  have pid: "g_pthread (g_cos g k) = k" if "k \<in> set [1..<Suc n]" for k using assms that by (auto simp: group_shape_def)
  have "find (\<lambda>c. g_pthread (g_cos g c) = p) [1..<Suc n] = find (\<lambda>c. c = p) [1..<Suc n]"
    by (rule find_cong) (use pid in auto)
  also have "\<dots> = (if p \<in> set [1..<Suc n] then Some p else None)"
    by (rule find_eq)
  finally show ?thesis using m by (auto simp: GetMember_pid_def)
qed

lemma program_invE:
  assumes "program_inv s"
  obtains n where "pr_new s = Suc n" "pr_next_pthread s = Suc n" "group_shape n (pr_group s)"
    "threads_ok n (g_next_idx (pr_group s)) (status s) (pr_pc s) (pr_ret s) (pr_log s)" "lock_ok (pr_lock s) (pr_pc s)"
    "g_next_idx (pr_group s) \<le> n"
  using assms unfolding program_inv_def group_shape_def by blast

lemma threads_okD:
  assumes "threads_ok n i st pcs ret es"
  shows "1 \<le> k \<Longrightarrow> k \<le> n \<Longrightarrow> agrees (pcs k) (st k)"
    and "1 \<le> k \<Longrightarrow> k \<le> n \<Longrightarrow> st k = ENDED \<Longrightarrow> end_value k (rev es) = Some (ret k)"
    and "pcs k = PEnding v \<Longrightarrow> ret k = v" "pcs k = PJoin d \<Longrightarrow> 1 \<le> d \<and> d \<le> n"
  using assms unfolding threads_ok_def by auto

lemma threads_ok_alive: "threads_ok n i st pcs ret es \<Longrightarrow> pcs k \<noteq> PDead \<Longrightarrow> 1 \<le> k \<and> k \<le> i"
  unfolding threads_ok_def by (metis One_nat_def Suc_leI gr0I not_le)

lemma threads_ok_create:
  assumes "threads_ok n i st pcs ret es" "i \<le> n" "n' = n \<or> i = n \<and> n' = Suc n" "i < n'"
  shows "threads_ok n' (Suc i) (st(Suc i := WAITING)) (pcs(Suc i := PWait)) (ret(Suc i := 0)) (es @ [ECreate (Suc i) f a])"
  using assms by (auto simp: threads_ok_def le_Suc_eq)

lemma lock_ok_pc: "lock_ok l pcs \<Longrightarrow> (\<And>d. pcs c \<noteq> PJoin d) \<Longrightarrow> (\<And>d. p \<noteq> PJoin d) \<Longrightarrow> lock_ok l (pcs(c := p))"
  by (auto simp: lock_ok_def)

text \<open>What a creation does: the next member in the order of creation, new or from the execution before.\<close>

lemma create_ok:
  assumes "program_inv s"
  defines "c \<equiv> Suc (g_next_idx (pr_group s))"
  shows "\<exists>s'. create_in_group (-1) f a s = Some (c, s') \<and> program_inv s' \<and> pr_lock s' = pr_lock s \<and>
    pr_pc s' = (pr_pc s)(c := PWait) \<and> g_next_idx (pr_group s') = c \<and> pr_entry s' = (pr_entry s)(c := (f, a)) \<and>
    g_pthread (g_cos (pr_group s') c) = c \<and> pr_log s' = pr_log s @ [ECreate c f a] \<and> status s' c = WAITING"
proof -
  obtain n where n: "pr_new s = Suc n" "pr_next_pthread s = Suc n" "group_shape n (pr_group s)"
    "threads_ok n (g_next_idx (pr_group s)) (status s) (pr_pc s) (pr_ret s) (pr_log s)" "lock_ok (pr_lock s) (pr_pc s)"
    "g_next_idx (pr_group s) \<le> n" using assms(1) by (rule program_invE)
  let ?g = "pr_group s" and ?i = "g_next_idx (pr_group s)"
  have dead: "pr_pc s c = PDead" using n(4) by (simp add: threads_ok_def c_def)
  have lock: "lock_ok (pr_lock s) ((pr_pc s)(c := PWait))" by (rule lock_ok_pc [OF n(5)]) (use dead in simp_all)
  show ?thesis
  proof (cases "?i < n")
    case True
    have "agrees (pr_pc s c) (status s c)" by (rule threads_okD(1) [OF n(4)]) (use True in \<open>simp_all add: c_def\<close>)
    then have st: "status s c = ENDED" using dead by simp
    have nxt: "GetNextCreatedMember ?g = Some (Some c, ?g\<lparr> g_next_idx := c \<rparr>)"
      using shape_next [OF n(3) True] st by (simp add: status_def c_def status_order)
    have c: "1 \<le> c" "c \<le> n" using True by (simp_all add: c_def)
    have tid: "g_tid (g_cos ?g c) = int c" "g_pthread (g_cos ?g c) = c"
      using n(3) c by (simp_all add: group_shape_def)
    let ?s = "s\<lparr> pr_group := (?g\<lparr> g_next_idx := c \<rparr>)\<lparr> g_cos := (g_cos ?g)(c := (g_cos ?g c)\<lparr> g_status := WAITING \<rparr>) \<rparr>,
      pr_entry := (pr_entry s)(c := (f, a)), pr_ret := (pr_ret s)(c := 0), pr_pc := (pr_pc s)(c := PWait),
      pr_log := pr_log s @ [ECreate c f a] \<rparr>"
    have create: "create_in_group (-1) f a s = Some (c, ?s)"
      using nxt st tid c by (simp add: create_in_group_def Coroutine_Start_def status_def status_order MAIN_TID_def upd_member_def
          upd_co_def set_pc_def log_def Let_def)
    have "group_shape n (pr_group ?s)" using n(3) c by (auto simp: group_shape_def)
    moreover have "status ?s = (status s)(c := WAITING)" by (auto simp: status_def fun_eq_iff)
    moreover have "threads_ok n c ((status s)(c := WAITING)) ((pr_pc s)(c := PWait)) ((pr_ret s)(c := 0)) (pr_log s @ [ECreate c f a])"
      unfolding c_def by (rule threads_ok_create [OF n(4)]) (use True in simp_all)
    ultimately have "program_inv ?s" using n(1,2) lock by (auto simp: program_inv_def)
    then show ?thesis using create tid by (auto simp: status_def)
  next
    case False
    then have i: "?i = n" "c = Suc n" using n(6) by (simp_all add: c_def)
    let ?o = "\<lparr> g_tid = -1, g_status = PASSIVE, g_group = None, g_pthread = PTH_INVALID_THREAD \<rparr>"
    let ?g0 = "?g\<lparr> g_cos := (g_cos ?g)(c := ?o) \<rparr>"
    have "group_shape n ?g0" using n(3) i(2) by (auto simp: group_shape_def)
    from shape_add [OF this] obtain g1 where g1: "AddMember c ?g0 = Some g1" "g_next_idx g1 = c"
      "group_shape c (g1\<lparr> g_cos := (g_cos g1)(c := (g_cos g1 c)\<lparr> g_pthread := c \<rparr>) \<rparr>)"
      "g_cos g1 = (g_cos ?g0)(c := (g_cos ?g0 c)\<lparr> g_tid := int c, g_group := Some 1 \<rparr>)"
      using i by (auto simp del: of_nat_Suc)
    let ?s = "s\<lparr> pr_new := Suc c, pr_next_pthread := Suc c,
      pr_group := g1\<lparr> g_cos := (g_cos g1)(c := (g_cos g1 c)\<lparr> g_pthread := c, g_status := WAITING \<rparr>) \<rparr>,
      pr_entry := (pr_entry s)(c := (f, a)), pr_ret := (pr_ret s)(c := 0), pr_pc := (pr_pc s)(c := PWait),
      pr_log := pr_log s @ [ECreate c f a] \<rparr>"
    have create: "create_in_group (-1) f a s = Some (c, ?s)"
      using shape_next_none [OF n(3) i(1)] n(1,2) g1(1,4) i
      by (simp add: create_in_group_def alloc_coroutine_def Coroutine_Start_def status_def status_order MAIN_TID_def upd_member_def
          upd_co_def set_pc_def log_def Let_def)
    have co: "g_tid (g_cos g1 c) = int c" "g_group (g_cos g1 c) = Some 1" using g1(4) by simp_all
    have "group_shape c (pr_group ?s)" using g1(3) co by (auto simp: group_shape_def)
    moreover have "status ?s = (status s)(c := WAITING)" using g1(4) by (auto simp: status_def fun_eq_iff)
    moreover have "threads_ok c c ((status s)(c := WAITING)) ((pr_pc s)(c := PWait)) ((pr_ret s)(c := 0)) (pr_log s @ [ECreate c f a])"
      using threads_ok_create [OF n(4), of c] i by (simp add: c_def)
    ultimately have "program_inv ?s" using g1(2) lock by (auto simp: program_inv_def)
    then show ?thesis using create g1(2) by (auto simp: status_def)
  qed
qed

text \<open>A thread of the current execution moves on; it ends; it gets the result of a join.\<close>

lemma threads_ok_move:
  "threads_ok n i st pcs ret es \<Longrightarrow> pcs c \<noteq> PDead \<Longrightarrow> agrees p x \<Longrightarrow> x \<noteq> ENDED \<Longrightarrow> (\<And>v. p = PEnding v \<Longrightarrow> r = v)
    \<Longrightarrow> (\<And>d. p = PJoin d \<Longrightarrow> 1 \<le> d \<and> d \<le> n) \<Longrightarrow> threads_ok n i (st(c := x)) (pcs(c := p)) (ret(c := r)) es"
  by (frule (1) threads_ok_alive) (auto simp: threads_ok_def)

lemma threads_ok_end:
  "threads_ok n i st pcs ret es \<Longrightarrow> pcs c = PEnding v
    \<Longrightarrow> threads_ok n i (st(c := ENDED)) (pcs(c := PDead)) ret (es @ [EEnd c v])"
  by (auto simp: threads_ok_def)

lemma threads_ok_join:
  "threads_ok n i st pcs ret es \<Longrightarrow> pcs c = PJoin d \<Longrightarrow> st d = ENDED \<Longrightarrow> st c = ENABLED
    \<Longrightarrow> threads_ok n i st (pcs(c := PBody)) ret (es @ [EJoin c d (ret d)])"
  by (frule threads_ok_alive [of _ _ _ _ _ _ c]) (auto simp: threads_ok_def)

lemma lock_ok_release: "lock_ok l pcs \<Longrightarrow> pcs c = PJoin d \<Longrightarrow> (\<And>e. p \<noteq> PJoin e) \<Longrightarrow> lock_ok None (pcs(c := p))"
  by (auto simp: lock_ok_def) (metis option.inject)

lemma lock_ok_acquire: "lock_ok None pcs \<Longrightarrow> lock_ok (Some c) (pcs(c := PJoin d))"
  by (auto simp: lock_ok_def)

lemma shape_status: "group_shape n g \<Longrightarrow> group_shape n (upd_co c (\<lambda>m. m\<lparr> g_status := x \<rparr>) g)"
  by (auto simp: group_shape_def upd_co_def)

text \<open>The invariant for a state that differs in one thread.\<close>

lemma program_inv_move:
  assumes "program_inv s" "pr_pc s c \<noteq> PDead" "agrees p x" "x \<noteq> ENDED" "\<And>v. p = PEnding v \<Longrightarrow> r = v"
    "\<And>d. p = PJoin d \<Longrightarrow> 1 \<le> d \<and> d < pr_new s" "lock_ok l ((pr_pc s)(c := p))"
  shows "program_inv (set_pc c p (upd_member c (\<lambda>m. m\<lparr> g_status := x \<rparr>) (s\<lparr> pr_ret := (pr_ret s)(c := r), pr_lock := l \<rparr>)))"
proof -
  obtain n where n: "pr_new s = Suc n" "pr_next_pthread s = Suc n" "group_shape n (pr_group s)"
    "threads_ok n (g_next_idx (pr_group s)) (status s) (pr_pc s) (pr_ret s) (pr_log s)" "lock_ok (pr_lock s) (pr_pc s)"
    "g_next_idx (pr_group s) \<le> n" using assms(1) by (rule program_invE)
  have "status (set_pc c p (upd_member c (\<lambda>m. m\<lparr> g_status := x \<rparr>) (s\<lparr> pr_ret := (pr_ret s)(c := r), pr_lock := l \<rparr>)))
      = (status s)(c := x)"
    by (auto simp: status_def set_pc_def upd_member_def upd_co_def fun_eq_iff)
  moreover have "threads_ok n (g_next_idx (pr_group s)) ((status s)(c := x)) ((pr_pc s)(c := p)) ((pr_ret s)(c := r)) (pr_log s)"
    by (rule threads_ok_move [OF n(4) assms(2-5)]) (use assms(6) n(1) in auto)
  ultimately show ?thesis
    using n(1,2) shape_status [OF n(3)] assms(7) by (auto simp: program_inv_def set_pc_def upd_member_def upd_co_def)
qed

lemma program_inv_status:
  assumes "program_inv s" "pr_pc s c \<noteq> PDead"
  shows "agrees (pr_pc s c) (status s c)" "1 \<le> c" "c < pr_new s"
proof -
  obtain n where n: "pr_new s = Suc n" "threads_ok n (g_next_idx (pr_group s)) (status s) (pr_pc s) (pr_ret s) (pr_log s)"
    "g_next_idx (pr_group s) \<le> n" using assms(1) by (rule program_invE)
  have c: "1 \<le> c \<and> c \<le> g_next_idx (pr_group s)" by (rule threads_ok_alive [OF n(2) assms(2)])
  then show "agrees (pr_pc s c) (status s c)" "1 \<le> c" "c < pr_new s"
    using threads_okD(1) [OF n(2), of c] n(1,3) by simp_all
qed

lemma upd_member_same: "status s c = x \<Longrightarrow> upd_member c (\<lambda>m. m\<lparr> g_status := x \<rparr>) s = s"
proof -
  assume "status s c = x"
  then have "(g_cos (pr_group s) c)\<lparr> g_status := x \<rparr> = g_cos (pr_group s) c" by (auto simp: status_def)
  then have "upd_co c (\<lambda>m. m\<lparr> g_status := x \<rparr>) (pr_group s) = pr_group s" by (simp add: upd_co_def)
  then show ?thesis by (simp add: upd_member_def)
qed

text \<open>Each step keeps the invariant.\<close>

lemma step_Transfer:
  assumes "program_inv s" "pr_pc s c = PWait"
  shows "program_inv (set_pc c PBody (upd_member c (\<lambda>m. m\<lparr> g_status := ENABLED \<rparr>) s))"
proof -
  have "lock_ok (pr_lock s) ((pr_pc s)(c := PBody))"
    using assms by (auto elim!: program_invE intro: lock_ok_pc)
  then show ?thesis
    using program_inv_move [OF assms(1), of c PBody ENABLED "pr_ret s c" "pr_lock s"] assms(2) by simp
qed

text \<open>A thread that is enabled goes on, with the lock or without it, with a new result or the old one.\<close>

lemma step_enabled:
  assumes "program_inv s" "agrees (pr_pc s c) ENABLED" "agrees p ENABLED" "\<And>v. p = PEnding v \<Longrightarrow> r = v"
    "\<And>d. p = PJoin d \<Longrightarrow> 1 \<le> d \<and> d < pr_new s" "lock_ok l ((pr_pc s)(c := p))"
  shows "program_inv (set_pc c p (s\<lparr> pr_ret := (pr_ret s)(c := r), pr_lock := l \<rparr>))"
proof -
  have pc: "pr_pc s c \<noteq> PDead" using assms(2) by auto
  have "status s c = ENABLED" using program_inv_status(1) [OF assms(1) pc] assms(2) by (cases "pr_pc s c") auto
  then have "set_pc c p (upd_member c (\<lambda>m. m\<lparr> g_status := ENABLED \<rparr>) (s\<lparr> pr_ret := (pr_ret s)(c := r), pr_lock := l \<rparr>))
      = set_pc c p (s\<lparr> pr_ret := (pr_ret s)(c := r), pr_lock := l \<rparr>)"
    by (subst upd_member_same) (simp_all add: status_def)
  then show ?thesis
    using program_inv_move [OF assms(1) pc assms(3) _ assms(4,5,6)] by simp
qed

lemma step_plain:
  assumes "program_inv s" "agrees (pr_pc s c) ENABLED" "\<And>d. pr_pc s c \<noteq> PJoin d" "p = PBody \<or> p = PCall x"
  shows "program_inv (set_pc c p s)"
proof -
  have "lock_ok (pr_lock s) ((pr_pc s)(c := p))"
    using assms by (auto elim!: program_invE intro: lock_ok_pc)
  then show ?thesis
    using step_enabled [OF assms(1,2), of p "pr_ret s c" "pr_lock s"] assms(4) by auto
qed

lemma step_exits:
  assumes "program_inv s" "pr_pc s c = PBody \<or> pr_pc s c = PCall x"
  shows "program_inv (set_pc c (PEnding v) (s\<lparr> pr_ret := (pr_ret s)(c := v) \<rparr>))"
proof -
  have "lock_ok (pr_lock s) ((pr_pc s)(c := PEnding v))"
    using assms by (auto elim!: program_invE intro: lock_ok_pc)
  then show ?thesis
    using step_enabled [OF assms(1), of c "PEnding v" v "pr_lock s"] assms(2) by auto
qed

lemma step_joins:
  assumes "program_inv s" "pr_pc s c = PCall x" "pr_lock s = None" "1 \<le> d" "d < pr_new s"
  shows "program_inv (set_pc c (PJoin d) (s\<lparr> pr_lock := Some c \<rparr>))"
proof -
  have "lock_ok (Some c) ((pr_pc s)(c := PJoin d))"
    using assms(1,3) by (auto elim!: program_invE intro: lock_ok_acquire)
  then show ?thesis
    using step_enabled [OF assms(1), of c "PJoin d" "pr_ret s c" "Some c"] assms(2,4,5) by auto
qed

lemma step_End:
  assumes "program_inv s" "pr_pc s c = PEnding v"
  shows "program_inv (set_pc c PDead (log (EEnd c v) (upd_member c (\<lambda>m. m\<lparr> g_status := ENDED \<rparr>) s)))"
    (is "program_inv ?s")
proof -
  obtain n where n: "pr_new s = Suc n" "pr_next_pthread s = Suc n" "group_shape n (pr_group s)"
    "threads_ok n (g_next_idx (pr_group s)) (status s) (pr_pc s) (pr_ret s) (pr_log s)" "lock_ok (pr_lock s) (pr_pc s)"
    using assms(1) by (rule program_invE)
  have "status ?s = (status s)(c := ENDED)" by (auto simp: status_def set_pc_def log_def upd_member_def upd_co_def)
  moreover have "lock_ok (pr_lock s) ((pr_pc s)(c := PDead))" by (rule lock_ok_pc [OF n(5)]) (use assms(2) in simp_all)
  ultimately show ?thesis
    using n(1,2) shape_status [OF n(3)] threads_ok_end [OF n(4) assms(2)]
    by (auto simp: program_inv_def set_pc_def log_def upd_member_def upd_co_def)
qed

lemma step_Joined:
  assumes "program_inv s" "pr_pc s c = PJoin d" "status s d = ENDED"
  shows "program_inv (set_pc c PBody (log (EJoin c d (pr_ret s d)) (s\<lparr> pr_lock := None \<rparr>)))" (is "program_inv ?s")
proof -
  obtain n where n: "pr_new s = Suc n" "pr_next_pthread s = Suc n" "group_shape n (pr_group s)"
    "threads_ok n (g_next_idx (pr_group s)) (status s) (pr_pc s) (pr_ret s) (pr_log s)" "lock_ok (pr_lock s) (pr_pc s)"
    using assms(1) by (rule program_invE)
  have "status ?s = status s" by (auto simp: status_def set_pc_def log_def)
  moreover have "status s c = ENABLED" using program_inv_status(1) [OF assms(1), of c] assms(2) by simp
  moreover have "lock_ok None ((pr_pc s)(c := PBody))" by (rule lock_ok_release [OF n(5) assms(2)]) simp
  ultimately show ?thesis
    using n(1,2,3) threads_ok_join [OF n(4) assms(2,3)] by (auto simp: program_inv_def set_pc_def log_def)
qed

lemma program_inv_count [simp]: "program_inv (s\<lparr> pr_count := x \<rparr>) = program_inv s"
  by (simp add: program_inv_def status_def [abs_def])

lemma step_create:
  assumes "program_inv s" "pr_pc s c = PCall x"
  shows "\<exists>s'. create_in_group (-1) f a s = Some (Suc (g_next_idx (pr_group s)), s')
    \<and> program_inv (set_pc c PBody (s'\<lparr> pr_count := pr_count s' + 1 \<rparr>))
    \<and> g_pthread (g_cos (pr_group s') (Suc (g_next_idx (pr_group s)))) = Suc (g_next_idx (pr_group s))"
proof -
  let ?k = "Suc (g_next_idx (pr_group s))"
  obtain s' where s': "create_in_group (-1) f a s = Some (?k, s')" "program_inv s'" "pr_lock s' = pr_lock s"
    "pr_pc s' = (pr_pc s)(?k := PWait)" "g_pthread (g_cos (pr_group s') ?k) = ?k"
    using create_ok [OF assms(1)] by blast
  have "c \<noteq> ?k" using assms by (auto elim!: program_invE dest!: threads_ok_alive [of _ _ _ _ _ _ c])
  then have "pr_pc (s'\<lparr> pr_count := pr_count s' + 1 \<rparr>) c = PCall x" using s'(4) assms(2) by simp
  then have "program_inv (set_pc c PBody (s'\<lparr> pr_count := pr_count s' + 1 \<rparr>))"
    using s'(2) by (intro step_plain) simp_all
  then show ?thesis using s'(1,5) by blast
qed

lemma shape_all_ended: "group_shape n g \<Longrightarrow> IsAllEnded g \<longleftrightarrow> (\<forall>k. 1 \<le> k \<longrightarrow> k \<le> n \<longrightarrow> g_status (g_cos g k) \<ge> ENDED)"
  by (auto simp: IsAllEnded_def co_is_ended_def members_def group_shape_def list_all_iff)

lemma agrees_ended: "agrees p x \<Longrightarrow> x \<ge> ENDED \<Longrightarrow> p = PDead \<and> x = ENDED"
  by (cases p) (auto simp: status_order)

lemma agrees_range: "agrees p x \<Longrightarrow> ENABLED \<le> x \<and> x \<le> ENDED"
  by (cases p) (auto simp: status_order)

lemma threads_ok_restart: "threads_ok n i st pcs ret es \<Longrightarrow> (\<And>k. pcs k = PDead) \<Longrightarrow> threads_ok n 0 st pcs ret es"
  by (simp add: threads_ok_def)

lemma step_Restart:
  assumes "program_inv s" "IsAllEnded (pr_group s)"
  shows "\<exists>g. Group_Restart (pr_group s) = Some g \<and> program_inv (s\<lparr> pr_group := g \<rparr>)"
proof -
  obtain n where n: "pr_new s = Suc n" "pr_next_pthread s = Suc n" "group_shape n (pr_group s)"
    "threads_ok n (g_next_idx (pr_group s)) (status s) (pr_pc s) (pr_ret s) (pr_log s)" "lock_ok (pr_lock s) (pr_pc s)"
    "g_next_idx (pr_group s) \<le> n" using assms(1) by (rule program_invE)
  let ?g = "(upd_co 0 (\<lambda>c. c\<lparr> g_group := Some 1 \<rparr>) (pr_group s))\<lparr> g_next_idx := 0 \<rparr>"
  have g: "Group_Restart (pr_group s) = Some ?g" "group_shape n ?g"
    using n(3) by (auto simp: Group_Restart_def group_shape_def upd_co_def)
  have "pr_pc s k = PDead" if "1 \<le> k" "k \<le> n" for k
    using agrees_ended [OF threads_okD(1) [OF n(4) that]] assms(2) that
    by (simp add: shape_all_ended [OF n(3)] status_def)
  then have dead: "pr_pc s k = PDead" for k
    using threads_ok_alive [OF n(4), of k] n(6) le_trans by blast
  have "status (s\<lparr> pr_group := ?g \<rparr>) = status s" by (auto simp: status_def upd_co_def fun_eq_iff)
  then have "program_inv (s\<lparr> pr_group := ?g \<rparr>)"
    using threads_ok_restart [OF n(4) dead] g(2) n(1,2,5) by (simp add: program_inv_def)
  then show ?thesis using g(1) by blast
qed

lemma JoinPThread_begin_ok:
  assumes "program_inv s"
  shows "JoinPThread_begin (GetMember_pid (pr_group s) p) s = (if 1 \<le> p \<and> p < pr_new s then Some p else None)"
proof -
  obtain n where n: "pr_new s = Suc n" "group_shape n (pr_group s)"
    "threads_ok n (g_next_idx (pr_group s)) (status s) (pr_pc s) (pr_ret s) (pr_log s)"
    using assms by (rule program_invE)
  show ?thesis
    using agrees_range [OF threads_okD(1) [OF n(3), of p]]
    by (auto simp: JoinPThread_begin_def safe_notnull_def safe_assert_bind shape_pid [OF n(2)] n(1))
qed

lemmas locked_defs = locked_step_def ConcurritPthreadHandler_def CreatePThread_def PTH_INVALID_THREAD_def

text \<open>What a step does from a state of the invariant: it blocks, keeps the invariant, or aborts in one of
  two calls.\<close>

definition forbidden :: "pthread_call \<Rightarrow> program \<Rightarrow> bool" where
  "forbidden x s = (case x of PthreadJoin p \<Rightarrow> GetMember_pid (pr_group s) p = None | PthreadCancel p \<Rightarrow> True | _ \<Rightarrow> False)"

lemma locked_step_ok:
  assumes "program_inv s" "pr_pc s c = PCall x" "pr_lock s = None"
  shows "if forbidden x s then locked_step c x s = None else \<exists>s'. locked_step c x s = Some (call.Returns s') \<and> program_inv s'"
proof (cases x)
  case (PthreadCreate f a)
  then show ?thesis
    using step_create [OF assms(1,2), of f a] assms(3) by (auto simp: forbidden_def locked_defs)
next
  case (PthreadJoin p)
  then show ?thesis
    using JoinPThread_begin_ok [OF assms(1), of p] step_joins [OF assms(1,2,3), of p] assms(1,3)
    by (auto simp: forbidden_def locked_defs shape_pid elim!: program_invE)
next
  case (PthreadExit v)
  then show ?thesis
    using step_exits [OF assms(1), of c x v] assms(2,3) by (auto simp: forbidden_def locked_defs)
next
  case (PthreadCancel p)
  then show ?thesis using assms(3) by (simp add: forbidden_def locked_defs)
qed

lemma program_step_ok:
  assumes "program_inv s"
  shows "case program_step a s of
      None \<Rightarrow> \<exists>c x. a = Locked c \<and> pr_lock s = None \<and> pr_pc s c = PCall x \<and> forbidden x s
    | Some Blocks \<Rightarrow> True | Some (call.Returns s') \<Rightarrow> program_inv s'"
proof (cases a)
  case (Driver f x)
  then show ?thesis using create_ok [OF assms, of f x] by (auto simp: CreateThread_def)
next
  case (Transfer c)
  then show ?thesis using step_Transfer [OF assms, of c] by simp
next
  case (Invoke c x)
  then show ?thesis using step_plain [OF assms, of c "PCall x"] by simp
next
  case (Locked c)
  then show ?thesis using locked_step_ok [OF assms, of c]
    by (cases "pr_pc s c"; cases "pr_lock s") (auto simp: locked_step_def split: option.splits if_splits)
next
  case (Joined c)
  then show ?thesis using step_Joined [OF assms, of c]
    by (cases "pr_pc s c") (auto simp: JoinPThread_end_def safe_assert_bind co_is_ended_def)
next
  case (Return c v)
  then show ?thesis using step_exits [OF assms, of c] by simp
next
  case (End c)
  then show ?thesis using step_End [OF assms, of c] by (cases "pr_pc s c") auto
next
  case NextExecution
  then show ?thesis using step_Restart [OF assms] by auto
qed

lemma no_threads_inv: "program_inv no_threads"
  by (auto simp: program_inv_def no_threads_def CoroutineGroup_def group_shape_def threads_ok_def lock_ok_def MAIN_TID_def)

lemma program_reach_inv: "program_reach s \<Longrightarrow> program_inv s"
proof (induction rule: program_reach.induct)
  case start
  show ?case by (rule no_threads_inv)
next
  case (step s a s')
  then show ?case using program_step_ok [of s a] by simp
qed

lemma forbidden_aborts: "program_inv s \<Longrightarrow> pr_lock s = None \<Longrightarrow> pr_pc s c = PCall x \<Longrightarrow> forbidden x s
    \<Longrightarrow> program_step (Locked c) s = None"
  using locked_step_ok [of s c x] by simp

text \<open>C16: Whatever the order in which the threads of a program create, join and end each
  other, over any number of executions, a step aborts in exactly two cases: the program cancels a
  thread, or joins one that is not in the group.\<close>

theorem program_abort_iff:
  assumes "program_reach s"
  shows "program_step a s = None \<longleftrightarrow>
    (\<exists>c x. a = Locked c \<and> pr_lock s = None \<and> pr_pc s c = PCall x \<and> forbidden x s)"
  using program_step_ok [OF program_reach_inv [OF assms], of a] forbidden_aborts [OF program_reach_inv [OF assms]]
  by (auto split: option.splits)

fun starts_or_ends :: "nat \<Rightarrow> thread_event \<Rightarrow> bool" where
  "starts_or_ends k (ECreate c f a) = (c = k)"
| "starts_or_ends k (EEnd c v) = (c = k)"
| "starts_or_ends k (EJoin c d v) = False"

lemma end_value_split:
  "end_value k es = Some v \<Longrightarrow> \<exists>ys zs. es = ys @ EEnd k v # zs \<and> (\<forall>e \<in> set ys. \<not> starts_or_ends k e)"
proof (induction k es rule: end_value.induct)
  case (2 k c f a es)
  then obtain ys zs where "c \<noteq> k" "es = ys @ EEnd k v # zs" "\<forall>e \<in> set ys. \<not> starts_or_ends k e" by (auto split: if_splits)
  then show ?case by (metis append_Cons set_ConsD starts_or_ends.simps(1))
next
  case (3 k c w es)
  show ?case
  proof (cases "c = k")
    case True
    then show ?thesis using 3(2) by force
  next
    case False
    then obtain ys zs where "es = ys @ EEnd k v # zs" "\<forall>e \<in> set ys. \<not> starts_or_ends k e" using 3 by auto
    then show ?thesis using False by (metis append_Cons set_ConsD starts_or_ends.simps(2))
  qed
next
  case (4 k c d w es)
  then obtain ys zs where "es = ys @ EEnd k v # zs" "\<forall>e \<in> set ys. \<not> starts_or_ends k e" by auto
  then show ?case by (metis append_Cons set_ConsD starts_or_ends.simps(3))
qed simp

lemma joins_okD: "joins_ok (xs @ EJoin c d v # es) \<Longrightarrow> end_value d es = Some v"
proof (induction xs)
  case (Cons e xs)
  then show ?case by (cases e) auto
qed simp

text \<open>C18: The value that pthread_join gives to the program is the one with which the joined
  thread has ended in its current life: the thread has not been created again or ended again in
  between.\<close>

theorem join_gets_end_value:
  assumes "program_reach s" "pr_log s = es @ EJoin c d v # es'"
  shows "\<exists>es1 es2. es = es1 @ EEnd d v # es2 \<and> (\<forall>e \<in> set es2. \<not> starts_or_ends d e)"
proof -
  have "joins_ok (rev (pr_log s))" using program_reach_inv [OF assms(1)] by (auto simp: program_inv_def threads_ok_def)
  then have "end_value d (rev es) = Some v" using assms(2) joins_okD [of "rev es'" c d v "rev es"] by simp
  then obtain ys zs where "rev es = ys @ EEnd d v # zs" "\<forall>e \<in> set ys. \<not> starts_or_ends d e" using end_value_split by blast
  then have "es = rev zs @ EEnd d v # rev ys" "\<forall>e \<in> set (rev ys). \<not> starts_or_ends d e" by (simp_all add: rev_swap)
  then show ?thesis by blast
qed

text \<open>C19: pthread_create of a thread of the program starts the thread that comes next in
  the order of creation, the same one in every execution, with the new function, and it is found
  under its pthread afterwards.\<close>

theorem pthread_create_next:
  assumes "program_reach s" "pr_pc s c = PCall (PthreadCreate f a)" "pr_lock s = None"
  shows "\<exists>s'. program_step (Locked c) s = Some (call.Returns s') \<and>
    (let k = Suc (g_next_idx (pr_group s)) in pr_pc s' = (pr_pc s)(k := PWait, c := PBody) \<and>
       pr_entry s' = (pr_entry s)(k := (f, a)) \<and> g_next_idx (pr_group s') = k \<and> GetMember_pid (pr_group s') k = Some k)"
proof -
  let ?k = "Suc (g_next_idx (pr_group s))"
  obtain s' where s': "create_in_group (-1) f a s = Some (?k, s')" "program_inv s'" "pr_pc s' = (pr_pc s)(?k := PWait)"
    "g_next_idx (pr_group s') = ?k" "pr_entry s' = (pr_entry s)(?k := (f, a))" "g_pthread (g_cos (pr_group s') ?k) = ?k"
    using create_ok [OF program_reach_inv [OF assms(1)], of f a] by blast
  have "GetMember_pid (pr_group s') ?k = Some ?k"
    using s'(2,4) by (auto elim!: program_invE simp: shape_pid)
  then show ?thesis using assms(2,3) s' by (auto simp: locked_defs set_pc_def Let_def)
qed

section \<open>Joining with the lock\<close>

fun program_exec :: "program_action list \<Rightarrow> program \<Rightarrow> program option" where
  "program_exec [] s = Some s"
| "program_exec (a # as) s = (case program_step a s of Some (call.Returns s1) \<Rightarrow> program_exec as s1 | _ \<Rightarrow> None)"

lemma exec_reach: "program_reach s \<Longrightarrow> program_exec as s = Some s' \<Longrightarrow> program_reach s'"
  by (induction as arbitrary: s) (auto split: option.splits call.splits intro: program_reach.step)

lemma exec_start_reach: "program_exec as no_threads = Some s \<Longrightarrow> program_reach s"
  by (rule exec_reach [OF program_reach.start])

text \<open>A thread that has called an interposed function while another one waits in pthread_join.\<close>

definition stuck :: "program \<Rightarrow> nat \<Rightarrow> bool" where
  "stuck s k \<longleftrightarrow> (\<exists>d. pr_pc s k = PJoin d) \<or> (\<exists>x. pr_pc s k = PCall x)"

lemma stuck_step:
  assumes inv: "program_inv s" and c: "pr_pc s c = PJoin d" "stuck s d" and r: "program_step a s = Some (call.Returns s')"
    and k: "stuck s k"
  shows "pr_pc s' k = pr_pc s k"
proof -
  have lock: "pr_lock s = Some j \<longleftrightarrow> (\<exists>e. pr_pc s j = PJoin e)" for j using inv by (auto simp: program_inv_def lock_ok_def)
  then have held: "pr_lock s = Some c" using c(1) by blast
  have alive: "status s d \<noteq> ENDED"
    using program_inv_status(1) [OF inv, of d] c(2) by (auto simp: stuck_def)
  show ?thesis
  proof (cases a)
    case (Driver f x)
    then obtain s1 where s1: "g_next_idx (pr_group s) = 0" "create_in_group (-1) f x s = Some (1, s1)" "pr_pc s1 = (pr_pc s)(1 := PWait)"
      using r create_ok [OF inv, of f x] by (auto split: if_splits)
    have "pr_pc s k = PDead"
      using inv s1(1) by (auto elim!: program_invE simp: threads_ok_def)
    then show ?thesis using k by (simp add: stuck_def)
  next
    case (Joined j)
    then obtain e where e: "pr_pc s j = PJoin e" "status s e = ENDED"
      using r by (auto split: thread_pc.splits if_splits)
    then have "j = c" using lock [of j] held by auto
    then show ?thesis using e c(1) alive by simp
  qed (use r k held in \<open>auto simp: bind_eq_Some_conv locked_step_def set_pc_def log_def upd_member_def stuck_def split: if_splits thread_pc.splits\<close>)
qed

text \<open>C15: interpos.cpp holds its lock while pthread_join waits, so the program stops when
  the joined thread calls an interposed function before it ends, or is the caller itself: in every
  continuation the joining thread, the joined one and every other thread that has called an
  interposed function stay where they are.\<close>

theorem join_deadlock:
  assumes "program_reach s" "pr_pc s c = PJoin d" "stuck s d" "program_exec as s = Some s'" "stuck s k"
  shows "pr_pc s' k = pr_pc s k \<and> pr_pc s' c = PJoin d"
  using assms
proof (induction as arbitrary: s)
  case (Cons a as)
  then obtain s1 where s1: "program_step a s = Some (call.Returns s1)" "program_exec as s1 = Some s'"
    by (auto split: option.splits call.splits)
  have same: "stuck s j \<Longrightarrow> pr_pc s1 j = pr_pc s j" for j
    by (rule stuck_step [OF program_reach_inv [OF Cons.prems(1)] Cons.prems(2,3) s1(1)])
  have "stuck s c" using Cons.prems(2) by (simp add: stuck_def)
  then have "stuck s1 d" "stuck s1 k" "pr_pc s1 c = PJoin d"
    using same Cons.prems(2,3,5) by (simp_all add: stuck_def)
  moreover have "program_reach s1" by (rule program_reach.step [OF Cons.prems(1) s1(1)])
  ultimately show ?case using Cons.IH s1(2) same [OF Cons.prems(5)] by simp
qed simp


section \<open>A program with two threads\<close>

text \<open>The driver runs function 5 as thread 1, which creates thread 2 with function 6.\<close>

definition create_second :: "program_action list" where
  "create_second = [Driver 5 0, Transfer 1, Invoke 1 (PthreadCreate 6 0), Locked 1, Transfer 2]"

lemmas program_eval = create_second_def no_threads_def CoroutineGroup_def CreateThread_def locked_defs create_in_group_def
  alloc_coroutine_def Coroutine_Start_def status_def upd_member_def set_pc_def log_def upd_co_def GetNextCreatedMember_def
  GetNthCreatedMember_def AddMember_def HasMember_def GetMember_def GetMember_pid_def not_main_def IsMain_def MAIN_TID_def status_order
  JoinPThread_begin_def JoinPThread_end_def safe_notnull_def safe_assert_bind co_is_ended_def Let_def

text \<open>Runs of it: thread 1 joins thread 2, which then calls pthread_exit; or thread 2 ends before; or it is cancelled.\<close>

definition join_early :: "program_action list" where
  "join_early = create_second @ [Invoke 1 (PthreadJoin 2), Locked 1, Invoke 2 (PthreadExit 7)]"

definition join_late :: "program_action list" where
  "join_late = create_second @ [Invoke 2 (PthreadExit 7), Locked 2, End 2, Invoke 1 (PthreadJoin 2), Locked 1, Joined 1]"

definition cancelled :: "program_action list" where
  "cancelled = create_second @ [Invoke 1 (PthreadCancel 2)]"

lemma join_early_run:
  "\<exists>s. program_exec join_early no_threads = Some s \<and> pr_pc s 1 = PJoin 2 \<and> pr_pc s 2 = PCall (PthreadExit 7)"
  by (simp add: join_early_def program_eval)

lemma join_late_run: "\<exists>s. program_exec join_late no_threads = Some s \<and> pr_pc s 1 = PBody \<and>
    pr_log s = [ECreate 1 5 0, ECreate 2 6 0, EEnd 2 7, EJoin 1 2 7]"
  by (simp add: join_late_def program_eval)

lemma cancelled_run: "\<exists>s. program_exec cancelled no_threads = Some s \<and> pr_lock s = None \<and> pr_pc s 1 = PCall (PthreadCancel 2)"
  by (simp add: cancelled_def program_eval)

theorem program_abort_iff_witness:
  "\<exists>s. program_exec cancelled no_threads = Some s \<and> program_step (Locked 1) s = None"
proof -
  obtain s where s: "program_exec cancelled no_threads = Some s" "pr_lock s = None" "pr_pc s 1 = PCall (PthreadCancel 2)"
    using cancelled_run by blast
  then have "program_step (Locked 1) s = None"
    unfolding program_abort_iff [OF exec_start_reach [OF s(1)]] by (simp add: forbidden_def)
  then show ?thesis using s(1) by blast
qed

theorem join_gets_end_value_witness:
  "\<exists>s es1 es2. program_exec join_late no_threads = Some s \<and> [ECreate 1 5 0, ECreate 2 6 0, EEnd 2 7] = es1 @ EEnd 2 7 # es2
    \<and> (\<forall>e \<in> set es2. \<not> starts_or_ends 2 e)"
proof -
  obtain s where s: "program_exec join_late no_threads = Some s" "pr_log s = [ECreate 1 5 0, ECreate 2 6 0, EEnd 2 7] @ EJoin 1 2 7 # []"
    using join_late_run by auto
  show ?thesis using join_gets_end_value [OF exec_start_reach [OF s(1)] s(2)] s(1) by blast
qed

theorem pthread_create_next_witness:
  "\<exists>s s'. program_exec [Driver 5 0, Transfer 1, Invoke 1 (PthreadCreate 6 0)] no_threads = Some s
    \<and> program_step (Locked 1) s = Some (call.Returns s') \<and> pr_entry s' 2 = (6, 0) \<and> GetMember_pid (pr_group s') 2 = Some 2"
proof -
  obtain s where s: "program_exec [Driver 5 0, Transfer 1, Invoke 1 (PthreadCreate 6 0)] no_threads = Some s"
    "pr_pc s 1 = PCall (PthreadCreate 6 0)" "pr_lock s = None" "g_next_idx (pr_group s) = 1"
    by (simp add: program_eval)
  show ?thesis
    using pthread_create_next [OF exec_start_reach [OF s(1)] s(2,3)] s(1,4) by (auto simp: Let_def numeral_2_eq_2)
qed

theorem join_deadlock_witness:
  "\<exists>s. program_exec join_early no_threads = Some s
    \<and> (\<forall>as s'. program_exec as s = Some s' \<longrightarrow> pr_pc s' 2 = PCall (PthreadExit 7) \<and> pr_pc s' 1 = PJoin 2)"
proof -
  obtain s where s: "program_exec join_early no_threads = Some s" "pr_pc s 1 = PJoin 2" "pr_pc s 2 = PCall (PthreadExit 7)"
    using join_early_run by blast
  have "stuck s 2" using s(3) by (simp add: stuck_def)
  then show ?thesis using join_deadlock [OF exec_start_reach [OF s(1)] s(2)] s(1,3) by auto
qed


end
