(* ===== verification/End_Waiters.thy ===== *)
theory End_Waiters
  imports Coroutines
begin

text \<open>
  Several threads that wait for the end of one coroutine: WaitForEnd of coroutine.cpp is called by the joins of the
  program (JoinPThread) and by JoinAllThreads and WaitForAllEnd of the main thread, and all of them share the
  semaphore \<open>sem_end\<close> of the coroutine.  Coroutines has the case of the main thread alone.
\<close>

section \<open>Waiting on the two tokens\<close>

text \<open>A waiter takes the token that Start has given, then the one of SetEnded, and gives both back.\<close>

datatype waiter_pc = WAway | WFirst | WSecond

record end_wait =
  ew_status :: StatusType
  ew_sem :: sem
  ew_pc :: "nat \<Rightarrow> waiter_pc"
  ew_timed :: "nat \<Rightarrow> bool"
  ew_result :: "nat \<Rightarrow> bool option"

definition set_waiter :: "nat \<Rightarrow> waiter_pc \<Rightarrow> end_wait \<Rightarrow> end_wait" where
  "set_waiter w p s = s\<lparr> ew_pc := (ew_pc s)(w := p) \<rparr>"

text \<open>WaitForEnd in its parts; a timeout above 0 makes the wait for the second token a timed one.  The timeout is the one
  after the default of the configuration has been put in for -1.\<close>

definition waiter_begin :: "nat \<Rightarrow> int \<Rightarrow> end_wait \<Rightarrow> end_wait call option" where
  "waiter_begin w timeout s = (if ew_pc s w \<noteq> WAway then Some Blocks
     else do {
       safe_assert (ENABLED \<le> ew_status s \<and> ew_status s \<le> ENDED);
       Some (call.Returns (set_waiter w WFirst (s\<lparr> ew_timed := (ew_timed s)(w := 0 < timeout) \<rparr>))) })"

definition waiter_first :: "nat \<Rightarrow> end_wait \<Rightarrow> end_wait call option" where
  "waiter_first w s = (if ew_pc s w \<noteq> WFirst then Some Blocks
     else do {
       r \<leftarrow> Sem_Wait [] (ew_sem s);
       Some (case r of Blocks \<Rightarrow> Blocks | call.Returns v \<Rightarrow> call.Returns (set_waiter w WSecond (s\<lparr> ew_sem := v \<rparr>))) })"

definition waiter_second :: "nat \<Rightarrow> end_wait \<Rightarrow> end_wait call option" where
  "waiter_second w s = (if ew_pc s w \<noteq> WSecond then Some Blocks
     else do {
       r \<leftarrow> Sem_Wait [] (ew_sem s);
       (case r of Blocks \<Rightarrow> Some Blocks
        | call.Returns v \<Rightarrow> do {
            v2 \<leftarrow> Sem_Signal_n 2 v;
            safe_assert (ew_status s = ENDED);
            Some (call.Returns (set_waiter w WAway (s\<lparr> ew_sem := v2, ew_result := (ew_result s)(w := Some True) \<rparr>))) }) })"

definition waiter_timeout :: "nat \<Rightarrow> end_wait \<Rightarrow> end_wait call option" where
  "waiter_timeout w s = (if ew_pc s w \<noteq> WSecond \<or> \<not> ew_timed s w \<or> ew_sem s \<noteq> 0 then Some Blocks
     else do {
       v \<leftarrow> Sem_Signal (ew_sem s);
       Some (call.Returns (set_waiter w WAway (s\<lparr> ew_sem := v, ew_result := (ew_result s)(w := Some False) \<rparr>))) })"

text \<open>SetEnded of the coroutine.\<close>

definition coroutine_ends :: "end_wait \<Rightarrow> end_wait call option" where
  "coroutine_ends s = (if ew_status s = ENDED then Some Blocks
     else do { v \<leftarrow> Sem_Signal (ew_sem s); Some (call.Returns (s\<lparr> ew_status := ENDED, ew_sem := v \<rparr>)) })"

datatype waiter_action = WaitForEnd nat int | TakeFirst nat | TakeSecond nat | TimeOut nat | SetEnded

fun waiter_step :: "waiter_action \<Rightarrow> end_wait \<Rightarrow> end_wait call option" where
  "waiter_step (WaitForEnd w timeout) s = waiter_begin w timeout s"
| "waiter_step (TakeFirst w) s = waiter_first w s"
| "waiter_step (TakeSecond w) s = waiter_second w s"
| "waiter_step (TimeOut w) s = waiter_timeout w s"
| "waiter_step SetEnded s = coroutine_ends s"

fun waiter_exec :: "waiter_action list \<Rightarrow> end_wait \<Rightarrow> end_wait option" where
  "waiter_exec [] s = Some s"
| "waiter_exec (a # as) s = (case waiter_step a s of Some (call.Returns s1) \<Rightarrow> waiter_exec as s1 | _ \<Rightarrow> None)"

text \<open>After Start: one token, and the coroutine runs.\<close>

definition started :: end_wait where
  "started = \<lparr> ew_status = ENABLED, ew_sem = 1, ew_pc = (\<lambda>_. WAway), ew_timed = (\<lambda>_. False), ew_result = (\<lambda>_. None) \<rparr>"

section \<open>The tokens are never lost\<close>

text \<open>One token for Start and one for the end, each in the semaphore or with a waiter that waits for its second.\<close>

definition holders :: "end_wait \<Rightarrow> nat set" where
  "holders s = {w. ew_pc s w = WSecond}"

definition waiters_inv :: "end_wait \<Rightarrow> bool" where
  "waiters_inv s \<longleftrightarrow> finite (holders s) \<and> (ew_status s = ENABLED \<or> ew_status s = ENDED) \<and>
     ew_sem s + card (holders s) = (if ew_status s = ENDED then 2 else 1)"

lemma holders_set: "holders (set_waiter w p s) = (if p = WSecond then insert w (holders s) else holders s - {w})"
  by (auto simp: holders_def set_waiter_def)

lemma holders_more [simp]:
  "holders (s\<lparr> ew_sem := v \<rparr>) = holders s" "holders (s\<lparr> ew_timed := t \<rparr>) = holders s"
  "holders (s\<lparr> ew_result := r \<rparr>) = holders s" "holders (s\<lparr> ew_status := x \<rparr>) = holders s"
  by (simp_all add: holders_def)

lemma holder_card: "finite (holders s) \<Longrightarrow> ew_pc s w = WSecond \<Longrightarrow> card (holders s) = Suc (card (holders s - {w}))"
  using card.remove [of "holders s" w] by (simp add: holders_def)

lemma set_waiter_fields [simp]: "ew_status (set_waiter w p s) = ew_status s" "ew_sem (set_waiter w p s) = ew_sem s"
  by (simp_all add: set_waiter_def)

lemma holders_not: "ew_pc s w \<noteq> WSecond \<Longrightarrow> w \<notin> holders s"
  by (simp add: holders_def)

lemma inv_begin: "waiters_inv s \<Longrightarrow> ew_pc s w = WAway \<Longrightarrow> waiters_inv (set_waiter w WFirst (s\<lparr> ew_timed := t \<rparr>))"
  using holders_not [of s w] by (simp add: waiters_inv_def holders_set)

lemma inv_first: "waiters_inv s \<Longrightarrow> ew_pc s w = WFirst \<Longrightarrow> ew_sem s = Suc v
    \<Longrightarrow> waiters_inv (set_waiter w WSecond (s\<lparr> ew_sem := v \<rparr>))"
  using holders_not [of s w] by (simp add: waiters_inv_def holders_set)

lemma inv_second: "waiters_inv s \<Longrightarrow> ew_pc s w = WSecond
    \<Longrightarrow> waiters_inv (set_waiter w WAway (s\<lparr> ew_sem := Suc (ew_sem s), ew_result := r \<rparr>))"
  using holder_card [of s w] by (auto simp: waiters_inv_def holders_set)

lemma inv_sem: "waiters_inv s \<Longrightarrow> ew_sem s \<le> 2"
  by (auto simp: waiters_inv_def split: if_splits)

text \<open>A waiter that has both tokens knows that the coroutine has ended.\<close>

lemma inv_both: "waiters_inv s \<Longrightarrow> ew_pc s w = WSecond \<Longrightarrow> 0 < ew_sem s \<Longrightarrow> ew_status s = ENDED"
  using holder_card [of s w] by (auto simp: waiters_inv_def split: if_splits)

lemma waiter_step_ok:
  assumes "waiters_inv s"
  shows "\<exists>r. waiter_step a s = Some r \<and> (\<forall>s'. r = call.Returns s' \<longrightarrow> waiters_inv s')"
proof (cases a)
  case (WaitForEnd w timeout)
  have "ENABLED \<le> ew_status s \<and> ew_status s \<le> ENDED" using assms by (auto simp: waiters_inv_def status_order)
  then show ?thesis using WaitForEnd inv_begin [OF assms] by (simp add: waiter_begin_def safe_assert_bind)
next
  case (TakeFirst w)
  then show ?thesis using inv_first [OF assms, of w] by (cases "ew_sem s") (simp_all add: waiter_first_def)
next
  case (TakeSecond w)
  show ?thesis
  proof (cases "ew_sem s")
    case 0
    then show ?thesis using TakeSecond by (simp add: waiter_second_def)
  next
    case (Suc v)
    have "Sem_Signal_n 2 v = Some (Suc (Suc v))" using Signal_two [of v] inv_sem [OF assms] Suc by simp
    then show ?thesis
      using TakeSecond Suc inv_second [OF assms, of w] inv_both [OF assms, of w] by (simp add: waiter_second_def safe_assert_bind)
  qed
next
  case (TimeOut w)
  then show ?thesis using inv_second [OF assms, of w] by (cases "ew_sem s") (simp_all add: waiter_timeout_def Sem_Signal_def safe_assert_bind SEM_VALUE_MAX_def)
next
  case SetEnded
  show ?thesis
  proof (cases "ew_status s = ENDED")
    case False
    have "waiters_inv (s\<lparr> ew_status := ENDED, ew_sem := Suc (ew_sem s) \<rparr>)" using assms False by (auto simp: waiters_inv_def)
    then show ?thesis
      using SetEnded inv_sem [OF assms] by (simp add: coroutine_ends_def Sem_Signal_def safe_assert_bind SEM_VALUE_MAX_def)
  qed (use SetEnded in \<open>simp add: coroutine_ends_def\<close>)
qed

lemma started_inv: "waiters_inv started"
  by (simp add: waiters_inv_def started_def holders_def)

lemma exec_inv: "waiters_inv s \<Longrightarrow> waiter_exec as s = Some s' \<Longrightarrow> waiters_inv s'"
proof (induction as arbitrary: s)
  case (Cons a as)
  then show ?case using waiter_step_ok [OF Cons.prems(1), of a] by (auto split: option.splits call.splits)
qed simp

lemmas waiter_exec_inv = exec_inv [OF started_inv]

section \<open>Waiters that block each other\<close>

text \<open>No token is left in the semaphore and no waiter that has one may give up.\<close>

definition jammed :: "end_wait \<Rightarrow> bool" where
  "jammed s \<longleftrightarrow> ew_sem s = 0 \<and> (\<forall>w \<in> holders s. \<not> ew_timed s w)"

lemma jammed_step:
  assumes "jammed s" "ew_status s = ENDED \<or> a \<noteq> SetEnded" "waiter_step a s = Some (call.Returns s')"
  shows "jammed s' \<and> ew_status s' = ew_status s \<and> (ew_pc s w \<noteq> WAway \<longrightarrow> ew_pc s' w = ew_pc s w)"
proof (cases a)
  case (WaitForEnd v timeout)
  then have "ew_pc s v = WAway" "s' = set_waiter v WFirst (s\<lparr> ew_timed := (ew_timed s)(v := 0 < timeout) \<rparr>)"
    using assms(3) by (auto simp: waiter_begin_def safe_assert_bind split: if_splits)
  then show ?thesis using assms(1) holders_not [of s v] by (auto simp: jammed_def holders_set) (auto simp: set_waiter_def split: if_splits)
qed (use assms in \<open>auto simp: jammed_def holders_def waiter_first_def waiter_second_def waiter_timeout_def coroutine_ends_def
      split: if_splits\<close>)

lemma jammed_exec:
  assumes "jammed s" "ew_status s = ENDED \<or> SetEnded \<notin> set as" "waiter_exec as s = Some s'" "ew_pc s w \<noteq> WAway"
  shows "ew_pc s' w = ew_pc s w"
  using assms
proof (induction as arbitrary: s)
  case (Cons a as)
  then obtain s1 where s1: "waiter_step a s = Some (call.Returns s1)" "waiter_exec as s1 = Some s'"
    by (auto split: option.splits call.splits)
  then show ?case using jammed_step [OF Cons.prems(1) _ s1(1), of w] Cons.IH [of s1] Cons.prems(2,4) by auto
qed simp

lemma holders_le: "waiters_inv s \<Longrightarrow> S \<subseteq> holders s \<Longrightarrow> card S \<le> card (holders s)"
  by (auto simp: waiters_inv_def intro: card_mono)

text \<open>C20: Two threads that wait without a timeout for the end of the same coroutine can
  take one token each of its semaphore, and then neither of them, nor any other thread that waits
  for it, ever returns, although the coroutine has ended.\<close>

theorem two_waiters_block:
  assumes "waiter_exec before started = Some s" "ew_status s = ENDED" "c \<noteq> d" "ew_pc s c = WSecond" "ew_pc s d = WSecond"
    "\<not> ew_timed s c" "\<not> ew_timed s d" "waiter_exec as s = Some s'" "ew_pc s w \<noteq> WAway"
  shows "ew_pc s' w = ew_pc s w"
proof -
  have inv: "waiters_inv s" by (rule waiter_exec_inv [OF assms(1)])
  have sub: "{c, d} \<subseteq> holders s" using assms(4,5) by (simp add: holders_def)
  have "2 \<le> card (holders s)" using holders_le [OF inv sub] assms(3) by simp
  then have "ew_sem s = 0" "card (holders s) = card {c, d}" using inv assms(2,3) by (simp_all add: waiters_inv_def)
  moreover have "holders s = {c, d}"
    using card_subset_eq [OF _ sub] calculation(2) inv by (simp add: waiters_inv_def)
  ultimately have "jammed s" using assms(6,7) by (simp add: jammed_def)
  then show ?thesis by (rule jammed_exec) (use assms in simp_all)
qed

text \<open>C21: The timeout of WaitForEnd bounds only the wait for its second token: while a
  thread waits without a timeout for a coroutine that does not end, no other wait for this
  coroutine returns, whatever its timeout.\<close>

theorem timeout_not_reached:
  assumes "waiter_exec before started = Some s" "ew_status s \<noteq> ENDED" "ew_pc s c = WSecond" "\<not> ew_timed s c"
    "SetEnded \<notin> set as" "waiter_exec as s = Some s'" "ew_pc s w \<noteq> WAway"
  shows "ew_pc s' w = ew_pc s w"
proof -
  have inv: "waiters_inv s" by (rule waiter_exec_inv [OF assms(1)])
  have sub: "{c} \<subseteq> holders s" using assms(3) by (simp add: holders_def)
  have "1 \<le> card (holders s)" using holders_le [OF inv sub] by simp
  then have "ew_sem s = 0" "card (holders s) = card {c}" using inv assms(2) by (simp_all add: waiters_inv_def)
  moreover have "holders s = {c}"
    using card_subset_eq [OF _ sub] calculation(2) inv by (simp add: waiters_inv_def)
  ultimately have "jammed s" using assms(4) by (simp add: jammed_def)
  then show ?thesis by (rule jammed_exec) (use assms in simp_all)
qed

lemmas waiter_eval = started_def waiter_begin_def waiter_first_def waiter_second_def coroutine_ends_def set_waiter_def
  safe_assert_bind status_order Sem_Signal_def SEM_VALUE_MAX_def

theorem two_waiters_block_witness:
  "\<exists>s. waiter_exec [WaitForEnd 1 0, WaitForEnd 2 0, TakeFirst 1, SetEnded, TakeFirst 2] started = Some s \<and> ew_status s = ENDED
    \<and> (\<forall>as s'. waiter_exec as s = Some s' \<longrightarrow> ew_pc s' 1 = WSecond)"
proof -
  obtain s where s: "waiter_exec [WaitForEnd 1 0, WaitForEnd 2 0, TakeFirst 1, SetEnded, TakeFirst 2] started = Some s"
    "ew_status s = ENDED" "ew_pc s 1 = WSecond" "ew_pc s 2 = WSecond" "\<not> ew_timed s 1" "\<not> ew_timed s 2"
    by (simp add: waiter_eval)
  have "ew_pc s' 1 = WSecond" if "waiter_exec as s = Some s'" for as s'
    using two_waiters_block [OF s(1,2) _ s(3-6) that, of 1] s(3) by simp
  then show ?thesis using s(1,2) by blast
qed

theorem timeout_not_reached_witness:
  "\<exists>s. waiter_exec [WaitForEnd 1 0, TakeFirst 1, WaitForEnd 2 1000] started = Some s
    \<and> (\<forall>as s'. SetEnded \<notin> set as \<and> waiter_exec as s = Some s' \<longrightarrow> ew_pc s' 2 = WFirst)"
proof -
  obtain s where s: "waiter_exec [WaitForEnd 1 0, TakeFirst 1, WaitForEnd 2 1000] started = Some s"
    "ew_status s \<noteq> ENDED" "ew_pc s 1 = WSecond" "\<not> ew_timed s 1" "ew_pc s 2 = WFirst"
    by (simp add: waiter_eval)
  have "ew_pc s' 2 = WFirst" if "SetEnded \<notin> set as" "waiter_exec as s = Some s'" for as s'
    using timeout_not_reached [OF s(1-4) that, of 2] s(5) by simp
  then show ?thesis using s(1) by blast
qed

end
