(* ===== verification/Pin_Tool.thy ===== *)
theory Pin_Tool
  imports Event_Wire Shared_Access
begin

text \<open>
  The tool that runs inside Pin, pintool/instrumenter.cpp: which images, routines and threads are instrumented, the
  call stack of each thread, and the events that the analysis functions send to the library.  Pin itself is outside
  of the model: what its API tells of an image, a routine or an instruction is data.
\<close>

section \<open>What Pin tells\<close>

record image =
  im_id :: nat
  im_name :: string
  im_main :: bool
  im_rtns :: "(string \<times> addr) list"

record routine =
  rt_name :: string
  rt_addr :: addr
  rt_image :: image
  rt_head :: bool  \<comment> \<open>whether RTN_InsHeadOnly is valid\<close>

record instruction =
  in_addr :: addr
  in_original :: bool
  in_call :: bool
  in_procedure_call :: bool
  in_syscall :: bool
  in_direct :: bool
  in_target :: addr
  in_ret :: bool
  in_sysret :: bool
  in_stack_read :: bool
  in_stack_write :: bool
  in_write :: bool
  in_read2 :: bool
  in_read :: bool
  in_prefetch :: bool
  in_fall_through :: bool
  in_branch_or_call :: bool

section \<open>The state of the tool\<close>

record pin_options =
  po_TrackFuncCalls :: bool
  po_InstrTopLevelFuncs :: bool
  po_InstrAfterMemoryAccess :: bool

text \<open>The static members of InstParams, the maps of PLT routines, filtered images and source locations, and the
  arrays of the thread local states.  The objects of PinSourceLocation, one for each address, are named by their
  address.  \<open>pt_monitor\<close> is whether NativePinMonitorFunPtr has been found; \<open>pt_sent\<close> are the calls of it.\<close>

record pin_tool =
  pt_options :: pin_options
  pt_names :: "string set"
  pt_ids :: "addr \<rightharpoonup> bool"
  pt_skip_names :: "string set"
  pt_skip_ids :: "addr \<rightharpoonup> bool"
  pt_all :: bool
  pt_enabled :: bool
  pt_plt :: "addr \<rightharpoonup> bool"
  pt_images :: "string list"
  pt_image_ids :: "nat \<rightharpoonup> bool"
  pt_loaded :: bool
  pt_monitor :: bool
  pt_locs :: "addr \<rightharpoonup> src_loc"
  pt_inst :: "nat \<Rightarrow> bool"
  pt_stack :: "nat \<Rightarrow> addr list option"
  pt_sent :: "event list"

definition new_pin_tool :: pin_tool where
  "new_pin_tool = \<lparr> pt_options = \<lparr> po_TrackFuncCalls = False, po_InstrTopLevelFuncs = False, po_InstrAfterMemoryAccess = False \<rparr>,
     pt_names = {}, pt_ids = Map.empty, pt_skip_names = {}, pt_skip_ids = Map.empty, pt_all = False, pt_enabled = True,
     pt_plt = Map.empty, pt_images = [], pt_image_ids = Map.empty, pt_loaded = False, pt_monitor = False, pt_locs = Map.empty,
     pt_inst = (\<lambda>_. False), pt_stack = (\<lambda>_. None), pt_sent = [] \<rparr>"

section \<open>Routines and locations\<close>

definition IsPLT :: "addr \<Rightarrow> pin_tool \<Rightarrow> bool" where
  "IsPLT a t \<longleftrightarrow> pt_plt t a \<noteq> None"

definition AddToPLT :: "addr \<Rightarrow> pin_tool \<Rightarrow> pin_tool" where
  "AddToPLT a t = t\<lparr> pt_plt := (pt_plt t)(a \<mapsto> True) \<rparr>"

text \<open>What PIN_GetSourceLocation says of an address is an argument: column, line and file.\<close>

definition PinSourceLocation :: "(addr \<Rightarrow> int \<times> int \<times> string) \<Rightarrow> routine option \<Rightarrow> addr \<Rightarrow> src_loc" where
  "PinSourceLocation describe rtn a = (let (column, line, file) = describe a in
     \<lparr> sl_filename = (if file = '''' then ''<unknown>'' else file),
       sl_funcname = (case rtn of None \<Rightarrow> ''<unknown>'' | Some r \<Rightarrow> rt_name r),
       sl_column = column, sl_line = line,
       sl_imgname = (case rtn of None \<Rightarrow> ''<unknown>'' | Some r \<Rightarrow> im_name (rt_image r)) \<rparr>)"

definition PinSourceLocation_get :: "(addr \<Rightarrow> int \<times> int \<times> string) \<Rightarrow> routine option \<Rightarrow> addr \<Rightarrow> pin_tool \<Rightarrow> pin_tool" where
  "PinSourceLocation_get describe rtn a t = (case pt_locs t a of
     Some l \<Rightarrow> t | None \<Rightarrow> t\<lparr> pt_locs := (pt_locs t)(a \<mapsto> PinSourceLocation describe rtn a) \<rparr>)"

definition PinSourceLocation_clear :: "pin_tool \<Rightarrow> pin_tool" where
  "PinSourceLocation_clear t = t\<lparr> pt_locs := Map.empty \<rparr>"

text \<open>A line of the file of functions: to skip, all, or to instrument.  \<open>at\<close> throws for an empty line.\<close>

definition parse_line :: "string \<Rightarrow> pin_tool \<Rightarrow> pin_tool option" where
  "parse_line s t = (if s = [] then None
     else if hd s = CHR ''-'' then Some (t\<lparr> pt_skip_names := insert (tl s) (pt_skip_names t) \<rparr>)
     else if s = ''All'' then Some (t\<lparr> pt_all := True \<rparr>)
     else Some (t\<lparr> pt_names := insert s (pt_names t) \<rparr>))"

fun parse_lines :: "string list \<Rightarrow> pin_tool \<Rightarrow> pin_tool option" where
  "parse_lines [] t = Some t"
| "parse_lines (s # ss) t = do { t1 \<leftarrow> parse_line s t; parse_lines ss t1 }"

definition ParseFile :: "string option \<Rightarrow> pin_tool \<Rightarrow> pin_tool option" where
  "ParseFile file t = do {
     let t1 = t\<lparr> pt_ids := (pt_ids t)(0 \<mapsto> True), pt_names := insert ''StartEndInstrument'' (pt_names t) \<rparr>;
     ls \<leftarrow> ReadLinesFromFile file (Some []) False (CHR ''#'');
     parse_lines ls t1 }"

definition InitFilteredImages :: "string option \<Rightarrow> pin_tool \<Rightarrow> pin_tool option" where
  "InitFilteredImages file t = do {
     ls \<leftarrow> ReadLinesFromFile file (Some []) False (CHR ''#'');
     Some (t\<lparr> pt_images := ls \<rparr>) }"

text \<open>The call of the monitor function with the name of a symbol; here the pointer is called as it is.\<close>

definition symbol_event :: "string \<Rightarrow> addr \<Rightarrow> event" where
  "symbol_event name a = event_Clear\<lparr> e_type := AddressOfSymbol, e_threadid := 0, e_addr := a,
     e_str := map (\<lambda>c. of_nat (of_char c)) (take 63 name) @ replicate (64 - length (take 63 name)) 0 \<rparr>"

definition CheckAndRecordRoutine :: "string \<Rightarrow> addr \<Rightarrow> pin_tool \<Rightarrow> (bool \<times> pin_tool) option" where
  "CheckAndRecordRoutine name a t = (if name \<in> pt_names t then do {
       let t1 = t\<lparr> pt_ids := (pt_ids t)(a \<mapsto> True) \<rparr>;
       safe_check (length name < 64);
       _ \<leftarrow> (if pt_monitor t1 then Some () else None);
       Some (True, t1\<lparr> pt_sent := pt_sent t1 @ [symbol_event name a] \<rparr>) }
     else if name \<in> pt_skip_names t then Some (True, t\<lparr> pt_skip_ids := (pt_skip_ids t)(a \<mapsto> True) \<rparr>)
     else Some (False, t))"

definition IsRoutineToInstrument :: "addr \<Rightarrow> pin_tool \<Rightarrow> bool" where
  "IsRoutineToInstrument a t \<longleftrightarrow> a = 0 \<or> pt_all t \<or> pt_ids t a \<noteq> None"

definition IsRoutineToSkip :: "addr \<Rightarrow> pin_tool \<Rightarrow> bool" where
  "IsRoutineToSkip a t \<longleftrightarrow> a = 0 \<or> pt_skip_ids t a \<noteq> None"

section \<open>The call stack of a thread\<close>

definition OnThreadRestart :: "nat \<Rightarrow> bool \<Rightarrow> pin_tool \<Rightarrow> pin_tool option" where
  "OnThreadRestart tid enable t = do {
     _ \<leftarrow> safe_notnull (pt_stack t tid);
     Some (t\<lparr> pt_stack := (pt_stack t)(tid \<mapsto> []), pt_inst := (pt_inst t)(tid := enable) \<rparr>) }"

definition OnFuncEnter :: "nat \<Rightarrow> addr \<Rightarrow> pin_tool \<Rightarrow> (bool \<times> pin_tool) option" where
  "OnFuncEnter tid a t = (if \<not> pt_enabled t then Some (False, t)
     else if IsPLT a t then Some (False, t)
     else let enabled = pt_inst t tid in
       if IsRoutineToInstrument a t then do {
         t1 \<leftarrow> (if \<not> enabled then OnThreadRestart tid True t else Some t);
         st \<leftarrow> safe_notnull (pt_stack t1 tid);
         Some (True, t1\<lparr> pt_stack := (pt_stack t1)(tid \<mapsto> st @ [a]) \<rparr>) }
       else Some (enabled, t))"

definition OnFuncReturn :: "nat \<Rightarrow> addr \<Rightarrow> pin_tool \<Rightarrow> (bool \<times> pin_tool) option" where
  "OnFuncReturn tid a t = (if \<not> pt_enabled t then Some (False, t)
     else if IsPLT a t then Some (False, t)
     else if pt_inst t tid then do {
       st \<leftarrow> safe_notnull (pt_stack t tid);
       safe_assert (st \<noteq> []);
       (if IsRoutineToInstrument a t then do {
          safe_assert (a = last st);
          Some (True, t\<lparr> pt_stack := (pt_stack t)(tid \<mapsto> butlast st), pt_inst := (pt_inst t)(tid := butlast st \<noteq> []) \<rparr>) }
        else Some (True, t)) }
     else Some (False, t))"

definition OnInstruction :: "nat \<Rightarrow> pin_tool \<Rightarrow> bool" where
  "OnInstruction tid t \<longleftrightarrow> pt_enabled t \<and> pt_inst t tid"

definition PinEnable :: "pin_tool \<Rightarrow> pin_tool" where
  "PinEnable t = t\<lparr> pt_enabled := True \<rparr>"

definition PinDisable :: "pin_tool \<Rightarrow> pin_tool" where
  "PinDisable t = t\<lparr> pt_enabled := False \<rparr>"

definition ThreadRestart :: "nat \<Rightarrow> pin_tool \<Rightarrow> pin_tool option" where
  "ThreadRestart tid t = OnThreadRestart tid False t"

definition StartInstrument :: "nat \<Rightarrow> pin_tool \<Rightarrow> pin_tool option" where
  "StartInstrument tid t = do { safe_assert (\<not> IsPLT 0 t); (b, t1) \<leftarrow> OnFuncEnter tid 0 t; Some t1 }"

definition EndInstrument :: "nat \<Rightarrow> pin_tool \<Rightarrow> pin_tool option" where
  "EndInstrument tid t = do { safe_assert (\<not> IsPLT 0 t); (b, t1) \<leftarrow> OnFuncReturn tid 0 t; Some t1 }"

definition PinToolShutdown :: "pin_tool \<Rightarrow> pin_tool" where
  "PinToolShutdown t = PinSourceLocation_clear (PinDisable t)"

definition PinToolInit :: "pin_options \<Rightarrow> pin_tool \<Rightarrow> pin_tool" where
  "PinToolInit opts t = t\<lparr> pt_options := opts \<rparr>"

text \<open>The start and the end of a thread.  The arrays have \<open>max_threads\<close> entries, PIN_MAX_THREADS of Pin; a write
  behind them is an abort here.\<close>

definition PinThreadStart :: "nat \<Rightarrow> nat \<Rightarrow> pin_tool \<Rightarrow> pin_tool option" where
  "PinThreadStart max_threads tid t = do {
     safe_assert (BETWEEN 0 (int tid) (int max_threads));
     _ \<leftarrow> (if tid < max_threads then Some () else None);
     Some (t\<lparr> pt_inst := (pt_inst t)(tid := False), pt_stack := (pt_stack t)(tid \<mapsto> []) \<rparr>) }"

definition PinThreadFini :: "nat \<Rightarrow> nat \<Rightarrow> pin_tool \<Rightarrow> pin_tool option" where
  "PinThreadFini max_threads tid t = do {
     safe_assert (BETWEEN 0 (int tid) (int max_threads));
     _ \<leftarrow> safe_notnull (pt_stack t tid);
     Some (t\<lparr> pt_stack := (pt_stack t)(tid := None) \<rparr>) }"

text \<open>main up to the registration of the callbacks: the two files and the options of the command line.\<close>

definition pin_main :: "string option \<Rightarrow> string option \<Rightarrow> bool \<Rightarrow> bool \<Rightarrow> pin_tool \<Rightarrow> pin_tool option" where
  "pin_main finfile images top_level track t = do {
     t1 \<leftarrow> ParseFile finfile t;
     t2 \<leftarrow> InitFilteredImages images t1;
     Some (t2\<lparr> pt_options := (pt_options t2)\<lparr> po_InstrTopLevelFuncs := top_level, po_TrackFuncCalls := track \<rparr> \<rparr>) }"

section \<open>What the file of functions says\<close>

lemma parse_lines_sets:
  "[] \<notin> set ss \<Longrightarrow> \<exists>t'. parse_lines ss t = Some t'
    \<and> pt_skip_names t' = pt_skip_names t \<union> {s. CHR ''-'' # s \<in> set ss}
    \<and> pt_names t' = pt_names t \<union> {s \<in> set ss. hd s \<noteq> CHR ''-'' \<and> s \<noteq> ''All''}
    \<and> (pt_all t' \<longleftrightarrow> pt_all t \<or> ''All'' \<in> set ss)"
proof (induction ss arbitrary: t)
  case (Cons s ss)
  obtain c s' where s: "s = c # s'" using Cons.prems by (cases s) auto
  obtain t1 where t1: "parse_line s t = Some t1"
    "t1 = (if c = CHR ''-'' then t\<lparr> pt_skip_names := insert s' (pt_skip_names t) \<rparr> else if s = ''All'' then t\<lparr> pt_all := True \<rparr>
      else t\<lparr> pt_names := insert s (pt_names t) \<rparr>)" by (simp add: parse_line_def s)
  show ?case using Cons.IH [of t1] Cons.prems t1 s by (auto split: if_splits)
qed simp

text \<open>A routine to instrument that is seen before the library is loaded calls the monitor through a null pointer.\<close>

lemma record_before_load: "name \<in> pt_names t \<Longrightarrow> \<not> pt_monitor t \<Longrightarrow> CheckAndRecordRoutine name a t = None"
  by (simp add: CheckAndRecordRoutine_def safe_check_def)

end
