(* ===== verification/Pin_Instrument.thy ===== *)
theory Pin_Instrument
  imports Pin_Tool "HOL-Library.Sublist"
begin

text \<open>
  What pintool/instrumenter.cpp inserts into a program, and what a thread that runs the program reports: the filters
  of images and routines, the analysis calls at routines and instructions, and their run along the calls and
  returns of a thread.
\<close>

section \<open>Inserted calls\<close>

datatype ipoint = IPOINT_BEFORE | IPOINT_AFTER | IPOINT_TAKEN_BRANCH

text \<open>The If call of a pair, and the Then call, with the address that names its source location.\<close>

datatype guard = Always | If_OnFuncEnter addr | If_OnFuncReturn addr | If_OnInstruction

datatype analysis =
    Do_FuncCall bool addr "addr option" addr
  | Do_FuncEnter addr
  | Do_FuncEnterEx addr
  | Do_FuncReturn addr addr
  | Do_MemWrite addr
  | Do_MemRead2 addr
  | Do_MemRead addr
  | Do_MemAccessBefore addr
  | Do_MemAccessAfter addr
  | Do_StartInstrument
  | Do_EndInstrument

type_synonym hook = "ipoint \<times> guard \<times> analysis"

text \<open>The routines of the library itself that the tool listens to.\<close>

datatype native = PinEnable_call | PinDisable_call | ThreadRestart_call | StartInstrument_call | EndInstrument_call
  | PinToolShutdown_call | PinToolInit_call

definition native_call :: "string \<Rightarrow> native option" where
  "native_call name = map_of [(''EnablePinTool'', PinEnable_call), (''DisablePinTool'', PinDisable_call),
     (''ThreadRestart'', ThreadRestart_call), (''StartInstrument'', StartInstrument_call), (''EndInstrument'', EndInstrument_call),
     (''ShutdownPinTool'', PinToolShutdown_call), (''InitPinTool'', PinToolInit_call)] name"

definition OnLoadConcurrit :: "image \<Rightarrow> pin_tool \<Rightarrow> ((addr \<times> native) list \<times> pin_tool) option" where
  "OnLoadConcurrit img t = do {
     safe_assert (\<not> pt_loaded t);
     let found = (''CallPinMonitor'' \<in> set (map fst (im_rtns img)));
     let t1 = t\<lparr> pt_monitor := pt_monitor t \<or> found \<rparr>;
     safe_check (pt_monitor t1);
     Some (List.map_filter (\<lambda>(name, a). if name = ''CallPinMonitor'' then None else map_option (Pair a) (native_call name)) (im_rtns img),
       t1\<lparr> pt_loaded := True \<rparr>) }"

section \<open>Filters\<close>

definition IsImageFiltered :: "image \<Rightarrow> pin_tool \<Rightarrow> (bool \<times> (addr \<times> native) list \<times> pin_tool) option" where
  "IsImageFiltered img t = (if im_main img then Some (True, [], t)
     else case pt_image_ids t (im_id img) of
       Some v \<Rightarrow> Some (v, [], t)
     | None \<Rightarrow> (case find (\<lambda>f. sublist f (im_name img)) (pt_images t) of
         None \<Rightarrow> Some (False, [], t\<lparr> pt_image_ids := (pt_image_ids t)(im_id img \<mapsto> False) \<rparr>)
       | Some f \<Rightarrow> (let t1 = t\<lparr> pt_image_ids := (pt_image_ids t)(im_id img \<mapsto> True) \<rparr> in
           if \<not> pt_loaded t \<and> f = ''libconcurrit.so''
           then do { (ns, t2) \<leftarrow> OnLoadConcurrit img t1; Some (True, ns, t2) }
           else Some (True, [], t1))))"

definition IsRoutineFiltered :: "routine \<Rightarrow> pin_tool \<Rightarrow> (bool \<times> (addr \<times> native) list \<times> pin_tool) option" where
  "IsRoutineFiltered r t = do {
     (b, ns, t1) \<leftarrow> IsImageFiltered (rt_image r) t;
     Some (b \<or> IsRoutineToSkip (rt_addr r) t1 \<or> po_InstrTopLevelFuncs (pt_options t1) \<and> \<not> IsRoutineToInstrument (rt_addr r) t1, ns, t1) }"

definition ImageLoad :: "image \<Rightarrow> pin_tool \<Rightarrow> ((addr \<times> native) list \<times> pin_tool) option" where
  "ImageLoad img t = do { (b, ns, t1) \<leftarrow> IsImageFiltered img t; Some (ns, t1) }"

definition ImageUnload :: "image \<Rightarrow> pin_tool \<Rightarrow> pin_tool" where
  "ImageUnload img t = t\<lparr> pt_image_ids := (pt_image_ids t)(im_id img := None) \<rparr>"

section \<open>Instrumentation\<close>

text \<open>The branch for TARGET_IA32 is not part of the 64-bit build.\<close>

definition CallTrace :: "(addr \<Rightarrow> int \<times> int \<times> string) \<Rightarrow> instruction \<Rightarrow> routine \<Rightarrow> pin_tool \<Rightarrow> hook list \<times> pin_tool" where
  "CallTrace describe i r t = (let loc = PinSourceLocation_get describe (Some r) (in_addr i) t; a = rt_addr r in
     if po_TrackFuncCalls (pt_options t) \<and> in_call i \<and> in_procedure_call i \<and> \<not> in_syscall i
     then (if \<not> in_direct i then ([(IPOINT_BEFORE, If_OnInstruction, Do_FuncCall False (in_addr i) None a)], loc)
           else ([(IPOINT_BEFORE, Always, Do_FuncCall True (in_addr i) (Some (in_target i)) a)], loc))
     else if in_ret i \<and> \<not> in_sysret i
     then ([(IPOINT_BEFORE, if IsRoutineToInstrument a t then If_OnFuncReturn a else If_OnInstruction, Do_FuncReturn (in_addr i) a)], loc)
     else ([], t))"

definition MemoryTrace :: "(addr \<Rightarrow> int \<times> int \<times> string) \<Rightarrow> instruction \<Rightarrow> routine \<Rightarrow> pin_tool \<Rightarrow> hook list \<times> pin_tool" where
  "MemoryTrace describe i r t = (let is_access = in_write i \<or> in_read2 i \<or> in_read i \<and> \<not> in_prefetch i;
       after = po_InstrAfterMemoryAccess (pt_options t); a = in_addr i in
     if in_stack_read i \<or> in_stack_write i then ([], t)
     else if \<not> is_access then ([], t)
     else if after \<and> \<not> in_fall_through i \<and> \<not> in_branch_or_call i then ([], t)
     else ((if in_write i then [(IPOINT_BEFORE, If_OnInstruction, Do_MemWrite a)] else [])
         @ (if in_read2 i then [(IPOINT_BEFORE, If_OnInstruction, Do_MemRead2 a)] else [])
         @ (if in_read i \<and> \<not> in_prefetch i then [(IPOINT_BEFORE, If_OnInstruction, Do_MemRead a)] else [])
         @ [(IPOINT_BEFORE, If_OnInstruction, Do_MemAccessBefore a)]
         @ (if after \<and> in_fall_through i then [(IPOINT_AFTER, If_OnInstruction, Do_MemAccessAfter a)] else [])
         @ (if after \<and> in_branch_or_call i then [(IPOINT_TAKEN_BRANCH, If_OnInstruction, Do_MemAccessAfter a)] else []),
       PinSourceLocation_get describe (Some r) a t))"

definition Instruction :: "(addr \<Rightarrow> int \<times> int \<times> string) \<Rightarrow> instruction \<Rightarrow> routine \<Rightarrow> pin_tool \<Rightarrow> hook list \<times> pin_tool" where
  "Instruction describe i r t = (if in_original i
     then (let (h1, t1) = MemoryTrace describe i r t; (h2, t2) = CallTrace describe i r t1 in (h1 @ h2, t2))
     else ([], t))"

text \<open>One instruction of Trace.  Whether the filter of INSTLIB selects the trace is an argument.\<close>

definition Trace_ins :: "(addr \<Rightarrow> int \<times> int \<times> string) \<Rightarrow> bool \<Rightarrow> instruction \<Rightarrow> routine \<Rightarrow> pin_tool \<Rightarrow> (hook list \<times> pin_tool) option" where
  "Trace_ins describe select i r t = (if \<not> select then Some ([], t)
     else do {
       (filtered, ns, t1) \<leftarrow> IsRoutineFiltered r t;
       Some (if filtered then ([], t1) else Instruction describe i r t1) })"

definition routine_hooks :: "routine \<Rightarrow> pin_tool \<Rightarrow> hook list" where
  "routine_hooks r t = (let a = rt_addr r in
     if rt_name r = ''StartInstrument'' then [(IPOINT_BEFORE, Always, Do_StartInstrument)]
     else if rt_name r = ''EndInstrument'' then [(IPOINT_BEFORE, Always, Do_EndInstrument)]
     else if rt_head r then [(IPOINT_BEFORE, if IsRoutineToInstrument a t then If_OnFuncEnter a else If_OnInstruction, Do_FuncEnter a)]
     else [(IPOINT_BEFORE, Always, Do_FuncEnterEx a)])"

definition Routine :: "(addr \<Rightarrow> int \<times> int \<times> string) \<Rightarrow> routine \<Rightarrow> pin_tool \<Rightarrow> (hook list \<times> (addr \<times> native) list \<times> pin_tool) option" where
  "Routine describe r t = do {
     (known, t1) \<leftarrow> CheckAndRecordRoutine (rt_name r) (rt_addr r) t;
     (filtered, ns, t2) \<leftarrow> IsRoutineFiltered r t1;
     if filtered then Some ([], ns, t2)
     else if rt_name r = ''.plt'' then Some ([], ns, AddToPLT (rt_addr r) t2)
     else (let t3 = PinSourceLocation_get describe (Some r) (rt_addr r) t2 in Some (routine_hooks r t3, ns, t3)) }"

section \<open>Analysis\<close>

record rt_args =
  ra_target :: addr
  ra_arg0 :: addr
  ra_arg1 :: addr
  ra_write :: "addr \<times> 32 word"
  ra_read2 :: addr
  ra_read :: "addr \<times> 32 word"
  ra_ret :: addr

definition CallNativePinMonitor :: "event \<Rightarrow> pin_tool \<Rightarrow> pin_tool" where
  "CallNativePinMonitor e t = (if pt_monitor t then t\<lparr> pt_sent := pt_sent t @ [e] \<rparr> else t)"

definition pin_event :: "EventKind \<Rightarrow> nat \<Rightarrow> addr \<Rightarrow> event" where
  "pin_event k tid loc = event_Clear\<lparr> e_type := k, e_threadid := of_nat tid, e_loc_src := Some (unat loc) \<rparr>"

text \<open>The event that an analysis call sends, from its static and its runtime arguments.\<close>

fun event_of :: "nat \<Rightarrow> rt_args \<Rightarrow> analysis \<Rightarrow> event" where
  "event_of tid x (Do_FuncCall direct loc target a) = (let tg = (case target of Some d \<Rightarrow> d | None \<Rightarrow> ra_target x) in
     (pin_event FuncCall tid loc)\<lparr> e_addr := a, e_addr_target := tg, e_direct := (if direct then 1 else 0),
       e_loc_target := Some (unat tg), e_arg0 := ra_arg0 x, e_arg1 := ra_arg1 x \<rparr>)"
| "event_of tid x (Do_FuncEnter loc) = (pin_event FuncEnter tid loc)\<lparr> e_addr := loc, e_arg0 := ra_arg0 x, e_arg1 := ra_arg1 x \<rparr>"
| "event_of tid x (Do_FuncEnterEx loc) = (pin_event FuncEnter tid loc)\<lparr> e_addr := loc, e_arg0 := ra_arg0 x, e_arg1 := ra_arg1 x \<rparr>"
| "event_of tid x (Do_FuncReturn loc a) = (pin_event FuncReturn tid loc)\<lparr> e_addr := a, e_retval := ra_ret x \<rparr>"
| "event_of tid x (Do_MemWrite loc) = (pin_event MemWrite tid loc)\<lparr> e_addr := fst (ra_write x), e_size := snd (ra_write x) \<rparr>"
| "event_of tid x (Do_MemRead2 loc) = (pin_event MemRead tid loc)\<lparr> e_addr := ra_read2 x, e_size := snd (ra_read x) \<rparr>"
| "event_of tid x (Do_MemRead loc) = (pin_event MemRead tid loc)\<lparr> e_addr := fst (ra_read x), e_size := snd (ra_read x) \<rparr>"
| "event_of tid x (Do_MemAccessBefore loc) = pin_event MemAccessBefore tid loc"
| "event_of tid x (Do_MemAccessAfter loc) = pin_event MemAccessAfter tid loc"
| "event_of tid x Do_StartInstrument = event_Clear"
| "event_of tid x Do_EndInstrument = event_Clear"

definition eval_guard :: "nat \<Rightarrow> guard \<Rightarrow> pin_tool \<Rightarrow> (bool \<times> pin_tool) option" where
  "eval_guard tid g t = (case g of
     Always \<Rightarrow> Some (True, t)
   | If_OnFuncEnter a \<Rightarrow> OnFuncEnter tid a t
   | If_OnFuncReturn a \<Rightarrow> OnFuncReturn tid a t
   | If_OnInstruction \<Rightarrow> Some (OnInstruction tid t, t))"

text \<open>The location of the target of a call is that of the address alone: its routine is looked up by Pin (\<open>rtn_at\<close>).\<close>

definition analyse :: "(addr \<Rightarrow> int \<times> int \<times> string) \<Rightarrow> (addr \<Rightarrow> routine option) \<Rightarrow> nat \<Rightarrow> rt_args \<Rightarrow> analysis \<Rightarrow> pin_tool \<Rightarrow> pin_tool option" where
  "analyse describe rtn_at tid x c t = (case c of
     Do_FuncCall direct loc target a \<Rightarrow>
       (let tg = (case target of Some d \<Rightarrow> d | None \<Rightarrow> ra_target x) in
        Some (CallNativePinMonitor (event_of tid x c) (PinSourceLocation_get describe (rtn_at tg) tg t)))
   | Do_FuncEnterEx loc \<Rightarrow> do {
       (b, t1) \<leftarrow> OnFuncEnter tid loc t;
       Some (if b then CallNativePinMonitor (event_of tid x c) t1 else t1) }
   | Do_StartInstrument \<Rightarrow> StartInstrument tid t
   | Do_EndInstrument \<Rightarrow> EndInstrument tid t
   | _ \<Rightarrow> Some (CallNativePinMonitor (event_of tid x c) t))"

section \<open>A thread that runs instrumented code\<close>

text \<open>A run of a thread: instructions, calls of routines with their return instruction, and the stretch between
  the program's calls of StartInstrument and EndInstrument.  Pin instruments what the thread executes; the inserted
  calls before an instruction run in their order, a Then call when its If call says so.\<close>

datatype code =
    Step instruction rt_args
  | CallRtn routine rt_args "code list" instruction rt_args
  | Region "code list"

fun run_hooks :: "(addr \<Rightarrow> int \<times> int \<times> string) \<Rightarrow> (addr \<Rightarrow> routine option) \<Rightarrow> nat \<Rightarrow> rt_args \<Rightarrow> hook list \<Rightarrow> pin_tool \<Rightarrow> pin_tool option" where
  "run_hooks describe rtn_at tid x [] t = Some t"
| "run_hooks describe rtn_at tid x ((p, g, c) # hs) t = (if p = IPOINT_BEFORE
     then do {
       (b, t1) \<leftarrow> eval_guard tid g t;
       t2 \<leftarrow> (if b then analyse describe rtn_at tid x c t1 else Some t1);
       run_hooks describe rtn_at tid x hs t2 }
     else run_hooks describe rtn_at tid x hs t)"

definition run_ins :: "(addr \<Rightarrow> int \<times> int \<times> string) \<Rightarrow> (addr \<Rightarrow> routine option) \<Rightarrow> nat \<Rightarrow> routine \<Rightarrow> instruction \<Rightarrow> rt_args \<Rightarrow> pin_tool \<Rightarrow> pin_tool option" where
  "run_ins describe rtn_at tid r i x t = do {
     (hs, t1) \<leftarrow> Trace_ins describe True i r t;
     run_hooks describe rtn_at tid x hs t1 }"

text \<open>At the entry of a routine the calls that Routine has inserted when its image was loaded.\<close>

definition run_entry :: "(addr \<Rightarrow> int \<times> int \<times> string) \<Rightarrow> (addr \<Rightarrow> routine option) \<Rightarrow> nat \<Rightarrow> routine \<Rightarrow> rt_args \<Rightarrow> pin_tool \<Rightarrow> pin_tool option" where
  "run_entry describe rtn_at tid r x t = do {
     (filtered, ns, t1) \<leftarrow> IsRoutineFiltered r t;
     run_hooks describe rtn_at tid x (if filtered \<or> rt_name r = ''.plt'' then [] else routine_hooks r t1) t1 }"

fun run_code :: "(addr \<Rightarrow> int \<times> int \<times> string) \<Rightarrow> (addr \<Rightarrow> routine option) \<Rightarrow> nat \<Rightarrow> routine \<Rightarrow> code list \<Rightarrow> pin_tool \<Rightarrow> pin_tool option" where
  "run_code describe rtn_at tid r [] t = Some t"
| "run_code describe rtn_at tid r (Step i x # cs) t = do {
     t1 \<leftarrow> run_ins describe rtn_at tid r i x t;
     run_code describe rtn_at tid r cs t1 }"
| "run_code describe rtn_at tid r (CallRtn r' x body i y # cs) t = do {
     t1 \<leftarrow> run_entry describe rtn_at tid r' x t;
     t2 \<leftarrow> run_code describe rtn_at tid r' body t1;
     t3 \<leftarrow> run_ins describe rtn_at tid r' i y t2;
     run_code describe rtn_at tid r cs t3 }"
| "run_code describe rtn_at tid r (Region body # cs) t = do {
     t1 \<leftarrow> StartInstrument tid t;
     t2 \<leftarrow> run_code describe rtn_at tid r body t1;
     t3 \<leftarrow> EndInstrument tid t2;
     run_code describe rtn_at tid r cs t3 }"

section \<open>What it should report\<close>

text \<open>The specification: a thread is watched while a routine to instrument, or a region, is active, and only
  then do its instructions and routines report, as far as they are not filtered.  Direct calls always report.\<close>

definition filtered :: "pin_tool \<Rightarrow> routine \<Rightarrow> bool" where
  "filtered t r \<longleftrightarrow> im_main (rt_image r) \<or> pt_image_ids t (im_id (rt_image r)) = Some True \<or> IsRoutineToSkip (rt_addr r) t
     \<or> po_InstrTopLevelFuncs (pt_options t) \<and> \<not> IsRoutineToInstrument (rt_addr r) t"

definition call_report :: "nat \<Rightarrow> pin_tool \<Rightarrow> bool \<Rightarrow> routine \<Rightarrow> instruction \<Rightarrow> rt_args \<Rightarrow> event list" where
  "call_report tid t watched r i x = (if po_TrackFuncCalls (pt_options t) \<and> in_call i \<and> in_procedure_call i \<and> \<not> in_syscall i
       \<and> (in_direct i \<or> watched)
     then [event_of tid x (Do_FuncCall (in_direct i) (in_addr i) (if in_direct i then Some (in_target i) else None) (rt_addr r))] else [])"

definition memory_report :: "nat \<Rightarrow> bool \<Rightarrow> instruction \<Rightarrow> rt_args \<Rightarrow> event list" where
  "memory_report tid watched i x = (if watched \<and> \<not> in_stack_read i \<and> \<not> in_stack_write i \<and> (in_write i \<or> in_read2 i \<or> in_read i \<and> \<not> in_prefetch i)
     then map (event_of tid x) ((if in_write i then [Do_MemWrite (in_addr i)] else []) @ (if in_read2 i then [Do_MemRead2 (in_addr i)] else [])
       @ (if in_read i \<and> \<not> in_prefetch i then [Do_MemRead (in_addr i)] else []) @ [Do_MemAccessBefore (in_addr i)]) else [])"

definition starts :: "pin_tool \<Rightarrow> routine \<Rightarrow> bool" where
  "starts t r \<longleftrightarrow> pt_enabled t \<and> \<not> filtered t r \<and> rt_name r \<noteq> ''.plt'' \<and> IsRoutineToInstrument (rt_addr r) t"

definition plain :: "pin_tool \<Rightarrow> bool \<Rightarrow> routine \<Rightarrow> bool" where
  "plain t watched r \<longleftrightarrow> watched \<and> \<not> filtered t r \<and> \<not> IsRoutineToInstrument (rt_addr r) t"

fun report :: "nat \<Rightarrow> pin_tool \<Rightarrow> bool \<Rightarrow> routine \<Rightarrow> code list \<Rightarrow> event list" where
  "report tid t watched r [] = []"
| "report tid t watched r (Step i x # cs) =
     (if filtered t r \<or> \<not> in_original i then [] else memory_report tid watched i x @ call_report tid t watched r i x)
     @ report tid t watched r cs"
| "report tid t watched r (CallRtn r' x body i y # cs) =
     (if starts t r' \<or> plain t watched r' \<and> rt_name r' \<noteq> ''.plt'' then [event_of tid x (Do_FuncEnter (rt_addr r'))] else [])
     @ report tid t (watched \<or> starts t r') r' body
     @ (if starts t r' \<or> plain t watched r' then [event_of tid y (Do_FuncReturn (in_addr i) (rt_addr r'))] else [])
     @ report tid t watched r cs"
| "report tid t watched r (Region body # cs) = report tid t (watched \<or> pt_enabled t) r body @ report tid t watched r cs"

text \<open>The images are known, the PLT routines of the others recorded, and a return is a plain return instruction.\<close>

definition routine_ok :: "pin_tool \<Rightarrow> routine \<Rightarrow> bool" where
  "routine_ok t r \<longleftrightarrow> (im_main (rt_image r) \<or> pt_image_ids t (im_id (rt_image r)) \<noteq> None) \<and> (filtered t r \<or> (IsPLT (rt_addr r) t \<longleftrightarrow> rt_name r = ''.plt''))
     \<and> rt_name r \<noteq> ''StartInstrument'' \<and> rt_name r \<noteq> ''EndInstrument''"

definition plain_return :: "instruction \<Rightarrow> bool" where
  "plain_return i \<longleftrightarrow> in_original i \<and> in_ret i \<and> \<not> in_sysret i \<and> \<not> in_call i \<and> in_stack_read i"

fun code_ok :: "pin_tool \<Rightarrow> code list \<Rightarrow> bool" where
  "code_ok t [] \<longleftrightarrow> True"
| "code_ok t (Step i x # cs) \<longleftrightarrow> (\<not> in_ret i \<or> in_sysret i) \<and> code_ok t cs"
| "code_ok t (CallRtn r x body i y # cs) \<longleftrightarrow> routine_ok t r \<and> plain_return i \<and> code_ok t body \<and> code_ok t cs"
| "code_ok t (Region body # cs) \<longleftrightarrow> \<not> IsPLT 0 t \<and> code_ok t body \<and> code_ok t cs"

section \<open>The run is as specified\<close>

text \<open>What a run may change for good: the known locations and the calls of the monitor.\<close>

definition moved :: "(addr \<rightharpoonup> src_loc) \<Rightarrow> event list \<Rightarrow> pin_tool \<Rightarrow> pin_tool" where
  "moved L es t = t\<lparr> pt_locs := L, pt_sent := pt_sent t @ es \<rparr>"

lemma moved_fields [simp]:
  "pt_options (moved L es t) = pt_options t" "pt_ids (moved L es t) = pt_ids t" "pt_skip_ids (moved L es t) = pt_skip_ids t"
  "pt_all (moved L es t) = pt_all t" "pt_enabled (moved L es t) = pt_enabled t" "pt_plt (moved L es t) = pt_plt t"
  "pt_image_ids (moved L es t) = pt_image_ids t" "pt_monitor (moved L es t) = pt_monitor t" "pt_locs (moved L es t) = L"
  "pt_inst (moved L es t) = pt_inst t" "pt_stack (moved L es t) = pt_stack t" "pt_sent (moved L es t) = pt_sent t @ es"
  by (simp_all add: moved_def)

lemma moved_moved [simp]: "moved L es (moved L' es' t) = moved L (es' @ es) t"
  by (simp add: moved_def)

lemma moved_refl: "t = moved (pt_locs t) [] t"
  by (cases t) (simp add: moved_def)

lemma moved_push: "(moved L es t)\<lparr> pt_stack := f, pt_inst := g \<rparr> = moved L es (t\<lparr> pt_stack := f, pt_inst := g \<rparr>)"
  by (simp add: moved_def)

lemma IsPLT_moved [simp]: "IsPLT a (moved L es t) = IsPLT a t"
  by (simp add: IsPLT_def)

lemma tool_moved [simp]:
  "IsRoutineToInstrument a (moved L es t) = IsRoutineToInstrument a t" "IsRoutineToSkip a (moved L es t) = IsRoutineToSkip a t"
  "OnInstruction tid (moved L es t) = OnInstruction tid t" "filtered (moved L es t) r = filtered t r"
  "starts (moved L es t) r = starts t r" "plain (moved L es t) w r = plain t w r"
  by (simp_all add: IsRoutineToInstrument_def IsRoutineToSkip_def OnInstruction_def filtered_def starts_def plain_def)

lemma report_moved [simp]: "report tid (moved L es t) w r cs = report tid t w r cs"
  by (induction tid t w r cs rule: report.induct) (simp_all add: call_report_def)

lemma code_ok_moved [simp]: "routine_ok (moved L es t) r = routine_ok t r" "code_ok (moved L es t) cs = code_ok t cs"
  by (induction t cs rule: code_ok.induct) (simp_all add: routine_ok_def)

text \<open>The same for the stack and the flag of a thread.\<close>

definition watching :: "nat \<Rightarrow> addr list \<Rightarrow> pin_tool \<Rightarrow> pin_tool" where
  "watching tid st t = t\<lparr> pt_stack := (pt_stack t)(tid \<mapsto> st), pt_inst := (pt_inst t)(tid := st \<noteq> []) \<rparr>"

lemma watching_fields [simp]:
  "pt_options (watching tid st t) = pt_options t" "pt_ids (watching tid st t) = pt_ids t" "pt_skip_ids (watching tid st t) = pt_skip_ids t"
  "pt_all (watching tid st t) = pt_all t" "pt_enabled (watching tid st t) = pt_enabled t" "pt_plt (watching tid st t) = pt_plt t"
  "pt_image_ids (watching tid st t) = pt_image_ids t" "pt_monitor (watching tid st t) = pt_monitor t"
  "pt_locs (watching tid st t) = pt_locs t" "pt_inst (watching tid st t) tid \<longleftrightarrow> st \<noteq> []"
  "pt_stack (watching tid st t) tid = Some st" "pt_sent (watching tid st t) = pt_sent t"
  by (simp_all add: watching_def)

lemma watching_watching [simp]: "watching tid st (watching tid st' t) = watching tid st t"
  by (simp add: watching_def)

lemma watching_moved [simp]: "watching tid st (moved L es t) = moved L es (watching tid st t)"
  by (simp add: watching_def moved_def)

lemma watching_refl: "pt_stack t tid = Some st \<Longrightarrow> pt_inst t tid = (st \<noteq> []) \<Longrightarrow> watching tid st t = t"
  by (simp add: watching_def fun_upd_idem)

lemma tool_watching [simp]:
  "IsPLT a (watching tid st t) = IsPLT a t" "IsRoutineToInstrument a (watching tid st t) = IsRoutineToInstrument a t"
  "IsRoutineToSkip a (watching tid st t) = IsRoutineToSkip a t" "filtered (watching tid st t) r = filtered t r"
  "starts (watching tid st t) r = starts t r" "plain (watching tid st t) w r = plain t w r"
  by (simp_all add: IsPLT_def IsRoutineToInstrument_def IsRoutineToSkip_def filtered_def starts_def plain_def)

lemma report_watching [simp]: "report tid' (watching tid st t) w r cs = report tid' t w r cs"
  by (induction tid' t w r cs rule: report.induct) (simp_all add: call_report_def)

lemma code_ok_watching [simp]: "routine_ok (watching tid st t) r = routine_ok t r" "code_ok (watching tid st t) cs = code_ok t cs"
  by (induction t cs rule: code_ok.induct) (simp_all add: routine_ok_def)

text \<open>The operations on the call stack in these terms.\<close>

lemma enter_instrument:
  assumes "pt_stack t tid = Some st" "pt_inst t tid = (st \<noteq> [])" "pt_enabled t" "\<not> IsPLT a t" "IsRoutineToInstrument a t"
  shows "OnFuncEnter tid a t = Some (True, watching tid (st @ [a]) t)"
  using assms by (cases "st = []") (simp_all add: OnFuncEnter_def OnThreadRestart_def safe_notnull_def watching_def fun_upd_idem)

lemma return_instrument:
  assumes "pt_stack t tid = Some (st @ [a])" "pt_inst t tid" "pt_enabled t" "\<not> IsPLT a t" "IsRoutineToInstrument a t"
  shows "OnFuncReturn tid a t = Some (True, watching tid st t)"
  using assms by (simp add: OnFuncReturn_def safe_notnull_def watching_def)

lemma enter_other: "\<not> pt_enabled t \<or> \<not> IsPLT a t \<and> \<not> IsRoutineToInstrument a t \<Longrightarrow> OnFuncEnter tid a t = Some (OnInstruction tid t, t)"
  by (auto simp: OnFuncEnter_def OnInstruction_def)

lemma return_off: "\<not> pt_enabled t \<or> IsPLT a t \<Longrightarrow> OnFuncReturn tid a t = Some (False, t)"
  by (simp add: OnFuncReturn_def)

text \<open>The analysis calls that send one event, and lists of inserted calls that only look at whether the thread is
  watched.\<close>

fun sends :: "analysis \<Rightarrow> bool" where
  "sends (Do_FuncEnterEx loc) = False"
| "sends Do_StartInstrument = False"
| "sends Do_EndInstrument = False"
| "sends c = True"

fun simple_hook :: "hook \<Rightarrow> bool" where
  "simple_hook (p, g, c) \<longleftrightarrow> p = IPOINT_BEFORE \<and> (g = Always \<or> g = If_OnInstruction) \<and> sends c"

fun hook_report :: "nat \<Rightarrow> bool \<Rightarrow> rt_args \<Rightarrow> hook \<Rightarrow> event list" where
  "hook_report tid watched x (p, g, c) = (if g = Always \<or> watched then [event_of tid x c] else [])"

lemma get_moved: "\<exists>L. PinSourceLocation_get describe r a t = moved L [] t"
proof (cases "pt_locs t a")
  case None
  then show ?thesis by (auto simp: PinSourceLocation_get_def moved_def)
next
  case (Some l)
  then show ?thesis using moved_refl [of t] by (auto simp: PinSourceLocation_get_def)
qed

lemma native_moved: "pt_monitor t \<Longrightarrow> CallNativePinMonitor e t = moved (pt_locs t) [e] t"
  by (simp add: CallNativePinMonitor_def moved_def)

lemma analyse_sends:
  assumes "pt_monitor t" "sends c"
  shows "\<exists>L. analyse describe rtn_at tid x c t = Some (moved L [event_of tid x c] t)"
proof (cases c)
  case (Do_FuncCall direct loc target a)
  let ?tg = "case target of Some d \<Rightarrow> d | None \<Rightarrow> ra_target x"
  obtain L where "PinSourceLocation_get describe (rtn_at ?tg) ?tg t = moved L [] t" using get_moved by blast
  then show ?thesis using assms(1) by (auto simp: Do_FuncCall analyse_def native_moved Let_def simp del: event_of.simps)
qed (use assms in \<open>auto simp: analyse_def native_moved simp del: event_of.simps\<close>)

lemma run_simple_hooks:
  "\<forall>h \<in> set hs. simple_hook h \<Longrightarrow> pt_monitor t
    \<Longrightarrow> \<exists>L. run_hooks describe rtn_at tid x hs t = Some (moved L (concat (map (hook_report tid (OnInstruction tid t) x) hs)) t)"
proof (induction hs arbitrary: t)
  case Nil
  then show ?case using moved_refl [of t] by auto
next
  case (Cons h hs)
  obtain p g c where h: "h = (p, g, c)" by (cases h)
  have c: "p = IPOINT_BEFORE" "g = Always \<or> g = If_OnInstruction" "sends c" using Cons.prems(1) h by auto
  show ?case
  proof (cases "g = Always \<or> OnInstruction tid t")
    case True
    obtain L where e: "analyse describe rtn_at tid x c t = Some (moved L [event_of tid x c] t)"
      using analyse_sends [OF Cons.prems(2) c(3)] by blast
    have "eval_guard tid g t = Some (True, t)" using c(2) True by (auto simp: eval_guard_def)
    then show ?thesis
      using Cons.IH [of "moved L [event_of tid x c] t"] Cons.prems h c(1) e True by (auto simp del: event_of.simps)
  next
    case False
    then have "eval_guard tid g t = Some (False, t)" using c(2) by (auto simp: eval_guard_def)
    then show ?thesis using Cons.IH [of t] Cons.prems h c(1) False by auto
  qed
qed

lemma filtered_known:
  "im_main (rt_image r) \<or> pt_image_ids t (im_id (rt_image r)) \<noteq> None \<Longrightarrow> IsRoutineFiltered r t = Some (filtered t r, [], t)"
  by (auto simp: IsRoutineFiltered_def IsImageFiltered_def filtered_def split: option.splits)

declare event_of.simps [simp del]

lemma memory_hooks:
  assumes "\<not> po_InstrAfterMemoryAccess (pt_options t)"
  shows "\<exists>hs L. MemoryTrace describe i r t = (hs, moved L [] t) \<and> (\<forall>h \<in> set hs. simple_hook h)
    \<and> concat (map (hook_report tid w x) hs) = memory_report tid w i x"
proof (cases "in_stack_read i \<or> in_stack_write i \<or> \<not> (in_write i \<or> in_read2 i \<or> in_read i \<and> \<not> in_prefetch i)")
  case True
  then have "MemoryTrace describe i r t = ([], moved (pt_locs t) [] t)" "memory_report tid w i x = []"
    using moved_refl [of t] by (auto simp: MemoryTrace_def memory_report_def Let_def)
  then show ?thesis by auto
next
  case False
  obtain L where "PinSourceLocation_get describe (Some r) (in_addr i) t = moved L [] t" using get_moved by blast
  then show ?thesis using False assms by (auto simp: MemoryTrace_def memory_report_def Let_def)
qed

lemma call_hooks:
  assumes "\<not> in_ret i \<or> in_sysret i"
  shows "\<exists>hs L. CallTrace describe i r t = (hs, moved L [] t) \<and> (\<forall>h \<in> set hs. simple_hook h)
    \<and> concat (map (hook_report tid w x) hs) = call_report tid t w r i x"
proof (cases "po_TrackFuncCalls (pt_options t) \<and> in_call i \<and> in_procedure_call i \<and> \<not> in_syscall i")
  case False
  then have "CallTrace describe i r t = ([], moved (pt_locs t) [] t)" "call_report tid t w r i x = []"
    using assms moved_refl [of t] by (auto simp: CallTrace_def call_report_def Let_def)
  then show ?thesis by auto
next
  case True
  obtain L where "PinSourceLocation_get describe (Some r) (in_addr i) t = moved L [] t" using get_moved by blast
  then show ?thesis using True by (auto simp: CallTrace_def call_report_def Let_def)
qed

lemma run_ins_step:
  assumes "pt_monitor t" "\<not> po_InstrAfterMemoryAccess (pt_options t)" "routine_ok t r" "\<not> in_ret i \<or> in_sysret i"
  shows "\<exists>L. run_ins describe rtn_at tid r i x t = Some (moved L (if filtered t r \<or> \<not> in_original i then []
    else memory_report tid (OnInstruction tid t) i x @ call_report tid t (OnInstruction tid t) r i x) t)"
proof (cases "filtered t r \<or> \<not> in_original i")
  case True
  then have "run_ins describe rtn_at tid r i x t = Some t"
    using assms(3) by (auto simp: run_ins_def Trace_ins_def filtered_known routine_ok_def Instruction_def)
  then show ?thesis using True moved_refl [of t] by auto
next
  case False
  let ?w = "OnInstruction tid t"
  obtain h1 L1 where h1: "MemoryTrace describe i r t = (h1, moved L1 [] t)" "\<forall>h \<in> set h1. simple_hook h"
    "concat (map (hook_report tid ?w x) h1) = memory_report tid ?w i x" using memory_hooks [OF assms(2)] by blast
  obtain h2 L2 where h2: "CallTrace describe i r (moved L1 [] t) = (h2, moved L2 [] (moved L1 [] t))" "\<forall>h \<in> set h2. simple_hook h"
    "concat (map (hook_report tid ?w x) h2) = call_report tid t ?w r i x"
    using call_hooks [OF assms(4), of describe r "moved L1 [] t" tid ?w x] by (auto simp: call_report_def)
  have "\<forall>h \<in> set (h1 @ h2). simple_hook h" using h1(2) h2(2) by auto
  from run_simple_hooks [OF this, of "moved L2 [] t" describe rtn_at tid x] assms(1)
  obtain L where "run_hooks describe rtn_at tid x (h1 @ h2) (moved L2 [] t)
      = Some (moved L (memory_report tid ?w i x @ call_report tid t ?w r i x) t)" using h1(3) h2(3) by auto
  then show ?thesis
    using False assms(3) h1(1) h2(1) by (auto simp: run_ins_def Trace_ins_def filtered_known routine_ok_def Instruction_def)
qed

lemma run_ins_return:
  assumes "routine_ok t r" "plain_return i"
  shows "\<exists>L. run_ins describe rtn_at tid r i x t = (if filtered t r then Some t
    else run_hooks describe rtn_at tid x [(IPOINT_BEFORE, if IsRoutineToInstrument (rt_addr r) t then If_OnFuncReturn (rt_addr r) else If_OnInstruction,
      Do_FuncReturn (in_addr i) (rt_addr r))] (moved L [] t))"
proof -
  obtain L where L: "PinSourceLocation_get describe (Some r) (in_addr i) t = moved L [] t" using get_moved by blast
  have "MemoryTrace describe i r t = ([], t)" using assms(2) by (simp add: MemoryTrace_def plain_return_def Let_def)
  then have "Instruction describe i r t = ([(IPOINT_BEFORE, if IsRoutineToInstrument (rt_addr r) t then If_OnFuncReturn (rt_addr r) else If_OnInstruction,
      Do_FuncReturn (in_addr i) (rt_addr r))], moved L [] t)"
    using assms(2) L by (simp add: Instruction_def CallTrace_def plain_return_def Let_def)
  then show ?thesis
    using assms(1) by (intro exI [of _ L]) (auto simp: run_ins_def Trace_ins_def filtered_known routine_ok_def)
qed

text \<open>A routine to instrument: its entry pushes its address, its return pops it.\<close>

lemma enter_event: "event_of tid x (Do_FuncEnterEx a) = event_of tid x (Do_FuncEnter a)"
  by (simp add: event_of.simps)

lemma entry_starts:
  assumes "pt_stack t tid = Some st" "pt_inst t tid = (st \<noteq> [])" "pt_monitor t" "routine_ok t r" "starts t r"
  shows "\<exists>L. run_entry describe rtn_at tid r x t
    = Some (moved L [event_of tid x (Do_FuncEnter (rt_addr r))] (watching tid (st @ [rt_addr r]) t))"
proof -
  have "OnFuncEnter tid (rt_addr r) t = Some (True, watching tid (st @ [rt_addr r]) t)"
    by (rule enter_instrument [OF assms(1,2)]) (use assms(4,5) in \<open>auto simp: starts_def routine_ok_def\<close>)
  then show ?thesis
    using assms(3-5) by (auto simp: run_entry_def filtered_known routine_ok_def starts_def routine_hooks_def eval_guard_def analyse_def
        native_moved enter_event Let_def)
qed

lemma return_starts:
  assumes "pt_stack t tid = Some (st @ [rt_addr r])" "pt_inst t tid" "pt_monitor t" "routine_ok t r" "starts t r" "plain_return i"
  shows "\<exists>L. run_ins describe rtn_at tid r i x t
    = Some (moved L [event_of tid x (Do_FuncReturn (in_addr i) (rt_addr r))] (watching tid st t))"
proof -
  obtain L where L: "run_ins describe rtn_at tid r i x t = run_hooks describe rtn_at tid x
      [(IPOINT_BEFORE, If_OnFuncReturn (rt_addr r), Do_FuncReturn (in_addr i) (rt_addr r))] (moved L [] t)"
    using run_ins_return [OF assms(4,6), of describe rtn_at tid x] assms(5) by (auto simp: starts_def)
  have "OnFuncReturn tid (rt_addr r) (moved L [] t) = Some (True, watching tid st (moved L [] t))"
    by (rule return_instrument) (use assms in \<open>auto simp: starts_def routine_ok_def\<close>)
  then show ?thesis
    using L assms(3) by (auto simp: eval_guard_def analyse_def native_moved)
qed

text \<open>Any other routine: the stack stays as it is.\<close>

lemma entry_plain:
  assumes "pt_monitor t" "routine_ok t r" "\<not> starts t r"
  shows "\<exists>L. run_entry describe rtn_at tid r x t = Some (moved L
    (if plain t (OnInstruction tid t) r \<and> rt_name r \<noteq> ''.plt'' then [event_of tid x (Do_FuncEnter (rt_addr r))] else []) t)"
proof (cases "filtered t r \<or> rt_name r = ''.plt''")
  case True
  then have "run_entry describe rtn_at tid r x t = Some t"
    using assms(2) by (auto simp: run_entry_def filtered_known routine_ok_def)
  then show ?thesis using True moved_refl [of t] by (auto simp: plain_def)
next
  case False
  then have off: "\<not> pt_enabled t \<or> \<not> IsRoutineToInstrument (rt_addr r) t" and plt: "\<not> IsPLT (rt_addr r) t"
    using assms(2,3) by (auto simp: starts_def routine_ok_def)
  then have enter: "OnFuncEnter tid (rt_addr r) t = Some (OnInstruction tid t, t)" by (intro enter_other) auto
  have w: "OnInstruction tid t \<Longrightarrow> \<not> IsRoutineToInstrument (rt_addr r) t" using off by (auto simp: OnInstruction_def)
  show ?thesis
  proof (cases "OnInstruction tid t")
    case True
    then have "\<exists>L. run_entry describe rtn_at tid r x t = Some (moved L [event_of tid x (Do_FuncEnter (rt_addr r))] t)"
      using False assms(1,2) enter w by (auto simp: run_entry_def filtered_known routine_ok_def routine_hooks_def eval_guard_def
          analyse_def native_moved enter_event Let_def)
    then show ?thesis using True False w by (auto simp: plain_def)
  next
    case no: False
    have "run_entry describe rtn_at tid r x t = Some t"
      using False assms(2) enter no by (auto simp: run_entry_def filtered_known routine_ok_def routine_hooks_def eval_guard_def
          analyse_def Let_def)
    then show ?thesis using no moved_refl [of t] by (auto simp: plain_def)
  qed
qed

lemma return_plain:
  assumes "pt_monitor t" "routine_ok t r" "\<not> starts t r" "plain_return i"
  shows "\<exists>L. run_ins describe rtn_at tid r i x t = Some (moved L
    (if plain t (OnInstruction tid t) r then [event_of tid x (Do_FuncReturn (in_addr i) (rt_addr r))] else []) t)"
proof -
  obtain L where L: "run_ins describe rtn_at tid r i x t = (if filtered t r then Some t
    else run_hooks describe rtn_at tid x [(IPOINT_BEFORE, if IsRoutineToInstrument (rt_addr r) t then If_OnFuncReturn (rt_addr r) else If_OnInstruction,
      Do_FuncReturn (in_addr i) (rt_addr r))] (moved L [] t))" using run_ins_return [OF assms(2,4)] by blast
  consider "filtered t r" | "\<not> filtered t r" "IsRoutineToInstrument (rt_addr r) t" | "\<not> filtered t r" "\<not> IsRoutineToInstrument (rt_addr r) t"
    by blast
  then show ?thesis
  proof cases
    case 1
    then show ?thesis using L moved_refl [of t] by (auto simp: plain_def)
  next
    case 2
    then have "OnFuncReturn tid (rt_addr r) (moved L [] t) = Some (False, moved L [] t)"
      using assms(2,3) by (intro return_off) (auto simp: starts_def routine_ok_def)
    then show ?thesis using L 2 by (auto simp: eval_guard_def plain_def)
  next
    case 3
    have "\<forall>h \<in> set [(IPOINT_BEFORE, If_OnInstruction, Do_FuncReturn (in_addr i) (rt_addr r))]. simple_hook h" by simp
    from run_simple_hooks [OF this, of "moved L [] t" describe rtn_at tid x] assms(1)
    show ?thesis using L 3 by (auto simp: plain_def)
  qed
qed

lemma enter_region:
  assumes "pt_stack t tid = Some st" "pt_inst t tid = (st \<noteq> [])" "\<not> IsPLT 0 t"
  shows "StartInstrument tid t = Some (if pt_enabled t then watching tid (st @ [0]) t else t)"
proof (cases "pt_enabled t")
  case True
  have "IsRoutineToInstrument 0 t" by (simp add: IsRoutineToInstrument_def)
  then show ?thesis using enter_instrument [OF assms(1,2) True assms(3)] True assms(3) by (simp add: StartInstrument_def)
next
  case False
  then show ?thesis using enter_other [of t 0 tid] assms(3) by (simp add: StartInstrument_def)
qed

lemma leave_region:
  assumes "\<not> IsPLT 0 t" "pt_enabled t \<longrightarrow> pt_stack t tid = Some (st @ [0]) \<and> pt_inst t tid"
  shows "EndInstrument tid t = Some (if pt_enabled t then watching tid st t else t)"
proof (cases "pt_enabled t")
  case True
  have "IsRoutineToInstrument 0 t" by (simp add: IsRoutineToInstrument_def)
  then show ?thesis using return_instrument [of t tid st 0] True assms by (simp add: EndInstrument_def)
next
  case False
  then show ?thesis using return_off [of t 0 tid] assms(1) by (simp add: EndInstrument_def)
qed

text \<open>What the induction over the code assumes of the body of a call or a region.\<close>

definition reports :: "(addr \<Rightarrow> int \<times> int \<times> string) \<Rightarrow> (addr \<Rightarrow> routine option) \<Rightarrow> nat \<Rightarrow> routine \<Rightarrow> code list \<Rightarrow> bool" where
  "reports describe rtn_at tid r cs \<longleftrightarrow> (\<forall>t st. pt_stack t tid = Some st \<longrightarrow> pt_inst t tid = (st \<noteq> []) \<longrightarrow> pt_monitor t \<longrightarrow>
     \<not> po_InstrAfterMemoryAccess (pt_options t) \<longrightarrow> routine_ok t r \<longrightarrow> code_ok t cs \<longrightarrow>
     (\<exists>L. run_code describe rtn_at tid r cs t = Some (moved L (report tid t (OnInstruction tid t) r cs) t)))"

lemma reportsD:
  "reports describe rtn_at tid r cs \<Longrightarrow> pt_stack t tid = Some st \<Longrightarrow> pt_inst t tid = (st \<noteq> []) \<Longrightarrow> pt_monitor t
    \<Longrightarrow> \<not> po_InstrAfterMemoryAccess (pt_options t) \<Longrightarrow> routine_ok t r \<Longrightarrow> code_ok t cs
    \<Longrightarrow> \<exists>L. run_code describe rtn_at tid r cs t = Some (moved L (report tid t (OnInstruction tid t) r cs) t)"
  unfolding reports_def by blast

lemma OnInstruction_watching: "OnInstruction tid (watching tid st t) \<longleftrightarrow> pt_enabled t \<and> st \<noteq> []"
  by (simp add: OnInstruction_def)

lemma run_call:
  assumes t: "pt_stack t tid = Some st" "pt_inst t tid = (st \<noteq> [])" "pt_monitor t" "\<not> po_InstrAfterMemoryAccess (pt_options t)"
    and ok: "routine_ok t r" "plain_return i" "code_ok t body" and body: "reports describe rtn_at tid r body"
  shows "\<exists>L. do { t1 \<leftarrow> run_entry describe rtn_at tid r x t; t2 \<leftarrow> run_code describe rtn_at tid r body t1; run_ins describe rtn_at tid r i y t2 }
      = Some (moved L ((if starts t r \<or> plain t (OnInstruction tid t) r \<and> rt_name r \<noteq> ''.plt'' then [event_of tid x (Do_FuncEnter (rt_addr r))] else [])
        @ report tid t (OnInstruction tid t \<or> starts t r) r body
        @ (if starts t r \<or> plain t (OnInstruction tid t) r then [event_of tid y (Do_FuncReturn (in_addr i) (rt_addr r))] else [])) t)"
proof (cases "starts t r")
  case True
  let ?u = "watching tid (st @ [rt_addr r]) t" and ?e = "[event_of tid x (Do_FuncEnter (rt_addr r))]" and ?b = "report tid t True r body"
  obtain L1 where 1: "run_entry describe rtn_at tid r x t = Some (moved L1 ?e ?u)"
    using entry_starts [OF t(1-3) ok(1) True] by blast
  obtain L2 where 2: "run_code describe rtn_at tid r body (moved L1 ?e ?u) = Some (moved L2 (?e @ ?b) ?u)"
    using reportsD [OF body, of "moved L1 ?e ?u" "st @ [rt_addr r]"] t ok True by (auto simp: OnInstruction_watching starts_def)
  obtain L3 where "run_ins describe rtn_at tid r i y (moved L2 (?e @ ?b) ?u)
      = Some (moved L3 [event_of tid y (Do_FuncReturn (in_addr i) (rt_addr r))] (watching tid st (moved L2 (?e @ ?b) ?u)))"
    using return_starts [of "moved L2 (?e @ ?b) ?u" tid st r i describe rtn_at y] t ok True by auto
  then show ?thesis
    using 1 2 True watching_refl [OF t(1,2)] by (intro exI [of _ L3]) simp
next
  case False
  let ?w = "OnInstruction tid t"
  let ?e = "if plain t ?w r \<and> rt_name r \<noteq> ''.plt'' then [event_of tid x (Do_FuncEnter (rt_addr r))] else []"
    and ?b = "report tid t ?w r body"
  obtain L1 where 1: "run_entry describe rtn_at tid r x t = Some (moved L1 ?e t)"
    using entry_plain [OF t(3) ok(1) False] by blast
  obtain L2 where 2: "run_code describe rtn_at tid r body (moved L1 ?e t) = Some (moved L2 (?e @ ?b) t)"
    using reportsD [OF body, of "moved L1 ?e t" st] t ok by auto
  obtain L3 where "run_ins describe rtn_at tid r i y (moved L2 (?e @ ?b) t) = Some (moved L3 (?e @ ?b @
      (if plain t ?w r then [event_of tid y (Do_FuncReturn (in_addr i) (rt_addr r))] else [])) t)"
    using return_plain [of "moved L2 (?e @ ?b) t" r i describe rtn_at tid y] t(3) ok(1,2) False by auto
  then show ?thesis using 1 2 False by (intro exI [of _ L3]) simp
qed

lemma run_region:
  assumes t: "pt_stack t tid = Some st" "pt_inst t tid = (st \<noteq> [])" "pt_monitor t" "\<not> po_InstrAfterMemoryAccess (pt_options t)"
    and ok: "routine_ok t r" "\<not> IsPLT 0 t" "code_ok t body" and body: "reports describe rtn_at tid r body"
  shows "\<exists>L. do { t1 \<leftarrow> StartInstrument tid t; t2 \<leftarrow> run_code describe rtn_at tid r body t1; EndInstrument tid t2 }
      = Some (moved L (report tid t (OnInstruction tid t \<or> pt_enabled t) r body) t)"
proof (cases "pt_enabled t")
  case True
  let ?u = "watching tid (st @ [0]) t" and ?b = "report tid t True r body"
  obtain L where 2: "run_code describe rtn_at tid r body ?u = Some (moved L ?b ?u)"
    using reportsD [OF body, of ?u "st @ [0]"] t ok True by (auto simp: OnInstruction_watching)
  have "EndInstrument tid (moved L ?b ?u) = Some (watching tid st (moved L ?b ?u))"
    using leave_region [of "moved L ?b ?u" tid st] ok(2) True by simp
  then show ?thesis
    using 2 True enter_region [OF t(1,2) ok(2)] watching_refl [OF t(1,2)] by (intro exI [of _ L]) simp
next
  case False
  let ?b = "report tid t (OnInstruction tid t) r body"
  obtain L where 2: "run_code describe rtn_at tid r body t = Some (moved L ?b t)"
    using reportsD [OF body t ok(1,3)] by blast
  have "EndInstrument tid (moved L ?b t) = Some (moved L ?b t)" using leave_region [of "moved L ?b t" tid st] ok(2) False by simp
  then show ?thesis using 2 False enter_region [OF t(1,2) ok(2)] by (intro exI [of _ L]) simp
qed

lemma run_then:
  "run_code describe rtn_at tid r (CallRtn r' x body i y # cs) t = do {
     t1 \<leftarrow> do { t1 \<leftarrow> run_entry describe rtn_at tid r' x t; t2 \<leftarrow> run_code describe rtn_at tid r' body t1; run_ins describe rtn_at tid r' i y t2 };
     run_code describe rtn_at tid r cs t1 }"
  "run_code describe rtn_at tid r (Region body # cs) t = do {
     t1 \<leftarrow> do { t1 \<leftarrow> StartInstrument tid t; t2 \<leftarrow> run_code describe rtn_at tid r body t1; EndInstrument tid t2 };
     run_code describe rtn_at tid r cs t1 }"
  by (simp_all add: bind_assoc)

lemma run_first:
  assumes "run_code describe rtn_at tid r (c # rest) t = f \<bind> run_code describe rtn_at tid r rest"
    "\<exists>L. f = Some (moved L k t)"
    "report tid t (OnInstruction tid t) r (c # rest) = k @ report tid t (OnInstruction tid t) r rest"
    "reports describe rtn_at tid r rest" "pt_stack t tid = Some st" "pt_inst t tid = (st \<noteq> [])" "pt_monitor t"
    "\<not> po_InstrAfterMemoryAccess (pt_options t)" "routine_ok t r" "code_ok t rest"
  shows "\<exists>L. run_code describe rtn_at tid r (c # rest) t = Some (moved L (report tid t (OnInstruction tid t) r (c # rest)) t)"
proof -
  obtain L where f: "f = Some (moved L k t)" using assms(2) by blast
  obtain L' where "run_code describe rtn_at tid r rest (moved L k t) = Some (moved L' (k @ report tid t (OnInstruction tid t) r rest) t)"
    using reportsD [OF assms(4), of "moved L k t" st] assms(5-10) by auto
  then show ?thesis using assms(1,3) f by (intro exI [of _ L']) simp
qed

lemma code_reports: "reports describe rtn_at tid r cs"
proof (induction cs arbitrary: r rule: measure_induct_rule [of "size_list size"])
  case (less cs)
  have "\<exists>L. run_code describe rtn_at tid r cs t = Some (moved L (report tid t (OnInstruction tid t) r cs) t)"
    if t: "pt_stack t tid = Some st" "pt_inst t tid = (st \<noteq> [])" "pt_monitor t" "\<not> po_InstrAfterMemoryAccess (pt_options t)"
      and ok: "routine_ok t r" "code_ok t cs" for t st
  proof (cases cs)
    case Nil
    then show ?thesis using moved_refl [of t] by auto
  next
    case cons: (Cons c rest)
    have rest: "reports describe rtn_at tid r rest" by (rule less.IH) (simp add: cons)
    show ?thesis
    proof (cases c)
      case (Step i x)
      have "\<exists>L. run_ins describe rtn_at tid r i x t = Some (moved L (if filtered t r \<or> \<not> in_original i then []
          else memory_report tid (OnInstruction tid t) i x @ call_report tid t (OnInstruction tid t) r i x) t)"
        by (rule run_ins_step) (use t ok cons Step in auto)
      then show ?thesis
        unfolding cons Step by (rule run_first [OF _ _ _ rest t ok(1), rotated]) (use ok(2) cons Step in simp_all)
    next
      case (CallRtn r' x body i y)
      have body: "reports describe rtn_at tid r' body" by (rule less.IH) (simp add: cons CallRtn)
      have ok': "routine_ok t r'" "plain_return i" "code_ok t body" "code_ok t rest" using ok(2) cons CallRtn by simp_all
      show ?thesis
        unfolding cons CallRtn by (rule run_first [OF run_then(1) run_call [OF t ok'(1-3) body] _ rest t ok(1) ok'(4)]) simp
    next
      case (Region body)
      have body: "reports describe rtn_at tid r body" by (rule less.IH) (simp add: cons Region)
      have ok': "\<not> IsPLT 0 t" "code_ok t body" "code_ok t rest" using ok(2) cons Region by simp_all
      show ?thesis
        unfolding cons Region by (rule run_first [OF run_then(2) run_region [OF t ok(1) ok'(1,2) body] _ rest t ok(1) ok'(3)]) simp
    qed
  qed
  then show ?case unfolding reports_def by blast
qed

section \<open>Properties of the tool\<close>

text \<open>The answer for an image is kept: the first query decides by the names, later ones repeat it.\<close>

lemma image_filter_stable:
  assumes "IsImageFiltered img t = Some (b, ns, t1)"
  shows "IsImageFiltered img t1 = Some (b, [], t1)"
  using assms by (auto simp: IsImageFiltered_def OnLoadConcurrit_def Let_def bind_eq_Some_conv split: if_splits option.splits)

lemma image_filter_names:
  assumes "IsImageFiltered img t = Some (b, ns, t1)" "pt_image_ids t (im_id img) = None"
  shows "b \<longleftrightarrow> im_main img \<or> (\<exists>f \<in> set (pt_images t). sublist f (im_name img))"
proof (cases "find (\<lambda>f. sublist f (im_name img)) (pt_images t)")
  case None
  then have "\<forall>f \<in> set (pt_images t). \<not> sublist f (im_name img)" by (simp add: find_None_iff)
  then show ?thesis using assms None by (auto simp: IsImageFiltered_def split: if_splits)
next
  case (Some f)
  then have "f \<in> set (pt_images t)" "sublist f (im_name img)" by (auto simp: find_Some_iff)
  then show ?thesis
    using assms Some by (auto simp: IsImageFiltered_def Let_def bind_eq_Some_conv split: if_splits)
qed

text \<open>The check of the thread id lets the number of threads itself pass, behind the end of the arrays.\<close>

lemma PinThreadStart_last: "BETWEEN 0 (int n) (int n) \<and> PinThreadStart n n t = None"
  by (simp add: PinThreadStart_def BETWEEN_def)

text \<open>A return that the disabled tool does not see leaves the thread watched; a restart of the thread mends it.\<close>

lemma disabled_return_stays:
  assumes "pt_stack t tid = Some []" "\<not> pt_inst t tid" "pt_enabled t" "\<not> IsPLT a t" "IsRoutineToInstrument a t"
  shows "\<exists>t1 t2. OnFuncEnter tid a t = Some (True, t1) \<and> OnFuncReturn tid a (PinDisable t1) = Some (False, t2)
    \<and> OnInstruction tid (PinEnable t2) \<and> (\<exists>t3. ThreadRestart tid (PinEnable t2) = Some t3 \<and> \<not> OnInstruction tid t3)"
proof -
  have "OnFuncEnter tid a t = Some (True, watching tid [a] t)" using enter_instrument [OF assms(1)] assms(2-5) by simp
  then show ?thesis
    by (auto simp: OnFuncReturn_def PinDisable_def PinEnable_def OnInstruction_def ThreadRestart_def OnThreadRestart_def safe_notnull_def)
qed

text \<open>C22: A thread that runs nested calls and returns reports exactly what the
  specification says: its instructions and routines report where an instrumented routine or a
  region is active, no assertion on the call stack fails, and afterwards the call stacks and flags
  of all threads are as before, with the pin tool enabled or not.\<close>

theorem run_code_reports:
  assumes "pt_stack t tid = Some st" "pt_inst t tid = (st \<noteq> [])" "pt_monitor t" "\<not> po_InstrAfterMemoryAccess (pt_options t)"
    "routine_ok t r" "code_ok t cs"
  shows "\<exists>L. run_code describe rtn_at tid r cs t = Some (moved L (report tid t (OnInstruction tid t) r cs) t)"
  by (rule reportsD [OF code_reports assms])

text \<open>C23: A direct call is reported whatever the state of the pin tool and of the thread:
  while the tool is disabled, or the thread is in no instrumented routine, a FuncCall event is
  still sent for it, unlike for an indirect call.\<close>

theorem direct_call_escapes:
  assumes "pt_monitor t" "po_TrackFuncCalls (pt_options t)" "\<not> po_InstrAfterMemoryAccess (pt_options t)" "routine_ok t r" "\<not> filtered t r"
    "in_original i" "in_call i" "in_procedure_call i" "\<not> in_syscall i" "\<not> in_ret i" "\<not> OnInstruction tid t"
  shows "\<exists>L. run_ins describe rtn_at tid r i x t = Some (moved L
    (if in_direct i then [event_of tid x (Do_FuncCall True (in_addr i) (Some (in_target i)) (rt_addr r))] else []) t)"
  using run_ins_step [OF assms(1,3,4), of i describe rtn_at tid x] assms by (auto simp: memory_report_def call_report_def)

text \<open>A library with a routine to instrument, and a thread that calls it.\<close>

definition sample_image :: image where
  "sample_image = \<lparr> im_id = 1, im_name = ''libtest.so'', im_main = False, im_rtns = [] \<rparr>"

definition sample_routine :: "addr \<Rightarrow> routine" where
  "sample_routine a = \<lparr> rt_name = ''f'', rt_addr = a, rt_image = sample_image, rt_head = True \<rparr>"

definition sample_ins :: instruction where
  "sample_ins = \<lparr> in_addr = 20, in_original = True, in_call = False, in_procedure_call = False, in_syscall = False, in_direct = False,
     in_target = 0, in_ret = False, in_sysret = False, in_stack_read = False, in_stack_write = False, in_write = True, in_read2 = False,
     in_read = False, in_prefetch = False, in_fall_through = True, in_branch_or_call = False \<rparr>"

definition sample_ret :: instruction where
  "sample_ret = sample_ins\<lparr> in_addr := 24, in_write := False, in_ret := True, in_stack_read := True \<rparr>"

definition sample_call :: instruction where
  "sample_call = sample_ins\<lparr> in_addr := 40, in_write := False, in_call := True, in_procedure_call := True, in_direct := True, in_target := 16 \<rparr>"

definition sample_args :: rt_args where
  "sample_args = \<lparr> ra_target = 0, ra_arg0 = 1, ra_arg1 = 2, ra_write = (100, 4), ra_read2 = 0, ra_read = (0, 0), ra_ret = 3 \<rparr>"

definition sample_tool :: pin_tool where
  "sample_tool = new_pin_tool\<lparr> pt_options := \<lparr> po_TrackFuncCalls = True, po_InstrTopLevelFuncs = False, po_InstrAfterMemoryAccess = False \<rparr>,
     pt_ids := [16 \<mapsto> True], pt_image_ids := [1 \<mapsto> False], pt_monitor := True, pt_stack := (\<lambda>_. Some []) \<rparr>"

definition sample_code :: "code list" where
  "sample_code = [Step sample_ins sample_args, CallRtn (sample_routine 16) sample_args [Step sample_ins sample_args] sample_ret sample_args]"

lemmas pin_eval = sample_tool_def sample_code_def sample_args_def sample_call_def sample_ret_def sample_ins_def sample_routine_def
  sample_image_def new_pin_tool_def OnInstruction_def routine_ok_def plain_return_def IsPLT_def filtered_def starts_def plain_def
  IsRoutineToInstrument_def IsRoutineToSkip_def memory_report_def call_report_def event_of.simps pin_event_def event_Clear_def

theorem run_code_reports_witness:
  "\<exists>L es. run_code (\<lambda>_. (0, 0, '''')) (\<lambda>_. None) 1 (sample_routine 32) sample_code sample_tool = Some (moved L es sample_tool)
    \<and> map e_type es = [FuncEnter, MemWrite, MemAccessBefore, FuncReturn] \<and> map e_addr es = [16, 100, 0, 16]"
proof -
  let ?es = "report 1 sample_tool (OnInstruction 1 sample_tool) (sample_routine 32) sample_code"
  have "\<exists>L. run_code (\<lambda>_. (0, 0, '''')) (\<lambda>_. None) 1 (sample_routine 32) sample_code sample_tool = Some (moved L ?es sample_tool)"
    by (rule run_code_reports [where st = "[]"]) (simp_all add: pin_eval)
  then obtain L where "run_code (\<lambda>_. (0, 0, '''')) (\<lambda>_. None) 1 (sample_routine 32) sample_code sample_tool = Some (moved L ?es sample_tool)"
    by (rule exE)
  moreover have "map e_type ?es = [FuncEnter, MemWrite, MemAccessBefore, FuncReturn]" "map e_addr ?es = [16, 100, 0, 16]"
    by (simp_all add: pin_eval)
  ultimately show ?thesis by (intro exI conjI)
qed

theorem direct_call_escapes_witness:
  "\<exists>L e. run_ins (\<lambda>_. (0, 0, '''')) (\<lambda>_. None) 1 (sample_routine 32) sample_call sample_args (PinDisable sample_tool)
      = Some (moved L [e] (PinDisable sample_tool)) \<and> e_type e = FuncCall \<and> e_addr_target e = 16"
proof -
  let ?e = "event_of 1 sample_args (Do_FuncCall True (in_addr sample_call) (Some (in_target sample_call)) (rt_addr (sample_routine 32)))"
  have "\<exists>L. run_ins (\<lambda>_. (0, 0, '''')) (\<lambda>_. None) 1 (sample_routine 32) sample_call sample_args (PinDisable sample_tool)
      = Some (moved L (if in_direct sample_call then [?e] else []) (PinDisable sample_tool))"
    by (rule direct_call_escapes) (simp_all add: pin_eval PinDisable_def)
  moreover have "in_direct sample_call" "e_type ?e = FuncCall" "e_addr_target ?e = 16" by (simp_all add: pin_eval)
  ultimately show ?thesis by auto
qed

end
