(* ===== verification/Pin_Delivery.thy ===== *)
theory Pin_Delivery
  imports Pin_Instrument Controlled_Events
begin

text \<open>
  The pin tool and the monitor together: the events that a thread of the program reports
  (instrumenter.cpp) go one by one into CallPinMonitor (pinmonitor.cpp), where each ends in the controlled
  transition of the scenario (scenario.cpp).  Shown is that the counters of the nesting of functions,
  InFunc and NumInFunc, follow the calls of the program.
\<close>

section \<open>Delivery\<close>

text \<open>The events of a thread in their order, each with the controlled transition that it ends in when the
  others do what they do in the meantime.  When these run out, the thread gets no further.\<close>

fun deliver :: "options \<Rightarrow> (nat \<Rightarrow> src_loc) \<Rightarrow> co option \<Rightarrow> 'a pin_op list \<Rightarrow> event list \<Rightarrow> 'a pin_op" where
  "deliver c locs who octs [] s = Some (Resumes s)"
| "deliver c locs who [] (e # es) s = Some (Stuck s)"
| "deliver c locs who (oct # octs) (e # es) s = do {
     r \<leftarrow> CallPinMonitor c oct locs who e s;
     (case r of Resumes s1 \<Rightarrow> deliver c locs who octs es s1
      | Unwinds x s1 \<Rightarrow> Some (Unwinds x s1) | Stuck s1 \<Rightarrow> Some (Stuck s1)) }"

text \<open>What the counters should be after a list of events.\<close>

definition depth_step :: "event \<Rightarrow> (addr \<Rightarrow> nat) \<Rightarrow> addr \<Rightarrow> nat" where
  "depth_step e n = (if e_type e = FuncEnter then n(e_addr e := Suc (n (e_addr e)))
     else if e_type e = FuncReturn then n(e_addr e := n (e_addr e) - 1) else n)"

definition depth :: "event list \<Rightarrow> (addr \<Rightarrow> nat) \<Rightarrow> addr \<Rightarrow> nat" where
  "depth es n = fold depth_step es n"

definition entered :: "event list \<Rightarrow> addr \<Rightarrow> nat" where
  "entered es a = length (filter (\<lambda>e. e_type e = FuncEnter \<and> e_addr e = a) es)"

text \<open>The counters of a thread in the auxiliary state of an enabled monitor.\<close>

definition counters_ok :: "aux_env \<Rightarrow> bool" where
  "counters_ok e \<longleftrightarrow> aux1_ok 0 0 (aux1 e InFunc) \<and> aux1_ok 0 0 (aux1 e NumInFunc)"

definition counts :: "tid \<Rightarrow> (addr \<Rightarrow> nat) \<Rightarrow> (addr \<Rightarrow> nat) \<Rightarrow> 'a pin_state_scheme \<Rightarrow> bool" where
  "counts t n k s \<longleftrightarrow> \<not> pm_down s \<and> pm_enabled s \<and> counters_ok (pm_env s) \<and>
     (\<forall>a. a \<noteq> 0 \<longrightarrow> get1_pin InFunc a t s = Some (int (n a)) \<and> get1_pin NumInFunc a t s = Some (int (k a)))"

lemma countsD:
  assumes "counts t n k s"
  shows "\<not> pm_down s" "pm_enabled s" "counters_ok (pm_env s)"
    "a \<noteq> 0 \<Longrightarrow> get1_pin InFunc a t s = Some (int (n a))" "a \<noteq> 0 \<Longrightarrow> get1_pin NumInFunc a t s = Some (int (k a))"
  using assms by (simp_all add: counts_def)

text \<open>What others may do to the auxiliary state without touching the counters of the thread.\<close>

definition same_counts :: "tid \<Rightarrow> aux_env \<Rightarrow> aux_env \<Rightarrow> bool" where
  "same_counts t e e' \<longleftrightarrow> aux1 e' InFunc t = aux1 e InFunc t \<and> aux1 e' NumInFunc t = aux1 e NumInFunc t \<and>
     (counters_ok e \<longrightarrow> counters_ok e')"

lemma same_counts_refl [simp]: "same_counts t e e"
  by (simp add: same_counts_def)

lemma same_counts_trans: "same_counts t a b \<Longrightarrow> same_counts t b c \<Longrightarrow> same_counts t a c"
  by (simp add: same_counts_def)

lemma same_counts_aux1: "aux1 e' InFunc = aux1 e InFunc \<Longrightarrow> aux1 e' NumInFunc = aux1 e NumInFunc \<Longrightarrow> same_counts t e e'"
  by (simp add: same_counts_def counters_ok_def)

lemma same_counts_get:
  assumes "same_counts t (pm_env s) (pm_env s')" "counters_ok (pm_env s)" "a \<noteq> 0" "v = InFunc \<or> v = NumInFunc"
  shows "get1_pin v a t s' = get1_pin v a t s"
proof -
  have "aux1 (pm_env s') v t = aux1 (pm_env s) v t" "aux1_ok 0 0 (aux1 (pm_env s) v)" "aux1_ok 0 0 (aux1 (pm_env s') v)"
    using assms by (auto simp: same_counts_def counters_ok_def)
  then show ?thesis using assms(3) by (simp add: get1_pin_def aux1_get_ok)
qed

lemma counts_same:
  assumes "counts t n k s" "same_counts t (pm_env s) (pm_env s')" "pm_down s' = pm_down s" "pm_enabled s' = pm_enabled s"
  shows "counts t n k s'"
  using assms same_counts_get [OF assms(2)] by (simp add: counts_def same_counts_def)

lemma counts_fields [simp]: "counts t n k (s\<lparr> pm_srcloc := l \<rparr>) = counts t n k s" "counts t n k (s\<lparr> pm_info := i \<rparr>) = counts t n k s"
  by (simp_all add: counts_def get1_pin_def)

section \<open>One callback\<close>

lemma trace_counts: "counts t n k s \<Longrightarrow> \<exists>s'. trace_info c (Some i) s = Some s' \<and> counts t n k s'"
  by (simp add: trace_info_def)

lemma set1_counts:
  assumes "counts t n k s" "a \<noteq> 0" "v \<noteq> InFunc" "v \<noteq> NumInFunc"
  shows "\<exists>s'. set1_pin v a x u s = Some s' \<and> counts t n k s'"
proof -
  obtain m where "aux1_set 0 0 (aux1 (pm_env s) v) a x u = Some m" using assms(2) by (simp add: aux1_set_Some)
  then show ?thesis
    using assms by (auto simp: set1_pin_def set1_def intro!: counts_same [OF assms(1)] same_counts_aux1)
qed

lemma set1_counter:
  assumes "counts t n k s" "a \<noteq> 0" "v = InFunc \<or> v = NumInFunc"
  shows "\<exists>s'. set1_pin v a (int x) t s = Some s' \<and>
    counts t (if v = InFunc then n(a := x) else n) (if v = InFunc then k else k(a := x)) s'"
proof -
  let ?m = "aux1 (pm_env s)"
  obtain m where m: "aux1_set 0 0 (?m v) a (int x) t = Some m" using assms(2) by (simp add: aux1_set_Some)
  let ?s = "s\<lparr> pm_env := (pm_env s)\<lparr> aux1 := ?m(v := m) \<rparr> \<rparr>"
  have ok: "aux1_ok 0 0 (?m v)" using assms(1,3) by (auto simp: counts_def counters_ok_def)
  have okm: "aux1_ok 0 0 m" by (rule aux1_set_ok [OF ok m])
  have "get1_pin v b t ?s = (if b = a then Some (int x) else get1_pin v b t s)" if "b \<noteq> 0" for b
    using aux1_get_set [OF ok assms(2) that m, of t] by (simp add: get1_pin_def)
  moreover have "get1_pin w b t ?s = get1_pin w b t s" if "w \<noteq> v" for w b using that by (simp add: get1_pin_def)
  ultimately have "counts t (if v = InFunc then n(a := x) else n) (if v = InFunc then k else k(a := x)) ?s"
    using assms okm by (auto simp: counts_def counters_ok_def)
  then show ?thesis using m by (auto simp: set1_pin_def set1_def)
qed

text \<open>The events that the monitor accepts from the pin tool: their locations are given and their addresses not null.\<close>

definition deliverable :: "event \<Rightarrow> bool" where
  "deliverable e \<longleftrightarrow> e_loc_src e \<noteq> None \<and> (e_type e = MemAccessBefore \<or> e_type e = MemAccessAfter \<or>
     e_addr e \<noteq> 0 \<and> (e_type e \<in> {MemWrite, MemRead, FuncEnter, FuncReturn} \<or>
       e_type e = FuncCall \<and> e_addr_target e \<noteq> 0 \<and> e_loc_target e \<noteq> None))"

section \<open>What the controlled transition promises\<close>

text \<open>An operation that ends in the controlled transition: if the thread goes on, the counters are as stated,
  and only the controlled transition itself can abort.\<close>

definition ends_with :: "tid \<Rightarrow> 'a pin_op \<Rightarrow> (addr \<Rightarrow> nat) \<Rightarrow> (addr \<Rightarrow> nat) \<Rightarrow> 'a pin_state_scheme ctrl option \<Rightarrow> bool" where
  "ends_with t oct n k r \<longleftrightarrow> (\<forall>s'. r = Some (Resumes s') \<longrightarrow> counts t n k s') \<and> ((\<forall>s. oct s \<noteq> None) \<longrightarrow> r \<noteq> None)"

lemma resumes_ends: "counts t n k s \<Longrightarrow> ends_with t oct n k (Some (Resumes s))"
  by (simp add: ends_with_def)

lemma MemWrite_ends:
  assumes "counts t n k s" "a \<noteq> 0"
  shows "ends_with t oct n k (PM_MemWrite c u a sz loc s)"
proof -
  obtain s1 where s1: "trace_info c (Some (''MemWrite by '' @ to_string u @ '' to '' @ hex a @ '' size '' @ to_string (sint sz))) s = Some s1"
    "counts t n k s1" using trace_counts [OF assms(1)] by blast
  obtain s2 where "set1_pin Writes a (uint sz) u s1 = Some s2" "counts t n k s2"
    using set1_counts [OF s1(2) assms(2), of Writes] by auto
  then show ?thesis using s1(1) by (simp add: PM_MemWrite_def resumes_ends)
qed

lemma MemRead_ends:
  assumes "counts t n k s" "a \<noteq> 0"
  shows "ends_with t oct n k (PM_MemRead c u a sz loc s)"
proof -
  obtain s1 where s1: "trace_info c (Some (''MemRead by '' @ to_string u @ '' from '' @ hex a @ '' size '' @ to_string (sint sz))) s = Some s1"
    "counts t n k s1" using trace_counts [OF assms(1)] by blast
  obtain s2 where "set1_pin Reads a (uint sz) u s1 = Some s2" "counts t n k s2"
    using set1_counts [OF s1(2) assms(2), of Reads] by auto
  then show ?thesis using s1(1) by (simp add: PM_MemRead_def resumes_ends)
qed

lemma FuncReturn_after:
  assumes "counts t n k s" "a \<noteq> 0"
  shows "\<exists>s'. PM_FuncReturn_after t a s = Some s' \<and> counts t (n(a := n a - 1)) k s'"
proof (cases "n a")
  case 0
  then show ?thesis using assms countsD(4) [OF assms] by (auto simp: PM_FuncReturn_after_def fun_upd_idem)
next
  case (Suc m)
  obtain s1 where s1: "set1_pin InFunc a (int (n a) - 1) t s = Some s1" "counts t (n(a := m)) k s1"
    using set1_counter [OF assms, of InFunc m] Suc by auto
  obtain s2 where s2: "set1_pin Arg0 a 0 t s1 = Some s2" "counts t (n(a := m)) k s2"
    using set1_counts [OF s1(2) assms(2), of Arg0] by auto
  obtain s3 where s3: "set1_pin Arg1 a 0 t s2 = Some s3" "counts t (n(a := m)) k s3"
    using set1_counts [OF s2(2) assms(2), of Arg1] by auto
  then show ?thesis using s1(1) s2(1) Suc countsD(4) [OF assms] by (auto simp: PM_FuncReturn_after_def)
qed

text \<open>When the controlled transition lets the thread go on, the monitor is on or off as before and the
  counters of the thread are the same.\<close>

locale controlled_step =
  fixes t :: tid and oct :: "'a pin_op"
  assumes kept: "oct s = Some (Resumes s') \<Longrightarrow> pm_down s' = pm_down s \<and> pm_enabled s' = pm_enabled s
    \<and> same_counts t (pm_env s) (pm_env s')"
begin

lemma oct_counts: "counts t n k s \<Longrightarrow> oct s = Some (Resumes s') \<Longrightarrow> counts t n k s'"
  using kept counts_same by blast

lemma oct_ends: "counts t n k s \<Longrightarrow> ends_with t oct n k (oct s)"
  using oct_counts unfolding ends_with_def by blast

lemma FuncCall_ends:
  assumes "counts t n k s" "a \<noteq> 0" "b \<noteq> 0"
  shows "ends_with t oct n k (PM_FuncCall c oct u a b direct (Some l1) (Some l2) x0 x1 s)"
proof -
  obtain s1 where s1: "trace_info c (do { f \<leftarrow> funcname_of (Some l1); g \<leftarrow> funcname_of (Some l2);
       Some (''FuncCall['' @ (if direct then ''direct'' else ''indirect'') @ ''] by '' @ to_string u @ '' from ''
         @ f @ ''('' @ hex a @ '') to '' @ g @ ''('' @ hex b @ '')'') }) s = Some s1" "counts t n k s1"
    using trace_counts [OF assms(1)] by (simp add: funcname_of_def) blast
  let ?x = "if u = 0 then 0 else 1"
  obtain s2 where s2: "set1_pin CallsFrom a ?x (-1) s1 = Some s2" "counts t n k s2"
    using set1_counts [OF s1(2) assms(2), of CallsFrom] by auto
  obtain s3 where s3: "set1_pin CallsTo b ?x (-1) s2 = Some s3" "counts t n k s3"
    using set1_counts [OF s2(2) assms(3), of CallsTo] by auto
  obtain s4 where s4: "set1_pin Arg0 b (uint x0) u s3 = Some s4" "counts t n k s4"
    using set1_counts [OF s3(2) assms(3), of Arg0] by auto
  obtain s5 where s5: "set1_pin Arg1 b (uint x1) u s4 = Some s5" "counts t n k s5"
    using set1_counts [OF s4(2) assms(3), of Arg1] by auto
  have "PM_FuncCall c oct u a b direct (Some l1) (Some l2) x0 x1 s = oct (s5\<lparr> pm_srcloc := Some l1 \<rparr>)"
    using s1(1) s2(1) s3(1) s4(1) s5(1) by (simp add: PM_FuncCall_def)
  then show ?thesis using s5(2) by (simp add: oct_ends)
qed

lemma FuncEnter_ends:
  assumes "counts t n k s" "a \<noteq> 0"
  shows "ends_with t oct (n(a := Suc (n a))) (k(a := Suc (k a))) (PM_FuncEnter c oct t a (Some l) x0 x1 s)"
proof -
  obtain s1 where s1: "trace_info c (do { f \<leftarrow> funcname_of (Some l);
       Some (''FuncEnter by '' @ to_string t @ '' to '' @ f @ ''('' @ hex a @ '') with arg0 ''
         @ nat_to_string (unat x0) @ '' arg1 '' @ nat_to_string (unat x1)) }) s = Some s1" "counts t n k s1"
    using trace_counts [OF assms(1)] by (simp add: funcname_of_def) blast
  obtain s2 where s2: "set1_pin Enters a 1 t s1 = Some s2" "counts t n k s2"
    using set1_counts [OF s1(2) assms(2), of Enters] by auto
  obtain s3 where s3: "set1_pin InFunc a (int (n a) + 1) t s2 = Some s3" "counts t (n(a := Suc (n a))) k s3"
    using set1_counter [OF s2(2) assms(2), of InFunc "Suc (n a)"] by (auto simp: add.commute)
  obtain s4 where s4: "set1_pin NumInFunc a (int (k a) + 1) t s3 = Some s4" "counts t (n(a := Suc (n a))) (k(a := Suc (k a))) s4"
    using set1_counter [OF s3(2) assms(2), of NumInFunc "Suc (k a)"] by (auto simp: add.commute)
  obtain s5 where s5: "set1_pin Arg0 a (uint x0) t s4 = Some s5" "counts t (n(a := Suc (n a))) (k(a := Suc (k a))) s5"
    using set1_counts [OF s4(2) assms(2), of Arg0] by auto
  obtain s6 where s6: "set1_pin Arg1 a (uint x1) t s5 = Some s6" "counts t (n(a := Suc (n a))) (k(a := Suc (k a))) s6"
    using set1_counts [OF s5(2) assms(2), of Arg1] by auto
  have "PM_FuncEnter c oct t a (Some l) x0 x1 s = oct (s6\<lparr> pm_srcloc := Some l \<rparr>)"
    using s1(1) s2(1) s3(1) s4(1) s5(1) s6(1) countsD(4) [OF s2(2) assms(2)] countsD(5) [OF s3(2) assms(2)]
    by (simp add: PM_FuncEnter_def)
  then show ?thesis using s6(2) by (simp add: oct_ends)
qed

lemma FuncReturn_ends:
  assumes "counts t n k s" "a \<noteq> 0"
  shows "ends_with t oct (n(a := n a - 1)) k (PM_FuncReturn c oct t a (Some l) v s)"
proof -
  obtain s1 where s1: "trace_info c (do { f \<leftarrow> funcname_of (Some l);
       Some (''FuncReturn by '' @ to_string t @ '' from '' @ f @ ''('' @ hex a @ '') with ret ''
         @ nat_to_string (unat v)) }) s = Some s1" "counts t n k s1"
    using trace_counts [OF assms(1)] by (simp add: funcname_of_def) blast
  obtain s2 where s2: "set1_pin aux1name.Returns a 1 t s1 = Some s2" "counts t n k s2"
    using set1_counts [OF s1(2) assms(2), of aux1name.Returns] by auto
  obtain s3 where s3: "set1_pin RetVal a (uint v) t s2 = Some s3" "counts t n k s3"
    using set1_counts [OF s2(2) assms(2), of RetVal] by auto
  let ?s = "s3\<lparr> pm_srcloc := Some l \<rparr>"
  have run: "PM_FuncReturn c oct t a (Some l) v s = do { r \<leftarrow> oct ?s;
      (case r of Unwinds e s4 \<Rightarrow> Some (Unwinds e s4) | Stuck s4 \<Rightarrow> Some (Stuck s4)
       | Resumes s4 \<Rightarrow> do { s5 \<leftarrow> PM_FuncReturn_after t a s4; Some (Resumes s5) }) }"
    using s1(1) s2(1) s3(1) by (simp add: PM_FuncReturn_def)
  show ?thesis
  proof (cases "oct ?s")
    case None
    then show ?thesis unfolding run ends_with_def by auto
  next
    case (Some r)
    show ?thesis
    proof (cases r)
      case (Resumes s4)
      have "counts t n k s4" using oct_counts [of n k ?s s4] s3(2) Some Resumes by simp
      then obtain s5 where "PM_FuncReturn_after t a s4 = Some s5" "counts t (n(a := n a - 1)) k s5"
        using FuncReturn_after [OF _ assms(2)] by blast
      then show ?thesis using Some Resumes by (simp add: run ends_with_def)
    qed (simp_all add: run Some ends_with_def)
  qed
qed

lemma event_ends:
  assumes "counts t n k s" "deliverable e" "who = Some co" "co_tid co = t" "t \<noteq> MAIN_TID"
  shows "ends_with t oct (depth_step e n) (\<lambda>a. k a + entered [e] a) (CallPinMonitor c oct locs who e s)"
proof -
  obtain l where l: "e_loc_src e = Some l" using assms(2) by (auto simp: deliverable_def)
  note [simp] = countsD(1,2) [OF assms(1)]
  have other: "depth_step e n = n" "(\<lambda>a. k a + entered [e] a) = k" if "e_type e \<noteq> FuncEnter" "e_type e \<noteq> FuncReturn"
    using that by (simp_all add: depth_step_def entered_def)
  consider "e_type e = MemAccessBefore" | "e_type e = MemAccessAfter" | "e_type e = MemWrite" "e_addr e \<noteq> 0"
    | "e_type e = MemRead" "e_addr e \<noteq> 0" | "e_type e = FuncEnter" "e_addr e \<noteq> 0" | "e_type e = FuncReturn" "e_addr e \<noteq> 0"
    | "e_type e = FuncCall" "e_addr e \<noteq> 0" "e_addr_target e \<noteq> 0" "e_loc_target e \<noteq> None"
    using assms(2) by (auto simp: deliverable_def)
  then show ?thesis
  proof cases
    case 1
    then show ?thesis using assms by (simp add: other kind_defs CallPinMonitor_def safe_notnull_def PM_MemAccessBefore_def oct_ends)
  next
    case 2
    then show ?thesis using assms by (simp add: other kind_defs CallPinMonitor_def safe_notnull_def PM_MemAccessAfter_def resumes_ends)
  next
    case 3
    then show ?thesis using assms by (simp add: other kind_defs CallPinMonitor_def safe_notnull_def MemWrite_ends)
  next
    case 4
    then show ?thesis using assms by (simp add: other kind_defs CallPinMonitor_def safe_notnull_def MemRead_ends)
  next
    case 5
    then have "(\<lambda>a. k a + entered [e] a) = k(e_addr e := Suc (k (e_addr e)))" by (auto simp: entered_def kind_defs fun_eq_iff)
    then show ?thesis using 5 assms l FuncEnter_ends [OF assms(1) 5(2)] by (simp add: depth_step_def kind_defs CallPinMonitor_def safe_notnull_def)
  next
    case 6
    then have "(\<lambda>a. k a + entered [e] a) = k" by (simp add: entered_def kind_defs)
    then show ?thesis using 6 assms l FuncReturn_ends [OF assms(1) 6(2)] by (simp add: depth_step_def kind_defs CallPinMonitor_def safe_notnull_def)
  next
    case 7
    then obtain l' where "e_loc_target e = Some l'" by auto
    then show ?thesis using 7 assms l FuncCall_ends [OF assms(1) 7(2,3)] by (simp add: other kind_defs CallPinMonitor_def safe_notnull_def)
  qed
qed

end

section \<open>The controlled transition of the scenario\<close>

text \<open>Whatever node the thread evaluates, the variables per address stay as they are.\<close>

lemma Eval_aux1: "EvalState env u p = Some (b, env') \<Longrightarrow> aux1 env' = aux1 env"
  using EvalState_frame(1) by (auto simp: same_frame_def)

lemma EvalTransition_aux1:
  assumes "EvalTransition as cs c r w = Some (res, w')"
  shows "aux1 (w_env w') = aux1 (w_env w)"
proof -
  let ?e0 = "(w_env w)\<lparr> vars := set_thread (vars (w_env w)) TID (Some c) \<rparr>"
  obtain a e1 where e1: "EvalState ?e0 (Some c) (TPAnd as) = Some (a, e1)"
    using assms by (auto simp: EvalTransition_def bind_eq_Some_conv)
  have 1: "aux1 e1 = aux1 (w_env w)" using Eval_aux1 [OF e1] by simp
  show ?thesis
  proof (cases a)
    case False
    then show ?thesis using assms e1 1 by (auto simp: EvalTransition_def)
  next
    case True
    obtain b e2 where e2: "EvalState e1 (Some c) (TPAnd cs) = Some (b, e2)"
      using assms e1 True by (auto simp: EvalTransition_def bind_eq_Some_conv)
    have 2: "aux1 e2 = aux1 (w_env w)" using Eval_aux1 [OF e2] 1 by simp
    show ?thesis
    proof (cases b)
      case False
      then show ?thesis using assms e1 e2 True 2 by (auto simp: EvalTransition_def)
    next
      case b: True
      obtain nd where "heap (w_mgr w) r = Some nd" using assms e1 e2 True b by (auto simp: EvalTransition_def bind_eq_Some_conv)
      then show ?thesis
        using assms e1 e2 True b 2
        by (auto simp: EvalTransition_def bind_eq_Some_conv split: node_kind.splits if_splits dest!: Eval_aux1)
    qed
  qed
qed

lemma CanSelect_aux1:
  assumes "CanSelectThread p c env = Some (b, env')"
  shows "aux1 env' = aux1 env"
proof (cases p)
  case (Some q)
  have "CanSelectThread p c env = (if q = TPTrue then Some (True, env)
      else EvalState (env\<lparr> vars := set_thread (vars env) TID (Some c) \<rparr>) (Some c) q)"
    by (cases q) (simp_all add: CanSelectThread_def Some)
  then show ?thesis
    using assms Eval_aux1 [of "env\<lparr> vars := set_thread (vars env) TID (Some c) \<rparr>" "Some c" q b env'] by (auto split: if_splits)
qed (use assms in \<open>simp add: CanSelectThread_def\<close>)

lemma ExistsThread_aux1: "ExistsThread_Check r s cv c idx w = Some (i, w') \<Longrightarrow> aux1 (w_env w') = aux1 (w_env w)"
  by (auto simp: ExistsThread_Check_def bind_eq_Some_conv Let_def split: if_splits dest!: CanSelect_aux1)

lemma ForallThread_aux1:
  assumes "ForallThread_Check r s c idx w = Some (i, w')"
  shows "aux1 (w_env w') = aux1 (w_env w)"
proof -
  define found where "found = (case st_scope s of
         Some (x # xs) \<Rightarrow> (case FindByThread (vars (w_env w)) (x # xs) (Some c) of
            None \<Rightarrow> None | Some t \<Rightarrow> Some (t, w))
       | _ \<Rightarrow> Some (w_next_tv w,
            w\<lparr>w_env := (w_env w)\<lparr>vars := (vars (w_env w))(w_next_tv w := create_thread_var c)\<rparr>,
              w_next_tv := Suc (w_next_tv w)\<rparr>))"
  have w1: "aux1 (w_env w1) = aux1 (w_env w)" if "found = Some (t, w1)" for t w1
    using that by (auto simp: found_def split: option.splits list.splits)
  show ?thesis
  proof (cases found)
    case None
    then show ?thesis using assms by (auto simp: ForallThread_Check_def found_def [symmetric] bind_eq_Some_conv Let_def)
  next
    case (Some p)
    obtain t w1 where p: "p = (t, w1)" by (cases p)
    obtain ok env1 where e: "CanSelectThread (st_pred s) c (w_env w1) = Some (ok, env1)"
      using assms Some p by (auto simp: ForallThread_Check_def found_def [symmetric] bind_eq_Some_conv Let_def)
    have "aux1 env1 = aux1 (w_env w)" using CanSelect_aux1 [OF e] w1 Some p by simp
    then show ?thesis
      using assms Some p e
      by (auto simp: ForallThread_Check_def found_def [symmetric] bind_eq_Some_conv Let_def split: if_splits)
  qed
qed

lemma EvalSelectThread_aux1:
  assumes "EvalSelectThread c r w = Some (i, w')"
  shows "aux1 (w_env w') = aux1 (w_env w)"
proof -
  obtain nd where nd: "heap (w_mgr w) r = Some nd" using assms by (auto simp: EvalSelectThread_def bind_eq_Some_conv Let_def)
  show ?thesis
    using assms nd
    by (cases "n_kind nd") (auto simp: EvalSelectThread_def bind_eq_Some_conv Let_def dest!: ForallThread_aux1 ExistsThread_aux1)
qed

lemma round_aux1:
  assumes "controlled_round as cs c r w = Some (res, w')"
  shows "aux1 (w_env w') = aux1 (w_env w)"
proof -
  obtain nd where nd: "heap (w_mgr w) r = Some nd" using assms by (auto simp: controlled_round_def bind_eq_Some_conv)
  show ?thesis
  proof (cases "is_end_kind (n_kind nd)")
    case True
    then show ?thesis using assms nd by (simp add: controlled_round_def)
  next
    case False
    then obtain ev w1 where ev: "(if is_transition (n_kind nd) then EvalTransition as cs c r w
         else if is_select_thread (n_kind nd) then do { (ci, w') \<leftarrow> EvalSelectThread c r w; Some (EvalDone ci False, w') }
         else None) = Some (ev, w1)"
      using assms nd by (auto simp: controlled_round_def bind_eq_Some_conv)
    then have w1: "aux1 (w_env w1) = aux1 (w_env w)"
      by (auto simp: bind_eq_Some_conv split: if_splits dest!: EvalTransition_aux1 EvalSelectThread_aux1)
    show ?thesis using assms nd False ev w1 by (cases ev) (auto simp: controlled_round_def bind_eq_Some_conv split: if_splits)
  qed
qed

lemma Finish_counts: "same_counts t (pm_env s) (pm_env (pin_FinishControlledTransition u s))"
  by (rule same_counts_aux1) (simp_all add: pin_FinishControlledTransition_def AuxState_Reset_def reset1_def reset0_def)

text \<open>The other threads leave the counters of the thread alone: their callbacks record under their own ids.\<close>

definition others_keep :: "tid \<Rightarrow> others \<Rightarrow> bool" where
  "others_keep t ot \<longleftrightarrow> (\<forall>w. same_counts t (w_env w) (w_env (ot_before ot w)))"

lemma quiet_keeps: "others_keep t quiet"
  by (simp add: others_keep_def)

lemma put_world_fields [simp]: "pm_down (put_world w s) = pm_down s" "pm_enabled (put_world w s) = pm_enabled s"
  by (simp_all add: put_world_def)

lemma oct_loop_keeps:
  "oct_loop as cs viol c prev ots s = Some (Resumes s') \<Longrightarrow> list_all (others_keep t) ots
    \<Longrightarrow> pm_down s' = pm_down s \<and> pm_enabled s' = pm_enabled s \<and> same_counts t (pm_env s) (pm_env s')"
proof (induction ots arbitrary: prev s)
  case (Cons ot ots)
  let ?s0 = "put_world (ot_before ot (live_world s)) s"
  have s0: "same_counts t (pm_env s) (pm_env ?s0)"
    using Cons.prems(2) by (simp add: others_keep_def) (metis live_world_def world.select_convs(2))
  obtain n m where acq: "AcquireRef EXIT_ON_FULL c False (ot_steps ot) (lv_mgr ?s0) = Some (outcome.Returns n, m)"
    using Cons.prems(1) by (auto simp: oct_loop.simps(2) Let_def split: option.splits outcome.splits)
  let ?s1 = "?s0\<lparr> lv_mgr := m \<rparr>"
  show ?case
  proof (cases "IS_ENDNODE m n = Some True")
    case True
    then show ?thesis using Cons.prems(1) acq s0 by (auto simp: oct_loop.simps(2) Let_def)
  next
    case False
    then obtain k q w where k: "n = Some k" "controlled_round as cs c k (live_world ?s1) = Some (q, w)"
      and r: "(case q of Leave \<Rightarrow> Some (Resumes (put_world w ?s1))
            | Violation \<Rightarrow> Some (Unwinds (TRIGGER_ASSERTION_VIOLATION 0 viol '''' '''' 0) (put_world w ?s1))
            | NextNode \<Rightarrow> oct_loop as cs viol c n ots (put_world w ?s1)
            | WaitConsumed \<Rightarrow> oct_loop as cs viol c (if ot_timeout ot then None else n) ots (put_world w ?s1)) = Some (Resumes s')"
      using Cons.prems(1) acq
      by (auto simp: oct_loop.simps(2) Let_def safe_notnull_def bind_eq_Some_conv split: if_splits option.splits)
    have "same_counts t (pm_env ?s0) (w_env w)"
      by (rule same_counts_aux1) (use round_aux1 [OF k(2)] in \<open>simp_all add: live_world_def\<close>)
    then have w: "same_counts t (pm_env s) (pm_env (put_world w ?s1))" using same_counts_trans [OF s0] by simp
    show ?thesis
    proof (cases q)
      case Leave
      then show ?thesis using r w by auto
    next
      case NextNode
      then show ?thesis using r Cons.IH [of n "put_world w ?s1"] Cons.prems(2) same_counts_trans [OF w] by auto
    next
      case WaitConsumed
      then show ?thesis
        using r Cons.IH [of "if ot_timeout ot then None else n" "put_world w ?s1"] Cons.prems(2) same_counts_trans [OF w] by auto
    qed (use r in simp)
  qed
qed simp

lemma OnControlledTransition_keeps:
  assumes "list_all (others_keep t) ots"
  shows "controlled_step t (OnControlledTransition opts as cs viol c ots)"
proof
  fix s s' :: live
  assume run: "OnControlledTransition opts as cs viol c ots s = Some (Resumes s')"
  show "pm_down s' = pm_down s \<and> pm_enabled s' = pm_enabled s \<and> same_counts t (pm_env s) (pm_env s')"
  proof (cases "pm_status s = ENABLED")
    case False
    then show ?thesis using run by (auto simp: OnControlledTransition_def bind_eq_Some_conv)
  next
    case True
    then obtain r where r: "oct_loop as cs viol c None ots (s\<lparr> pm_status := BLOCKED \<rparr>) = Some r"
      "(case r of Resumes s1 \<Rightarrow> Resumes (pin_FinishControlledTransition (co_tid c) s1)
        | Unwinds e s1 \<Rightarrow> Unwinds e s1 | Stuck s1 \<Rightarrow> Stuck s1) = Resumes s'"
      using run by (auto simp: OnControlledTransition_def bind_eq_Some_conv)
    then obtain s1 where s1: "oct_loop as cs viol c None ots (s\<lparr> pm_status := BLOCKED \<rparr>) = Some (Resumes s1)"
      "s' = pin_FinishControlledTransition (co_tid c) s1"
      by (cases r) auto
    then show ?thesis
      using oct_loop_keeps [OF s1(1) assms] same_counts_trans Finish_counts by (fastforce simp: pin_FinishControlledTransition_def)
  qed
qed

text \<open>An abort of the controlled transition itself counts as never coming back.\<close>

definition unless_aborted :: "'a pin_op \<Rightarrow> 'a pin_op" where
  "unless_aborted oct s = (case oct s of None \<Rightarrow> Some (Stuck s) | Some r \<Rightarrow> Some r)"

lemma unless_aborted_total: "unless_aborted oct s \<noteq> None"
  by (simp add: unless_aborted_def split: option.splits)

lemma unless_aborted_step: "controlled_step t oct \<Longrightarrow> controlled_step t (unless_aborted oct)"
  unfolding controlled_step_def by (simp add: unless_aborted_def split: option.splits)

interpretation quiet_step: controlled_step t "OnControlledTransition opts as cs viol c (replicate n quiet)"
  for t opts as cs viol c n
  by (rule OnControlledTransition_keeps) (simp add: list_all_length quiet_keeps)

section \<open>A list of events\<close>

lemma depth_simps [simp]: "depth [] n = n" "depth (e # es) n = depth es (depth_step e n)" "depth (es @ es') n = depth es' (depth es n)"
  by (simp_all add: depth_def)

lemma entered_simps [simp]: "entered [] a = 0" "entered (es @ es') a = entered es a + entered es' a"
  by (simp_all add: entered_def)

lemma entered_Cons: "entered (e # es) a = entered [e] a + entered es a"
  by (simp add: entered_def)

lemma deliver_counts:
  assumes who: "co_tid co = t" "t \<noteq> MAIN_TID"
  shows "\<forall>oct \<in> set octs. controlled_step t oct \<Longrightarrow> \<forall>e \<in> set es. deliverable e \<Longrightarrow> counts t n k s \<Longrightarrow>
    (\<forall>s'. deliver c locs (Some co) octs es s = Some (Resumes s') \<longrightarrow> counts t (depth es n) (\<lambda>a. k a + entered es a) s') \<and>
    ((\<forall>oct \<in> set octs. \<forall>s. oct s \<noteq> None) \<longrightarrow> deliver c locs (Some co) octs es s \<noteq> None)"
proof (induction es arbitrary: octs n k s)
  case (Cons e es)
  show ?case
  proof (cases octs)
    case octs: (Cons oct octs')
    have oct: "controlled_step t oct" and e: "deliverable e" using Cons.prems octs by simp_all
    have one: "ends_with t oct (depth_step e n) (\<lambda>a. k a + entered [e] a) (CallPinMonitor c oct locs (Some co) e s)"
      using controlled_step.event_ends [OF oct Cons.prems(3) e] who by blast
    show ?thesis
    proof (cases "CallPinMonitor c oct locs (Some co) e s")
      case None
      then show ?thesis using one octs unfolding ends_with_def by auto
    next
      case (Some r)
      show ?thesis
      proof (cases r)
        case (Resumes s1)
        have "counts t (depth_step e n) (\<lambda>a. k a + entered [e] a) s1"
          using one Some Resumes unfolding ends_with_def by simp
        from Cons.IH [OF _ _ this, of octs'] Cons.prems(1,2) show ?thesis
          using Some Resumes octs by (simp add: entered_Cons [of e es] add.assoc)
      qed (simp_all add: Some octs)
    qed
  qed simp
qed simp

section \<open>The reports of nested code\<close>

text \<open>What a program is like that Pin sees: its routines and accesses have addresses, and the stubs of the
  procedure linkage table are no routines that return.\<close>

fun addressed :: "code list \<Rightarrow> bool" where
  "addressed [] \<longleftrightarrow> True"
| "addressed (Step i x # cs) \<longleftrightarrow> (in_write i \<longrightarrow> fst (ra_write x) \<noteq> 0) \<and> (in_read2 i \<longrightarrow> ra_read2 x \<noteq> 0) \<and>
     (in_read i \<longrightarrow> fst (ra_read x) \<noteq> 0) \<and> (in_call i \<longrightarrow> (if in_direct i then in_target i else ra_target x) \<noteq> 0) \<and> addressed cs"
| "addressed (CallRtn r x body i y # cs) \<longleftrightarrow> rt_addr r \<noteq> 0 \<and> rt_name r \<noteq> ''.plt'' \<and> addressed body \<and> addressed cs"
| "addressed (Region body # cs) \<longleftrightarrow> addressed body \<and> addressed cs"

lemmas event_fields = event_of.simps pin_event_def event_Clear_def

lemma event_kinds [simp]:
  "e_type (event_of tid x (Do_FuncCall d l g a)) = FuncCall" "e_type (event_of tid x (Do_FuncEnter l)) = FuncEnter"
  "e_type (event_of tid x (Do_FuncReturn l a)) = FuncReturn" "e_type (event_of tid x (Do_MemWrite l)) = MemWrite"
  "e_type (event_of tid x (Do_MemRead l)) = MemRead" "e_type (event_of tid x (Do_MemRead2 l)) = MemRead"
  "e_type (event_of tid x (Do_MemAccessBefore l)) = MemAccessBefore"
  by (simp_all add: event_fields Let_def)

lemma event_deliverable [simp]:
  "deliverable (event_of tid x (Do_FuncCall d l g a)) \<longleftrightarrow> a \<noteq> 0 \<and> (case g of Some b \<Rightarrow> b | None \<Rightarrow> ra_target x) \<noteq> 0"
  "deliverable (event_of tid x (Do_FuncEnter l)) \<longleftrightarrow> l \<noteq> 0" "deliverable (event_of tid x (Do_FuncReturn l a)) \<longleftrightarrow> a \<noteq> 0"
  "deliverable (event_of tid x (Do_MemWrite l)) \<longleftrightarrow> fst (ra_write x) \<noteq> 0"
  "deliverable (event_of tid x (Do_MemRead l)) \<longleftrightarrow> fst (ra_read x) \<noteq> 0"
  "deliverable (event_of tid x (Do_MemRead2 l)) \<longleftrightarrow> ra_read2 x \<noteq> 0" "deliverable (event_of tid x (Do_MemAccessBefore l))"
  by (simp_all add: deliverable_def event_fields kind_defs Let_def)

lemma memory_deliverable:
  assumes "addressed (Step i x # cs)" "e \<in> set (memory_report tid w i x)"
  shows "deliverable e \<and> e_type e \<in> {MemWrite, MemRead, MemAccessBefore}"
proof -
  have "e \<in> event_of tid x ` ((if in_write i then {Do_MemWrite (in_addr i)} else {}) \<union> (if in_read2 i then {Do_MemRead2 (in_addr i)} else {})
      \<union> (if in_read i then {Do_MemRead (in_addr i)} else {}) \<union> {Do_MemAccessBefore (in_addr i)})"
    using assms(2) by (auto simp: memory_report_def split: if_splits)
  then show ?thesis using assms(1) by (auto split: if_splits)
qed

lemma call_deliverable:
  assumes "addressed (Step i x # cs)" "rt_addr r \<noteq> 0" "e \<in> set (call_report tid t w r i x)"
  shows "deliverable e \<and> e_type e = FuncCall"
  using assms by (auto simp: call_report_def split: if_splits)

lemma report_deliverable: "addressed cs \<Longrightarrow> rt_addr r \<noteq> 0 \<Longrightarrow> \<forall>e \<in> set (report tid t w r cs). deliverable e"
proof (induction tid t w r cs rule: report.induct)
  case (2 tid t w r i x cs)
  then show ?case using memory_deliverable [OF 2(2)] call_deliverable [OF 2(2,3)] by auto
qed auto

lemma depth_other: "\<forall>e \<in> set es. e_type e \<noteq> FuncEnter \<and> e_type e \<noteq> FuncReturn \<Longrightarrow> depth es n = n"
  by (induction es arbitrary: n) (simp_all add: depth_step_def)

lemma depth_enter: "depth_step (event_of tid x (Do_FuncEnter a)) n = n(a := Suc (n a))"
  by (simp add: depth_step_def event_fields)

lemma depth_return: "depth_step (event_of tid x (Do_FuncReturn l a)) n = n(a := n a - 1)"
  by (simp add: depth_step_def event_fields kind_defs)

text \<open>Each reported entry has its reported return.\<close>

lemma report_depth: "addressed cs \<Longrightarrow> rt_addr r \<noteq> 0 \<Longrightarrow> depth (report tid t w r cs) n = n"
proof (induction tid t w r cs arbitrary: n rule: report.induct)
  case (2 tid t w r i x cs)
  have "e_type e \<noteq> FuncEnter \<and> e_type e \<noteq> FuncReturn" if "e \<in> set (memory_report tid w i x @ call_report tid t w r i x)" for e
    using that memory_deliverable [OF 2(2), of e] call_deliverable [OF 2(2,3), of e] by (auto simp: kind_defs)
  then have "depth (memory_report tid w i x @ call_report tid t w r i x) n = n" by (intro depth_other) blast
  then show ?case using 2 by auto
next
  case (3 tid t w r r' x body i y cs)
  then show ?case by (auto simp: depth_enter depth_return)
qed simp_all

section \<open>A thread in a script\<close>

text \<open>The thread takes the transition that the script has offered when it enters the routine; then the script
  ends the path, and the thread is let through.\<close>

definition sample_rounds :: "others list list" where
  "sample_rounds = [[quiet], [], [quiet\<lparr> ot_before := (\<lambda>w. w\<lparr> w_mgr := (w_mgr w)\<lparr> atomic_ref := Some ENDNODE \<rparr> \<rparr>) \<rparr>], [quiet]]"

lemma sample_rounds_keep: "\<forall>ots \<in> set sample_rounds. list_all (others_keep t) ots"
  by (simp add: sample_rounds_def others_keep_def)

definition sample_live :: live where
  "sample_live = script_live (KRunThrough (Some by_tid) None) AuxState_Init"

lemma sample_counts: "counts t (\<lambda>_. 0) (\<lambda>_. 0) sample_live"
  using AuxState_Init_ok
  by (simp add: counts_def counters_ok_def env_ok_def sample_live_def script_live_def get1_pin_def aux1_get_def AuxState_Init_def)

text \<open>The counter that a list of delivered events leaves, or -1.\<close>

definition counter_after :: "aux1name \<Rightarrow> addr \<Rightarrow> tid \<Rightarrow> 'a pin_state_scheme ctrl option \<Rightarrow> int" where
  "counter_after v a t r = (case r of Some (Resumes s) \<Rightarrow> (case get1_pin v a t s of Some x \<Rightarrow> x | None \<Rightarrow> -1) | _ \<Rightarrow> -1)"

definition sample_events :: "event list" where
  "sample_events = report 1 sample_tool (OnInstruction 1 sample_tool) (sample_routine 32) sample_code"

definition sample_delivery :: "nat \<Rightarrow> live ctrl option" where
  "sample_delivery i = deliver default_options (\<lambda>_. here None None 0) (Some (Co 1 1))
     (map (OnControlledTransition default_options [] [] '''' (Co 1 1)) sample_rounds)
     (take i sample_events) sample_live"

lemma sample_nesting: "map (\<lambda>i. counter_after InFunc 16 1 (sample_delivery i)) [0, 1, 2, 3, 4] = [0, 1, 1, 1, 0]"
  by code_simp

lemma sample_entered: "entered sample_events = (\<lambda>a. if a = 16 then 1 else 0)"
  by (simp add: sample_events_def pin_eval entered_def kind_defs fun_eq_iff)

lemma sample_events_all: "take 4 sample_events = sample_events"
  by (simp add: sample_events_def pin_eval)

section \<open>Properties\<close>

text \<open>C24: The events that the pin tool reports for nested code of a thread, given one by
  one to the monitor with the scenario's controlled transition after each, make no assertion of
  the callbacks fail; and when the thread gets through, the nesting count InFunc of every function
  is as before and NumInFunc has grown by the number of its reported entries, whatever script,
  assertions and constraints the scenario has, if other threads leave the counters of this one
  alone.\<close>

theorem run_keeps_nesting:
  assumes "pt_stack t tid = Some st" "pt_inst t tid = (st \<noteq> [])" "pt_monitor t" "\<not> po_InstrAfterMemoryAccess (pt_options t)"
    "routine_ok t r" "code_ok t cs" "rt_addr r \<noteq> 0" "addressed cs"
    and "co_tid co \<noteq> MAIN_TID" "\<forall>ots \<in> set rounds. list_all (others_keep (co_tid co)) ots" "counts (co_tid co) n k s"
    and "es = report tid t (OnInstruction tid t) r cs"
  shows "(\<exists>L. run_code describe rtn_at tid r cs t = Some (moved L es t)) \<and>
    deliver c locs (Some co) (map (\<lambda>ots. unless_aborted (OnControlledTransition c as constraints viol co ots)) rounds) es s \<noteq> None \<and>
    (\<forall>s'. deliver c locs (Some co) (map (OnControlledTransition c as constraints viol co) rounds) es s = Some (Resumes s') \<longrightarrow>
       counts (co_tid co) n (\<lambda>a. k a + entered es a) s')"
proof -
  have step: "\<forall>oct \<in> set (map (OnControlledTransition c as constraints viol co) rounds). controlled_step (co_tid co) oct"
    "\<forall>oct \<in> set (map (\<lambda>ots. unless_aborted (OnControlledTransition c as constraints viol co ots)) rounds). controlled_step (co_tid co) oct"
    using assms(10) by (auto intro!: OnControlledTransition_keeps unless_aborted_step)
  have es: "\<forall>e \<in> set es. deliverable e" "depth es n = n"
    using report_deliverable [OF assms(8,7)] report_depth [OF assms(8,7)] assms(12) by simp_all
  have run: "\<exists>L. run_code describe rtn_at tid r cs t = Some (moved L es t)"
    using reportsD [OF code_reports assms(1-6)] assms(12) by simp
  note go = deliver_counts [OF refl assms(9) step(1) es(1) assms(11), of c locs, unfolded es(2)]
    and live = deliver_counts [OF refl assms(9) step(2) es(1) assms(11), of c locs]
  have "\<forall>oct \<in> set (map (\<lambda>ots. unless_aborted (OnControlledTransition c as constraints viol co ots)) rounds). \<forall>s. oct s \<noteq> None"
    by (auto simp: unless_aborted_total simp del: not_None_eq)
  then show ?thesis using run conjunct1 [OF go] mp [OF conjunct2 [OF live]] by blast
qed

theorem run_keeps_nesting_witness:
  "counter_after InFunc 16 1 (sample_delivery 1) = 1 \<and>
   (\<exists>s. sample_delivery 4 = Some (Resumes s) \<and> counts 1 (\<lambda>_. 0) (\<lambda>a. if a = 16 then 1 else 0) s)"
proof -
  let ?go = "deliver default_options (\<lambda>_. here None None 0) (Some (Co 1 1))
      (map (OnControlledTransition default_options [] [] '''' (Co 1 1)) sample_rounds) sample_events sample_live"
  have "(\<exists>L. run_code (\<lambda>_. (0, 0, '''')) (\<lambda>_. None) 1 (sample_routine 32) sample_code sample_tool = Some (moved L sample_events sample_tool)) \<and>
    deliver default_options (\<lambda>_. here None None 0) (Some (Co 1 1))
      (map (\<lambda>ots. unless_aborted (OnControlledTransition default_options [] [] '''' (Co 1 1) ots)) sample_rounds) sample_events sample_live \<noteq> None \<and>
    (\<forall>s'. ?go = Some (Resumes s') \<longrightarrow> counts (co_tid (Co 1 1)) (\<lambda>_. 0) (\<lambda>a. 0 + entered sample_events a) s')"
    by (rule run_keeps_nesting [where st = "[]", OF _ _ _ _ _ _ _ _ _ sample_rounds_keep sample_counts sample_events_def])
      (simp_all add: pin_eval MAIN_TID_def)
  then have c: "\<forall>s'. ?go = Some (Resumes s') \<longrightarrow> counts 1 (\<lambda>_. 0) (\<lambda>a. if a = 16 then 1 else 0) s'"
    unfolding sample_entered add_0 co.sel by blast
  have "counter_after InFunc 16 1 (sample_delivery 4) = 0" using sample_nesting by simp
  then obtain s where "sample_delivery 4 = Some (Resumes s)"
    by (cases "sample_delivery 4") (auto simp: counter_after_def split: ctrl.splits)
  then show ?thesis using c sample_nesting unfolding sample_delivery_def sample_events_all by auto
qed

end
