(* ===== verification/Trace_Files.thy ===== *)
theory Trace_Files
  imports Scenario_Run Config_Options Dot_Graphs Shared_Access
begin

text \<open>
  The stages of one execution with the fixture of a scenario, and the files that a scenario writes
  (scenario.cpp, dsl.cpp): the trace with a line for each transition taken, the drawing of the execution tree
  and the schedule.  That \<open>fclose\<close> succeeds is assumed; a file that cannot be opened aborts.
\<close>

section \<open>The stages of an execution\<close>

text \<open>\<open>SetUp\<close> and \<open>TearDown\<close> are virtual: a fixture that throws ends the process.\<close>

type_synonym fixture = test_case

definition no_throw :: "'a outcome \<Rightarrow> bool" where
  "no_throw r = (case r of Throws e \<Rightarrow> False | _ \<Rightarrow> True)"

definition no_fixture :: fixture where
  "no_fixture m = Some (Returns (), m)"

definition run_fixture :: "TestStatus \<Rightarrow> fixture \<Rightarrow> search \<Rightarrow> (unit outcome \<times> search) option" where
  "run_fixture st f x = do {
     (r, m) \<leftarrow> f (x_mgr x);
     safe_assert (no_throw r);
     Some (r, x\<lparr> x_mgr := m, x_status := st \<rparr>) }"

definition RunSetUp :: "fixture \<Rightarrow> search \<Rightarrow> (unit outcome \<times> search) option" where
  "RunSetUp f x = run_fixture TEST_SETUP f x"

definition RunTearDown :: "fixture \<Rightarrow> search \<Rightarrow> (unit outcome \<times> search) option" where
  "RunTearDown f x = run_fixture TEST_TEARDOWN f x"

definition RunUncontrolled_stage :: "int \<Rightarrow> co \<Rightarrow> int list \<Rightarrow> search \<Rightarrow> (unit outcome \<times> search) option" where
  "RunUncontrolled_stage max_timeouts c waits x = do {
     (r, m) \<leftarrow> JoinAllThreads max_timeouts c waits (x_mgr x);
     safe_assert (no_throw r);
     Some (r, x\<lparr> x_mgr := m, x_status := TEST_UNCONTROLLED \<rparr>) }"

definition RunTestCase_stage :: "run_params \<Rightarrow> test_case \<Rightarrow> search \<Rightarrow> (unit outcome \<times> search) option" where
  "RunTestCase_stage rp testcase x = do {
     (r, vs, m) \<leftarrow> RunTestCase rp testcase (x_vars x) (x_mgr x);
     safe_assert (no_throw r);
     Some (r, x\<lparr> x_mgr := m, x_vars := vs, x_status := TEST_CONTROLLED \<rparr>) }"

definition CollectExceptions :: "search \<Rightarrow> conc" where
  "CollectExceptions x = end_exception (x_mgr x)"

text \<open>A stage that waits for ever keeps the execution in it.\<close>

fun stages :: "(search \<Rightarrow> (unit outcome \<times> search) option) list \<Rightarrow> search \<Rightarrow> (unit outcome \<times> search) option" where
  "stages [] x = Some (Returns (), x)"
| "stages (f # fs) x = do {
     (r, x1) \<leftarrow> f x;
     (if r = Blocked then Some (Blocked, x1) else stages fs x1) }"

definition RunOnce_staged ::
  "fixture \<Rightarrow> fixture \<Rightarrow> run_params \<Rightarrow> int \<Rightarrow> int list \<Rightarrow> test_case \<Rightarrow> search \<Rightarrow> (conc outcome \<times> search) option" where
  "RunOnce_staged setup teardown rp max_timeouts waits testcase x = do {
     x1 \<leftarrow> Scenario_Start (rp_cfg rp) x;
     (r, x2) \<leftarrow> stages [RunSetUp setup, RunTestCase_stage rp testcase,
       RunUncontrolled_stage max_timeouts (rp_main rp) waits, RunTearDown teardown] x1;
     (if r = Blocked then Some (Blocked, x2)
      else let x3 = x2\<lparr> x_status := TEST_ENDED \<rparr> in Some (Returns (CollectExceptions x3), x3)) }"

text \<open>A fixture that does nothing can be left out.\<close>

lemma RunOnce_plain_fixture: "RunOnce_staged no_fixture no_fixture rp max_timeouts waits testcase x = RunOnce rp max_timeouts waits testcase x"
proof (cases "Scenario_Start (rp_cfg rp) x")
  case (Some x1)
  show ?thesis
  proof (cases "RunTestCase rp testcase (x_vars x1) (x_mgr x1)")
    case None
    then show ?thesis
      using Some by (simp add: RunOnce_staged_def RunOnce_def RunSetUp_def run_fixture_def no_fixture_def no_throw_def safe_assert_def RunTestCase_stage_def)
  next
    case c: (Some p)
    obtain r vs m where p: "p = (r, vs, m)" by (cases p)
    note one = Some c p RunOnce_staged_def RunOnce_def RunSetUp_def run_fixture_def no_fixture_def no_throw_def safe_assert_def RunTestCase_stage_def
    show ?thesis
    proof (cases r)
      case (Returns u)
      show ?thesis
      proof (cases "JoinAllThreads max_timeouts (rp_main rp) waits m")
        case None
        then show ?thesis using Returns by (simp add: one RunUncontrolled_stage_def)
      next
        case j: (Some q)
        obtain r2 m2 where q: "q = (r2, m2)" by (cases q)
        show ?thesis
          by (cases r2) (simp_all add: one Returns j q RunUncontrolled_stage_def RunTearDown_def CollectExceptions_def Let_def)
      qed
    qed (simp_all add: one)
  qed
qed (simp add: RunOnce_staged_def RunOnce_def)

text \<open>An exception in SetUp ends the process, before the test starts.\<close>

lemma SetUp_throws: "Scenario_Start (rp_cfg rp) x = Some x1 \<Longrightarrow> setup (x_mgr x1) = Some (Throws e, m)
    \<Longrightarrow> RunOnce_staged setup teardown rp max_timeouts waits testcase x = None"
  by (simp add: RunOnce_staged_def RunSetUp_def run_fixture_def no_throw_def safe_assert_def)

text \<open>The two ways to call the search set the type of the exploration first.\<close>

definition ExploreExists ::
  "run_params \<Rightarrow> int \<Rightarrow> int list \<Rightarrow> test_case \<Rightarrow> search \<Rightarrow> (explore_result outcome \<times> search) option" where
  "ExploreExists rp max_timeouts waits testcase x = Explore rp EXISTS max_timeouts waits testcase x"

definition ExploreForall ::
  "run_params \<Rightarrow> int \<Rightarrow> int list \<Rightarrow> test_case \<Rightarrow> search \<Rightarrow> (explore_result outcome \<times> search) option" where
  "ExploreForall rp max_timeouts waits testcase x = Explore rp FORALL max_timeouts waits testcase x"

section \<open>The files\<close>

record test_files =
  tf_fs :: file_system
  tf_trace :: "stream option"
  tf_dot :: "string \<Rightarrow> string option"

definition text_bytes :: "string \<Rightarrow> byte list" where
  "text_bytes s = map (\<lambda>ch. of_nat (of_char ch)) s"

text \<open>The trace of the last execution stays: \<open>fopen\<close> with "w" empties the file at each start.\<close>

definition close_trace :: "options \<Rightarrow> test_files \<Rightarrow> test_files" where
  "close_trace c tf = (if SaveExecutionTraceToFile c then tf\<lparr> tf_trace := None \<rparr> else tf)"

definition open_trace :: "options \<Rightarrow> string \<Rightarrow> test_files \<Rightarrow> test_files option" where
  "open_trace c home tf = (if SaveExecutionTraceToFile c
     then (let tf1 = close_trace c tf; name = InConcurritWorkDir home ''trace.txt'' in do {
       f \<leftarrow> fopen_w name (tf_fs tf1);
       Some (tf1\<lparr> tf_trace := Some f, tf_fs := (tf_fs tf1)\<lparr> fs_files := (fs_files (tf_fs tf1))(name \<mapsto> f_data f) \<rparr> \<rparr>) })
     else Some tf)"

text \<open>The format \<open>%2d\<close>, and the line of a transition that a thread has taken; the strings are C strings, without a NUL.\<close>

definition pad2 :: "int \<Rightarrow> string" where
  "pad2 i = (let s = to_string i in replicate (2 - length s) CHR '' '' @ s)"

definition trace_line :: "tid \<Rightarrow> src_loc option \<Rightarrow> string \<Rightarrow> string \<Rightarrow> string" where
  "trace_line t loc info message = ''TID:'' @ pad2 t @ '': ['' @ SourceLocation_short loc @ ''] -- ['' @ info @ ''] -- [''
     @ message @ '']'' @ [CHR 0x0A]"

definition OnTaken_trace :: "options \<Rightarrow> string \<Rightarrow> tid \<Rightarrow> src_loc option \<Rightarrow> string \<Rightarrow> string \<Rightarrow> test_files \<Rightarrow> test_files option" where
  "OnTaken_trace c home t loc info message tf = (if SaveExecutionTraceToFile c
     then do {
       f \<leftarrow> safe_notnull (tf_trace tf);
       safe_assert (length info < 256);
       let f1 = snd (fwrite (text_bytes (trace_line t loc info message)) f);
       Some (tf\<lparr> tf_trace := Some f1,
         tf_fs := (tf_fs tf)\<lparr> fs_files := (fs_files (tf_fs tf))(InConcurritWorkDir home ''trace.txt'' \<mapsto> f_data f1) \<rparr> \<rparr>) }
     else Some tf)"

text \<open>What \<open>Finish\<close> writes: the drawing, and the schedule of the current node stack.\<close>

definition SaveSearchInfo :: "options \<Rightarrow> string \<Rightarrow> nat \<Rightarrow> 'a tree_state_scheme \<Rightarrow> tvstore \<Rightarrow> string option \<Rightarrow> child_loc list
    \<Rightarrow> test_files \<Rightarrow> test_files option" where
  "SaveSearchInfo c home fuel t vs w path tf = do {
     dot \<leftarrow> (if SaveDotGraphToFile c \<noteq> None then SaveDotGraph fuel t vs w (SaveDotGraphToFile c) (tf_dot tf) else Some (tf_dot tf));
     let tf1 = close_trace c (tf\<lparr> tf_dot := dot \<rparr>);
     fs \<leftarrow> save_schedule t vs path (InConcurritWorkDir home ''schedule.txt'') (tf_fs tf1);
     Some (tf1\<lparr> tf_fs := fs \<rparr>) }"

section \<open>What a reader of the trace finds\<close>

type_synonym taken = "tid \<times> src_loc option \<times> string \<times> string"

fun trace_all :: "options \<Rightarrow> string \<Rightarrow> taken list \<Rightarrow> test_files \<Rightarrow> test_files option" where
  "trace_all c home [] tf = Some tf"
| "trace_all c home ((t, loc, info, message) # xs) tf = do {
     tf1 \<leftarrow> OnTaken_trace c home t loc info message tf;
     trace_all c home xs tf1 }"

definition lines_of :: "taken list \<Rightarrow> string" where
  "lines_of xs = concat (map (\<lambda>(t, loc, info, message). trace_line t loc info message) xs)"

lemma text_bytes_append [simp]: "text_bytes (s @ u) = text_bytes s @ text_bytes u" "text_bytes [] = []"
  by (simp_all add: text_bytes_def)

lemma trace_all_appends:
  assumes "SaveExecutionTraceToFile c" "tf_trace tf = Some f" "at_end f" "\<forall>(t, loc, info, message) \<in> set xs. length info < 256"
    and "fs_files (tf_fs tf) (InConcurritWorkDir home ''trace.txt'') = Some (f_data f)"
  shows "\<exists>tf'. trace_all c home xs tf = Some tf' \<and>
    fs_files (tf_fs tf') (InConcurritWorkDir home ''trace.txt'') = Some (f_data f @ text_bytes (lines_of xs))"
  using assms(2-5)
proof (induction xs arbitrary: tf f)
  case Nil
  then show ?case by (simp add: lines_of_def)
next
  case (Cons x xs)
  obtain t loc info message where x: "x = (t, loc, info, message)" by (cases x)
  let ?l = "text_bytes (trace_line t loc info message)" and ?name = "InConcurritWorkDir home ''trace.txt''"
  have w: "snd (fwrite ?l f) = appended f ?l" using Cons.prems(2) by (simp add: fwrite_def at_end_def appended_def)
  let ?tf = "tf\<lparr> tf_trace := Some (appended f ?l),
    tf_fs := (tf_fs tf)\<lparr> fs_files := (fs_files (tf_fs tf))(?name \<mapsto> f_data f @ ?l) \<rparr> \<rparr>"
  have step: "OnTaken_trace c home t loc info message tf = Some ?tf"
    using Cons.prems(1,3) assms(1) x w by (simp add: OnTaken_trace_def safe_notnull_def Let_def)
  have "\<exists>tf'. trace_all c home xs ?tf = Some tf' \<and> fs_files (tf_fs tf') ?name = Some (f_data (appended f ?l) @ text_bytes (lines_of xs))"
    by (rule Cons.IH) (use Cons.prems in simp_all)
  then show ?case using step by (simp add: x lines_of_def)
qed

text \<open>After an execution the file holds one line for each transition taken in it, in their order, and
  nothing of the executions before.\<close>

lemma trace_of_execution:
  assumes "SaveExecutionTraceToFile c" "fs_writable (tf_fs tf) (InConcurritWorkDir home ''trace.txt'')"
    and "\<forall>(t, loc, info, message) \<in> set xs. length info < 256"
  shows "\<exists>tf1 tf2. open_trace c home tf = Some tf1 \<and> trace_all c home xs tf1 = Some tf2 \<and>
    fs_files (tf_fs tf2) (InConcurritWorkDir home ''trace.txt'') = Some (text_bytes (lines_of xs))"
proof -
  let ?name = "InConcurritWorkDir home ''trace.txt''" and ?f = "\<lparr> f_data = [], f_pos = 0, f_eof = False, f_error = False \<rparr>"
  let ?tf = "tf\<lparr> tf_trace := Some ?f, tf_fs := (tf_fs tf)\<lparr> fs_files := (fs_files (tf_fs tf))(?name \<mapsto> []) \<rparr> \<rparr>"
  have "open_trace c home tf = Some ?tf" using assms(1,2) by (simp add: open_trace_def close_trace_def fopen_w_def Let_def)
  moreover have "\<exists>tf'. trace_all c home xs ?tf = Some tf' \<and> fs_files (tf_fs tf') ?name = Some (f_data ?f @ text_bytes (lines_of xs))"
    by (rule trace_all_appends) (use assms in \<open>simp_all add: at_end_def\<close>)
  ultimately show ?thesis by auto
qed

text \<open>The text of the callback that a line shows fits: \<open>trace_info\<close> cuts it to 255 characters.  But Finish closes the
  file before it stops the threads: one that takes a transition after that aborts.\<close>

lemma taken_after_finish:
  assumes "SaveExecutionTraceToFile c" "SaveSearchInfo c home fuel t vs w path tf = Some tf'"
  shows "OnTaken_trace c home u loc info message tf' = None"
proof -
  have "tf_trace tf' = None" using assms by (auto simp: SaveSearchInfo_def close_trace_def bind_eq_Some_conv Let_def)
  then show ?thesis using assms(1) by (simp add: OnTaken_trace_def safe_notnull_def)
qed

end
