(* ===== verification/Spec2Isabelle.thy ===== *)
theory Spec2Isabelle
  imports Util_Text Shared_Access Thread_Vars Aux_Vars Channels Thread_Life Thread_Groups Stat_Counters
    Event_Handoff Pin_Monitor Dot_Graphs Suites Ref_Protocol Tree_Paths
    Callback_Types Remote_Runs Program_Threads End_Waiters Pin_Delivery Trace_Files
begin

text \<open>
  Concurrit: controlled execution of concurrent programs by test scripts.

  A test script drives the threads of a program under test.  The script runs in the main thread
  and places nodes (choices, thread selections, transitions) in an execution tree; a thread of the
  program stops at its instrumented events, looks at the node that waits to be consumed, evaluates
  the predicate of the node on the auxiliary state, and goes on or waits.  When a path ends, the
  search marks what is covered, backtracks, and runs the program again on the next path.

  The theories, with the files under src/ that they model:

  \<^item> Concurrit_Prelude, Util_Text: assertions (a failed one is the value None, a run that stops),
    thread ids and addresses, strings, tokenizing, argument vectors, complete reads and writes
    (include/common.h, include/util.h, src/util.cpp, include/iterator.h).
  \<^item> Shared_Access, Exceptions: accesses, source locations, the exception classes and the chain of
    a ConcurritException (sharedaccess, exception).
  \<^item> Thread_Vars, Aux_Vars, Trans_Pred: thread variables and their scopes, the auxiliary variables
    by thread and by key, transition predicates, their evaluation and the builders of include/api.h
    (threadvar.h, transpred).  \<open>EvalState\<close> is proved against a denotation \<open>tp_sem\<close>.
  \<^item> Sync_Prims, Thread_Life, Channels: mutex, read/write lock, scope guards, condition variable,
    semaphore, threads, channels and the locked map (thread, channel.h, cmap.h).  The contracts of
    the scope guards and of the map are the locales \<open>scope_lock\<close> and \<open>locked_map\<close>; the mutex is
    also a step relation \<open>mu_trans\<close> in which the threads interleave inside Lock and Unlock.
  \<^item> Coroutines, Thread_Groups: the thread of a coroutine and its handshake with main over a channel
    and a semaphore, as a step relation \<open>hs_trans\<close>; the group with its order of creation, its
    restart and its scope guards (coroutine, group).
  \<^item> Program_Threads, End_Waiters: the threads of a program under test that create, join and end each
    other through the interposed pthread functions (interpos, scenario) and their lock, as interleaved steps
    with the invariant \<open>program_inv\<close>; and several waiters on the end semaphore of one coroutine (coroutine).
  \<^item> Event_Wire, Event_Pipe, Event_Handoff: event buffers and their bytes on a pipe, named pipes,
    shadow threads and the worker of a pipe, and the hand-over of one event by two semaphores, step
    by step (interface.h, ipc).
  \<^item> Pin_Monitor: the callbacks of the instrumentation on the auxiliary state, and the handlers of the
    calls in an instrumented program (pinmonitor, instrument, manual).
  \<^item> Controlled_Events: \<open>Scenario::OnControlledTransition\<close> with its loop as the operation in which the
    callbacks end (scenario), and its meeting with the script: RUN_THROUGH of the script and the event of
    a thread, each with its own part of the code.  Pred_Types, Callback_Types: typed predicates, and that
    callbacks with their controlled transitions keep the auxiliary state well formed; the locale
    \<open>outer_state\<close> holds what a callback never touches, and its interpretation is the execution tree.
  \<^item> Remote_Client, Remote_Server, Remote_Protocol, Remote_Runs: the remote mode (remote/client.cpp,
    server.cpp, testcontroller.cpp) as one system: client threads, pipe workers, shadow threads, main0 and
    the test controller, each with a program counter, interleaved by \<open>remote_step\<close>.  Remote_Protocol has the
    invariant \<open>remote_inv\<close> of the mailboxes, pipes, locks and counts; Remote_Runs what follows for runs.
  \<^item> Exec_Tree, Tree_Manager: nodes on a heap with child arrays, coverage and deletion; the node
    stack, the atomic reference, extending and ending a path, backtracking (dsl).  Ref_Protocol: the
    atomic reference as a step relation in which threads interleave inside AcquireRef and ReleaseRef.
    Tree_Paths: the climb of ComputePath and the destructor of a node on a represented tree.
  \<^item> Scenario_DSL, Scenario_Run: the script operations, the controlled transition of a thread,
    RunTestCase, RunOnce and Explore (scenario).
  \<^item> Tree_Rep, Search_Plan, Search_Heap, Search_Path, Search_Coverage, Search_Backtrack, Search_Steps,
    Search_Correct: the abstract tree that a heap represents (\<open>rep\<close>), each operation of the manager on
    it, and the proof that the search over a script of choices and conditionals runs every leaf
    exactly once.
  \<^item> Serialization, Dot_Graphs: the serializer over a stdio stream, the schedule saved for a node
    stack, the drawing of the execution tree (serialize, dot, dsl).  The locale \<open>codec\<close> is the contract of
    a type with a fixed size in a file.
  \<^item> Trace_Files: the stages of an execution with the fixture of a scenario, and the files that it writes: the
    trace of the transitions taken, the drawing and the schedule (scenario, dsl).
  \<^item> Suites: results, their texts, and the suite over the modelled searches (result, suite).
  \<^item> Pin_Tool, Pin_Instrument: the tool that runs inside Pin (pintool/instrumenter.cpp): files of functions
    and images, filters, the call stack of each thread, the inserted analysis calls and their events.  The
    run of a thread is a tree of calls and returns (\<open>code\<close>), and \<open>report\<close> is the specification of its events.
    Pin_Delivery gives these events to the callbacks of Pin_Monitor with the controlled transition of the
    scenario; the locale \<open>controlled_step\<close> is what the transition promises to the callbacks.
  \<^item> Stat_Counters, Config_Options: timers, counters and averages; the options, the command line
    parser over a model of getopt, start-up and the test library (statistics, config, concurrit).

  How the code is modelled.  An operation is a function on the state of its component in the option
  monad; None is a run that stops in a failed assertion, in \<open>safe_fail\<close>, or in the use of a
  NULL or deleted object (the library is built with SAFE_ASSERT).  A C++ exception, a thread that
  waits forever and a return are the three values of \<open>outcome\<close> under Some.  What other threads do while
  an operation waits is an argument, the list of their changes, so that a property holds for every
  interference; the protocols in which the interleaving itself is at stake (mutex, handshake,
  hand-over, atomic reference, remote mode, program threads) are inductive step relations with reachable states, and their properties are invariants
  by rule induction.  Loops that need not end are \<open>partial_function (option)\<close>; for the search, that
  it ends is part of its theorem.  UpdateDotGraph has fuel, for which the height of the tree is enough.

  Arguments of the model, for what is not in the repository or belongs to the environment: the
  random generator, the clock, the system calls (read, write, stat, mkfifo, clock and wait results),
  the dynamic loader, the API of Pin, the program under test with its main function, the script as a function on
  the manager, the event handlers of a pipe, and in Pin_Monitor the controlled transition in which a
  callback ends, which Controlled_Events provides.  In the remote mode the call that a shadow thread makes on
  the library is one step that records it; a run has fewer than 2 ^ 31 client threads (\<open>max_threads\<close>).

  What the lemmas show, in groups: round trips (events over a pipe, schedules, strings, scope guards,
  group guards), invariants of the interleaved protocols, the refinement of predicate evaluation by
  its denotation, the exhaustive search, bounds of the time arithmetic, and for the places where the
  code does not do what it means to do, theorems that state what it does.

  Not modelled, and why: remote/loader.cpp only loads a
  library; bench/ holds the programs under test; printed messages and logging have no effect on the
  state; readings of a timer as double; destructors that only free memory; the table printed by
  Statistics::ToString; Scenario::LoadScheduleFromFile, which loads into a class that has no operations.
\<close>

end
